(* ===== verification/Prelude.thy ===== *)
theory Prelude
  imports Main "HOL-Library.Word" "HOL-Library.Sublist" "HOL-Library.List_Lexorder"
begin

unbundle bit_operations_syntax

text \<open>
  Shared material of the development.

  \<^item> Names for the machine types the Rust code uses: bytes, byte strings, the result of a
    fallible operation (with a panic and a call that never returns as further outcomes) and the plumbing of the
    \<^verbatim>\<open>?\<close> operator and of \<^verbatim>\<open>map_err\<close>, \<^verbatim>\<open>ok_or_else\<close>.
  \<^item> Big-endian byte conversions (\<^verbatim>\<open>to_be_bytes\<close>, \<^verbatim>\<open>from_be_bytes\<close>) at every width.
  \<^item> Two locales that state what an encoder/decoder pair promises, with the facts every
    client needs (injectivity, unique decoding of sequences, exactness of prefix scans).
\<close>

section \<open>Collections of facts\<close>

named_theorems result_simps \<open>how results propagate through the sequencing operators\<close>
named_theorems bytes_simps \<open>lengths and inverses of byte-level encodings\<close>

section \<open>Machine types and results\<close>

type_synonym byte = "8 word"
type_synonym bytes = "byte list"
type_synonym i16 = "16 word"
type_synonym u16 = "16 word"
type_synonym i32 = "32 word"
type_synonym i64 = "64 word"
type_synonym u64 = "64 word"

text \<open>
  \<open>Ok\<close> and \<open>Err\<close> are the constructors of Rust's \<^verbatim>\<open>Result\<close>. A call may also not return to its
  caller at all: \<open>Panic\<close> is the outcome of a thread that panics (an index out of range, an
  \<^verbatim>\<open>unwrap\<close> of \<^verbatim>\<open>None\<close>), and \<open>Hang\<close> that of a thread in a loop that never ends. Either way
  nothing after the call is done.
\<close>

datatype halt = Panicked | Diverged

datatype ('e, 'a) result = Ok 'a | Err 'e | Halt halt

abbreviation Panic :: "('e, 'a) result" where
  "Panic \<equiv> Halt Panicked"

abbreviation Hang :: "('e, 'a) result" where
  "Hang \<equiv> Halt Diverged"

type_synonym 'a anyhow = "(string, 'a) result"

fun rbind :: "('e, 'a) result \<Rightarrow> ('a \<Rightarrow> ('e, 'b) result) \<Rightarrow> ('e, 'b) result" where
  "rbind (Ok x) f = f x"
| "rbind (Err e) f = Err e"
| "rbind (Halt h) f = Halt h"

fun map_err :: "('e \<Rightarrow> 'f) \<Rightarrow> ('e, 'a) result \<Rightarrow> ('f, 'a) result" where
  "map_err g (Ok x) = Ok x"
| "map_err g (Err e) = Err (g e)"
| "map_err g (Halt h) = Halt h"

fun ok_or :: "'e \<Rightarrow> 'a option \<Rightarrow> ('e, 'a) result" where
  "ok_or e (Some x) = Ok x"
| "ok_or e None = Err e"

fun unwrap :: "'a option \<Rightarrow> ('e, 'a) result" where
  "unwrap (Some x) = Ok x"
| "unwrap None = Panic"

text \<open>Collecting a loop that stops at the first error or panic.\<close>

fun rmap :: "('a \<Rightarrow> ('e, 'b) result) \<Rightarrow> 'a list \<Rightarrow> ('e, 'b list) result" where
  "rmap f [] = Ok []"
| "rmap f (x # xs) = rbind (f x) (\<lambda>y. rbind (rmap f xs) (\<lambda>ys. Ok (y # ys)))"

lemma rbind_eq_Ok [result_simps]: "rbind m f = Ok y \<longleftrightarrow> (\<exists>x. m = Ok x \<and> f x = Ok y)"
  by (cases m) auto

lemma rbind_eq_Halt [result_simps]:
  "rbind m f = Halt h \<longleftrightarrow> m = Halt h \<or> (\<exists>x. m = Ok x \<and> f x = Halt h)"
  by (cases m) auto

lemma rbind_eq_Err [result_simps]:
  "rbind m f = Err e \<longleftrightarrow> m = Err e \<or> (\<exists>x. m = Ok x \<and> f x = Err e)"
  by (cases m) auto

lemma map_err_eq_Ok [result_simps]: "map_err g m = Ok x \<longleftrightarrow> m = Ok x"
  by (cases m) auto

lemma map_err_eq_Halt [result_simps]: "map_err g m = Halt h \<longleftrightarrow> m = Halt h"
  by (cases m) auto

lemma ok_or_eq_Ok [result_simps]: "ok_or e m = Ok x \<longleftrightarrow> m = Some x"
  by (cases m) auto

lemma ok_or_not_Halt [simp]: "ok_or e m \<noteq> Halt h"
  by (cases m) auto

lemma unwrap_eq_Ok [result_simps]: "unwrap m = Ok x \<longleftrightarrow> m = Some x"
  by (cases m) auto

lemma unwrap_eq_Halt [result_simps]: "unwrap m = Halt h \<longleftrightarrow> m = None \<and> h = Panicked"
  by (cases m) auto

lemma rmap_Ok_iff: "rmap f xs = Ok ys \<longleftrightarrow> list_all2 (\<lambda>x y. f x = Ok y) xs ys"
  by (induction xs arbitrary: ys) (auto simp: result_simps list_all2_Cons1)

lemma rmap_Ok_length: "rmap f xs = Ok ys \<Longrightarrow> length ys = length xs"
  by (auto simp: rmap_Ok_iff list_all2_lengthD)

lemma rmap_map_Ok: "(\<And>x. x \<in> set xs \<Longrightarrow> f (g x) = Ok (h x)) \<Longrightarrow> rmap f (map g xs) = Ok (map h xs)"
  by (induction xs) auto

lemma rmap_not_Halt: "(\<And>x. x \<in> set xs \<Longrightarrow> f x \<noteq> Halt h) \<Longrightarrow> rmap f xs \<noteq> Halt h"
  by (induction xs) (auto simp: result_simps)

text \<open>
  Stateful operations take the state and return it updated together with their result;
  \<open>and_then\<close> is the sequencing of such calls with the \<^verbatim>\<open>?\<close> operator: the state changes made before
  an error or a panic stay.
\<close>

fun and_then ::
  "'s \<times> ('e, 'a) result \<Rightarrow> ('s \<Rightarrow> 'a \<Rightarrow> 's \<times> ('e, 'b) result) \<Rightarrow> 's \<times> ('e, 'b) result" where
  "and_then (s, Ok x) f = f s x"
| "and_then (s, Err e) f = (s, Err e)"
| "and_then (s, Halt h) f = (s, Halt h)"

definition with_err :: "('e \<Rightarrow> 'f) \<Rightarrow> 's \<times> ('e, 'a) result \<Rightarrow> 's \<times> ('f, 'a) result" where
  "with_err g m = (fst m, map_err g (snd m))"

text \<open>A \<^verbatim>\<open>for\<close> loop whose body may fail.\<close>

fun for_each_s :: "('a \<Rightarrow> 's \<Rightarrow> 's \<times> ('e, unit) result) \<Rightarrow> 'a list \<Rightarrow> 's \<Rightarrow> 's \<times> ('e, unit) result" where
  "for_each_s f [] s = (s, Ok ())"
| "for_each_s f (x # xs) s = and_then (f x s) (\<lambda>s _. for_each_s f xs s)"

lemma and_then_eq_Ok [result_simps]:
  "and_then m f = (s', Ok y) \<longleftrightarrow> (\<exists>s x. m = (s, Ok x) \<and> f s x = (s', Ok y))"
  by (cases "(m, f)" rule: and_then.cases) auto

lemma with_err_simps [simp]:
  "with_err g (s, Ok x) = (s, Ok x)" "with_err g (s, Err e) = (s, Err (g e))" "with_err g (s, Halt h) = (s, Halt h)"
  by (simp_all add: with_err_def)

lemma with_err_eq_Ok [result_simps]: "with_err g m = (s, Ok x) \<longleftrightarrow> m = (s, Ok x)"
  by (cases m) (auto simp: with_err_def result_simps)

lemmas rmap_all_Ok = rmap_map_Ok [where g = "\<lambda>x. x", simplified]

lemma snd_and_then: "snd m = Ok x \<Longrightarrow> snd (and_then m f) = snd (f (fst m) x)"
  by (cases m) auto

lemma snd_and_then_stop:
  "snd m = Err e \<Longrightarrow> snd (and_then m f) = Err e" "snd m = Halt h \<Longrightarrow> snd (and_then m f) = Halt h"
  by (cases m; simp)+

lemma rbind_assoc: "rbind (rbind m f) g = rbind m (\<lambda>x. rbind (f x) g)"
  by (cases m) simp_all

lemma snd_and_then_Ok [result_simps]:
  "snd (and_then m f) = Ok y \<longleftrightarrow> (\<exists>x. snd m = Ok x \<and> snd (f (fst m) x) = Ok y)"
  by (cases "(m, f)" rule: and_then.cases) auto

lemma snd_with_err [simp]: "snd (with_err g m) = map_err g (snd m)"
  by (simp add: with_err_def)

lemma fst_with_err [simp]: "fst (with_err g m) = fst m"
  by (simp add: with_err_def)

lemma and_then_assoc: "and_then (and_then m f) g = and_then m (\<lambda>s x. and_then (f s x) g)"
  by (cases "(m, f)" rule: and_then.cases) auto

lemma rmap_Panic:
  "\<exists>x\<in>set xs. f x = Panic \<Longrightarrow> \<forall>x\<in>set xs. f x \<noteq> Hang \<and> (\<forall>e. f x \<noteq> Err e) \<Longrightarrow> rmap f xs = Panic"
proof (induction xs)
  case (Cons x xs)
  then show ?case by (cases "f x"; cases "\<exists>h. f x = Halt h") (auto simp: result_simps intro: halt.exhaust)
qed simp

section \<open>Big-endian bytes\<close>

fun nat_be :: "nat \<Rightarrow> nat \<Rightarrow> bytes" where
  "nat_be 0 v = []"
| "nat_be (Suc n) v = nat_be n (v div 256) @ [word_of_nat (v mod 256)]"

definition be_nat :: "bytes \<Rightarrow> nat" where
  "be_nat bs = foldl (\<lambda>a b. a * 256 + unat b) 0 bs"

definition to_be_bytes :: "'a::len word \<Rightarrow> bytes" where
  "to_be_bytes w = nat_be (LENGTH('a) div 8) (unat w)"

definition from_be_bytes :: "bytes \<Rightarrow> 'a::len word" where
  "from_be_bytes bs = word_of_nat (be_nat bs)"

lemma length_nat_be [simp]: "length (nat_be n v) = n"
  by (induction n arbitrary: v) auto

lemmas nat_be_numeral [simp] = nat_be.simps(2) [of "pred_numeral k" for k, folded numeral_eq_Suc]

lemma be_nat_Nil [simp]: "be_nat [] = 0"
  by (simp add: be_nat_def)

lemma be_nat_snoc: "be_nat (bs @ [b]) = be_nat bs * 256 + unat b"
  by (simp add: be_nat_def)

lemma unat_byte_less: "unat (b :: byte) < 256"
  using unsigned_less [of b, where ?'a = nat] by simp

lemma unat_byte_mod [simp]: "unat (word_of_nat (v mod 256) :: byte) = v mod 256"
  by (simp add: unat_of_nat)

lemma be_nat_nat_be: "be_nat (nat_be n v) = v mod 256 ^ n"
proof (induction n arbitrary: v)
  case 0
  then show ?case by simp
next
  case (Suc n)
  have "be_nat (nat_be (Suc n) v) = (v div 256) mod 256 ^ n * 256 + v mod 256"
    by (simp add: be_nat_snoc Suc.IH)
  also have "\<dots> = v mod (256 * 256 ^ n)"
    by (simp add: mod_mult2_eq mult.commute)
  finally show ?case by simp
qed

lemma nat_be_be_nat: "nat_be (length bs) (be_nat bs) = bs"
proof (induction bs rule: rev_induct)
  case Nil
  then show ?case by simp
next
  case (snoc b bs)
  have "(be_nat bs * 256 + unat b) div 256 = be_nat bs"
    and "(be_nat bs * 256 + unat b) mod 256 = unat b"
    using unat_byte_less [of b] by simp_all
  with snoc show ?case by (simp add: be_nat_snoc)
qed

lemma be_nat_less: "be_nat bs < 256 ^ length bs"
proof -
  have "be_nat (nat_be (length bs) (be_nat bs)) < 256 ^ length bs"
    by (simp add: be_nat_nat_be)
  then show ?thesis by (simp only: nat_be_be_nat)
qed

lemma length_to_be_bytes [simp]: "length (to_be_bytes (w :: 'a::len word)) = LENGTH('a) div 8"
  by (simp add: to_be_bytes_def)

lemma from_to_be_bytes [bytes_simps]:
  assumes "LENGTH('a::len) = 8 * n"
  shows "from_be_bytes (to_be_bytes (w :: 'a word)) = w"
proof -
  have "unat w < 2 ^ (8 * n)" using unsigned_less [of w, where ?'a = nat] assms by simp
  then have "unat w < 256 ^ n" by (simp add: power_mult)
  with assms show ?thesis
    by (simp add: from_be_bytes_def to_be_bytes_def be_nat_nat_be)
qed

lemma to_from_be_bytes [bytes_simps]:
  assumes "LENGTH('a::len) = 8 * length bs"
  shows "to_be_bytes (from_be_bytes bs :: 'a word) = bs"
proof -
  have "be_nat bs < 2 ^ LENGTH('a)"
    using be_nat_less [of bs] assms by (simp add: power_mult)
  then have "unat (word_of_nat (be_nat bs) :: 'a word) = be_nat bs"
    by (simp add: unat_of_nat take_bit_nat_eq_self)
  with assms show ?thesis
    by (simp add: from_be_bytes_def to_be_bytes_def nat_be_be_nat)
qed

text \<open>The instances at the widths the wire format uses.\<close>

lemma from_to_be_bytes_widths [simp]:
  "from_be_bytes (to_be_bytes (a :: 16 word)) = a"
  "from_be_bytes (to_be_bytes (b :: 32 word)) = b"
  "from_be_bytes (to_be_bytes (c :: 64 word)) = c"
  "from_be_bytes (to_be_bytes (d :: 128 word)) = d"
  by (rule from_to_be_bytes [of 2] from_to_be_bytes [of 4] from_to_be_bytes [of 8]
        from_to_be_bytes [of 16], simp)+

lemma to_be_bytes_inject:
  "LENGTH('a::len) = 8 * n \<Longrightarrow> to_be_bytes (v :: 'a word) = to_be_bytes w \<longleftrightarrow> v = w"
  by (metis from_to_be_bytes)

text \<open>
  \<^verbatim>\<open>len() as i32\<close> and its neighbours: a length (\<^verbatim>\<open>usize\<close>) cut to a narrower width, and a
  signed 32-bit value widened to \<^verbatim>\<open>usize\<close> (sign extension, so a negative value becomes huge).
\<close>

abbreviation len_i32 :: "nat \<Rightarrow> i32" where
  "len_i32 n \<equiv> word_of_nat n"

definition as_usize :: "i32 \<Rightarrow> nat" where
  "as_usize w = nat (sint w mod 2 ^ 64)"

lemma sint_len_i32: "n < 2 ^ 31 \<Longrightarrow> sint (len_i32 n) = int n"
  by (simp add: signed_of_nat signed_take_bit_int_eq_self)

lemma as_usize_len_i32: "n < 2 ^ 31 \<Longrightarrow> as_usize (len_i32 n) = n"
  by (simp add: as_usize_def sint_len_i32)

lemma as_usize_nonneg: "0 \<le> sint w \<Longrightarrow> as_usize w = nat (sint w)"
  using sint_lt [of w] by (simp add: as_usize_def)

section \<open>Lists\<close>

lemma list_all_update: "list_all P xs \<Longrightarrow> P x \<Longrightarrow> list_all P (xs[i := x])"
  using set_update_subset_insert [of xs i x] by (auto simp: list_all_iff)

section \<open>Prefixes\<close>

lemma prefix_append_iff: "length a = length b \<Longrightarrow> prefix (a @ x) (b @ y) \<longleftrightarrow> a = b \<and> prefix x y"
  by (auto simp: prefix_def append_eq_append_conv)

lemma take_prefix_eq: "prefix p k \<Longrightarrow> take (length p) k = p"
  by (auto simp: prefix_def)

section \<open>What an encoder and its decoder promise\<close>

text \<open>
  A pair of functions where decoding undoes encoding, on the values \<open>good\<close> selects. Every
  round trip of the program is an instance; that an encoding never maps two values to the
  same bytes is proved here once.
\<close>

locale codec =
  fixes enc :: "'a \<Rightarrow> bytes"
    and dec :: "bytes \<Rightarrow> ('e, 'a) result"
    and good :: "'a \<Rightarrow> bool"
  assumes dec_enc: "good x \<Longrightarrow> dec (enc x) = Ok x"
begin

lemma enc_inject: "good x \<Longrightarrow> good y \<Longrightarrow> enc x = enc y \<longleftrightarrow> x = y"
  by (metis dec_enc result.inject(1))

lemma dec_enc_iff: "good x \<Longrightarrow> good y \<Longrightarrow> dec (enc x) = Ok y \<longleftrightarrow> x = y"
  by (auto simp: dec_enc)

end

text \<open>
  Self-delimiting items: one item can be read off the front of a byte string and the rest is
  handed back. Sequences of such items decode uniquely, and a byte prefix of a sequence that
  is itself a sequence is a prefix item by item. The key parts of a row key and the column
  entries of a row value are of this kind.
\<close>

locale stream_code =
  fixes enc1 :: "'a \<Rightarrow> bytes"
    and dec1 :: "bytes \<Rightarrow> ('e, 'a \<times> bytes) result"
    and good :: "'a \<Rightarrow> bool"
  assumes dec1_enc1: "good x \<Longrightarrow> dec1 (enc1 x @ rest) = Ok (x, rest)"
    and enc1_nonempty: "good x \<Longrightarrow> enc1 x \<noteq> []"
begin

lemma enc1_append_inject:
  assumes "good x" and "good y"
  shows "enc1 x @ r = enc1 y @ r' \<longleftrightarrow> x = y \<and> r = r'"
proof
  assume "enc1 x @ r = enc1 y @ r'"
  then have "dec1 (enc1 x @ r) = dec1 (enc1 y @ r')" by simp
  with assms show "x = y \<and> r = r'" by (simp add: dec1_enc1)
qed simp

lemma prefix_concat_iff:
  assumes "list_all good xs" and "list_all good ys"
  shows "prefix (concat (map enc1 xs)) (concat (map enc1 ys)) \<longleftrightarrow> prefix xs ys"
  using assms
proof (induction xs arbitrary: ys)
  case Nil
  then show ?case by simp
next
  case (Cons x xs)
  show ?case
  proof (cases ys)
    case Nil
    with Cons.prems show ?thesis by (auto simp: enc1_nonempty)
  next
    case (Cons y ys')
    have "prefix (enc1 x @ concat (map enc1 xs)) (enc1 y @ concat (map enc1 ys'))
        \<longleftrightarrow> x = y \<and> prefix (concat (map enc1 xs)) (concat (map enc1 ys'))"
      using Cons.prems Cons
      by (auto simp: prefix_def enc1_append_inject append_assoc)
    with Cons.prems Cons.IH [of ys'] Cons show ?thesis by simp
  qed
qed

lemma concat_inject:
  assumes "list_all good xs" and "list_all good ys"
  shows "concat (map enc1 xs) = concat (map enc1 ys) \<longleftrightarrow> xs = ys"
proof
  assume "concat (map enc1 xs) = concat (map enc1 ys)"
  with assms prefix_concat_iff [of xs ys] prefix_concat_iff [of ys xs]
  show "xs = ys" by (simp add: prefix_order.antisym)
qed simp

end

end
