(* ===== verification/RustStd.thy ===== *)
theory RustStd
  imports Prelude
begin

text \<open>
  The pieces of Rust's standard library that the program calls on text. A \<^verbatim>\<open>String\<close> is the
  list of its UTF-8 bytes, written as a HOL \<^typ>\<open>string\<close> (one \<^typ>\<open>char\<close> per byte), so that
  \<^verbatim>\<open>len()\<close> is \<^const>\<open>length\<close> and \<^verbatim>\<open>as_bytes()\<close> is a bytewise conversion.

  \<^item> \<open>utf8_check\<close>: the validation behind \<^verbatim>\<open>String::from_utf8\<close>, with the position and length
    that its error reports.
  \<^item> \<open>trim\<close>, \<open>trim_matches\<close>, \<open>to_lowercase\<close>, \<open>replace_quotes\<close>: the string methods used.
    Lower-casing is written out for ASCII: the identifiers it is applied to are ASCII by the
    grammar (\<^verbatim>\<open>vendor/tree-sitter-cql/grammar.js\<close>, lines 45-46).
  \<^item> \<open>parse_int\<close>, \<open>parse_usize\<close>, \<open>parse_float\<close>, \<open>parse_ip\<close>: the \<^verbatim>\<open>FromStr\<close> instances of the
    integer types, of \<^verbatim>\<open>f32\<close>/\<^verbatim>\<open>f64\<close> and of \<^verbatim>\<open>IpAddr\<close>.
\<close>

section \<open>Bytes of a string\<close>

definition str_bytes :: "string \<Rightarrow> bytes" where
  "str_bytes s = map (\<lambda>c. word_of_nat (of_char c)) s"

definition bytes_str :: "bytes \<Rightarrow> string" where
  "bytes_str bs = map (\<lambda>b. char_of (unat b)) bs"

lemma length_str_bytes [simp]: "length (str_bytes s) = length s"
  by (simp add: str_bytes_def)

lemma length_bytes_str [simp]: "length (bytes_str bs) = length bs"
  by (simp add: bytes_str_def)

lemma str_bytes_Nil [simp]: "str_bytes [] = []"
  by (simp add: str_bytes_def)

lemma str_bytes_append [simp]: "str_bytes (s @ t) = str_bytes s @ str_bytes t"
  by (simp add: str_bytes_def)

lemma of_char_less: "(of_char c :: nat) < 256"
  by (metis char_of_char of_char_of mod_less_divisor zero_less_numeral)

lemma unat_of_char [simp]: "unat (word_of_nat (of_char c) :: byte) = of_char c"
  using of_char_less [of c] by (simp add: unat_of_nat take_bit_nat_eq_self)

lemma bytes_str_str_bytes [simp]: "bytes_str (str_bytes s) = s"
  by (simp add: str_bytes_def bytes_str_def comp_def)

lemma str_bytes_bytes_str [simp]: "str_bytes (bytes_str bs) = bs"
proof -
  have "(word_of_nat (of_char (char_of (unat b) :: char)) :: byte) = b" for b
    using unat_byte_less [of b] by (simp add: of_char_of)
  then show ?thesis by (simp add: str_bytes_def bytes_str_def comp_def)
qed

lemma str_bytes_inject [simp]: "str_bytes s = str_bytes t \<longleftrightarrow> s = t"
  by (metis bytes_str_str_bytes)

section \<open>UTF-8 validation\<close>

definition is_cont :: "byte \<Rightarrow> bool" where
  "is_cont b \<longleftrightarrow> 0x80 \<le> b \<and> b \<le> 0xBF"

definition second_of_3 :: "byte \<Rightarrow> byte \<Rightarrow> bool" where
  "second_of_3 b c \<longleftrightarrow>
     (b = 0xE0 \<and> 0xA0 \<le> c \<and> c \<le> 0xBF) \<or> (0xE1 \<le> b \<and> b \<le> 0xEC \<and> is_cont c)
     \<or> (b = 0xED \<and> 0x80 \<le> c \<and> c \<le> 0x9F) \<or> (0xEE \<le> b \<and> b \<le> 0xEF \<and> is_cont c)"

definition second_of_4 :: "byte \<Rightarrow> byte \<Rightarrow> bool" where
  "second_of_4 b c \<longleftrightarrow>
     (b = 0xF0 \<and> 0x90 \<le> c \<and> c \<le> 0xBF) \<or> (0xF1 \<le> b \<and> b \<le> 0xF3 \<and> is_cont c)
     \<or> (b = 0xF4 \<and> 0x80 \<le> c \<and> c \<le> 0x8F)"

text \<open>
  \<open>None\<close> for valid input; otherwise the number of valid leading bytes and the length of the
  bad sequence, or no length when the input ends inside a character.
\<close>

fun utf8_check_at :: "nat \<Rightarrow> bytes \<Rightarrow> (nat \<times> nat option) option" where
  "utf8_check_at i [] = None"
| "utf8_check_at i (b # bs) =
     (if b < 0x80 then utf8_check_at (i + 1) bs
      else if 0xC2 \<le> b \<and> b \<le> 0xDF then
        (case bs of [] \<Rightarrow> Some (i, None)
         | c1 # r \<Rightarrow> if \<not> is_cont c1 then Some (i, Some 1) else utf8_check_at (i + 2) r)
      else if 0xE0 \<le> b \<and> b \<le> 0xEF then
        (case bs of [] \<Rightarrow> Some (i, None)
         | c1 # r1 \<Rightarrow> if \<not> second_of_3 b c1 then Some (i, Some 1) else
        (case r1 of [] \<Rightarrow> Some (i, None)
         | c2 # r2 \<Rightarrow> if \<not> is_cont c2 then Some (i, Some 2) else utf8_check_at (i + 3) r2))
      else if 0xF0 \<le> b \<and> b \<le> 0xF4 then
        (case bs of [] \<Rightarrow> Some (i, None)
         | c1 # r1 \<Rightarrow> if \<not> second_of_4 b c1 then Some (i, Some 1) else
        (case r1 of [] \<Rightarrow> Some (i, None)
         | c2 # r2 \<Rightarrow> if \<not> is_cont c2 then Some (i, Some 2) else
        (case r2 of [] \<Rightarrow> Some (i, None)
         | c3 # r3 \<Rightarrow> if \<not> is_cont c3 then Some (i, Some 3) else utf8_check_at (i + 4) r3)))
      else Some (i, Some 1))"

definition utf8_check :: "bytes \<Rightarrow> (nat \<times> nat option) option" where
  "utf8_check bs = utf8_check_at 0 bs"

definition utf8_valid :: "string \<Rightarrow> bool" where
  "utf8_valid s \<longleftrightarrow> utf8_check (str_bytes s) = None"

lemma utf8_check_at_ascii: "\<forall>b\<in>set bs. b < 0x80 \<Longrightarrow> utf8_check_at i bs = None"
  by (induction bs arbitrary: i) auto

section \<open>Decimal numbers\<close>

definition digit_char :: "nat \<Rightarrow> char" where
  "digit_char d = char_of (48 + d)"

fun show_nat :: "nat \<Rightarrow> string" where
  "show_nat n = (if n < 10 then [digit_char n] else show_nat (n div 10) @ [digit_char (n mod 10)])"

declare show_nat.simps [simp del]

definition show_int :: "int \<Rightarrow> string" where
  "show_int i = (if i < 0 then CHR ''-'' # show_nat (nat (- i)) else show_nat (nat i))"

definition digit_val :: "char \<Rightarrow> nat option" where
  "digit_val c = (let n = (of_char c :: nat) in if 48 \<le> n \<and> n \<le> 57 then Some (n - 48) else None)"

fun digits_val :: "nat \<Rightarrow> string \<Rightarrow> nat option" where
  "digits_val acc [] = Some acc"
| "digits_val acc (c # cs) =
     (case digit_val c of None \<Rightarrow> None | Some d \<Rightarrow> digits_val (10 * acc + d) cs)"

definition parse_digits :: "string \<Rightarrow> nat option" where
  "parse_digits s = (if s = [] then None else digits_val 0 s)"

text \<open>
  \<^verbatim>\<open>str::parse\<close> at a signed type of the given width: an optional sign, at least one digit,
  and a value in range.
\<close>

definition parse_int :: "nat \<Rightarrow> string \<Rightarrow> int option" where
  "parse_int bits s =
     (let v = (case s of
                 [] \<Rightarrow> None
               | c # r \<Rightarrow>
                   if c = CHR ''+'' then map_option int (parse_digits r)
                   else if c = CHR ''-'' then map_option (\<lambda>n. - int n) (parse_digits r)
                   else map_option int (parse_digits s))
      in case v of
           None \<Rightarrow> None
         | Some i \<Rightarrow> if - (2 ^ (bits - 1)) \<le> i \<and> i < 2 ^ (bits - 1) then Some i else None)"

definition parse_usize :: "string \<Rightarrow> nat option" where
  "parse_usize s =
     (let v = (case s of
                 [] \<Rightarrow> None
               | c # r \<Rightarrow> if c = CHR ''+'' then parse_digits r else parse_digits s)
      in case v of None \<Rightarrow> None | Some n \<Rightarrow> if n < 2 ^ 64 then Some n else None)"

lemma of_char_digit [simp]: "d < 10 \<Longrightarrow> (of_char (digit_char d) :: nat) = 48 + d"
  by (simp add: digit_char_def of_char_of)

lemma digit_val_digit_char [simp]: "d < 10 \<Longrightarrow> digit_val (digit_char d) = Some d"
  by (simp add: digit_val_def)

lemma digits_val_append:
  "digits_val acc (s @ t) = (case digits_val acc s of None \<Rightarrow> None | Some a \<Rightarrow> digits_val a t)"
  by (induction s arbitrary: acc) (auto split: option.split)

lemma show_nat_not_Nil [simp]: "show_nat n \<noteq> []"
  by (subst show_nat.simps) simp

lemma digits_val_show_nat: "digits_val 0 (show_nat n) = Some n"
proof (induction n rule: show_nat.induct)
  case (1 n)
  show ?case
  proof (cases "n < 10")
    case True
    then show ?thesis by (subst show_nat.simps) simp
  next
    case False
    with "1.IH" have "digits_val 0 (show_nat (n div 10)) = Some (n div 10)" by simp
    with False show ?thesis by (subst show_nat.simps) (simp add: digits_val_append)
  qed
qed

lemma set_show_nat: "c \<in> set (show_nat n) \<Longrightarrow> 48 \<le> (of_char c :: nat) \<and> (of_char c :: nat) \<le> 57"
proof (induction n rule: show_nat.induct)
  case (1 n)
  show ?case
  proof (cases "n < 10")
    case True
    with "1.prems" show ?thesis by (subst (asm) show_nat.simps) simp
  next
    case False
    have "n mod 10 < 10" by simp
    with False "1.prems" "1.IH" show ?thesis
      by (subst (asm) show_nat.simps) (auto)
  qed
qed

lemma hd_show_nat: "48 \<le> (of_char (hd (show_nat n)) :: nat) \<and> (of_char (hd (show_nat n)) :: nat) \<le> 57"
  by (rule set_show_nat [of _ n]) simp

lemma parse_int_show_nat:
  assumes "int n < 2 ^ (bits - 1)"
  shows "parse_int bits (show_nat n) = Some (int n)"
proof -
  obtain c r where cr: "show_nat n = c # r" by (cases "show_nat n") auto
  with hd_show_nat [of n] have "c \<noteq> CHR ''+''" and "c \<noteq> CHR ''-''" by auto
  then show ?thesis
    using assms digits_val_show_nat [of n] cr
    by (auto simp: parse_int_def parse_digits_def order_trans [of _ "0 :: int"])
qed

lemma parse_int_show_int:
  assumes "- (2 ^ (bits - 1)) \<le> i" and "i < 2 ^ (bits - 1)"
  shows "parse_int bits (show_int i) = Some i"
proof (cases "i < 0")
  case True
  with assms show ?thesis
    by (auto simp: show_int_def parse_int_def parse_digits_def digits_val_show_nat)
next
  case False
  with assms parse_int_show_nat [of "nat i" bits] show ?thesis by (simp add: show_int_def)
qed

lemma parse_int_range: "parse_int bits s = Some i \<Longrightarrow> - (2 ^ (bits - 1)) \<le> i \<and> i < 2 ^ (bits - 1)"
  by (auto simp: parse_int_def Let_def split: option.splits list.splits if_splits)

section \<open>Trimming, case, quotes\<close>

text \<open>The UTF-8 encodings of the characters with the Unicode property \<^verbatim>\<open>White_Space\<close>.\<close>

definition ws_seqs :: "string list" where
  "ws_seqs = map bytes_str
     ([[0x09], [0x0A], [0x0B], [0x0C], [0x0D], [0x20], [0xC2, 0x85], [0xC2, 0xA0],
       [0xE1, 0x9A, 0x80]] @
      map (\<lambda>b. [0xE2, 0x80, b])
        [0x80, 0x81, 0x82, 0x83, 0x84, 0x85, 0x86, 0x87, 0x88, 0x89, 0x8A, 0xA8, 0xA9, 0xAF] @
      [[0xE2, 0x81, 0x9F], [0xE3, 0x80, 0x80]])"

lemma ws_seqs_nonempty: "w \<in> set ws_seqs \<Longrightarrow> w \<noteq> []"
  by (auto simp: ws_seqs_def bytes_str_def)

function trim_start :: "string \<Rightarrow> string" where
  "trim_start s =
     (case find (\<lambda>w. prefix w s) ws_seqs of
        None \<Rightarrow> s
      | Some w \<Rightarrow> trim_start (drop (length w) s))"
  by pat_completeness auto
termination
proof (relation "measure length")
  fix s w
  assume "find (\<lambda>w. prefix w s) ws_seqs = Some w"
  then have "w \<in> set ws_seqs" and "prefix w s" by (auto simp: find_Some_iff)
  then have "w \<noteq> []" and "length w \<le> length s"
    by (auto simp: ws_seqs_nonempty prefix_length_le)
  then show "(drop (length w) s, s) \<in> measure length" by (cases w) auto
qed simp

function trim_end :: "string \<Rightarrow> string" where
  "trim_end s =
     (case find (\<lambda>w. suffix w s) ws_seqs of
        None \<Rightarrow> s
      | Some w \<Rightarrow> trim_end (take (length s - length w) s))"
  by pat_completeness auto
termination
proof (relation "measure length")
  fix s w
  assume "find (\<lambda>w. suffix w s) ws_seqs = Some w"
  then have "w \<in> set ws_seqs" and "suffix w s" by (auto simp: find_Some_iff)
  then have "w \<noteq> []" and "length w \<le> length s"
    by (auto simp: ws_seqs_nonempty suffix_length_le)
  then show "(take (length s - length w) s, s) \<in> measure length" by (cases w) auto
qed simp

declare trim_start.simps [simp del] trim_end.simps [simp del]

definition trim :: "string \<Rightarrow> string" where
  "trim s = trim_end (trim_start s)"

text \<open>No white-space sequence begins or ends with the byte of a printable ASCII character.\<close>

definition printable :: "char \<Rightarrow> bool" where
  "printable c \<longleftrightarrow> (33 :: nat) \<le> of_char c \<and> (of_char c :: nat) \<le> 126"

lemma ws_seqs_ends: "w \<in> set ws_seqs \<Longrightarrow> \<not> printable (hd w) \<and> \<not> printable (last w)"
  by (auto simp: ws_seqs_def bytes_str_def printable_def of_char_of)

lemma trim_start_printable: "s = [] \<or> printable (hd s) \<Longrightarrow> trim_start s = s"
proof -
  assume s: "s = [] \<or> printable (hd s)"
  have "\<not> prefix w s" if "w \<in> set ws_seqs" for w
    using s ws_seqs_nonempty [OF that] ws_seqs_ends [OF that]
    by (auto simp: prefix_def)
  then have "find (\<lambda>w. prefix w s) ws_seqs = None" by (auto simp: find_None_iff)
  then show ?thesis by (subst trim_start.simps) simp
qed

lemma trim_end_printable: "s = [] \<or> printable (last s) \<Longrightarrow> trim_end s = s"
proof -
  assume s: "s = [] \<or> printable (last s)"
  have "\<not> suffix w s" if "w \<in> set ws_seqs" for w
    using s ws_seqs_nonempty [OF that] ws_seqs_ends [OF that]
    by (auto simp: suffix_def)
  then have "find (\<lambda>w. suffix w s) ws_seqs = None" by (auto simp: find_None_iff)
  then show ?thesis by (subst trim_end.simps) simp
qed

lemma trim_printable:
  "s \<noteq> [] \<Longrightarrow> printable (hd s) \<Longrightarrow> printable (last s) \<Longrightarrow> trim s = s"
  by (simp add: trim_def trim_start_printable trim_end_printable)

text \<open>\<^verbatim>\<open>trim_start_matches\<close> and \<^verbatim>\<open>trim_end_matches\<close> for one character.\<close>

definition trim_start_matches :: "char \<Rightarrow> string \<Rightarrow> string" where
  "trim_start_matches c s = dropWhile (\<lambda>x. x = c) s"

definition trim_end_matches :: "char \<Rightarrow> string \<Rightarrow> string" where
  "trim_end_matches c s = rev (dropWhile (\<lambda>x. x = c) (rev s))"

definition lower_char :: "char \<Rightarrow> char" where
  "lower_char c = (let n = (of_char c :: nat) in if 65 \<le> n \<and> n \<le> 90 then char_of (n + 32) else c)"

definition upper_char :: "char \<Rightarrow> char" where
  "upper_char c = (let n = (of_char c :: nat) in if 97 \<le> n \<and> n \<le> 122 then char_of (n - 32) else c)"

definition to_lowercase :: "string \<Rightarrow> string" where
  "to_lowercase s = map lower_char s"

text \<open>
  \<^verbatim>\<open>to_uppercase\<close> as far as a comparison with an ASCII word can tell: the letters a-z, and
  the one other character whose upper case is an ASCII letter of such a word, the long s
  (U+017F, bytes C5 BF), which becomes S.
\<close>

fun to_uppercase :: "string \<Rightarrow> string" where
  "to_uppercase [] = []"
| "to_uppercase [c] = [upper_char c]"
| "to_uppercase (c # d # r) =
     (if c = CHR 0xC5 \<and> d = CHR 0xBF then CHR ''S'' # to_uppercase r
      else upper_char c # to_uppercase (d # r))"

definition eq_ignore_ascii_case :: "string \<Rightarrow> string \<Rightarrow> bool" where
  "eq_ignore_ascii_case s t \<longleftrightarrow> map lower_char s = map lower_char t"

lemma lower_char_idem [simp]: "lower_char (lower_char c) = lower_char c"
  by (auto simp: lower_char_def Let_def of_char_of)

lemma to_lowercase_idem [simp]: "to_lowercase (to_lowercase s) = to_lowercase s"
  by (simp add: to_lowercase_def)

text \<open>\<^verbatim>\<open>replace\<close> of two single quotes by one, scanning from the left.\<close>

fun replace_quotes :: "string \<Rightarrow> string" where
  "replace_quotes [] = []"
| "replace_quotes [c] = [c]"
| "replace_quotes (c # d # r) =
     (if c = CHR 0x27 \<and> d = CHR 0x27 then CHR 0x27 # replace_quotes r
      else c # replace_quotes (d # r))"

definition double_quotes :: "string \<Rightarrow> string" where
  "double_quotes s = concat (map (\<lambda>c. if c = CHR 0x27 then [c, c] else [c]) s)"

lemma replace_quotes_other: "c \<noteq> CHR 0x27 \<Longrightarrow> replace_quotes (c # t) = c # replace_quotes t"
  by (cases t) auto

lemma replace_double_quotes: "replace_quotes (double_quotes s) = s"
proof (induction s)
  case Nil
  then show ?case by (simp add: double_quotes_def)
next
  case (Cons c s)
  show ?case
  proof (cases "c = CHR 0x27")
    case True
    with Cons show ?thesis by (simp add: double_quotes_def)
  next
    case False
    with Cons show ?thesis by (simp add: double_quotes_def replace_quotes_other)
  qed
qed

section \<open>Floating-point literals\<close>

text \<open>
  \<^verbatim>\<open>f32\<close> and \<^verbatim>\<open>f64\<close> are their IEEE 754 bit patterns. \<open>float_round mb bias n d\<close> is the pattern
  of the value nearest to \<open>n / d\<close> (ties to even) with \<open>mb\<close> mantissa bits; the exponent field
  and the mantissa are added, so a mantissa that rounds up carries into the exponent.
\<close>

fun bit_len :: "nat \<Rightarrow> nat" where
  "bit_len n = (if n = 0 then 0 else 1 + bit_len (n div 2))"

declare bit_len.simps [simp del]

definition floor_log2 :: "nat \<Rightarrow> nat \<Rightarrow> int" where
  "floor_log2 n d = (if d \<le> n then int (bit_len (n div d)) - 1 else - int (bit_len ((d - 1) div n)))"

definition float_round :: "nat \<Rightarrow> nat \<Rightarrow> nat \<Rightarrow> nat \<Rightarrow> nat" where
  "float_round mb bias n d =
     (if n = 0 then 0 else
      (let e = max (floor_log2 n d) (1 - int bias);
           sh = e - int mb;
           n' = (if sh \<ge> 0 then n else n * 2 ^ nat (- sh));
           d' = (if sh \<ge> 0 then d * 2 ^ nat sh else d);
           q = n' div d';
           r = n' mod d';
           m = (if 2 * r > d' \<or> (2 * r = d' \<and> odd q) then q + 1 else q)
       in min (nat (e + int bias) * 2 ^ mb + m - 2 ^ mb) ((2 * bias + 1) * 2 ^ mb)))"

definition is_digit :: "char \<Rightarrow> bool" where
  "is_digit c \<longleftrightarrow> digit_val c \<noteq> None"

definition parse_exp :: "string \<Rightarrow> int option" where
  "parse_exp s =
     (case s of
        [] \<Rightarrow> Some 0
      | c # r \<Rightarrow>
          if c = CHR ''e'' \<or> c = CHR ''E'' then
            (case r of
               [] \<Rightarrow> None
             | g # r' \<Rightarrow>
                 if g = CHR ''+'' then map_option int (parse_digits r')
                 else if g = CHR ''-'' then map_option (\<lambda>n. - int n) (parse_digits r')
                 else map_option int (parse_digits r))
          else None)"

text \<open>Mantissa and decimal exponent of an unsigned number.\<close>

definition parse_decimal :: "string \<Rightarrow> (nat \<times> int) option" where
  "parse_decimal s =
     (let ip = takeWhile is_digit s;
          r = dropWhile is_digit s;
          dot = (r \<noteq> [] \<and> hd r = CHR ''.'');
          fp = (if dot then takeWhile is_digit (tl r) else []);
          r2 = (if dot then dropWhile is_digit (tl r) else r)
      in if ip = [] \<and> fp = [] then None
         else (case parse_exp r2 of
                 None \<Rightarrow> None
               | Some e \<Rightarrow>
                   (case digits_val 0 (ip @ fp) of
                      None \<Rightarrow> None
                    | Some m \<Rightarrow> Some (m, e - int (length fp)))))"

definition parse_float :: "nat \<Rightarrow> nat \<Rightarrow> nat \<Rightarrow> string \<Rightarrow> nat option" where
  "parse_float mb bias width s =
     (let neg = (s \<noteq> [] \<and> hd s = CHR ''-'');
          t = (if s \<noteq> [] \<and> (hd s = CHR ''-'' \<or> hd s = CHR ''+'') then tl s else s);
          sign = (if neg then 2 ^ (width - 1) else 0);
          inf = (2 * bias + 1) * 2 ^ mb;
          low = to_lowercase t
      in if low = ''inf'' \<or> low = ''infinity'' then Some (sign + inf)
         else if low = ''nan'' then Some (sign + inf + 2 ^ (mb - 1))
         else (case parse_decimal t of
                 None \<Rightarrow> None
               | Some (m, e) \<Rightarrow>
                   Some (sign + (if e \<ge> 0 then float_round mb bias (m * 10 ^ nat e) 1
                                 else float_round mb bias m (10 ^ nat (- e))))))"

definition parse_f32 :: "string \<Rightarrow> 32 word option" where
  "parse_f32 s = map_option word_of_nat (parse_float 23 127 32 s)"

definition parse_f64 :: "string \<Rightarrow> 64 word option" where
  "parse_f64 s = map_option word_of_nat (parse_float 52 1023 64 s)"

text \<open>Patterns known from the standard: 1.5, 0.1 in both widths, the least subnormal, overflow.\<close>

lemmas float_eval = parse_f32_def parse_f64_def parse_float_def parse_decimal_def parse_exp_def
  parse_digits_def float_round_def floor_log2_def bit_len.simps is_digit_def digit_val_def Let_def
  to_lowercase_def lower_char_def char_of_def bit_Suc_0_iff

lemma parse_f32_examples:
  "parse_f32 ''1.5'' = Some 0x3FC00000" "parse_f32 ''0.1'' = Some 0x3DCCCCCD"
  "parse_f32 ''-2e1'' = Some 0xC1A00000" "parse_f32 ''1e-45'' = Some 1"
  "parse_f32 ''3.5e38'' = Some 0x7F800000" "parse_f32 ''.'' = None"
  by (simp_all add: float_eval)

lemma parse_f64_examples:
  "parse_f64 ''0.1'' = Some 0x3FB999999999999A" "parse_f64 ''0.01'' = Some 0x3F847AE147AE147B"
  "parse_f64 ''NaN'' = Some 0x7FF8000000000000" "parse_f64 ''1.e0'' = Some 0x3FF0000000000000"
  by (simp_all add: float_eval)

section \<open>Internet addresses\<close>

datatype ip_addr = V4 "32 word" | V6 "128 word"

fun ip_octets :: "ip_addr \<Rightarrow> bytes" where
  "ip_octets (V4 a) = to_be_bytes a"
| "ip_octets (V6 a) = to_be_bytes a"

definition hex_val :: "char \<Rightarrow> nat option" where
  "hex_val c =
     (let n = (of_char c :: nat)
      in if 48 \<le> n \<and> n \<le> 57 then Some (n - 48)
         else if 97 \<le> n \<and> n \<le> 102 then Some (n - 87)
         else if 65 \<le> n \<and> n \<le> 70 then Some (n - 55) else None)"

text \<open>The longest run of digits; too many digits, none, or a forbidden leading zero fail.\<close>

definition read_number ::
  "(char \<Rightarrow> nat option) \<Rightarrow> nat \<Rightarrow> nat \<Rightarrow> bool \<Rightarrow> nat \<Rightarrow> string \<Rightarrow> (nat \<times> string) option" where
  "read_number dv radix maxd zero_ok hi s =
     (let ds = takeWhile (\<lambda>c. dv c \<noteq> None) s;
          v = foldl (\<lambda>a c. radix * a + the (dv c)) 0 ds
      in if ds = [] \<or> length ds > maxd \<or> (\<not> zero_ok \<and> hd ds = CHR ''0'' \<and> length ds > 1) \<or> v > hi
         then None else Some (v, drop (length ds) s))"

definition read_char :: "char \<Rightarrow> string \<Rightarrow> string option" where
  "read_char c s = (case s of [] \<Rightarrow> None | d # r \<Rightarrow> if d = c then Some r else None)"

fun read_octets :: "nat \<Rightarrow> bool \<Rightarrow> nat \<Rightarrow> string \<Rightarrow> (nat \<times> string) option" where
  "read_octets 0 first acc s = Some (acc, s)"
| "read_octets (Suc k) first acc s =
     (case (if first then Some s else read_char (CHR ''.'') s) of
        None \<Rightarrow> None
      | Some s1 \<Rightarrow>
          (case read_number digit_val 10 3 False 255 s1 of
             None \<Rightarrow> None
           | Some (v, r) \<Rightarrow> read_octets k False (acc * 256 + v) r))"

definition read_ipv4 :: "string \<Rightarrow> (nat \<times> string) option" where
  "read_ipv4 s = read_octets 4 True 0 s"

text \<open>Up to the given number of groups; a trailing dotted quad fills two.\<close>

fun read_groups :: "nat \<Rightarrow> bool \<Rightarrow> string \<Rightarrow> nat list \<times> bool \<times> string" where
  "read_groups 0 first s = ([], False, s)"
| "read_groups (Suc k) first s =
     (case (if first then Some s else read_char (CHR '':'') s) of
        None \<Rightarrow> ([], False, s)
      | Some s1 \<Rightarrow>
          (case (if 0 < k then read_ipv4 s1 else None) of
             Some (v, r) \<Rightarrow> ([v div 65536, v mod 65536], True, r)
           | None \<Rightarrow>
               (case read_number hex_val 16 4 True 65535 s1 of
                  None \<Rightarrow> ([], False, s)
                | Some (g, r) \<Rightarrow>
                    (case read_groups k False r of (gs, v4, r') \<Rightarrow> (g # gs, v4, r')))))"

definition read_ipv6 :: "string \<Rightarrow> (nat list \<times> string) option" where
  "read_ipv6 s =
     (case read_groups 8 True s of (h, v4, r) \<Rightarrow>
        if length h = 8 then Some (h, r)
        else if v4 then None
        else (case Option.bind (read_char (CHR '':'') r) (read_char (CHR '':'')) of
                None \<Rightarrow> None
              | Some r2 \<Rightarrow>
                  (case read_groups (8 - (length h + 1)) True r2 of (t, _, r3) \<Rightarrow>
                     Some (h @ replicate (8 - length h - length t) 0 @ t, r3))))"

definition parse_ip :: "string \<Rightarrow> ip_addr option" where
  "parse_ip s =
     (case read_ipv4 s of
        Some (v, r) \<Rightarrow> if r = [] then Some (V4 (word_of_nat v)) else None
      | None \<Rightarrow>
          (case read_ipv6 s of
             Some (gs, r) \<Rightarrow>
               if r = [] then Some (V6 (word_of_nat (foldl (\<lambda>a g. a * 65536 + g) 0 gs))) else None
           | None \<Rightarrow> None))"

lemmas read_octets_numeral = read_octets.simps(2) [of "pred_numeral k" for k, folded numeral_eq_Suc]
lemmas read_groups_numeral = read_groups.simps(2) [of "pred_numeral k" for k, folded numeral_eq_Suc]
lemmas replicate_numeral_Cons = replicate_Suc [of "pred_numeral k" for k, folded numeral_eq_Suc]

lemmas ip_eval = parse_ip_def read_ipv4_def read_ipv6_def read_number_def read_char_def digit_val_def
  hex_val_def Let_def read_octets_numeral read_groups_numeral
  replicate_numeral_Cons

lemma parse_ip_examples:
  "parse_ip ''127.0.0.1'' = Some (V4 0x7F000001)" "parse_ip ''::1'' = Some (V6 1)"
  "parse_ip ''1.2.3.04'' = None" "parse_ip ''fe80::1.2.3.4'' = Some (V6 0xFE800000000000000000000001020304)"
  by (simp_all add: ip_eval)

end
