(* ===== verification/Ast.thy ===== *)
theory Ast
  imports Prelude
begin

text \<open>
  The statements the query engine receives. They are built by the crate
  \<^verbatim>\<open>cql3-parser\<close>, which is not part of this repository; the parser itself is a parameter of
  the model (theory \<open>Libs\<close>). The types below have the constructors and fields that the code
  under \<^verbatim>\<open>src/src\<close> matches on and reads, with one constructor for every wildcard arm.
\<close>

datatype ident = Quoted string | Unquoted string

record fq_name =
  fq_keyspace :: "ident option"
  fq_name :: ident

datatype data_type_name =
    DInt | DBigInt | DSmallInt | DTinyInt | DFloat | DDouble | DBoolean
  | DText | DVarChar | DAscii | DBlob | DTimestamp | DUuid | DTimeUuid | DInet
  | DSet | DList | DMap | DFrozen | DOther

record column_ast =
  ca_name :: ident
  ca_type_name :: data_type_name
  ca_definition :: "data_type_name list"
  ca_primary_key :: bool

record primary_key_ast =
  pk_partition :: "ident list"
  pk_clustering :: "ident list"

record create_table =
  ct_name :: fq_name
  ct_if_not_exists :: bool
  ct_columns :: "column_ast list"
  ct_key :: "primary_key_ast option"

record create_keyspace =
  ck_name :: ident
  ck_if_not_exists :: bool
  ck_replication :: "(string \<times> string) list"

record common_drop =
  dr_name :: fq_name
  dr_if_exists :: bool

datatype operand =
    OpConst string
  | OpMap "(string \<times> string) list"
  | OpSet "string list"
  | OpList "string list"
  | OpTuple "operand list"
  | OpColumn ident
  | OpNull
  | OpParam string
  | OpOther

datatype relation_operator = RelEqual | RelIn | RelOther

record relation_element =
  re_obj :: operand
  re_oper :: relation_operator
  re_value :: operand

text \<open>A selected column is read through its name and through \<^verbatim>\<open>alias_or_name()\<close>.\<close>

record named_column =
  nc_name :: ident
  nc_alias_or_name :: ident

datatype select_element = SelStar | SelColumn named_column | SelFunction

record select_ast =
  sl_table_name :: fq_name
  sl_columns :: "select_element list"
  sl_where :: "relation_element list"
  sl_limit :: "i32 option"

datatype insert_values = InsValues "operand list" | InsJson string

record insert_ast =
  in_table_name :: fq_name
  in_columns :: "ident list"
  in_values :: insert_values

record assignment =
  as_column :: ident
  as_has_operator :: bool
  as_value :: operand

record update_ast =
  up_table_name :: fq_name
  up_assignments :: "assignment list"
  up_where :: "relation_element list"

record delete_ast =
  de_table_name :: fq_name
  de_has_columns :: bool
  de_where :: "relation_element list"

datatype statement =
    SUse ident
  | SCreateKeyspace create_keyspace
  | SCreateTable create_table
  | SDropKeyspace common_drop
  | SDropTable common_drop
  | SInsert insert_ast
  | SSelect select_ast
  | SDelete delete_ast
  | SUpdate update_ast
  | STruncate fq_name
  | SOther nat

end
