(* ===== verification/Schema.thy ===== *)
theory Schema
  imports RustStd Ast
begin

text \<open>
  \<^verbatim>\<open>src/src/schema.rs\<close>: column types with their wire ids and CQL names, table and keyspace
  definitions, identifier normalisation and the translation of \<^verbatim>\<open>CREATE TABLE\<close> into a table
  definition.
\<close>

section \<open>Column types\<close>

datatype column_type =
    TInt | TBigInt | TSmallInt | TTinyInt | TFloat | TDouble | TBoolean | TText | TBlob
  | TTimestamp | TUuid | TInet
  | TSet column_type | TList column_type | TMap column_type column_type

fun wire_id :: "column_type \<Rightarrow> u16" where
  "wire_id TInt = 0x0009"
| "wire_id TBigInt = 0x0002"
| "wire_id TSmallInt = 0x0013"
| "wire_id TTinyInt = 0x0014"
| "wire_id TFloat = 0x0008"
| "wire_id TDouble = 0x0007"
| "wire_id TBoolean = 0x0004"
| "wire_id TText = 0x000D"
| "wire_id TBlob = 0x0003"
| "wire_id TTimestamp = 0x000B"
| "wire_id TUuid = 0x000C"
| "wire_id TInet = 0x0010"
| "wire_id (TSet _) = 0x0022"
| "wire_id (TList _) = 0x0020"
| "wire_id (TMap _ _) = 0x0021"

definition write_wire_type :: "column_type \<Rightarrow> bytes \<Rightarrow> bytes" where
  "write_wire_type ct buf =
     (let buf = buf @ to_be_bytes (wire_id ct)
      in case ct of
           TSet e \<Rightarrow> buf @ to_be_bytes (wire_id e)
         | TList e \<Rightarrow> buf @ to_be_bytes (wire_id e)
         | TMap k v \<Rightarrow> (buf @ to_be_bytes (wire_id k)) @ to_be_bytes (wire_id v)
         | _ \<Rightarrow> buf)"

fun cql_string :: "column_type \<Rightarrow> string" where
  "cql_string TInt = ''int''"
| "cql_string TBigInt = ''bigint''"
| "cql_string TSmallInt = ''smallint''"
| "cql_string TTinyInt = ''tinyint''"
| "cql_string TFloat = ''float''"
| "cql_string TDouble = ''double''"
| "cql_string TBoolean = ''boolean''"
| "cql_string TText = ''text''"
| "cql_string TBlob = ''blob''"
| "cql_string TTimestamp = ''timestamp''"
| "cql_string TUuid = ''uuid''"
| "cql_string TInet = ''inet''"
| "cql_string (TSet e) = ''set<'' @ cql_string e @ ''>''"
| "cql_string (TList e) = ''list<'' @ cql_string e @ ''>''"
| "cql_string (TMap k v) = ''map<'' @ cql_string k @ '', '' @ cql_string v @ ''>''"

text \<open>
  \<open>elem_type\<close> is the closure \<^verbatim>\<open>elem\<close>: the type of the i-th argument, read with an empty
  definition, so an argument that is itself a collection has no type. The recursion of the
  source is therefore one level deep: with an empty definition every collection gives \<open>None\<close>.
\<close>

fun scalar_type :: "data_type_name \<Rightarrow> column_type option" where
  "scalar_type DInt = Some TInt"
| "scalar_type DBigInt = Some TBigInt"
| "scalar_type DSmallInt = Some TSmallInt"
| "scalar_type DTinyInt = Some TTinyInt"
| "scalar_type DFloat = Some TFloat"
| "scalar_type DDouble = Some TDouble"
| "scalar_type DBoolean = Some TBoolean"
| "scalar_type DText = Some TText"
| "scalar_type DVarChar = Some TText"
| "scalar_type DAscii = Some TText"
| "scalar_type DBlob = Some TBlob"
| "scalar_type DTimestamp = Some TTimestamp"
| "scalar_type DUuid = Some TUuid"
| "scalar_type DTimeUuid = Some TUuid"
| "scalar_type DInet = Some TInet"
| "scalar_type _ = None"

definition elem_type :: "data_type_name list \<Rightarrow> nat \<Rightarrow> column_type option" where
  "elem_type defs i = (if i < length defs then scalar_type (defs ! i) else None)"

definition from_data_type :: "data_type_name \<Rightarrow> data_type_name list \<Rightarrow> column_type option" where
  "from_data_type name defs =
     (case name of
        DSet \<Rightarrow> map_option TSet (elem_type defs 0)
      | DList \<Rightarrow> map_option TList (elem_type defs 0)
      | DMap \<Rightarrow> Option.bind (elem_type defs 0) (\<lambda>k. map_option (TMap k) (elem_type defs 1))
      | DFrozen \<Rightarrow>
          (case defs of
             [] \<Rightarrow> None
           | inner # _ \<Rightarrow>
               (case inner of
                  DSet \<Rightarrow> map_option TSet (elem_type defs 1)
                | DList \<Rightarrow> map_option TList (elem_type defs 1)
                | DMap \<Rightarrow> Option.bind (elem_type defs 1) (\<lambda>k. map_option (TMap k) (elem_type defs 2))
                | other \<Rightarrow> scalar_type other))
      | other \<Rightarrow> scalar_type other)"

lemma from_data_type_no_args: "from_data_type name [] = scalar_type name"
  by (cases name) (simp_all add: from_data_type_def elem_type_def)

section \<open>Tables and keyspaces\<close>

record column_def =
  cd_name :: string
  cd_type :: column_type
  cd_is_partition_key :: bool
  cd_is_clustering :: bool

record table_def =
  td_keyspace :: string
  td_name :: string
  td_columns :: "column_def list"
  td_partition_keys :: "string list"
  td_clustering_keys :: "string list"

record keyspace_def =
  kd_name :: string
  kd_replication :: "(string \<times> string) list"

text \<open>\<^verbatim>\<open>Iterator::position\<close>: the index of the first element that satisfies the predicate.\<close>

fun position :: "('a \<Rightarrow> bool) \<Rightarrow> 'a list \<Rightarrow> nat option" where
  "position P [] = None"
| "position P (x # xs) = (if P x then Some 0 else map_option Suc (position P xs))"

definition column :: "table_def \<Rightarrow> string \<Rightarrow> column_def option" where
  "column t name = find (\<lambda>c. cd_name c = name) (td_columns t)"

definition is_partition :: "table_def \<Rightarrow> string \<Rightarrow> bool" where
  "is_partition t name \<longleftrightarrow> list_ex (\<lambda>p. p = name) (td_partition_keys t)"

definition column_index :: "table_def \<Rightarrow> string \<Rightarrow> nat option" where
  "column_index t name = position (\<lambda>c. cd_name c = name) (td_columns t)"

fun norm_id :: "ident \<Rightarrow> string" where
  "norm_id (Quoted s) = s"
| "norm_id (Unquoted s) = to_lowercase s"

fun ident_eq :: "ident \<Rightarrow> string \<Rightarrow> bool" where
  "ident_eq (Quoted s) name \<longleftrightarrow> s = name"
| "ident_eq (Unquoted s) name \<longleftrightarrow> eq_ignore_ascii_case s name"

fun build_columns :: "string list \<Rightarrow> string list \<Rightarrow> column_ast list \<Rightarrow> column_def list option" where
  "build_columns pks cks [] = Some []"
| "build_columns pks cks (cd # cds) =
     (case from_data_type (ca_type_name cd) (ca_definition cd) of
        None \<Rightarrow> None
      | Some ty \<Rightarrow>
          (let name = norm_id (ca_name cd);
               is_pk = (ca_primary_key cd \<or> name \<in> set pks);
               is_ck = (\<not> is_pk \<and> name \<in> set cks)
           in map_option (\<lambda>cs. \<lparr>cd_name = name, cd_type = ty, cd_is_partition_key = is_pk,
                                cd_is_clustering = is_ck\<rparr> # cs)
                (build_columns pks cks cds)))"

definition build_table_def :: "string \<Rightarrow> string \<Rightarrow> create_table \<Rightarrow> table_def option" where
  "build_table_def keyspace table_name create =
     (let pks = (case ct_key create of None \<Rightarrow> [] | Some k \<Rightarrow> map norm_id (pk_partition k));
          cks = (case ct_key create of None \<Rightarrow> [] | Some k \<Rightarrow> map norm_id (pk_clustering k))
      in case build_columns pks cks (ct_columns create) of
           None \<Rightarrow> None
         | Some columns \<Rightarrow>
             (let pks' = (if pks = [] then map cd_name (filter cd_is_partition_key columns) else pks)
              in Some \<lparr>td_keyspace = keyspace, td_name = table_name, td_columns = columns,
                       td_partition_keys = pks', td_clustering_keys = cks\<rparr>))"

section \<open>Facts about the schema\<close>

lemma position_Some_iff:
  "position P xs = Some i \<longleftrightarrow> i < length xs \<and> P (xs ! i) \<and> (\<forall>j<i. \<not> P (xs ! j))"
proof (induction xs arbitrary: i)
  case Nil
  then show ?case by simp
next
  case (Cons x xs)
  show ?case
  proof (cases i)
    case 0
    with Cons show ?thesis by auto
  next
    case (Suc k)
    with Cons.IH [of k] show ?thesis by (auto simp: less_Suc_eq_0_disj)
  qed
qed

lemma position_None_iff: "position P xs = None \<longleftrightarrow> (\<forall>x\<in>set xs. \<not> P x)"
  by (induction xs) auto

lemma position_ex: "x \<in> set xs \<Longrightarrow> P x \<Longrightarrow> \<exists>i. position P xs = Some i"
  using position_None_iff [of P xs] by (cases "position P xs") auto

lemma position_lt: "position P xs = Some i \<Longrightarrow> i < length xs"
  by (simp add: position_Some_iff)

lemma column_index_lt: "column_index t n = Some i \<Longrightarrow> i < length (td_columns t)"
  by (simp add: column_index_def position_Some_iff)

lemma column_index_name: "column_index t n = Some i \<Longrightarrow> cd_name (td_columns t ! i) = n"
  by (simp add: column_index_def position_Some_iff)

lemma find_position: "find P xs = map_option (\<lambda>i. xs ! i) (position P xs)"
  by (induction xs) (auto simp: option.map_comp comp_def)

lemma column_column_index: "column t n = map_option (\<lambda>i. td_columns t ! i) (column_index t n)"
  by (simp add: column_def column_index_def find_position)

section \<open>Type descriptors on the wire\<close>

text \<open>
  The types a \<^verbatim>\<open>CREATE TABLE\<close> can produce: a scalar, or a collection of scalars.
\<close>

fun scalar :: "column_type \<Rightarrow> bool" where
  "scalar (TSet _) = False"
| "scalar (TList _) = False"
| "scalar (TMap _ _) = False"
| "scalar _ = True"

fun flat :: "column_type \<Rightarrow> bool" where
  "flat (TSet e) = scalar e"
| "flat (TList e) = scalar e"
| "flat (TMap k v) = (scalar k \<and> scalar v)"
| "flat _ = True"

lemma scalar_type_scalar: "scalar_type d = Some ct \<Longrightarrow> scalar ct"
  by (cases d) auto

lemma scalar_flat: "scalar ct \<Longrightarrow> flat ct"
  by (cases ct) auto

lemma elem_type_scalar: "elem_type defs i = Some ct \<Longrightarrow> scalar ct"
  by (auto simp: elem_type_def dest: scalar_type_scalar split: if_splits)

lemma from_data_type_flat_aux: "from_data_type d defs = Some ct \<Longrightarrow> flat ct"
  by (auto simp: from_data_type_def bind_eq_Some_conv
      dest: scalar_type_scalar elem_type_scalar scalar_flat
      split: data_type_name.splits list.splits)

text \<open>
  The reader of a type descriptor that the protocol prescribes: a 16-bit id, followed by the
  descriptors of the arguments for the three collection ids.
\<close>

definition scalar_of_id :: "u16 \<Rightarrow> column_type option" where
  "scalar_of_id w =
     map_of [(0x0009, TInt), (0x0002, TBigInt), (0x0013, TSmallInt), (0x0014, TTinyInt),
       (0x0008, TFloat), (0x0007, TDouble), (0x0004, TBoolean), (0x000D, TText), (0x0003, TBlob),
       (0x000B, TTimestamp), (0x000C, TUuid), (0x0010, TInet)] w"

definition read_u16 :: "bytes \<Rightarrow> (string, u16 \<times> bytes) result" where
  "read_u16 bs = (if length bs < 2 then Err ''short'' else Ok (from_be_bytes (take 2 bs), drop 2 bs))"

definition read_scalar :: "bytes \<Rightarrow> (string, column_type \<times> bytes) result" where
  "read_scalar bs = rbind (read_u16 bs) (\<lambda>(w, r). rbind (ok_or ''type id'' (scalar_of_id w)) (\<lambda>t. Ok (t, r)))"

definition read_wire_type :: "bytes \<Rightarrow> (string, column_type \<times> bytes) result" where
  "read_wire_type bs =
     rbind (read_u16 bs) (\<lambda>(w, r).
       if w = 0x0022 then rbind (read_scalar r) (\<lambda>(e, r). Ok (TSet e, r))
       else if w = 0x0020 then rbind (read_scalar r) (\<lambda>(e, r). Ok (TList e, r))
       else if w = 0x0021 then
         rbind (read_scalar r) (\<lambda>(k, r). rbind (read_scalar r) (\<lambda>(v, r). Ok (TMap k v, r)))
       else rbind (ok_or ''type id'' (scalar_of_id w)) (\<lambda>t. Ok (t, r)))"

lemma read_u16_be [simp]: "read_u16 (to_be_bytes (w :: u16) @ r) = Ok (w, r)"
  by (simp add: read_u16_def)

lemma scalar_of_wire_id [simp]: "scalar ct \<Longrightarrow> scalar_of_id (wire_id ct) = Some ct"
  by (cases ct) (simp_all add: scalar_of_id_def)

lemma read_scalar_be [simp]: "scalar ct \<Longrightarrow> read_scalar (to_be_bytes (wire_id ct) @ r) = Ok (ct, r)"
  by (simp add: read_scalar_def)

lemma scalar_wire_id_ne:
  "scalar ct \<Longrightarrow> wire_id ct \<noteq> 0x0022 \<and> wire_id ct \<noteq> 0x0020 \<and> wire_id ct \<noteq> 0x0021"
  by (cases ct) simp_all

lemma write_wire_type_append: "write_wire_type ct buf = buf @ write_wire_type ct []"
  by (cases ct) (simp_all add: write_wire_type_def)

lemma read_write_wire_type: "flat ct \<Longrightarrow> read_wire_type (write_wire_type ct [] @ r) = Ok (ct, r)"
proof (cases "scalar ct")
  case True
  then have "write_wire_type ct [] = to_be_bytes (wire_id ct)"
    by (cases ct) (simp_all add: write_wire_type_def)
  with True show ?thesis by (simp add: read_wire_type_def scalar_wire_id_ne)
next
  case False
  moreover assume "flat ct"
  ultimately show ?thesis by (cases ct) (simp_all add: read_wire_type_def write_wire_type_def)
qed

lemma write_wire_type_nonempty: "write_wire_type ct [] \<noteq> []"
proof -
  have "length (to_be_bytes (wire_id ct)) = 2" by simp
  then have "to_be_bytes (wire_id ct) \<noteq> []" by (metis list.size(3) zero_neq_numeral)
  then show ?thesis by (cases ct) (simp_all add: write_wire_type_def)
qed

interpretation wire_type: stream_code "\<lambda>ct. write_wire_type ct []" read_wire_type flat
  by unfold_locales (auto simp: read_write_wire_type write_wire_type_nonempty)

section \<open>Identifiers and key flags\<close>

lemma ident_eq_norm_id: "to_lowercase name = name \<Longrightarrow> ident_eq i name \<longleftrightarrow> norm_id i = name"
  by (cases i) (auto simp: eq_ignore_ascii_case_def to_lowercase_def)

text \<open>
  \<open>keys_consistent\<close>: a column flagged as part of the key is listed among the key columns, so
  that its position in the key can be looked up.
\<close>

definition keys_consistent :: "table_def \<Rightarrow> bool" where
  "keys_consistent t \<longleftrightarrow>
     list_all (\<lambda>c. (cd_is_partition_key c \<longrightarrow> cd_name c \<in> set (td_partition_keys t))
                 \<and> (cd_is_clustering c \<longrightarrow> cd_name c \<in> set (td_clustering_keys t))
                 \<and> \<not> (cd_is_partition_key c \<and> cd_is_clustering c)) (td_columns t)"

definition no_mixed_key :: "create_table \<Rightarrow> bool" where
  "no_mixed_key create \<longleftrightarrow>
     (case ct_key create of
        None \<Rightarrow> True
      | Some k \<Rightarrow> pk_partition k = [] \<or> list_all (\<lambda>c. \<not> ca_primary_key c) (ct_columns create))"

lemma build_columns_flags:
  "build_columns pks cks cds = Some cs \<Longrightarrow> c \<in> set cs \<Longrightarrow>
     (cd_is_partition_key c \<longrightarrow> list_ex ca_primary_key cds \<or> cd_name c \<in> set pks)
     \<and> (cd_is_clustering c \<longrightarrow> cd_name c \<in> set cks) \<and> \<not> (cd_is_partition_key c \<and> cd_is_clustering c)
     \<and> flat (cd_type c)"
  by (induction cds arbitrary: cs)
     (auto simp: Let_def from_data_type_flat_aux split: option.splits)

lemma build_columns_names:
  "build_columns pks cks cds = Some cs \<Longrightarrow> map cd_name cs = map (\<lambda>c. norm_id (ca_name c)) cds"
  by (induction cds arbitrary: cs) (auto simp: Let_def split: option.splits)

lemma build_table_def_keys:
  assumes "build_table_def ks tb create = Some t" and "no_mixed_key create"
  shows "keys_consistent t"
proof -
  define pks where "pks = (case ct_key create of None \<Rightarrow> [] | Some k \<Rightarrow> map norm_id (pk_partition k))"
  define cks where "cks = (case ct_key create of None \<Rightarrow> [] | Some k \<Rightarrow> map norm_id (pk_clustering k))"
  from assms(1) obtain cs where cs: "build_columns pks cks (ct_columns create) = Some cs"
    and t: "td_columns t = cs" "td_clustering_keys t = cks"
      "td_partition_keys t = (if pks = [] then map cd_name (filter cd_is_partition_key cs) else pks)"
    by (auto simp: build_table_def_def pks_def cks_def Let_def split: option.splits)
  have "cd_name c \<in> set (td_partition_keys t)" if "c \<in> set cs" "cd_is_partition_key c" for c
  proof (cases "pks = []")
    case True
    with that t show ?thesis by auto
  next
    case False
    with assms(2) have "\<not> list_ex ca_primary_key (ct_columns create)"
      by (auto simp: pks_def no_mixed_key_def list_all_iff list_ex_iff split: option.splits)
    with build_columns_flags [OF cs that(1)] that(2) False t show ?thesis by simp
  qed
  with build_columns_flags [OF cs] t show ?thesis
    by (auto simp: keys_consistent_def list_all_iff)
qed

section \<open>Properties\<close>

text \<open>
  Column metadata is unambiguous: the descriptor written for any type that \<open>CREATE TABLE\<close>
  can produce is read back, by the reader the protocol prescribes, as that type, whatever follows it
  in the frame.\<close>

theorem table_types_readable:
  "from_data_type d defs = Some ct \<Longrightarrow>
     read_wire_type (write_wire_type ct [] @ rest) = Ok (ct, rest)"
  by (rule wire_type.dec1_enc1) (rule from_data_type_flat_aux)

theorem table_types_readable_witness:
  "from_data_type DMap [DText, DInt] = Some (TMap TText TInt) \<and>
     read_wire_type (write_wire_type (TMap TText TInt) [] @ [1, 2]) = Ok (TMap TText TInt, [1, 2])"
proof -
  have "from_data_type DMap [DText, DInt] = Some (TMap TText TInt)"
    by (simp add: from_data_type_def elem_type_def)
  with table_types_readable [OF this, of "[1, 2]"] show ?thesis by blast
qed

text \<open>
  The allocation-free identifier comparison against the reference: for a column whose name is
  lower case, \<open>ident_eq\<close> holds exactly when the normalised identifier is that name; for a column
  created with a quoted name that has capitals, an unquoted identifier matches although its normal
  form is a different name.\<close>

theorem ident_eq_against_norm_id:
  "(\<forall>i name. to_lowercase name = name \<longrightarrow> (ident_eq i name \<longleftrightarrow> norm_id i = name)) \<and>
   (ident_eq (Unquoted ''id'') ''ID'' \<and> norm_id (Unquoted ''id'') \<noteq> ''ID'')"
  by (simp add: ident_eq_norm_id)
     (simp add: eq_ignore_ascii_case_def to_lowercase_def lower_char_def char_of_def bit_Suc_0_iff)

theorem ident_eq_against_norm_id_witness:
  "ident_eq (Unquoted ''KEY'') ''key'' \<longleftrightarrow> norm_id (Unquoted ''KEY'') = ''key''"
proof -
  have "to_lowercase ''key'' = ''key''" by (simp add: to_lowercase_def lower_char_def)
  with ident_eq_against_norm_id show ?thesis by blast
qed

text \<open>A table built from a \<open>CREATE TABLE\<close> that does not mix an inline \<open>PRIMARY KEY\<close> with a
  key clause has consistent key flags: every column flagged as partition key or clustering key is
  listed among the key columns and no column is both, so the position lookups of the schema mirror
  succeed; every column type is a scalar or a collection of scalars.\<close>

theorem build_table_def_consistent:
  "build_table_def ks tb create = Some t \<Longrightarrow> no_mixed_key create \<Longrightarrow>
     keys_consistent t \<and> td_keyspace t = ks \<and> td_name t = tb \<and>
     map cd_name (td_columns t) = map (\<lambda>c. norm_id (ca_name c)) (ct_columns create) \<and>
     list_all (\<lambda>c. flat (cd_type c)) (td_columns t)"
  by (auto simp: build_table_def_keys)
     (auto simp: build_table_def_def Let_def list_all_iff
       dest: build_columns_names build_columns_flags split: option.splits)

definition sample_create :: create_table where
  "sample_create =
     \<lparr>ct_name = \<lparr>fq_keyspace = None, fq_name = Unquoted ''t''\<rparr>, ct_if_not_exists = False,
      ct_columns =
        [\<lparr>ca_name = Unquoted ''k'', ca_type_name = DInt, ca_definition = [], ca_primary_key = False\<rparr>,
         \<lparr>ca_name = Unquoted ''v'', ca_type_name = DText, ca_definition = [], ca_primary_key = False\<rparr>],
      ct_key = Some \<lparr>pk_partition = [Unquoted ''k''], pk_clustering = []\<rparr>\<rparr>"

theorem build_table_def_consistent_witness:
  "\<exists>t. build_table_def ''ks'' ''t'' sample_create = Some t \<and> keys_consistent t"
proof -
  obtain t where t: "build_table_def ''ks'' ''t'' sample_create = Some t"
    by (simp add: build_table_def_def sample_create_def from_data_type_def Let_def)
  have "no_mixed_key sample_create" by (simp add: no_mixed_key_def sample_create_def)
  with build_table_def_consistent [OF t] t show ?thesis by blast
qed

end
