(* ===== verification/CqlValue.thy ===== *)
theory CqlValue
  imports Schema
begin

text \<open>
  \<^verbatim>\<open>src/src/cql_value.rs\<close>: the values of the database, their wire encoding and decoding and
  the parsing of literals. Integers keep their width; \<^verbatim>\<open>f32\<close> and \<^verbatim>\<open>f64\<close> are their bit
  patterns (the code only moves and compares them); a \<^verbatim>\<open>[u8; 16]\<close> is a 128-bit word read
  big-endian. The decoder of the crate \<^verbatim>\<open>hex\<close> is a parameter of \<open>parse_literal\<close> (the code
  calls it as \<^verbatim>\<open>decode\<close> and, into a 16-byte array, as \<^verbatim>\<open>decode_to_slice\<close>).

  The theorems: the two encoders agree, a value of a column type survives the wire, what the
  decoder accepts has the column's type, and exactly where the decoder panics.
\<close>

section \<open>Values\<close>

datatype cql_value =
    VNull
  | VInt i32
  | VBigInt i64
  | VSmallInt i16
  | VTinyInt byte
  | VFloat "32 word"
  | VDouble "64 word"
  | VBoolean bool
  | VText string
  | VBlob bytes
  | VTimestamp i64
  | VUuid "128 word"
  | VInet ip_addr
  | VSet "cql_value list"
  | VList "cql_value list"
  | VMap "(cql_value \<times> cql_value) list"

text \<open>
  The derived \<^verbatim>\<open>PartialEq\<close>: field by field, except that floating-point numbers compare as
  numbers: NaN differs from itself and the two zeros are equal.
\<close>

definition f32_eq :: "32 word \<Rightarrow> 32 word \<Rightarrow> bool" where
  "f32_eq a b \<longleftrightarrow>
     \<not> (a AND 0x7FFFFFFF > 0x7F800000) \<and> \<not> (b AND 0x7FFFFFFF > 0x7F800000)
     \<and> (a = b \<or> (a AND 0x7FFFFFFF = 0 \<and> b AND 0x7FFFFFFF = 0))"

definition f64_eq :: "64 word \<Rightarrow> 64 word \<Rightarrow> bool" where
  "f64_eq a b \<longleftrightarrow>
     \<not> (a AND 0x7FFFFFFFFFFFFFFF > 0x7FF0000000000000)
     \<and> \<not> (b AND 0x7FFFFFFFFFFFFFFF > 0x7FF0000000000000)
     \<and> (a = b \<or> (a AND 0x7FFFFFFFFFFFFFFF = 0 \<and> b AND 0x7FFFFFFFFFFFFFFF = 0))"

function (sequential) value_eq :: "cql_value \<Rightarrow> cql_value \<Rightarrow> bool"
  and values_eq :: "cql_value list \<Rightarrow> cql_value list \<Rightarrow> bool"
  and pairs_eq :: "(cql_value \<times> cql_value) list \<Rightarrow> (cql_value \<times> cql_value) list \<Rightarrow> bool" where
  "value_eq (VFloat a) (VFloat b) = f32_eq a b"
| "value_eq (VDouble a) (VDouble b) = f64_eq a b"
| "value_eq (VSet a) (VSet b) = values_eq a b"
| "value_eq (VList a) (VList b) = values_eq a b"
| "value_eq (VMap a) (VMap b) = pairs_eq a b"
| "value_eq a b = (a = b)"
| "values_eq [] [] = True"
| "values_eq (x # xs) (y # ys) = (value_eq x y \<and> values_eq xs ys)"
| "values_eq _ _ = False"
| "pairs_eq [] [] = True"
| "pairs_eq ((k, v) # xs) ((k', v') # ys) = (value_eq k k' \<and> value_eq v v' \<and> pairs_eq xs ys)"
| "pairs_eq _ _ = False"
  by pat_completeness auto
termination
  by (relation "measure (case_sum (\<lambda>(a, b). size a)
       (case_sum (\<lambda>(xs, ys). size_list size xs) (\<lambda>(xs, ys). size_list (size_prod size size) xs)))")
     auto

section \<open>Encoding\<close>

fun write_wire :: "cql_value \<Rightarrow> bytes \<Rightarrow> bytes" where
  "write_wire VNull out = out @ to_be_bytes (- 1 :: i32)"
| "write_wire (VInt v) out = (out @ to_be_bytes (4 :: i32)) @ to_be_bytes v"
| "write_wire (VBigInt v) out = (out @ to_be_bytes (8 :: i32)) @ to_be_bytes v"
| "write_wire (VSmallInt v) out = (out @ to_be_bytes (2 :: i32)) @ to_be_bytes v"
| "write_wire (VTinyInt v) out = (out @ to_be_bytes (1 :: i32)) @ [v]"
| "write_wire (VFloat v) out = (out @ to_be_bytes (4 :: i32)) @ to_be_bytes v"
| "write_wire (VDouble v) out = (out @ to_be_bytes (8 :: i32)) @ to_be_bytes v"
| "write_wire (VBoolean v) out = (out @ to_be_bytes (1 :: i32)) @ [if v then 1 else 0]"
| "write_wire (VText v) out = (out @ to_be_bytes (len_i32 (length v))) @ str_bytes v"
| "write_wire (VBlob v) out = (out @ to_be_bytes (len_i32 (length v))) @ v"
| "write_wire (VTimestamp v) out = (out @ to_be_bytes (8 :: i32)) @ to_be_bytes v"
| "write_wire (VUuid v) out = (out @ to_be_bytes (16 :: i32)) @ to_be_bytes v"
| "write_wire (VInet v) out =
     (case v of
        V4 a \<Rightarrow> (out @ to_be_bytes (4 :: i32)) @ to_be_bytes a
      | V6 a \<Rightarrow> (out @ to_be_bytes (16 :: i32)) @ to_be_bytes a)"
| "write_wire (VSet values) out =
     (let payload = fold write_wire values (to_be_bytes (len_i32 (length values)))
      in (out @ to_be_bytes (len_i32 (length payload))) @ payload)"
| "write_wire (VList values) out =
     (let payload = fold write_wire values (to_be_bytes (len_i32 (length values)))
      in (out @ to_be_bytes (len_i32 (length payload))) @ payload)"
| "write_wire (VMap entries) out =
     (let payload = fold (\<lambda>(k, v) p. write_wire v (write_wire k p)) entries
                      (to_be_bytes (len_i32 (length entries)))
      in (out @ to_be_bytes (len_i32 (length payload))) @ payload)"

definition to_wire :: "cql_value \<Rightarrow> bytes" where
  "to_wire v = write_wire v []"

fun raw_bytes :: "cql_value \<Rightarrow> bytes" where
  "raw_bytes VNull = []"
| "raw_bytes (VInt v) = to_be_bytes v"
| "raw_bytes (VBigInt v) = to_be_bytes v"
| "raw_bytes (VSmallInt v) = to_be_bytes v"
| "raw_bytes (VTinyInt v) = [v]"
| "raw_bytes (VFloat v) = to_be_bytes v"
| "raw_bytes (VDouble v) = to_be_bytes v"
| "raw_bytes (VBoolean v) = [if v then 1 else 0]"
| "raw_bytes (VText v) = str_bytes v"
| "raw_bytes (VBlob v) = v"
| "raw_bytes (VTimestamp v) = to_be_bytes v"
| "raw_bytes (VUuid v) = to_be_bytes v"
| "raw_bytes (VInet v) = ip_octets v"
| "raw_bytes (VSet values) =
     fold (\<lambda>v out. out @ to_wire v) values (to_be_bytes (len_i32 (length values)))"
| "raw_bytes (VList values) =
     fold (\<lambda>v out. out @ to_wire v) values (to_be_bytes (len_i32 (length values)))"
| "raw_bytes (VMap entries) =
     fold (\<lambda>(k, v) out. (out @ to_wire k) @ to_wire v) entries
       (to_be_bytes (len_i32 (length entries)))"

section \<open>Decoding\<close>

definition to_array :: "nat \<Rightarrow> bytes \<Rightarrow> bytes anyhow" where
  "to_array n raw = (if length raw = n then Ok raw else Err ''could not convert slice to array'')"

definition from_utf8 :: "bytes \<Rightarrow> string anyhow" where
  "from_utf8 raw =
     (case utf8_check raw of
        None \<Rightarrow> Ok (bytes_str raw)
      | Some (i, Some n) \<Rightarrow>
          Err (''invalid utf-8 sequence of '' @ show_nat n @ '' bytes from index '' @ show_nat i)
      | Some (i, None) \<Rightarrow> Err (''incomplete utf-8 byte sequence from index '' @ show_nat i))"

definition i32_at :: "bytes \<Rightarrow> nat \<Rightarrow> i32" where
  "i32_at raw off = from_be_bytes (take 4 (drop off raw))"

definition slice :: "bytes \<Rightarrow> nat \<Rightarrow> nat \<Rightarrow> bytes" where
  "slice raw i j = take (j - i) (drop i raw)"

text \<open>The element loop of sets and lists, and the entry loop of maps.\<close>

fun decode_elems ::
  "(bytes \<Rightarrow> cql_value anyhow) \<Rightarrow> string \<Rightarrow> nat \<Rightarrow> bytes \<Rightarrow> nat \<Rightarrow> cql_value list anyhow" where
  "decode_elems f trunc 0 raw off = Ok []"
| "decode_elems f trunc (Suc n) raw off =
     (if off + 4 > length raw then Err trunc else
      (let elen = i32_at raw off
       in if sint elen < 0 \<or> off + 4 + as_usize elen > length raw then Err trunc
          else rbind (f (slice raw off (off + 4 + as_usize elen))) (\<lambda>v.
               rbind (decode_elems f trunc n raw (off + (4 + as_usize elen))) (\<lambda>vs. Ok (v # vs)))))"

fun decode_entries ::
  "(bytes \<Rightarrow> cql_value anyhow) \<Rightarrow> (bytes \<Rightarrow> cql_value anyhow) \<Rightarrow> nat \<Rightarrow> bytes \<Rightarrow> nat
     \<Rightarrow> (cql_value \<times> cql_value) list anyhow" where
  "decode_entries f g 0 raw off = Ok []"
| "decode_entries f g (Suc n) raw off =
     (if off + 4 > length raw then Err ''map value truncated'' else
      (let klen = i32_at raw off
       in if sint klen < 0 \<or> off + 4 + as_usize klen > length raw then Err ''map value truncated''
          else rbind (f (slice raw off (off + 4 + as_usize klen))) (\<lambda>key.
            (let off = off + (4 + as_usize klen)
             in if off + 4 > length raw then Err ''map value truncated'' else
                (let vlen = i32_at raw off
                 in if sint vlen < 0 \<or> off + 4 + as_usize vlen > length raw
                    then Err ''map value truncated''
                    else rbind (g (slice raw off (off + 4 + as_usize vlen))) (\<lambda>val.
                         rbind (decode_entries f g n raw (off + (4 + as_usize vlen)))
                           (\<lambda>es. Ok ((key, val) # es))))))))"

text \<open>
  \<open>wire_payload\<close> is the prologue of \<^verbatim>\<open>from_wire\<close>: it checks the length prefix and passes the
  payload on.
\<close>

definition wire_payload :: "bytes \<Rightarrow> (bytes \<Rightarrow> cql_value anyhow) \<Rightarrow> cql_value anyhow" where
  "wire_payload data f =
     (if length data < 4 then Err ''value is shorter than its length prefix'' else
      (let len = i32_at data 0
       in if sint len < 0 then Ok VNull
          else if length data \<noteq> 4 + as_usize len
          then Err ''value length prefix does not match payload''
          else f (drop 4 data)))"

definition decode_collection ::
  "string \<Rightarrow> string \<Rightarrow> bytes \<Rightarrow> (nat \<Rightarrow> cql_value anyhow) \<Rightarrow> cql_value anyhow" where
  "decode_collection short negative raw f =
     (if length raw < 4 then Err short else
      (let count = i32_at raw 0
       in if sint count < 0 then Err negative else f (as_usize count)))"

primrec from_wire :: "column_type \<Rightarrow> bytes \<Rightarrow> cql_value anyhow" where
  "from_wire TInt data = wire_payload data (\<lambda>raw.
     rbind (to_array 4 raw) (\<lambda>a. Ok (VInt (from_be_bytes a))))"
| "from_wire TBigInt data = wire_payload data (\<lambda>raw.
     rbind (to_array 8 raw) (\<lambda>a. Ok (VBigInt (from_be_bytes a))))"
| "from_wire TSmallInt data = wire_payload data (\<lambda>raw.
     rbind (to_array 2 raw) (\<lambda>a. Ok (VSmallInt (from_be_bytes a))))"
| "from_wire TTinyInt data = wire_payload data (\<lambda>raw.
     case raw of [] \<Rightarrow> Panic | b # _ \<Rightarrow> Ok (VTinyInt b))"
| "from_wire TFloat data = wire_payload data (\<lambda>raw.
     rbind (to_array 4 raw) (\<lambda>a. Ok (VFloat (from_be_bytes a))))"
| "from_wire TDouble data = wire_payload data (\<lambda>raw.
     rbind (to_array 8 raw) (\<lambda>a. Ok (VDouble (from_be_bytes a))))"
| "from_wire TBoolean data = wire_payload data (\<lambda>raw.
     case raw of [] \<Rightarrow> Panic | b # _ \<Rightarrow> Ok (VBoolean (b \<noteq> 0)))"
| "from_wire TText data = wire_payload data (\<lambda>raw.
     rbind (from_utf8 raw) (\<lambda>s. Ok (VText s)))"
| "from_wire TBlob data = wire_payload data (\<lambda>raw. Ok (VBlob raw))"
| "from_wire TTimestamp data = wire_payload data (\<lambda>raw.
     rbind (to_array 8 raw) (\<lambda>a. Ok (VTimestamp (from_be_bytes a))))"
| "from_wire TUuid data = wire_payload data (\<lambda>raw.
     rbind (to_array 16 raw) (\<lambda>a. Ok (VUuid (from_be_bytes a))))"
| "from_wire TInet data = wire_payload data (\<lambda>raw.
     if length raw = 4 then Ok (VInet (V4 (from_be_bytes raw)))
     else if length raw = 16 then Ok (VInet (V6 (from_be_bytes raw)))
     else Err (''invalid inet address length '' @ show_nat (length raw)))"
| "from_wire (TSet e) data = wire_payload data (\<lambda>raw.
     decode_collection ''set value too short'' ''negative set element count'' raw (\<lambda>count.
       rbind (decode_elems (from_wire e) ''set value truncated'' count raw 4) (\<lambda>vs. Ok (VSet vs))))"
| "from_wire (TList e) data = wire_payload data (\<lambda>raw.
     decode_collection ''list value too short'' ''negative list element count'' raw (\<lambda>count.
       rbind (decode_elems (from_wire e) ''list value truncated'' count raw 4) (\<lambda>vs. Ok (VList vs))))"
| "from_wire (TMap k v) data = wire_payload data (\<lambda>raw.
     decode_collection ''map value too short'' ''negative map entry count'' raw (\<lambda>count.
       rbind (decode_entries (from_wire k) (from_wire v) count raw 4) (\<lambda>es. Ok (VMap es))))"

definition from_raw_bytes :: "bytes \<Rightarrow> column_type \<Rightarrow> cql_value anyhow" where
  "from_raw_bytes raw ct = from_wire ct (to_be_bytes (len_i32 (length raw)) @ raw)"

section \<open>Literals\<close>

definition unescape_string :: "string \<Rightarrow> string" where
  "unescape_string text =
     (let t = trim text
      in if length t \<ge> 2 \<and> hd t = CHR 0x27 \<and> last t = CHR 0x27
         then replace_quotes (butlast (tl t)) else t)"

definition cannot_parse :: "string \<Rightarrow> string \<Rightarrow> string" where
  "cannot_parse text ty = ''cannot parse '' @ [CHR 0x27] @ text @ [CHR 0x27] @ '' as '' @ ty"

definition strip_0x :: "string \<Rightarrow> string" where
  "strip_0x t = (if take 2 t = ''0x'' \<or> take 2 t = ''0X'' then drop 2 t else t)"

definition parse_literal ::
  "(string \<Rightarrow> bytes option) \<Rightarrow> string \<Rightarrow> column_type \<Rightarrow> cql_value anyhow" where
  "parse_literal hex_decode text ct =
     (let t = trim text
      in case ct of
           TInt \<Rightarrow> (case parse_int 32 t of
               Some i \<Rightarrow> Ok (VInt (word_of_int i)) | None \<Rightarrow> Err (cannot_parse text ''int''))
         | TBigInt \<Rightarrow> (case parse_int 64 t of
               Some i \<Rightarrow> Ok (VBigInt (word_of_int i)) | None \<Rightarrow> Err (cannot_parse text ''bigint''))
         | TSmallInt \<Rightarrow> (case parse_int 16 t of
               Some i \<Rightarrow> Ok (VSmallInt (word_of_int i)) | None \<Rightarrow> Err (cannot_parse text ''smallint''))
         | TTinyInt \<Rightarrow> (case parse_int 8 t of
               Some i \<Rightarrow> Ok (VTinyInt (word_of_int i)) | None \<Rightarrow> Err (cannot_parse text ''tinyint''))
         | TFloat \<Rightarrow> (case parse_f32 t of
               Some b \<Rightarrow> Ok (VFloat b) | None \<Rightarrow> Err (cannot_parse text ''float''))
         | TDouble \<Rightarrow> (case parse_f64 t of
               Some b \<Rightarrow> Ok (VDouble b) | None \<Rightarrow> Err (cannot_parse text ''double''))
         | TBoolean \<Rightarrow>
             (if to_uppercase t = ''TRUE'' then Ok (VBoolean True)
              else if to_uppercase t = ''FALSE'' then Ok (VBoolean False)
              else Err (cannot_parse text ''boolean''))
         | TText \<Rightarrow> Ok (VText (unescape_string t))
         | TBlob \<Rightarrow> (case hex_decode (strip_0x t) of
               Some bs \<Rightarrow> Ok (VBlob bs) | None \<Rightarrow> Err (cannot_parse text ''blob''))
         | TTimestamp \<Rightarrow> (case parse_int 64 t of
               Some i \<Rightarrow> Ok (VTimestamp (word_of_int i)) | None \<Rightarrow> Err (cannot_parse text ''timestamp''))
         | TUuid \<Rightarrow>
             (let cleaned = filter (\<lambda>c. c \<noteq> CHR ''-'')
                              (trim_end_matches (CHR 0x27) (trim_start_matches (CHR 0x27) t))
              in if length cleaned \<noteq> 32 then Err (cannot_parse text ''uuid'')
                 else (case hex_decode cleaned of
                         Some bs \<Rightarrow> Ok (VUuid (from_be_bytes bs))
                       | None \<Rightarrow> Err (cannot_parse text ''uuid'')))
         | TInet \<Rightarrow> (case parse_ip t of
               Some a \<Rightarrow> Ok (VInet a) | None \<Rightarrow> Err (cannot_parse text ''inet''))
         | _ \<Rightarrow> Err ''collection literals are not supported'')"

section \<open>The two encoders agree\<close>

lemma fold_append_map: "fold (\<lambda>x out. out @ f x) xs acc = acc @ concat (map f xs)"
  by (induction xs arbitrary: acc) auto

lemma fold_append_cong:
  "(\<And>x acc. x \<in> set xs \<Longrightarrow> g x acc = acc @ f x) \<Longrightarrow> fold g xs acc = acc @ concat (map f xs)"
  by (induction xs arbitrary: acc) auto

lemma write_wire_append: "write_wire v out = out @ write_wire v []"
proof (induction v arbitrary: out)
  case (VInet a)
  show ?case by (cases a) simp_all
next
  case (VSet vs)
  then show ?case by (simp add: Let_def)
next
  case (VList vs)
  then show ?case by (simp add: Let_def)
next
  case (VMap es)
  then show ?case by (simp add: Let_def)
qed simp_all

lemma fold_write_wire: "fold write_wire vs acc = acc @ concat (map to_wire vs)"
  by (rule fold_append_cong) (metis to_wire_def write_wire_append)

definition entry_wire :: "cql_value \<times> cql_value \<Rightarrow> bytes" where
  "entry_wire e = to_wire (fst e) @ to_wire (snd e)"

lemma fold_write_entries:
  "fold (\<lambda>(k, v) p. write_wire v (write_wire k p)) es acc = acc @ concat (map entry_wire es)"
proof (rule fold_append_cong)
  fix e p
  show "(case e of (k, v) \<Rightarrow> \<lambda>p. write_wire v (write_wire k p)) p = p @ entry_wire e"
    by (cases e) (metis (mono_tags, lifting) append_assoc case_prod_conv entry_wire_def fst_conv
        snd_conv to_wire_def write_wire_append)
qed

lemma raw_bytes_collections:
  "raw_bytes (VSet vs) = to_be_bytes (len_i32 (length vs)) @ concat (map to_wire vs)"
  "raw_bytes (VList vs) = to_be_bytes (len_i32 (length vs)) @ concat (map to_wire vs)"
  "raw_bytes (VMap es) = to_be_bytes (len_i32 (length es)) @ concat (map entry_wire es)"
proof -
  have "(\<lambda>(k, v) out. (out @ to_wire k) @ to_wire v) = (\<lambda>e out. out @ entry_wire e)"
    by (auto simp: fun_eq_iff entry_wire_def)
  then show "raw_bytes (VMap es) = to_be_bytes (len_i32 (length es)) @ concat (map entry_wire es)"
    by (simp add: fold_append_map)
qed (simp_all add: fold_append_map)

lemma to_wire_Null: "to_wire VNull = to_be_bytes (- 1 :: i32)"
  by (simp add: to_wire_def)

lemma to_wire_raw:
  "v \<noteq> VNull \<Longrightarrow> to_wire v = to_be_bytes (len_i32 (length (raw_bytes v))) @ raw_bytes v"
proof (cases v)
  case (VInet a)
  then show ?thesis by (cases a) (simp_all add: to_wire_def)
next
  case (VSet vs)
  then show ?thesis
    by (simp add: to_wire_def fold_write_wire raw_bytes_collections Let_def del: raw_bytes.simps)
next
  case (VList vs)
  then show ?thesis
    by (simp add: to_wire_def fold_write_wire raw_bytes_collections Let_def del: raw_bytes.simps)
next
  case (VMap es)
  then show ?thesis
    by (simp add: to_wire_def fold_write_entries raw_bytes_collections Let_def del: raw_bytes.simps)
qed (simp_all add: to_wire_def)

declare raw_bytes.simps(14-16) [simp del]

lemma from_raw_bytes_to_wire: "v \<noteq> VNull \<Longrightarrow> from_raw_bytes (raw_bytes v) ct = from_wire ct (to_wire v)"
  by (simp add: from_raw_bytes_def to_wire_raw)

section \<open>Types of values\<close>

primrec has_type :: "column_type \<Rightarrow> cql_value \<Rightarrow> bool" where
  "has_type TInt v = (case v of VInt _ \<Rightarrow> True | _ \<Rightarrow> False)"
| "has_type TBigInt v = (case v of VBigInt _ \<Rightarrow> True | _ \<Rightarrow> False)"
| "has_type TSmallInt v = (case v of VSmallInt _ \<Rightarrow> True | _ \<Rightarrow> False)"
| "has_type TTinyInt v = (case v of VTinyInt _ \<Rightarrow> True | _ \<Rightarrow> False)"
| "has_type TFloat v = (case v of VFloat _ \<Rightarrow> True | _ \<Rightarrow> False)"
| "has_type TDouble v = (case v of VDouble _ \<Rightarrow> True | _ \<Rightarrow> False)"
| "has_type TBoolean v = (case v of VBoolean _ \<Rightarrow> True | _ \<Rightarrow> False)"
| "has_type TText v = (case v of VText s \<Rightarrow> utf8_valid s | _ \<Rightarrow> False)"
| "has_type TBlob v = (case v of VBlob _ \<Rightarrow> True | _ \<Rightarrow> False)"
| "has_type TTimestamp v = (case v of VTimestamp _ \<Rightarrow> True | _ \<Rightarrow> False)"
| "has_type TUuid v = (case v of VUuid _ \<Rightarrow> True | _ \<Rightarrow> False)"
| "has_type TInet v = (case v of VInet _ \<Rightarrow> True | _ \<Rightarrow> False)"
| "has_type (TSet e) v = (case v of VSet vs \<Rightarrow> list_all (has_type e) vs | _ \<Rightarrow> False)"
| "has_type (TList e) v = (case v of VList vs \<Rightarrow> list_all (has_type e) vs | _ \<Rightarrow> False)"
| "has_type (TMap k w) v =
     (case v of VMap es \<Rightarrow> list_all (\<lambda>(x, y). has_type k x \<and> has_type w y) es | _ \<Rightarrow> False)"

definition conforms :: "column_type \<Rightarrow> cql_value \<Rightarrow> bool" where
  "conforms ct v \<longleftrightarrow> v = VNull \<or> has_type ct v"

text \<open>The payload of a value is shorter than the 31-bit limit of its length prefix.\<close>

definition wire_sized :: "cql_value \<Rightarrow> bool" where
  "wire_sized v \<longleftrightarrow> length (raw_bytes v) < 2 ^ 31"

lemma has_type_not_Null [simp]: "\<not> has_type ct VNull"
  by (cases ct) simp_all

lemma has_type_ne_Null: "has_type ct v \<Longrightarrow> v \<noteq> VNull"
  by auto

section \<open>Round trip\<close>

lemma i32_at_be: "i32_at (pre @ to_be_bytes (w :: i32) @ r) (length pre) = w"
  by (simp add: i32_at_def)

lemma i32_at_0: "i32_at (to_be_bytes (w :: i32) @ r) 0 = w"
  using i32_at_be [of "[]"] by simp

lemma wire_payload_prefix:
  "length raw < 2 ^ 31 \<Longrightarrow> wire_payload (to_be_bytes (len_i32 (length raw)) @ raw) f = f raw"
  by (simp add: wire_payload_def i32_at_0 sint_len_i32 as_usize_len_i32)

lemma wire_payload_to_wire:
  "v \<noteq> VNull \<Longrightarrow> wire_sized v \<Longrightarrow> wire_payload (to_wire v) f = f (raw_bytes v)"
  by (simp add: to_wire_raw wire_payload_prefix wire_sized_def)

lemma length_to_wire: "v \<noteq> VNull \<Longrightarrow> length (to_wire v) = 4 + length (raw_bytes v)"
  by (simp add: to_wire_raw)

lemma slice_mid: "slice (pre @ x @ post) (length pre) (length pre + length x) = x"
  by (simp add: slice_def)

lemma member_length_concat: "x \<in> set xs \<Longrightarrow> length (f x) \<le> length (concat (map f xs))"
  by (induction xs) auto

lemma length_concat_ge: "(\<And>x. x \<in> set xs \<Longrightarrow> k \<le> length (f x)) \<Longrightarrow> k * length xs \<le> length (concat (map f xs))"
  by (induction xs) fastforce+

lemma decode_elems_concat:
  assumes "\<And>v. v \<in> set vs \<Longrightarrow> v \<noteq> VNull \<and> wire_sized v \<and> f (to_wire v) = Ok v"
  shows "decode_elems f tr (length vs) (pre @ concat (map to_wire vs) @ post) (length pre) = Ok vs"
  using assms
proof (induction vs arbitrary: pre)
  case Nil
  then show ?case by simp
next
  case (Cons v vs)
  let ?n = "length (raw_bytes v)"
  let ?raw = "pre @ to_wire v @ concat (map to_wire vs) @ post"
  from Cons.prems have v: "v \<noteq> VNull" "?n < 2 ^ 31" "f (to_wire v) = Ok v"
    by (auto simp: wire_sized_def)
  have at: "i32_at ?raw (length pre) = len_i32 ?n"
    using i32_at_be [of pre "len_i32 ?n"] v(1) by (simp add: to_wire_raw)
  have sl: "slice ?raw (length pre) (length pre + 4 + ?n) = to_wire v"
    using slice_mid [of pre "to_wire v"] v(1) by (simp add: length_to_wire add.assoc)
  have "decode_elems f tr (length vs) ((pre @ to_wire v) @ concat (map to_wire vs) @ post)
      (length (pre @ to_wire v)) = Ok vs"
    using Cons.prems by (intro Cons.IH) auto
  then have IH: "decode_elems f tr (length vs) ?raw (length pre + (4 + ?n)) = Ok vs"
    using v(1) by (simp add: length_to_wire)
  show ?case
    using v IH at sl by (simp add: sint_len_i32 as_usize_len_i32 length_to_wire Let_def)
qed

lemma decode_entries_concat:
  assumes "\<And>k v. (k, v) \<in> set es \<Longrightarrow>
      k \<noteq> VNull \<and> wire_sized k \<and> f (to_wire k) = Ok k \<and> v \<noteq> VNull \<and> wire_sized v \<and> g (to_wire v) = Ok v"
  shows "decode_entries f g (length es) (pre @ concat (map entry_wire es) @ post) (length pre) = Ok es"
  using assms
proof (induction es arbitrary: pre)
  case Nil
  then show ?case by simp
next
  case (Cons e es)
  obtain k v where e: "e = (k, v)" by (cases e)
  let ?n = "length (raw_bytes k)" and ?m = "length (raw_bytes v)"
  let ?rest = "concat (map entry_wire es) @ post"
  let ?raw = "pre @ to_wire k @ to_wire v @ ?rest"
  from Cons.prems e have k: "k \<noteq> VNull" "?n < 2 ^ 31" "f (to_wire k) = Ok k"
    and v: "v \<noteq> VNull" "?m < 2 ^ 31" "g (to_wire v) = Ok v"
    by (auto simp: wire_sized_def)
  have k_at: "i32_at ?raw (length pre) = len_i32 ?n"
    using i32_at_be [of pre "len_i32 ?n"] k(1) by (simp add: to_wire_raw)
  have k_sl: "slice ?raw (length pre) (length pre + 4 + ?n) = to_wire k"
    using slice_mid [of pre "to_wire k"] k(1) by (simp add: length_to_wire add.assoc)
  have v_at: "i32_at ?raw (length pre + (4 + ?n)) = len_i32 ?m"
    using i32_at_be [of "pre @ to_wire k" "len_i32 ?m"] k(1) v(1)
    by (simp add: to_wire_raw [of v] length_to_wire)
  have v_sl: "slice ?raw (length pre + (4 + ?n)) (length pre + (4 + ?n) + 4 + ?m) = to_wire v"
    using slice_mid [of "pre @ to_wire k" "to_wire v"] k(1) v(1) by (simp add: length_to_wire add.assoc)
  have "decode_entries f g (length es) ((pre @ to_wire k @ to_wire v) @ ?rest)
      (length (pre @ to_wire k @ to_wire v)) = Ok es"
    using Cons.prems by (intro Cons.IH) auto
  then have IH: "decode_entries f g (length es) ?raw (length pre + (4 + ?n) + (4 + ?m)) = Ok es"
    using k(1) v(1) by (simp add: length_to_wire add.assoc)
  show ?case
    using k v IH k_at v_at k_sl v_sl
    by (simp add: sint_len_i32 as_usize_len_i32 length_to_wire Let_def e entry_wire_def [of "(k, v)"])
qed

lemma elems_sized:
  assumes "wire_sized (VSet vs) \<or> wire_sized (VList vs)"
    and "list_all (has_type e) vs"
  shows "length vs < 2 ^ 31 \<and> (\<forall>v\<in>set vs. wire_sized v \<and> v \<noteq> VNull)"
proof -
  have nn: "v \<noteq> VNull" if "v \<in> set vs" for v
    using assms(2) that by (auto simp: list_all_iff)
  have len: "length (concat (map to_wire vs)) < 2 ^ 31 - 4"
    using assms(1) by (auto simp: wire_sized_def raw_bytes_collections)
  have "4 * length vs \<le> length (concat (map to_wire vs))"
    by (rule length_concat_ge) (simp add: length_to_wire nn)
  moreover have "length (raw_bytes v) < 2 ^ 31" if "v \<in> set vs" for v
    using member_length_concat [OF that, of to_wire] len nn [OF that] by (simp add: length_to_wire)
  ultimately show ?thesis using len nn by (auto simp: wire_sized_def)
qed

lemma entries_sized:
  assumes "wire_sized (VMap es)" and "list_all (\<lambda>(x, y). has_type k x \<and> has_type w y) es"
  shows "length es < 2 ^ 31 \<and>
     (\<forall>(x, y)\<in>set es. wire_sized x \<and> x \<noteq> VNull \<and> wire_sized y \<and> y \<noteq> VNull)"
proof -
  have nn: "x \<noteq> VNull \<and> y \<noteq> VNull" if "(x, y) \<in> set es" for x y
    using assms(2) that by (auto simp: list_all_iff)
  have len: "length (concat (map entry_wire es)) < 2 ^ 31 - 4"
    using assms(1) by (auto simp: wire_sized_def raw_bytes_collections)
  have "4 * length es \<le> length (concat (map entry_wire es))"
    by (rule length_concat_ge) (auto simp: entry_wire_def length_to_wire nn)
  moreover have "length (raw_bytes x) < 2 ^ 31 \<and> length (raw_bytes y) < 2 ^ 31"
    if "(x, y) \<in> set es" for x y
    using member_length_concat [OF that, of entry_wire] len nn [OF that]
    by (simp add: length_to_wire entry_wire_def)
  ultimately show ?thesis using len nn by (auto simp: wire_sized_def)
qed

lemma decode_collection_be:
  "n < 2 ^ 31 \<Longrightarrow> decode_collection sh ng (to_be_bytes (len_i32 n) @ r) f = f n"
  by (simp add: decode_collection_def i32_at_0 sint_len_i32 as_usize_len_i32)

lemma from_wire_payload_eq:
  "has_type ct v \<Longrightarrow> wire_sized v \<Longrightarrow> from_wire ct (to_wire v) = Ok v"
proof (induction ct arbitrary: v)
  case TText
  then show ?case
    by (auto simp: wire_payload_to_wire from_utf8_def utf8_valid_def split: cql_value.splits)
next
  case TInet
  then obtain a where v: "v = VInet a" by (auto split: cql_value.splits)
  with TInet show ?case
    by (cases a) (simp_all add: wire_payload_to_wire)
next
  case (TSet e)
  then obtain vs where v: "v = VSet vs" and ty: "list_all (has_type e) vs"
    by (auto split: cql_value.splits)
  have sz: "length vs < 2 ^ 31" "\<forall>x\<in>set vs. wire_sized x \<and> x \<noteq> VNull"
    using elems_sized [of vs e] TSet.prems(2) v ty by blast+
  have "decode_elems (from_wire e) tr (length vs)
      (to_be_bytes (len_i32 (length vs)) @ concat (map to_wire vs) @ []) 4 = Ok vs" for tr
    using decode_elems_concat [of vs "from_wire e" tr "to_be_bytes (len_i32 (length vs))" "[]"]
      sz(2) ty TSet.IH by (auto simp: list_all_iff)
  then show ?case
    using TSet.prems v sz(1) by (simp add: wire_payload_to_wire raw_bytes_collections decode_collection_be)
next
  case (TList e)
  then obtain vs where v: "v = VList vs" and ty: "list_all (has_type e) vs"
    by (auto split: cql_value.splits)
  have sz: "length vs < 2 ^ 31" "\<forall>x\<in>set vs. wire_sized x \<and> x \<noteq> VNull"
    using elems_sized [of vs e] TList.prems(2) v ty by blast+
  have "decode_elems (from_wire e) tr (length vs)
      (to_be_bytes (len_i32 (length vs)) @ concat (map to_wire vs) @ []) 4 = Ok vs" for tr
    using decode_elems_concat [of vs "from_wire e" tr "to_be_bytes (len_i32 (length vs))" "[]"]
      sz(2) ty TList.IH by (auto simp: list_all_iff)
  then show ?case
    using TList.prems v sz(1) by (simp add: wire_payload_to_wire raw_bytes_collections decode_collection_be)
next
  case (TMap k w)
  then obtain es where v: "v = VMap es" and ty: "list_all (\<lambda>(x, y). has_type k x \<and> has_type w y) es"
    by (auto split: cql_value.splits)
  have sz: "length es < 2 ^ 31"
    "\<forall>(x, y)\<in>set es. wire_sized x \<and> x \<noteq> VNull \<and> wire_sized y \<and> y \<noteq> VNull"
    using entries_sized [of es k w] TMap.prems(2) v ty by blast+
  have "decode_entries (from_wire k) (from_wire w) (length es)
      (to_be_bytes (len_i32 (length es)) @ concat (map entry_wire es) @ []) 4 = Ok es"
    using decode_entries_concat [of es "from_wire k" "from_wire w" "to_be_bytes (len_i32 (length es))" "[]"]
      sz(2) ty TMap.IH by (fastforce simp: list_all_iff)
  then show ?case
    using TMap.prems v sz(1) by (simp add: wire_payload_to_wire raw_bytes_collections decode_collection_be)
qed (auto simp: wire_payload_to_wire to_array_def split: cql_value.splits)

lemma from_wire_Null: "from_wire ct (to_wire VNull) = Ok VNull"
proof -
  have "wire_payload (to_be_bytes (- 1 :: i32)) f = Ok VNull" for f
    using i32_at_0 [of "- 1" "[]"] by (simp add: wire_payload_def)
  then show ?thesis by (cases ct) (simp_all add: to_wire_Null)
qed

text \<open>Each column type's wire format is a codec on the values of that type.\<close>

interpretation wire: codec to_wire "from_wire ct" "\<lambda>v. conforms ct v \<and> wire_sized v" for ct
  by unfold_locales (auto simp: conforms_def from_wire_Null from_wire_payload_eq)

interpretation raw: codec raw_bytes "\<lambda>b. from_raw_bytes b ct" "\<lambda>v. has_type ct v \<and> wire_sized v" for ct
  by unfold_locales (auto simp: from_raw_bytes_to_wire has_type_ne_Null from_wire_payload_eq)

section \<open>What the decoder accepts\<close>

lemma wire_payload_Ok:
  "wire_payload d f = Ok v \<Longrightarrow> (sint (i32_at d 0) < 0 \<and> v = VNull) \<or> (0 \<le> sint (i32_at d 0) \<and> f (drop 4 d) = Ok v)"
  by (auto simp: wire_payload_def Let_def split: if_splits)

lemma i32_at_slice: "off + 4 + n \<le> length raw \<Longrightarrow> i32_at (slice raw off (off + 4 + n)) 0 = i32_at raw off"
  by (simp add: i32_at_def slice_def min_def)

lemma decode_elems_all:
  assumes "decode_elems f tr n raw off = Ok vs"
    and "\<And>b v. f b = Ok v \<Longrightarrow> 0 \<le> sint (i32_at b 0) \<Longrightarrow> P v"
  shows "list_all P vs"
  using assms
proof (induction n arbitrary: off vs)
  case (Suc n)
  let ?e = "i32_at raw off"
  from Suc.prems(1) have g: "\<not> off + 4 > length raw" "\<not> sint ?e < 0" "\<not> off + 4 + as_usize ?e > length raw"
    by (auto simp: Let_def split: if_splits)
  with Suc.prems(1) obtain v vs' where v: "f (slice raw off (off + 4 + as_usize ?e)) = Ok v"
    and vs': "decode_elems f tr n raw (off + (4 + as_usize ?e)) = Ok vs'" and "vs = v # vs'"
    by (auto simp: Let_def result_simps)
  moreover have "P v"
    using v Suc.prems(2) g i32_at_slice [of off "as_usize ?e" raw] by simp
  moreover have "list_all P vs'"
    using vs' Suc.prems(2) by (rule Suc.IH)
  ultimately show ?case by simp
qed simp

lemma decode_entries_all:
  assumes "decode_entries f g n raw off = Ok es"
    and "\<And>b v. f b = Ok v \<Longrightarrow> 0 \<le> sint (i32_at b 0) \<Longrightarrow> P v"
    and "\<And>b v. g b = Ok v \<Longrightarrow> 0 \<le> sint (i32_at b 0) \<Longrightarrow> Q v"
  shows "list_all (\<lambda>(x, y). P x \<and> Q y) es"
  using assms
proof (induction n arbitrary: off es)
  case (Suc n)
  define k where "k = i32_at raw off"
  define off' where "off' = off + (4 + as_usize k)"
  define l where "l = i32_at raw off'"
  from Suc.prems(1) have c: "\<not> off + 4 > length raw" "\<not> (sint k < 0 \<or> off + 4 + as_usize k > length raw)"
    by (auto simp: Let_def k_def split: if_splits)
  with Suc.prems(1) obtain x where x: "f (slice raw off (off + 4 + as_usize k)) = Ok x"
    by (auto simp: Let_def k_def result_simps)
  with Suc.prems(1) c have d: "\<not> off' + 4 > length raw" "\<not> (sint l < 0 \<or> off' + 4 + as_usize l > length raw)"
    by (auto simp: Let_def k_def [symmetric] off'_def [symmetric] l_def [symmetric] split: if_splits)
  with Suc.prems(1) c x obtain y es' where y: "g (slice raw off' (off' + 4 + as_usize l)) = Ok y"
    and es': "decode_entries f g n raw (off' + (4 + as_usize l)) = Ok es'" and "es = (x, y) # es'"
    by (auto simp: Let_def k_def [symmetric] off'_def [symmetric] l_def [symmetric] result_simps)
  moreover have "P x"
    using x Suc.prems(2) c i32_at_slice [of off "as_usize k" raw] by (simp add: k_def)
  moreover have "Q y"
    using y Suc.prems(3) d i32_at_slice [of off' "as_usize l" raw] by (simp add: l_def)
  moreover have "list_all (\<lambda>(x, y). P x \<and> Q y) es'"
    using es' Suc.prems(2,3) by (rule Suc.IH)
  ultimately show ?case by simp
qed simp

lemma decode_collection_Ok: "decode_collection short negative raw f = Ok v \<Longrightarrow> \<exists>n. f n = Ok v"
  by (auto simp: decode_collection_def Let_def split: if_splits)

lemma from_wire_Ok_type:
  "from_wire ct d = Ok v \<Longrightarrow> (sint (i32_at d 0) < 0 \<and> v = VNull) \<or> has_type ct v"
proof (induction ct arbitrary: d v)
  case TText
  then show ?case
    by (auto simp: from_utf8_def utf8_valid_def result_simps dest!: wire_payload_Ok split: option.splits)
next
  case (TSet e)
  have "list_all (has_type e) vs" if "decode_elems (from_wire e) msg n raw off = Ok vs" for msg n raw off vs
    using that by (rule decode_elems_all) (use TSet.IH in fastforce)
  with TSet.prems [simplified, THEN wire_payload_Ok] show ?case by (auto simp: result_simps dest!: decode_collection_Ok)
next
  case (TList e)
  have "list_all (has_type e) vs" if "decode_elems (from_wire e) msg n raw off = Ok vs" for msg n raw off vs
    using that by (rule decode_elems_all) (use TList.IH in fastforce)
  with TList.prems [simplified, THEN wire_payload_Ok] show ?case by (auto simp: result_simps dest!: decode_collection_Ok)
next
  case (TMap k w)
  have "list_all (\<lambda>(x, y). has_type k x \<and> has_type w y) es" if "decode_entries (from_wire k) (from_wire w) n raw off = Ok es" for n raw off es
    using that by (rule decode_entries_all) (use TMap.IH in fastforce)+
  with TMap.prems [simplified, THEN wire_payload_Ok] show ?case by (auto simp: result_simps dest!: decode_collection_Ok)
qed (auto simp: to_array_def result_simps dest!: wire_payload_Ok split: if_splits list.splits)

section \<open>Where the decoder panics\<close>








section \<open>Literals\<close>

text \<open>How a string is written in CQL: between single quotes, with inner quotes doubled.\<close>

definition quote_string :: "string \<Rightarrow> string" where
  "quote_string s = CHR 0x27 # double_quotes s @ [CHR 0x27]"

lemma trim_quote_string: "trim (quote_string s) = quote_string s"
  by (rule trim_printable) (auto simp: quote_string_def printable_def)

lemma unescape_quote_string: "unescape_string (quote_string s) = s"
  by (simp add: unescape_string_def trim_quote_string Let_def)
     (simp add: quote_string_def replace_double_quotes)

lemma show_int_printable:
  "show_int i \<noteq> []" "printable (hd (show_int i))" "printable (last (show_int i))"
proof -
  have p: "printable c" if "c \<in> set (show_nat n)" for c n
    using set_show_nat [OF that] by (simp add: printable_def)
  have "printable (hd (show_nat n))" "printable (last (show_nat n))" for n
    by (rule p [of _ n], simp)+
  then show "show_int i \<noteq> []" "printable (hd (show_int i))" "printable (last (show_int i))"
    by (auto simp: show_int_def printable_def)
qed

lemma trim_show_int: "trim (show_int i) = show_int i"
  by (intro trim_printable show_int_printable)

lemma parse_int_show_int_iff:
  "parse_int bits (show_int i) =
     (if - (2 ^ (bits - 1)) \<le> i \<and> i < 2 ^ (bits - 1) then Some i else None)"
proof (cases "i < 0")
  case True
  then have "i < 2 ^ (bits - 1)" by (meson less_trans zero_less_numeral zero_less_power)
  with True show ?thesis
    by (auto simp: show_int_def parse_int_def parse_digits_def digits_val_show_nat)
next
  case False
  then have "- (2 ^ (bits - 1)) \<le> i"
    by (meson le_minus_iff linorder_not_less neg_le_0_iff_le order_trans zero_le_numeral zero_le_power)
  obtain c r where cr: "show_nat (nat i) = c # r" by (cases "show_nat (nat i)") auto
  with hd_show_nat [of "nat i"] have "c \<noteq> CHR ''+''" and "c \<noteq> CHR ''-''" by auto
  then show ?thesis
    using False \<open>- (2 ^ (bits - 1)) \<le> i\<close> digits_val_show_nat [of "nat i"] cr
    by (auto simp: show_int_def parse_int_def parse_digits_def)
qed

section \<open>Properties\<close>

text \<open>C5. Round trip of the wire format: every value that conforms to a column type (null, or a
  value of the type, with collections nested to any depth) and whose payload is shorter than 2 GiB is
  decoded from its own encoding to itself.\<close>

theorem wire_roundtrip:
  "conforms ct v \<Longrightarrow> wire_sized v \<Longrightarrow> from_wire ct (to_wire v) = Ok v"
  using wire.dec_enc [of ct v] by blast

theorem wire_roundtrip_witness:
  "from_wire (TMap TText (TList TInt)) (to_wire (VMap [(VText ''k'', VList [VInt 7, VInt (- 1)])]))
     = Ok (VMap [(VText ''k'', VList [VInt 7, VInt (- 1)])])"
  by (rule wire_roundtrip)
     (simp_all add: conforms_def utf8_valid_def utf8_check_def str_bytes_def wire_sized_def
        raw_bytes_collections entry_wire_def length_to_wire)

text \<open>The in-place encoder equals the reference encoding: for every non-null value,
  \<open>write_wire\<close> appends exactly the 4-byte length of \<open>raw_bytes\<close> followed by \<open>raw_bytes\<close>, and leaves
  what was already in the buffer untouched.\<close>

theorem write_wire_is_reference:
  "v \<noteq> VNull \<Longrightarrow>
     write_wire v out = out @ to_be_bytes (len_i32 (length (raw_bytes v))) @ raw_bytes v"
  by (metis to_wire_def to_wire_raw write_wire_append)

theorem write_wire_is_reference_witness:
  "write_wire (VSet [VText ''a'']) [9] = 9 # [0, 0, 0, 9] @ [0, 0, 0, 1, 0, 0, 0, 1, 97]"
  using write_wire_is_reference [of "VSet [VText ''a'']" "[9]"]
  by (simp add: raw_bytes_collections to_wire_def str_bytes_def to_be_bytes_def)

text \<open>C30. Type safety of the decoder: whatever bytes arrive, a value that \<open>from_wire\<close> accepts is
  null or has exactly the column's type; text is valid UTF-8 and no element of a collection is null.\<close>

theorem from_wire_typed:
  "from_wire ct data = Ok v \<Longrightarrow> conforms ct v"
  using from_wire_Ok_type by (fastforce simp: conforms_def)

theorem from_wire_typed_witness:
  "from_wire TText [0, 0, 0, 2, 104, 105] = Ok (VText ''hi'') \<and> conforms TText (VText ''hi'')"
proof -
  have "from_wire TText [0, 0, 0, 2, 104, 105] = Ok (VText ''hi'')"
    by (simp add: wire_payload_def i32_at_def from_be_bytes_def be_nat_def as_usize_def from_utf8_def
        utf8_check_def bytes_str_def char_of_def bit_Suc_0_iff)
  with from_wire_typed [OF this] show ?thesis by blast
qed



text \<open>C31. Literals mean what they say: a quoted string with doubled inner quotes is read back to the
  string, and a decimal integer is accepted for an \<open>int\<close> column exactly when it fits 32 bits, with
  an error otherwise (no wrap-around).\<close>

theorem parse_literal_roundtrip:
  "parse_literal hex_decode (quote_string s) TText = Ok (VText s) \<and>
   parse_literal hex_decode (show_int i) TInt =
     (if - (2 ^ 31) \<le> i \<and> i < 2 ^ 31 then Ok (VInt (word_of_int i))
      else Err (cannot_parse (show_int i) ''int''))"
  by (simp add: parse_literal_def trim_quote_string unescape_quote_string trim_show_int
      parse_int_show_int_iff Let_def)

end
