(* ===== verification/Keys.thy ===== *)
theory Keys
  imports CqlValue
begin

text \<open>
  \<^verbatim>\<open>src/src/storage.rs\<close>, the pure part: the key layout (\<^verbatim>\<open>ks!\<close>, \<^verbatim>\<open>tb!\<close>, \<^verbatim>\<open>dt!\<close> namespaces,
  length-prefixed key parts), the routing hash, the upper bound of a prefix range and the sparse row
  format. Keys are ordered as RocksDB orders them, bytewise and lexicographically, which is the order
  of the lists of bytes here.
\<close>

section \<open>Namespaces and routing\<close>

definition KS_PREFIX :: bytes where "KS_PREFIX = str_bytes ''ks!''"
definition TB_PREFIX :: bytes where "TB_PREFIX = str_bytes ''tb!''"
definition DT_PREFIX :: bytes where "DT_PREFIX = str_bytes ''dt!''"

abbreviation bang :: bytes where
  "bang \<equiv> str_bytes ''!''"

definition fnv1a :: "bytes \<Rightarrow> u64" where
  "fnv1a bs = fold (\<lambda>b h. (h XOR ucast b) * 0x100000001b3) bs 0xcbf29ce484222325"

definition engine_of :: "nat \<Rightarrow> bytes \<Rightarrow> nat" where
  "engine_of ndbs routing_key =
     (if ndbs \<le> 1 then 0 else unat (fnv1a routing_key mod word_of_nat ndbs))"

definition data_engine :: "nat \<Rightarrow> string \<Rightarrow> string \<Rightarrow> bytes \<Rightarrow> nat" where
  "data_engine ndbs keyspace table first_part =
     engine_of ndbs (DT_PREFIX @ str_bytes keyspace @ bang @ str_bytes table @ bang @ first_part)"

definition data_prefix :: "string \<Rightarrow> string \<Rightarrow> bytes" where
  "data_prefix keyspace table = DT_PREFIX @ str_bytes keyspace @ bang @ str_bytes table @ bang"

definition ks_key :: "string \<Rightarrow> bytes" where
  "ks_key name = KS_PREFIX @ str_bytes name"

definition tb_key :: "string \<Rightarrow> string \<Rightarrow> bytes" where
  "tb_key keyspace table = TB_PREFIX @ str_bytes keyspace @ bang @ str_bytes table"

text \<open>\<^verbatim>\<open>key_parts.first().map(..).unwrap_or(&[])\<close>\<close>

definition first_part :: "bytes list \<Rightarrow> bytes" where
  "first_part parts = (case parts of [] \<Rightarrow> [] | p # _ \<Rightarrow> p)"

section \<open>Keys\<close>

definition encode_key :: "bytes list \<Rightarrow> bytes" where
  "encode_key parts =
     fold (\<lambda>p out. (out @ to_be_bytes (word_of_nat (length p) :: u16)) @ p) parts []"

text \<open>The body of the decoding loop: one part off the front of \<^verbatim>\<open>rest\<close>.\<close>

definition decode_part :: "bytes \<Rightarrow> (bytes \<times> bytes) anyhow" where
  "decode_part rest =
     (if length rest < 2 then Err ''corrupt key'' else
      (let len = unat (from_be_bytes (take 2 rest) :: u16)
       in if length rest < 2 + len then Err ''corrupt key''
          else Ok (take len (drop 2 rest), drop (2 + len) rest)))"

function decode_parts :: "bytes \<Rightarrow> bytes list anyhow" where
  "decode_parts rest =
     (if rest = [] then Ok []
      else case decode_part rest of
             Ok (p, rest') \<Rightarrow> rbind (decode_parts rest') (\<lambda>ps. Ok (p # ps))
           | Err e \<Rightarrow> Err e
           | Halt h \<Rightarrow> Halt h)"
  by pat_completeness auto
termination
  by (relation "measure length") (auto simp: decode_part_def Let_def split: if_splits)

declare decode_parts.simps [simp del]

definition decode_key_data :: "bytes \<Rightarrow> bytes \<Rightarrow> bytes list anyhow" where
  "decode_key_data pfx full_key =
     (if \<not> prefix pfx full_key then Err ''key does not belong to table''
      else decode_parts (drop (length pfx) full_key))"

definition decode_key :: "string \<Rightarrow> string \<Rightarrow> bytes \<Rightarrow> bytes list anyhow" where
  "decode_key keyspace table full_key = decode_key_data (data_prefix keyspace table) full_key"

text \<open>The bytes are visited from the last to the first, here on the reversed list.\<close>

fun bump_rev :: "bytes \<Rightarrow> bytes option" where
  "bump_rev [] = None"
| "bump_rev (b # r) = (if b < 0xFF then Some ((b + 1) # r) else map_option ((#) b) (bump_rev r))"

definition prefix_upper_bound :: "bytes \<Rightarrow> bytes option" where
  "prefix_upper_bound pfx = map_option rev (bump_rev (rev pfx))"

section \<open>Rows\<close>

definition encode_row_columns :: "(u16 \<times> cql_value) list \<Rightarrow> bytes" where
  "encode_row_columns values =
     fold (\<lambda>(idx, v) out. write_wire v (out @ to_be_bytes idx)) values []"

definition u16_at :: "bytes \<Rightarrow> nat \<Rightarrow> u16" where
  "u16_at data off = from_be_bytes (take 2 (drop off data))"

function decode_row_loop ::
  "table_def \<Rightarrow> bytes \<Rightarrow> nat \<Rightarrow> cql_value list \<Rightarrow> cql_value list anyhow" where
  "decode_row_loop table data off out =
     (if \<not> off < length data then Ok out
      else if off + 2 > length data then Err ''corrupt row value''
      else
        (let idx = unat (u16_at data off); off = off + 2
         in if \<not> idx < length (td_columns table)
            then Err (''row references unknown column index '' @ show_nat idx)
            else if off + 4 > length data then Err ''corrupt row value''
            else
              (let len = i32_at data off
               in if len = - 1 then decode_row_loop table data (off + 4) (out[idx := VNull])
                  else if sint len < 0 \<or> off + 4 + as_usize len > length data
                  then Err ''corrupt row value''
                  else (case from_wire (cd_type (td_columns table ! idx))
                                (slice data off (off + 4 + as_usize len)) of
                          Ok v \<Rightarrow> decode_row_loop table data (off + (4 + as_usize len)) (out[idx := v])
                        | Err e \<Rightarrow> Err e
                        | Halt h \<Rightarrow> Halt h))))"
  by pat_completeness auto
termination
  by (relation "measure (\<lambda>(t, data, off, out). length data - off)") auto

declare decode_row_loop.simps [simp del]

definition decode_row_columns :: "bytes \<Rightarrow> table_def \<Rightarrow> cql_value list anyhow" where
  "decode_row_columns data table =
     decode_row_loop table data 0 (replicate (length (td_columns table)) VNull)"

section \<open>Key parts are self-delimiting\<close>

definition enc_part :: "bytes \<Rightarrow> bytes" where
  "enc_part p = to_be_bytes (word_of_nat (length p) :: u16) @ p"

definition short_part :: "bytes \<Rightarrow> bool" where
  "short_part p \<longleftrightarrow> length p < 2 ^ 16"

lemma encode_key_concat: "encode_key parts = concat (map enc_part parts)"
proof -
  have "(\<lambda>p out. (out @ to_be_bytes (word_of_nat (length p) :: u16)) @ p) = (\<lambda>p out. out @ enc_part p)"
    by (simp add: fun_eq_iff enc_part_def)
  then show ?thesis by (simp add: encode_key_def fold_append_map)
qed

lemma encode_key_append: "encode_key (ps @ qs) = encode_key ps @ encode_key qs"
  by (simp add: encode_key_concat)

lemma unat_len_u16: "short_part p \<Longrightarrow> unat (word_of_nat (length p) :: u16) = length p"
  by (simp add: short_part_def unat_of_nat take_bit_nat_eq_self)

lemma decode_part_enc: "short_part p \<Longrightarrow> decode_part (enc_part p @ rest) = Ok (p, rest)"
  by (simp add: decode_part_def enc_part_def unat_len_u16)

lemma enc_part_nonempty: "enc_part p \<noteq> []"
  by (simp add: enc_part_def to_be_bytes_def)

interpretation key_part: stream_code enc_part decode_part short_part
  by unfold_locales (simp_all add: decode_part_enc enc_part_nonempty)

lemma decode_parts_concat: "list_all short_part ps \<Longrightarrow> decode_parts (concat (map enc_part ps)) = Ok ps"
proof (induction ps)
  case Nil
  then show ?case by (simp add: decode_parts.simps)
next
  case (Cons p ps)
  then show ?case
    by (subst decode_parts.simps) (simp add: key_part.enc1_nonempty key_part.dec1_enc1)
qed

interpretation full_key: codec "\<lambda>ps. pfx @ encode_key ps" "decode_key_data pfx" "list_all short_part" for pfx
  by unfold_locales (simp add: decode_key_data_def encode_key_concat decode_parts_concat)

lemma encode_key_prefix_iff:
  "list_all short_part ps \<Longrightarrow> list_all short_part qs \<Longrightarrow>
     prefix (encode_key ps) (encode_key qs) \<longleftrightarrow> prefix ps qs"
  by (simp add: encode_key_concat key_part.prefix_concat_iff)

section \<open>Names and namespaces\<close>

text \<open>
  The separator is an exclamation mark; no CQL identifier contains one
  (\<^verbatim>\<open>vendor/tree-sitter-cql/grammar.js\<close>, lines 45-46).
\<close>

definition plain_name :: "string \<Rightarrow> bool" where
  "plain_name s \<longleftrightarrow> CHR ''!'' \<notin> set s"

lemma sep_unique:
  "c \<notin> set a \<Longrightarrow> c \<notin> set b \<Longrightarrow> a @ c # x = b @ c # y \<longleftrightarrow> a = b \<and> x = y"
  by (auto simp: append_eq_append_conv2 append_eq_Cons_conv Cons_eq_append_conv)

lemma bang_notin: "plain_name s \<Longrightarrow> 0x21 \<notin> set (str_bytes s)"
proof
  assume p: "plain_name s" and "0x21 \<in> set (str_bytes s)"
  then obtain c where c: "c \<in> set s" and "(word_of_nat (of_char c) :: byte) = 0x21"
    by (auto simp: str_bytes_def)
  then have "unat (word_of_nat (of_char c) :: byte) = 33" by simp
  then have "(of_char c :: nat) = of_char (CHR ''!'')" by simp
  then have "c = CHR ''!''" by (simp only: of_char_eq_iff)
  with c p show False by (simp add: plain_name_def)
qed

lemma bang_bytes: "bang = [0x21]"
  by (simp add: str_bytes_def)

lemma name_sep:
  "plain_name a \<Longrightarrow> plain_name b \<Longrightarrow>
     str_bytes a @ bang @ x = str_bytes b @ bang @ y \<longleftrightarrow> a = b \<and> x = y"
  using sep_unique [of "0x21 :: byte" "str_bytes a" "str_bytes b"] by (simp add: bang_bytes bang_notin)

lemma data_prefix_append_inject:
  assumes "plain_name k" "plain_name t" "plain_name k'" "plain_name t'"
  shows "data_prefix k t @ x = data_prefix k' t' @ y \<longleftrightarrow> k = k' \<and> t = t' \<and> x = y"
  using assms by (auto simp: data_prefix_def name_sep)

lemma data_prefix_prefix_iff:
  assumes "plain_name k" "plain_name t" "plain_name k'" "plain_name t'"
  shows "prefix (data_prefix k t) (data_prefix k' t' @ y) \<longleftrightarrow> k = k' \<and> t = t'"
proof
  assume "prefix (data_prefix k t) (data_prefix k' t' @ y)"
  then obtain z where "data_prefix k' t' @ y = data_prefix k t @ z" by (auto simp: prefix_def)
  then show "k = k' \<and> t = t'" using data_prefix_append_inject [OF assms(3,4,1,2), of y z] by auto
qed simp

text \<open>A partition scan sees the rows whose leading key parts are the partition, and no others.\<close>

lemma partition_prefix_iff:
  assumes "plain_name k" "plain_name t" "plain_name k'" "plain_name t'"
    and "list_all short_part ps" "list_all short_part qs"
  shows "prefix (data_prefix k t @ encode_key ps) (data_prefix k' t' @ encode_key qs)
    \<longleftrightarrow> k = k' \<and> t = t' \<and> prefix ps qs"
proof (cases "k = k' \<and> t = t'")
  case True
  then show ?thesis using assms(5,6) by (simp add: encode_key_prefix_iff)
next
  case False
  have "prefix (data_prefix k t) (data_prefix k' t' @ encode_key qs)"
    if "prefix (data_prefix k t @ encode_key ps) (data_prefix k' t' @ encode_key qs)"
    using that by (metis append_prefixD)
  with False data_prefix_prefix_iff [OF assms(1-4)] show ?thesis by blast
qed

lemma namespace_disjoint:
  "\<not> prefix DT_PREFIX (ks_key n)" "\<not> prefix DT_PREFIX (tb_key k t)"
  "\<not> prefix TB_PREFIX (ks_key n)" "ks_key n \<noteq> tb_key k t"
  by (simp_all add: DT_PREFIX_def KS_PREFIX_def TB_PREFIX_def ks_key_def tb_key_def str_bytes_def)

lemma data_engine_less:
  assumes "0 < n" and "n < 2 ^ 64"
  shows "data_engine n ks tb part < n"
proof -
  have "unat (word_of_nat n :: u64) = n" using assms by (simp add: unat_of_nat take_bit_nat_eq_self)
  then have "unat (h mod word_of_nat n) < n" for h :: u64
    using assms by (simp add: unat_mod_distrib)
  then show ?thesis using assms by (simp add: data_engine_def engine_of_def)
qed

section \<open>Upper bounds of prefix ranges\<close>

lemma append_less_append [simp]: "a @ x < a @ (y :: bytes) \<longleftrightarrow> x < y"
  by (induction a) simp_all

lemma append_le_append [simp]: "a @ x \<le> a @ (y :: bytes) \<longleftrightarrow> x \<le> y"
  by (induction a) simp_all

lemma prefix_le: "prefix p k \<Longrightarrow> p \<le> (k :: bytes)"
  by (auto simp: prefix_def) (metis append.right_neutral append_le_append Nil_le_Cons list.exhaust)

lemma byte_succ_le: "(b :: byte) < 0xFF \<Longrightarrow> b < b + 1 \<and> (x < b + 1 \<longleftrightarrow> x \<le> b)"
proof -
  assume "b < 0xFF"
  then have "unat b < 255" by (simp add: word_less_nat_alt)
  then have "unat (b + 1) = unat b + 1" by (simp add: unat_word_ariths)
  then show ?thesis by (auto simp: word_less_nat_alt word_le_nat_alt)
qed

lemma byte_max: "\<not> b < 0xFF \<longleftrightarrow> b = (0xFF :: byte)"
proof -
  have "unat b = unat (0xFF :: byte) \<Longrightarrow> b = 0xFF" by (rule unsigned_word_eqI)
  with unat_byte_less [of b] show ?thesis by (auto simp: word_less_nat_alt)
qed

lemma bump_rev_Some:
  "bump_rev r = Some e \<Longrightarrow>
     \<exists>n b a. r = replicate n 0xFF @ b # a \<and> b < 0xFF \<and> e = replicate n 0xFF @ (b + 1) # a"
proof (induction r arbitrary: e)
  case Nil
  then show ?case by simp
next
  case (Cons c r)
  show ?case
  proof (cases "c < 0xFF")
    case True
    with Cons.prems have "c # r = replicate 0 0xFF @ c # r \<and> c < 0xFF \<and> e = replicate 0 0xFF @ (c + 1) # r"
      by simp
    then show ?thesis by blast
  next
    case False
    then have "c = 0xFF" by (simp add: byte_max)
    from False Cons.prems obtain e' where "bump_rev r = Some e'" "e = c # e'" by auto
    with Cons.IH obtain n b a where "r = replicate n 0xFF @ b # a" "b < 0xFF"
      "e' = replicate n 0xFF @ (b + 1) # a" by blast
    with \<open>c = 0xFF\<close> \<open>e = c # e'\<close> show ?thesis by (intro exI [of _ "Suc n"]) auto
  qed
qed

lemma prefix_upper_bound_Some:
  "prefix_upper_bound p = Some e \<Longrightarrow>
     \<exists>a b n. p = a @ b # replicate n 0xFF \<and> b < 0xFF \<and> e = a @ (b + 1) # replicate n 0xFF"
proof -
  assume "prefix_upper_bound p = Some e"
  then obtain r where r: "bump_rev (rev p) = Some r" "e = rev r"
    by (auto simp: prefix_upper_bound_def)
  from bump_rev_Some [OF r(1)] obtain n b a where
    "rev p = replicate n 0xFF @ b # a" "b < 0xFF" "r = replicate n 0xFF @ (b + 1) # a" by blast
  then have "p = rev a @ b # replicate n 0xFF" "e = rev a @ (b + 1) # replicate n 0xFF"
    using r(2) by (metis append.assoc append_Cons append_Nil rev.simps(2) rev_append rev_replicate rev_rev_ident)+
  with \<open>b < 0xFF\<close> show ?thesis by blast
qed

lemma bump_rev_None: "bump_rev r = None \<longleftrightarrow> (\<forall>b\<in>set r. b = 0xFF)"
  by (induction r) (simp_all add: byte_max [symmetric])

lemma prefix_upper_bound_None: "prefix_upper_bound p = None \<longleftrightarrow> (\<forall>b\<in>set p. b = 0xFF)"
  by (simp add: prefix_upper_bound_def bump_rev_None)

lemma prefix_upper_bound_covers:
  assumes "prefix_upper_bound p = Some e" and "prefix p k"
  shows "p \<le> k \<and> k < e"
proof -
  from prefix_upper_bound_Some [OF assms(1)] obtain a b n where
    p: "p = a @ b # replicate n 0xFF" and b: "b < 0xFF" and e: "e = a @ (b + 1) # replicate n 0xFF"
    by blast
  from assms(2) obtain z where "k = a @ b # replicate n 0xFF @ z" by (auto simp: p prefix_def)
  with e b have "k < e" by (simp add: byte_succ_le)
  with assms(2) show ?thesis by (simp add: prefix_le)
qed

lemma between_prefix:
  assumes "(b :: byte) < 0xFF" and "a @ [b] \<le> k" and "k < a @ [b + 1]"
  shows "prefix (a @ [b]) k"
  using assms(2,3)
proof (induction a arbitrary: k)
  case Nil
  then obtain c k' where k: "k = c # k'" by (cases k) auto
  with Nil have "b \<le> c" and "c < b + 1 \<or> (c = b + 1 \<and> k' < [])"
    by (auto simp: list_le_def less_imp_le)
  with assms(1) have "c = b" using byte_succ_le [of b c] by auto
  with k show ?case by simp
next
  case (Cons x a)
  then obtain c k' where k: "k = c # k'" by (cases k) auto
  with Cons.prems have "c = x" and "a @ [b] \<le> k'" and "k' < a @ [b + 1]"
    by (auto simp: list_le_def)
  with Cons.IH [of k'] k show ?case by simp
qed

lemma prefix_upper_bound_exact:
  assumes "p \<noteq> []" and "last p \<noteq> 0xFF"
  obtains e where "prefix_upper_bound p = Some e" and "\<And>k. p \<le> k \<and> k < e \<longleftrightarrow> prefix p k"
proof -
  from assms(1) obtain a b where p: "p = a @ [b]" by (cases p rule: rev_cases) auto
  with assms(2) have b: "b < 0xFF" using byte_max [of b] by simp
  then have e: "prefix_upper_bound p = Some (a @ [b + 1])" by (simp add: prefix_upper_bound_def p)
  have "p \<le> k \<and> k < a @ [b + 1] \<longleftrightarrow> prefix p k" for k
    using between_prefix [OF b] prefix_upper_bound_covers [OF e] by (auto simp: p)
  with e that show thesis by blast
qed

text \<open>The range that \<open>DROP TABLE\<close> and \<open>TRUNCATE\<close> delete.\<close>

lemma data_prefix_range:
  obtains e where "prefix_upper_bound (data_prefix ks tb) = Some e"
    and "\<And>k. data_prefix ks tb \<le> k \<and> k < e \<longleftrightarrow> prefix (data_prefix ks tb) k"
proof -
  have "last (data_prefix ks tb) = 0x21" by (simp add: data_prefix_def bang_bytes)
  then have "last (data_prefix ks tb) \<noteq> 0xFF" by simp
  moreover have "data_prefix ks tb \<noteq> []" by (simp add: data_prefix_def bang_bytes)
  ultimately show thesis using prefix_upper_bound_exact that by blast
qed

section \<open>Rows\<close>

definition enc_col :: "u16 \<times> cql_value \<Rightarrow> bytes" where
  "enc_col c = to_be_bytes (fst c) @ to_wire (snd c)"

definition col_fits :: "table_def \<Rightarrow> u16 \<times> cql_value \<Rightarrow> bool" where
  "col_fits t c \<longleftrightarrow>
     unat (fst c) < length (td_columns t)
     \<and> conforms (cd_type (td_columns t ! unat (fst c))) (snd c) \<and> wire_sized (snd c)"

lemma encode_row_concat: "encode_row_columns cs = concat (map enc_col cs)"
proof -
  have "fold (\<lambda>(idx, v) out. write_wire v (out @ to_be_bytes idx)) cs [] = [] @ concat (map enc_col cs)"
  proof (rule fold_append_cong)
    fix c and out :: bytes
    show "(case c of (idx, v) \<Rightarrow> \<lambda>out. write_wire v (out @ to_be_bytes idx)) out = out @ enc_col c"
      using write_wire_append [of "snd c" "out @ to_be_bytes (fst c)"]
      by (cases c) (simp add: enc_col_def to_wire_def)
  qed
  then show ?thesis by (simp add: encode_row_columns_def)
qed

text \<open>One column entry, at any place of the row: what the loop body does with it.\<close>

lemma u16_at_be: "u16_at (pre @ to_be_bytes (w :: u16) @ r) (length pre) = w"
  by (simp add: u16_at_def)

lemma decode_row_step:
  assumes "col_fits t (i, v)"
  shows "decode_row_loop t (pre @ enc_col (i, v) @ r) (length pre) out
       = decode_row_loop t (pre @ enc_col (i, v) @ r) (length (pre @ enc_col (i, v))) (out[unat i := v])"
proof (cases "v = VNull")
  case True
  let ?d = "pre @ to_be_bytes i @ to_be_bytes (- 1 :: i32) @ r"
  have "u16_at ?d (length pre) = i" by (simp add: u16_at_be)
  moreover have "i32_at ?d (length pre + 2) = - 1"
    using i32_at_be [of "pre @ to_be_bytes i" "- 1"] by simp
  ultimately show ?thesis
    using assms True
    by (subst decode_row_loop.simps) (simp add: enc_col_def to_wire_Null col_fits_def Let_def add.commute)
next
  case False
  let ?n = "length (raw_bytes v)"
  let ?d = "pre @ to_be_bytes i @ to_wire v @ r"
  from assms have sz: "?n < 2 ^ 31" and dec: "from_wire (cd_type (td_columns t ! unat i)) (to_wire v) = Ok v"
    and i: "unat i < length (td_columns t)"
    using wire.dec_enc by (auto simp: col_fits_def wire_sized_def)
  have w: "to_wire v = to_be_bytes (len_i32 ?n) @ raw_bytes v" using False by (rule to_wire_raw)
  have at: "u16_at ?d (length pre) = i" by (simp add: u16_at_be)
  have len: "i32_at ?d (length pre + 2) = len_i32 ?n"
    using i32_at_be [of "pre @ to_be_bytes i" "len_i32 ?n" "raw_bytes v @ r"] by (simp add: w)
  have ne: "len_i32 ?n \<noteq> - 1"
  proof
    assume "len_i32 ?n = - 1"
    then have "sint (len_i32 ?n) = sint (- 1 :: i32)" by simp
    with sz show False by (simp add: sint_len_i32)
  qed
  have sl: "slice ?d (length pre + 2) (length pre + 2 + 4 + ?n) = to_wire v"
    using slice_mid [of "pre @ to_be_bytes i" "to_wire v" r] False by (simp add: length_to_wire add.assoc)
  show ?thesis
    using sz i at len ne sl dec False
    by (subst decode_row_loop.simps)
       (simp add: enc_col_def Let_def sint_len_i32 as_usize_len_i32 length_to_wire ac_simps)
qed

lemma decode_row_loop_concat:
  "list_all (col_fits t) cs \<Longrightarrow>
     decode_row_loop t (pre @ concat (map enc_col cs)) (length pre) out
       = Ok (fold (\<lambda>(i, v) out. out[unat i := v]) cs out)"
proof (induction cs arbitrary: pre out)
  case Nil
  then show ?case by (subst decode_row_loop.simps) simp
next
  case (Cons c cs)
  obtain i v where c: "c = (i, v)" by (cases c)
  with Cons.prems have "col_fits t (i, v)" and "list_all (col_fits t) cs" by auto
  with Cons.IH [of "pre @ enc_col (i, v)" "out[unat i := v]"] show ?case
    using decode_row_step [of t i v pre "concat (map enc_col cs)" out] by (simp add: c)
qed

lemma decode_encode_row:
  "list_all (col_fits t) cs \<Longrightarrow>
     decode_row_columns (encode_row_columns cs) t
       = Ok (fold (\<lambda>(i, v) out. out[unat i := v]) cs (replicate (length (td_columns t)) VNull))"
  using decode_row_loop_concat [of t cs "[]"] by (simp add: decode_row_columns_def encode_row_concat)

lemma length_fold_update: "length (fold (\<lambda>(i, v) out. out[unat (i :: u16) := v]) cs out) = length out"
  by (induction cs arbitrary: out) auto

lemma fold_update_other:
  "j \<notin> (unat \<circ> fst) ` set cs \<Longrightarrow> fold (\<lambda>(i, v) out. out[unat (i :: u16) := v]) cs out ! j = out ! j"
  by (induction cs arbitrary: out) auto

lemma fold_update_at:
  "distinct (map fst cs) \<Longrightarrow> (i, v) \<in> set cs \<Longrightarrow> unat (i :: u16) < length out \<Longrightarrow>
     fold (\<lambda>(i, v) out. out[unat i := v]) cs out ! unat i = v"
proof (induction cs arbitrary: out)
  case (Cons c cs)
  show ?case
  proof (cases "c = (i, v)")
    case True
    with Cons.prems(1) have "unat i \<notin> (unat \<circ> fst) ` set cs"
      by (force simp: image_iff dest: unsigned_word_eqI)
    with True Cons.prems(3) show ?thesis by (simp add: fold_update_other)
  next
    case False
    with Cons.prems Cons.IH [of "out[unat (fst c) := snd c]"] show ?thesis by (cases c) auto
  qed
qed simp

section \<open>Overlong key parts\<close>

lemma encode_key_empty_parts: "encode_key (replicate n []) = replicate (2 * n) 0"
  by (induction n) (simp_all add: encode_key_concat enc_part_def to_be_bytes_def)

lemma encode_key_wraps:
  assumes "(word_of_nat m :: u16) = 0" and "m + 2 = 2 * n"
  shows "encode_key [replicate m 0] = encode_key (replicate n [])"
proof -
  have "encode_key [replicate m 0] = [0, 0] @ replicate m 0"
    by (simp add: encode_key_concat enc_part_def assms(1)) (simp add: to_be_bytes_def)
  also have "\<dots> = replicate (m + 2) 0" by (simp add: add.commute)
  finally show ?thesis by (simp only: encode_key_empty_parts assms(2))
qed

section \<open>Order of encoded integers\<close>

lemma snoc_less_snoc:
  "length u = length w \<Longrightarrow> u @ [c] < w @ [d :: byte] \<longleftrightarrow> u < w \<or> (u = w \<and> c < d)"
  by (induction u w rule: list_induct2) auto

lemma less_div_mod: "(x :: nat) < y \<longleftrightarrow> x div 256 < y div 256 \<or> (x div 256 = y div 256 \<and> x mod 256 < y mod 256)"
  using div_mult_mod_eq [of x 256] div_mult_mod_eq [of y 256] mod_less_divisor [of 256 x]
    mod_less_divisor [of 256 y] by linarith

lemma nat_be_less_iff: "x < 256 ^ n \<Longrightarrow> y < 256 ^ n \<Longrightarrow> nat_be n x < nat_be n y \<longleftrightarrow> x < y"
proof (induction n arbitrary: x y)
  case (Suc n)
  then have d: "x div 256 < 256 ^ n" "y div 256 < 256 ^ n"
    by (simp_all add: less_mult_imp_div_less mult.commute)
  then have "nat_be n (x div 256) = nat_be n (y div 256) \<longleftrightarrow> x div 256 = y div 256"
    by (metis be_nat_nat_be mod_less)
  moreover have "(word_of_nat (x mod 256) :: byte) < word_of_nat (y mod 256) \<longleftrightarrow> x mod 256 < y mod 256"
    by (simp add: word_less_nat_alt)
  ultimately show ?case
    using Suc.IH [OF d] less_div_mod [of x y] by (simp add: snoc_less_snoc)
qed simp

lemma to_be_bytes_less_i32: "to_be_bytes (a :: i32) < to_be_bytes b \<longleftrightarrow> a < b"
proof -
  have "unat a < 256 ^ 4" "unat b < 256 ^ 4"
    using unsigned_less [of a, where ?'a = nat] unsigned_less [of b, where ?'a = nat] by simp_all
  with nat_be_less_iff [of "unat a" 4 "unat b"] show ?thesis
    by (simp add: to_be_bytes_def word_less_nat_alt del: nat_be_numeral)
qed

section \<open>Properties\<close>

text \<open>C28. Row keys decode to the parts they were built from: as long as every part is shorter than
  64 KiB, \<open>decode_key\<close> undoes the key construction of every read and write path.\<close>

theorem row_key_roundtrip:
  "list_all short_part parts \<Longrightarrow>
     decode_key ks tb (data_prefix ks tb @ encode_key parts) = Ok parts"
  by (simp add: decode_key_def full_key.dec_enc)

theorem row_key_roundtrip_witness:
  "decode_key ''ks'' ''t'' (data_prefix ''ks'' ''t'' @ encode_key [[0, 0, 0, 1], []]) = Ok [[0, 0, 0, 1], []]"
  by (rule row_key_roundtrip) (simp add: short_part_def)

text \<open>The 16-bit part length is not checked when a key is built: a part of 64 KiB or more wraps
  and two different keys get the same bytes.\<close>

theorem encode_key_long_part_collides:
  "encode_key [replicate 65536 0] = encode_key (replicate 32769 []) \<and>
     [replicate 65536 (0 :: byte)] \<noteq> replicate 32769 []"
proof
  show "encode_key [replicate 65536 0] = encode_key (replicate 32769 [])"
    by (rule encode_key_wraps) simp_all
  have "length [x :: bytes] \<noteq> length (replicate 32769 ([] :: bytes))" for x
    by (simp only: length_replicate) simp
  then have "[x] \<noteq> replicate 32769 ([] :: bytes)" for x by metis
  then show "[replicate 65536 (0 :: byte)] \<noteq> replicate 32769 []" .
qed

text \<open>A partition scan returns the rows of that partition and no others: for plain names and
  parts under 64 KiB, a row key starts with the scan prefix exactly when it is a key of the same
  keyspace and table whose leading key parts are the partition's. No partition's prefix captures a
  neighbour, whatever bytes the parts hold.\<close>

theorem partition_scan_exact:
  "plain_name ks \<Longrightarrow> plain_name tb \<Longrightarrow> plain_name ks' \<Longrightarrow> plain_name tb' \<Longrightarrow>
   list_all short_part pp \<Longrightarrow> list_all short_part parts \<Longrightarrow>
     prefix (data_prefix ks tb @ encode_key pp) (data_prefix ks' tb' @ encode_key parts)
       \<longleftrightarrow> ks = ks' \<and> tb = tb' \<and> prefix pp parts"
  by (rule partition_prefix_iff)

theorem partition_scan_exact_witness:
  "\<not> prefix (data_prefix ''ks'' ''t'' @ encode_key [[1]]) (data_prefix ''ks'' ''t'' @ encode_key [[1, 2]])"
  using partition_scan_exact [of "''ks''" "''t''" "''ks''" "''t''" "[[1]]" "[[1, 2]]"]
  by (simp add: plain_name_def short_part_def)

text \<open>
  The range tombstone of a table covers exactly the table: \<open>prefix_upper_bound\<close> of the
  table's data prefix exists, and among the row keys of all plain-named tables those between the
  prefix and the bound are the keys of that table.\<close>

theorem table_range_exact:
  "plain_name ks \<Longrightarrow> plain_name tb \<Longrightarrow> plain_name ks' \<Longrightarrow> plain_name tb' \<Longrightarrow>
     \<exists>end_key. prefix_upper_bound (data_prefix ks tb) = Some end_key \<and>
       (data_prefix ks tb \<le> data_prefix ks' tb' @ suffix_bytes \<and>
        data_prefix ks' tb' @ suffix_bytes < end_key \<longleftrightarrow> ks = ks' \<and> tb = tb')"
  by (rule data_prefix_range [of ks tb]) (auto simp: data_prefix_prefix_iff)

theorem table_range_exact_witness:
  "\<exists>end_key. prefix_upper_bound (data_prefix ''ks'' ''t'') = Some end_key \<and>
     \<not> (data_prefix ''ks'' ''t'' \<le> data_prefix ''ks'' ''t2'' @ [0] \<and>
        data_prefix ''ks'' ''t2'' @ [0] < end_key)"
proof -
  have "plain_name ''ks''" "plain_name ''t''" "plain_name ''t2''" by (simp_all add: plain_name_def)
  with table_range_exact [of "''ks''" "''t''" "''ks''" "''t2''" "[0]"] show ?thesis by auto
qed

text \<open>
  \<open>prefix_upper_bound\<close> in general: it fails only on a prefix of 0xFF bytes, the bound is
  above every key with the prefix, and when the last byte of the prefix is not 0xFF the keys below
  the bound are only those; otherwise the bound (which keeps the trailing 0xFF bytes) admits
  foreign keys, such as 02 00 for the prefix 01 FF.\<close>

theorem prefix_upper_bound_spec:
  "(prefix_upper_bound p = None \<longleftrightarrow> (\<forall>b\<in>set p. b = 0xFF)) \<and>
   (\<forall>e k. prefix_upper_bound p = Some e \<longrightarrow> prefix p k \<longrightarrow> p \<le> k \<and> k < e) \<and>
   (\<forall>e k. p \<noteq> [] \<and> last p \<noteq> 0xFF \<and> prefix_upper_bound p = Some e \<and> p \<le> k \<and> k < e \<longrightarrow> prefix p k) \<and>
   (\<exists>e. prefix_upper_bound [1, 0xFF] = Some e \<and> ([1, 0xFF] :: bytes) \<le> [2, 0] \<and> [2, 0] < e \<and> \<not> prefix [1, 0xFF :: byte] [2, 0])"
proof -
  have ex: "prefix p k" if p: "p \<noteq> []" "last p \<noteq> 0xFF" "prefix_upper_bound p = Some e" "p \<le> k" "k < e" for e k
    by (rule prefix_upper_bound_exact [OF p(1,2)]) (use p in auto)
  have "prefix_upper_bound [1, 0xFF] = Some [2, 0xFF]" by (simp add: prefix_upper_bound_def)
  then show ?thesis
    using ex prefix_upper_bound_covers [of p] by (auto simp: prefix_upper_bound_None list_le_def)
qed

theorem prefix_upper_bound_spec_witness:
  "prefix_upper_bound [1, 2] = Some [1, 3] \<and> ([1, 2] :: bytes) \<le> [1, 2, 9] \<and> ([1, 2, 9] :: bytes) < [1, 3]"
proof -
  have e: "prefix_upper_bound [1, 2] = Some [1, 3]" by (simp add: prefix_upper_bound_def)
  have "prefix [1, 2] ([1, 2, 9] :: bytes)" by simp
  with e prefix_upper_bound_spec [of "[1, 2]"] show ?thesis by blast
qed

text \<open>C29. Rows survive storage: a row encoded from distinct columns of the table, each holding a
  value of its type or null, decodes to a full-width row with every stored value at its index and
  null everywhere else.\<close>

theorem row_roundtrip:
  "list_all (col_fits t) cs \<Longrightarrow> distinct (map fst cs) \<Longrightarrow>
     \<exists>row. decode_row_columns (encode_row_columns cs) t = Ok row \<and> length row = length (td_columns t) \<and>
       (\<forall>(i, v)\<in>set cs. row ! unat i = v) \<and>
       (\<forall>j<length row. j \<notin> (unat \<circ> fst) ` set cs \<longrightarrow> row ! j = VNull)"
  by (intro exI [of _ "fold (\<lambda>(i, v) out. out[unat i := v]) cs (replicate (length (td_columns t)) VNull)"])
     (auto simp: decode_encode_row length_fold_update fold_update_other fold_update_at list_all_iff col_fits_def)

definition kv_table :: table_def where
  "kv_table =
     \<lparr>td_keyspace = ''shop'', td_name = ''kv'',
      td_columns = [\<lparr>cd_name = ''k'', cd_type = TInt, cd_is_partition_key = True, cd_is_clustering = False\<rparr>,
                    \<lparr>cd_name = ''v'', cd_type = TText, cd_is_partition_key = False, cd_is_clustering = False\<rparr>],
      td_partition_keys = [''k''], td_clustering_keys = []\<rparr>"

theorem row_roundtrip_witness:
  "\<exists>row. decode_row_columns (encode_row_columns [(1, VText ''x'')]) kv_table = Ok row \<and> row ! 1 = VText ''x''"
proof -
  have "list_all (col_fits kv_table) [(1, VText ''x'')]" and "distinct (map fst [(1 :: u16, VText ''x'')])"
    by (simp_all add: col_fits_def kv_table_def conforms_def utf8_valid_def utf8_check_def str_bytes_def wire_sized_def)
  from row_roundtrip [OF this] show ?thesis by auto
qed

text \<open>
  Routing: the engine of a key exists, whatever the key; it depends on the keyspace, the
  table and the first key part alone, so all rows of a partition share an engine; and the hash is the
  64-bit FNV-1a function (its published value on the one-byte input 'a').\<close>

theorem routing_in_range:
  "0 < n \<Longrightarrow> n < 2 ^ 64 \<Longrightarrow>
     data_engine n ks tb part < n \<and>
     data_engine n ks tb (first_part (p # ps)) = data_engine n ks tb (first_part (p # qs)) \<and>
     fnv1a (str_bytes ''a'') = 0xAF63DC4C8601EC8C"
  by (simp add: data_engine_less first_part_def) (simp add: fnv1a_def str_bytes_def)

theorem routing_in_range_witness: "data_engine 16 ''ks'' ''t'' [1, 2, 3] < 16"
  using routing_in_range [of 16 "''ks''" "''t''" "[1, 2, 3]"] by simp

text \<open>
  The order of rows within a partition is the byte order of the encoded keys: for an \<open>int\<close>
  clustering column that is the unsigned order, so a row with a negative value comes after the rows
  with positive ones, although the schema mirror reports ascending clustering order.\<close>

theorem int_clustering_order_is_unsigned:
  "encode_key (ps @ [raw_bytes (VInt a)]) < encode_key (ps @ [raw_bytes (VInt b)]) \<longleftrightarrow> a < b"
  by (simp add: encode_key_append encode_key_concat enc_part_def to_be_bytes_less_i32)

end
