(* ===== verification/Libs.thy ===== *)
theory Libs
  imports Keys "HOL-Library.Finite_Map" "HOL-Library.Countable"
begin

text \<open>
  The third-party crates behind the storage and query layers, as a record of functions that every
  definition using them takes as its argument \<open>L\<close>:

  \<^item> \<^verbatim>\<open>rocksdb\<close>: one instance is a value of the type parameter \<open>'db\<close>; point reads, single and batched
    writes, and forward iteration from a key. Every operation may fail with a message.
  \<^item> \<^verbatim>\<open>serde_json\<close> for the two metadata types, \<^verbatim>\<open>cql3-parser\<close>, and \<^verbatim>\<open>hex\<close>.

  What the code relies on is stated as named hypotheses: \<open>rocks_ok\<close> (RocksDB is an ordered map from
  keys to values whose batches apply in order and whose iterators are sorted) and \<open>json_ok\<close>
  (deserialising undoes serialising).
\<close>

text \<open>The operations of a \<^verbatim>\<open>WriteBatch\<close>, in the order they were added.\<close>

datatype wb_op = WbPut bytes bytes | WbDelete bytes | WbDeleteRange bytes bytes

record cassandra_ast =
  ast_has_error :: bool
  ast_statements :: "(bool \<times> statement) list"

record 'db libs =
  rk_get :: "'db \<Rightarrow> bytes \<Rightarrow> bytes option anyhow"
  rk_put :: "'db \<Rightarrow> bytes \<Rightarrow> bytes \<Rightarrow> 'db anyhow"
  rk_delete :: "'db \<Rightarrow> bytes \<Rightarrow> 'db anyhow"
  rk_write :: "'db \<Rightarrow> wb_op list \<Rightarrow> 'db anyhow"
  rk_iter :: "'db \<Rightarrow> bytes \<Rightarrow> (bytes \<times> bytes) anyhow list"
  js_ks_to_vec :: "keyspace_def \<Rightarrow> bytes anyhow"
  js_ks_from_slice :: "bytes \<Rightarrow> keyspace_def anyhow"
  js_tb_to_vec :: "table_def \<Rightarrow> bytes anyhow"
  js_tb_from_slice :: "bytes \<Rightarrow> table_def anyhow"
  cql_parse :: "string \<Rightarrow> cassandra_ast"
  short_name :: "statement \<Rightarrow> string"
  hex_dec :: "string \<Rightarrow> bytes option"

section \<open>The ordered map that RocksDB documents\<close>

type_synonym kv = "bytes \<rightharpoonup> bytes"

fun apply_op :: "wb_op \<Rightarrow> kv \<Rightarrow> kv" where
  "apply_op (WbPut k v) m = m(k \<mapsto> v)"
| "apply_op (WbDelete k) m = m(k := None)"
| "apply_op (WbDeleteRange s e) m = (\<lambda>k. if s \<le> k \<and> k < e then None else m k)"

definition apply_ops :: "wb_op list \<Rightarrow> kv \<Rightarrow> kv" where
  "apply_ops ops m = fold apply_op ops m"

lemma apply_ops_Nil [simp]: "apply_ops [] m = m"
  by (simp add: apply_ops_def)

lemma apply_ops_append [simp]: "apply_ops (xs @ ys) m = apply_ops ys (apply_ops xs m)"
  by (simp add: apply_ops_def)

lemma apply_ops_Cons [simp]: "apply_ops (x # xs) m = apply_ops xs (apply_op x m)"
  by (simp add: apply_ops_def)

definition iter_spec :: "kv \<Rightarrow> bytes \<Rightarrow> (bytes \<times> bytes) list \<Rightarrow> bool" where
  "iter_spec m from_key es \<longleftrightarrow>
     sorted_wrt (<) (map fst es) \<and> set es = {(k, v). m k = Some v \<and> from_key \<le> k}"

definition rocks_ok :: "'db libs \<Rightarrow> ('db \<Rightarrow> kv) \<Rightarrow> bool" where
  "rocks_ok L absm \<longleftrightarrow>
     (\<forall>db k. rk_get L db k = Ok (absm db k)) \<and>
     (\<forall>db k v. \<exists>db'. rk_put L db k v = Ok db' \<and> absm db' = (absm db)(k \<mapsto> v)) \<and>
     (\<forall>db k. \<exists>db'. rk_delete L db k = Ok db' \<and> absm db' = (absm db)(k := None)) \<and>
     (\<forall>db ops. \<exists>db'. rk_write L db ops = Ok db' \<and> absm db' = apply_ops ops (absm db)) \<and>
     (\<forall>db p. \<exists>es. rk_iter L db p = map Ok es \<and> iter_spec (absm db) p es)"

definition json_ok :: "'db libs \<Rightarrow> bool" where
  "json_ok L \<longleftrightarrow>
     (\<forall>ks. \<exists>b. js_ks_to_vec L ks = Ok b \<and> js_ks_from_slice L b = Ok ks) \<and>
     (\<forall>tb. \<exists>b. js_tb_to_vec L tb = Ok b \<and> js_tb_from_slice L b = Ok tb)"

lemma rocks_okD:
  assumes "rocks_ok L absm"
  shows "rk_get L db k = Ok (absm db k)"
    and "\<exists>db'. rk_put L db k v = Ok db' \<and> absm db' = (absm db)(k \<mapsto> v)"
    and "\<exists>db'. rk_delete L db k = Ok db' \<and> absm db' = (absm db)(k := None)"
    and "\<exists>db'. rk_write L db ops = Ok db' \<and> absm db' = apply_ops ops (absm db)"
    and "\<exists>es. rk_iter L db p = map Ok es \<and> iter_spec (absm db) p es"
  using assms by (auto simp: rocks_ok_def)

section \<open>An instance of the hypotheses\<close>

text \<open>
  Finite maps satisfy \<open>rocks_ok\<close>, and any injection of the two metadata types into byte strings
  satisfies \<open>json_ok\<close>; the witnesses of the development use this instance to show that the hypotheses
  can hold together.
\<close>

instance column_type :: countable
  by countable_datatype

definition table_tuple ::
  "table_def \<Rightarrow> string \<times> string \<times> (string \<times> column_type \<times> bool \<times> bool) list \<times> string list \<times> string list" where
  "table_tuple t =
     (td_keyspace t, td_name t,
      map (\<lambda>c. (cd_name c, cd_type c, cd_is_partition_key c, cd_is_clustering c)) (td_columns t),
      td_partition_keys t, td_clustering_keys t)"

definition tuple_table ::
  "string \<times> string \<times> (string \<times> column_type \<times> bool \<times> bool) list \<times> string list \<times> string list \<Rightarrow> table_def" where
  "tuple_table x =
     (case x of (ks, n, cs, ps, qs) \<Rightarrow>
        \<lparr>td_keyspace = ks, td_name = n,
         td_columns = map (\<lambda>(a, ty, p, c). \<lparr>cd_name = a, cd_type = ty, cd_is_partition_key = p, cd_is_clustering = c\<rparr>) cs,
         td_partition_keys = ps, td_clustering_keys = qs\<rparr>)"

definition mem_entries :: "(bytes, bytes) fmap \<Rightarrow> bytes \<Rightarrow> (bytes \<times> bytes) list" where
  "mem_entries db p =
     map (\<lambda>k. (k, the (fmlookup db k))) (filter (\<lambda>k. p \<le> k) (sorted_list_of_fset (fmdom db)))"

fun mem_apply :: "wb_op \<Rightarrow> (bytes, bytes) fmap \<Rightarrow> (bytes, bytes) fmap" where
  "mem_apply (WbPut k v) db = fmupd k v db"
| "mem_apply (WbDelete k) db = fmdrop k db"
| "mem_apply (WbDeleteRange s e) db = fmfilter (\<lambda>k. \<not> (s \<le> k \<and> k < e)) db"

definition mem_libs :: "(bytes, bytes) fmap libs" where
  "mem_libs =
     \<lparr>rk_get = (\<lambda>db k. Ok (fmlookup db k)),
      rk_put = (\<lambda>db k v. Ok (fmupd k v db)),
      rk_delete = (\<lambda>db k. Ok (fmdrop k db)),
      rk_write = (\<lambda>db ops. Ok (fold mem_apply ops db)),
      rk_iter = (\<lambda>db p. map Ok (mem_entries db p)),
      js_ks_to_vec = (\<lambda>ks. Ok (replicate (to_nat (kd_name ks, kd_replication ks)) 0)),
      js_ks_from_slice = (\<lambda>b. case from_nat (length b) of (n, r) \<Rightarrow> Ok \<lparr>kd_name = n, kd_replication = r\<rparr>),
      js_tb_to_vec = (\<lambda>t. Ok (replicate (to_nat (table_tuple t)) 0)),
      js_tb_from_slice = (\<lambda>b. Ok (tuple_table (from_nat (length b)))),
      cql_parse = (\<lambda>_. \<lparr>ast_has_error = True, ast_statements = []\<rparr>),
      short_name = (\<lambda>_. []),
      hex_dec = (\<lambda>_. None)\<rparr>"

lemma tuple_table_inverse: "tuple_table (table_tuple t) = t"
proof -
  have "map (\<lambda>x :: column_def. \<lparr>cd_name = cd_name x, cd_type = cd_type x, cd_is_partition_key = cd_is_partition_key x,
      cd_is_clustering = cd_is_clustering x\<rparr>) cs = cs" for cs
    by (induction cs) auto
  then show ?thesis by (cases t) (simp add: tuple_table_def table_tuple_def comp_def)
qed

lemma mem_apply_fold: "fmlookup (fold mem_apply ops db) = apply_ops ops (fmlookup db)"
proof (induction ops arbitrary: db)
  case (Cons op ops)
  have "fmlookup (mem_apply op db) = apply_op op (fmlookup db)"
    by (cases op) (auto simp: fun_eq_iff)
  with Cons show ?case by simp
qed simp

lemma mem_entries_spec: "iter_spec (fmlookup db) p (mem_entries db p)"
proof -
  have "sorted_wrt (<) (sorted_list_of_fset (fmdom db))"
    by (simp add: sorted_list_of_fset.rep_eq strict_sorted_list_of_set)
  then have "sorted_wrt (<) (map fst (mem_entries db p))"
    by (simp add: mem_entries_def comp_def sorted_wrt_filter)
  moreover have "set (mem_entries db p) = {(k, v). fmlookup db k = Some v \<and> p \<le> k}"
    by (auto simp: mem_entries_def fmlookup_dom_iff image_iff)
  ultimately show ?thesis by (simp add: iter_spec_def)
qed

lemma mem_rocks_ok: "rocks_ok mem_libs fmlookup"
  using mem_entries_spec by (auto simp: rocks_ok_def mem_libs_def mem_apply_fold fun_eq_iff)

lemma mem_json_ok: "json_ok mem_libs"
  by (simp add: json_ok_def mem_libs_def tuple_table_inverse)

end
