(* ===== verification/Pipeline.thy ===== *)
theory Pipeline
  imports Libs
begin

text \<open>
  The write pipeline of one engine (\<^verbatim>\<open>src/src/storage.rs\<close>, \<^verbatim>\<open>WriteOp\<close>, \<^verbatim>\<open>batch_apply\<close>,
  \<^verbatim>\<open>spawn_writer\<close>): producers send operations into a channel, a collector thread drains them into
  a \<^verbatim>\<open>WriteBatch\<close>, a committer thread writes the batches to RocksDB and drops the completion
  senders of the batch. The two threads and the producers interleave freely, so the pipeline is a
  step relation over the state of both threads and of the two channels.

  The main result is that every interleaving commits a prefix of the operations in the order they
  were sent, with exactly the tickets of that prefix completed; a range tombstone can therefore not
  overtake a row operation, and a completed ticket means that the operation and everything sent
  before it is in the engine.
\<close>

section \<open>Operations and batches\<close>

type_synonym ticket = nat

datatype write_op =
    WPut bytes bytes "ticket option"
  | WDelete bytes "ticket option"
  | WDeleteRange bytes bytes "ticket option"

type_synonym batch = "wb_op list \<times> ticket option list"

definition MAX_BATCH_OPS :: nat where "MAX_BATCH_OPS = 2048"

fun batch_apply :: "batch \<Rightarrow> write_op \<Rightarrow> batch" where
  "batch_apply (b, d) (WPut k v t) = (b @ [WbPut k v], d @ [t])"
| "batch_apply (b, d) (WDelete k t) = (b @ [WbDelete k], d @ [t])"
| "batch_apply (b, d) (WDeleteRange s e t) = (b @ [WbDeleteRange s e], d @ [t])"

text \<open>
  One engine: the database, the operations channel (oldest first), the collector's batch in
  progress (\<open>None\<close> while it waits in \<^verbatim>\<open>recv\<close>), the commit channel, the tickets whose senders have
  been dropped, and whether the receiving side of the operations channel is gone.
\<close>

record 'db engine =
  en_db :: 'db
  en_queue :: "write_op list"
  en_open :: "batch option"
  en_commits :: "batch list"
  en_done :: "ticket list"
  en_gone :: bool

definition new_engine :: "'db \<Rightarrow> 'db engine" where
  "new_engine db = \<lparr>en_db = db, en_queue = [], en_open = None, en_commits = [], en_done = [], en_gone = False\<rparr>"

definition send_op :: "write_op \<Rightarrow> 'db engine \<Rightarrow> 'db engine" where
  "send_op op e = e\<lparr>en_queue := en_queue e @ [op]\<rparr>"

definition tickets_of :: "ticket option list \<Rightarrow> ticket list" where
  "tickets_of d = concat (map (\<lambda>t. case t of None \<Rightarrow> [] | Some t \<Rightarrow> [t]) d)"

text \<open>
  The committer: a failed write is logged and otherwise ignored; the senders are dropped either way.
\<close>

definition commit_batch :: "'db libs \<Rightarrow> batch \<Rightarrow> 'db engine \<Rightarrow> 'db engine" where
  "commit_batch L bd e =
     (let db' = (case rk_write L (en_db e) (fst bd) of Ok db' \<Rightarrow> db' | _ \<Rightarrow> en_db e)
      in e\<lparr>en_db := db', en_done := en_done e @ tickets_of (snd bd)\<rparr>)"

section \<open>The two threads\<close>

text \<open>
  \<open>recv_first\<close>: the collector's blocking \<^verbatim>\<open>recv\<close>. \<open>recv_more\<close>: a further operation while the batch is
  below the limit. \<open>send_batch\<close>: the collector stops when the channel is empty, the batch is full or,
  in durable mode, the accumulation window has run out (at any moment). \<open>commit\<close>: the committer takes
  the oldest batch.
\<close>

inductive engine_step :: "'db libs \<Rightarrow> bool \<Rightarrow> 'db engine \<Rightarrow> 'db engine \<Rightarrow> bool" for L sync where
  recv_first:
    "en_open e = None \<Longrightarrow> en_queue e = op # q \<Longrightarrow>
       engine_step L sync e (e\<lparr>en_open := Some (batch_apply ([], []) op), en_queue := q\<rparr>)"
| recv_more:
    "en_open e = Some bd \<Longrightarrow> length (fst bd) < MAX_BATCH_OPS \<Longrightarrow> en_queue e = op # q \<Longrightarrow>
       engine_step L sync e (e\<lparr>en_open := Some (batch_apply bd op), en_queue := q\<rparr>)"
| send_batch:
    "en_open e = Some bd \<Longrightarrow> sync \<or> en_queue e = [] \<or> \<not> length (fst bd) < MAX_BATCH_OPS \<Longrightarrow>
       engine_step L sync e (e\<lparr>en_open := None, en_commits := en_commits e @ [bd]\<rparr>)"
| commit:
    "en_commits e = bd # cs \<Longrightarrow>
       engine_step L sync e (commit_batch L bd (e\<lparr>en_commits := cs\<rparr>))"

text \<open>A run: the operations sent from outside, interleaved with steps of the threads.\<close>

inductive engine_run ::
  "'db libs \<Rightarrow> bool \<Rightarrow> 'db engine \<Rightarrow> write_op list \<Rightarrow> 'db engine \<Rightarrow> bool" for L sync e0 where
  run_start: "engine_run L sync e0 [] e0"
| run_send: "engine_run L sync e0 ops e \<Longrightarrow> engine_run L sync e0 (ops @ [op]) (send_op op e)"
| run_step: "engine_run L sync e0 ops e \<Longrightarrow> engine_step L sync e e' \<Longrightarrow> engine_run L sync e0 ops e'"

inductive_cases engine_stepE: "engine_step L sync e e'"

section \<open>What is pending\<close>

fun op_of :: "write_op \<Rightarrow> wb_op" where
  "op_of (WPut k v _) = WbPut k v"
| "op_of (WDelete k _) = WbDelete k"
| "op_of (WDeleteRange s e _) = WbDeleteRange s e"

fun ticket_of :: "write_op \<Rightarrow> ticket option" where
  "ticket_of (WPut _ _ t) = t"
| "ticket_of (WDelete _ t) = t"
| "ticket_of (WDeleteRange _ _ t) = t"

definition open_list :: "'db engine \<Rightarrow> batch list" where
  "open_list e = (case en_open e of None \<Rightarrow> [] | Some bd \<Rightarrow> [bd])"

definition pend_ops :: "'db engine \<Rightarrow> wb_op list" where
  "pend_ops e = concat (map fst (en_commits e @ open_list e)) @ map op_of (en_queue e)"

definition pend_tickets :: "'db engine \<Rightarrow> ticket option list" where
  "pend_tickets e = concat (map snd (en_commits e @ open_list e)) @ map ticket_of (en_queue e)"

text \<open>Batches are non-empty, within the limit, and carry one completion slot per operation.\<close>

definition batch_wf :: "batch \<Rightarrow> bool" where
  "batch_wf bd \<longleftrightarrow> 0 < length (fst bd) \<and> length (fst bd) \<le> MAX_BATCH_OPS \<and> length (snd bd) = length (fst bd)"

definition engine_wf :: "'db engine \<Rightarrow> bool" where
  "engine_wf e \<longleftrightarrow> list_all batch_wf (en_commits e @ open_list e)"

definition quiet :: "'db engine \<Rightarrow> bool" where
  "quiet e \<longleftrightarrow> en_queue e = [] \<and> en_open e = None \<and> en_commits e = []"

text \<open>What the database will hold once everything pending is committed.\<close>

definition engine_view :: "('db \<Rightarrow> kv) \<Rightarrow> 'db engine \<Rightarrow> kv" where
  "engine_view absm e = apply_ops (pend_ops e) (absm (en_db e))"

lemmas pend_defs = pend_ops_def pend_tickets_def open_list_def

lemma batch_apply_eq: "batch_apply bd op = (fst bd @ [op_of op], snd bd @ [ticket_of op])"
  by (cases bd; cases op) simp_all

lemma tickets_of_append [simp]: "tickets_of (a @ b) = tickets_of a @ tickets_of b"
  by (simp add: tickets_of_def)

lemma tickets_of_Nil [simp]: "tickets_of [] = []"
  by (simp add: tickets_of_def)

lemma tickets_of_Cons [simp]:
  "tickets_of (t # d) = (case t of None \<Rightarrow> tickets_of d | Some t \<Rightarrow> t # tickets_of d)"
  by (simp add: tickets_of_def split: option.split)

lemma set_tickets_of: "set (tickets_of d) = {t. Some t \<in> set d}"
  by (induction d) (auto split: option.splits)

lemma engine_wf_new: "engine_wf (new_engine db)"
  by (simp add: engine_wf_def new_engine_def open_list_def)

lemma engine_wf_send: "engine_wf (send_op op e) \<longleftrightarrow> engine_wf e"
  by (simp add: engine_wf_def send_op_def open_list_def)

lemma engine_step_wf: "engine_step L sync e e' \<Longrightarrow> engine_wf e \<Longrightarrow> engine_wf e'"
  by (induction rule: engine_step.induct)
     (auto simp: engine_wf_def open_list_def batch_wf_def batch_apply_eq commit_batch_def Let_def
        MAX_BATCH_OPS_def list_all_iff)

lemma engine_run_wf: "engine_run L sync e0 ops e \<Longrightarrow> engine_wf e0 \<Longrightarrow> engine_wf e"
  by (induction rule: engine_run.induct) (auto simp: engine_wf_send engine_step_wf)

text \<open>The threads never reorder: a step moves operations from the head of what is pending into the
  database, together with their tickets.\<close>

lemma engine_step_moves:
  assumes "engine_step L sync e e'" and "engine_wf e" and "rocks_ok L absm"
  shows "\<exists>n. absm (en_db e') = apply_ops (take n (pend_ops e)) (absm (en_db e))
     \<and> pend_ops e' = drop n (pend_ops e) \<and> pend_tickets e' = drop n (pend_tickets e)
     \<and> en_done e' = en_done e @ tickets_of (take n (pend_tickets e))"
  using assms(1)
proof (cases rule: engine_step.cases)
  case (recv_first op q)
  then show ?thesis by (intro exI [of _ 0]) (simp add: pend_defs batch_apply_eq)
next
  case (recv_more bd op q)
  then show ?thesis by (intro exI [of _ 0]) (simp add: pend_defs batch_apply_eq)
next
  case (send_batch bd)
  then show ?thesis by (intro exI [of _ 0]) (simp add: pend_defs)
next
  case (commit bd cs)
  from rocks_okD(4) [OF assms(3)] obtain db' where
    "rk_write L (en_db e) (fst bd) = Ok db'" "absm db' = apply_ops (fst bd) (absm (en_db e))" by blast
  moreover have "length (snd bd) = length (fst bd)"
    using assms(2) commit by (simp add: engine_wf_def batch_wf_def)
  ultimately show ?thesis
    using commit
    by (intro exI [of _ "length (fst bd)"]) (simp add: pend_defs commit_batch_def)
qed

lemma engine_step_view:
  assumes "engine_step L sync e e'" and "engine_wf e" and "rocks_ok L absm"
  shows "engine_view absm e' = engine_view absm e"
proof -
  from engine_step_moves [OF assms] obtain n where
    "absm (en_db e') = apply_ops (take n (pend_ops e)) (absm (en_db e))"
    "pend_ops e' = drop n (pend_ops e)" by blast
  then have "engine_view absm e' = apply_ops (take n (pend_ops e) @ drop n (pend_ops e)) (absm (en_db e))"
    by (simp only: engine_view_def apply_ops_append)
  then show ?thesis by (simp add: engine_view_def)
qed

lemma engine_view_send: "engine_view absm (send_op op e) = apply_op (op_of op) (engine_view absm e)"
  by (simp add: engine_view_def pend_defs send_op_def)

lemma pend_send:
  "pend_ops (send_op op e) = pend_ops e @ [op_of op]"
  "pend_tickets (send_op op e) = pend_tickets e @ [ticket_of op]"
  by (simp_all add: pend_defs send_op_def)

lemma length_pend: "engine_wf e \<Longrightarrow> length (pend_tickets e) = length (pend_ops e)"
proof -
  assume "engine_wf e"
  then have "map (length \<circ> snd) (en_commits e @ open_list e) = map (length \<circ> fst) (en_commits e @ open_list e)"
    by (auto simp: engine_wf_def batch_wf_def list_all_iff)
  then have "length (concat (map snd (en_commits e @ open_list e))) = length (concat (map fst (en_commits e @ open_list e)))"
    by (simp only: length_concat map_map)
  then show ?thesis by (simp add: pend_ops_def pend_tickets_def)
qed

lemma quiet_pend:
  assumes "engine_wf e"
  shows "quiet e \<longleftrightarrow> pend_ops e = []"
proof -
  have ne: "fst bd \<noteq> []" if "bd \<in> set (en_commits e @ open_list e)" for bd
    using assms that by (fastforce simp: engine_wf_def batch_wf_def list_all_iff)
  have "concat (map fst (en_commits e @ open_list e)) = [] \<longleftrightarrow> en_commits e @ open_list e = []"
  proof
    assume none: "concat (map fst (en_commits e @ open_list e)) = []"
    show "en_commits e @ open_list e = []"
    proof (rule ccontr)
      assume "en_commits e @ open_list e \<noteq> []"
      then obtain bd bs where eq: "en_commits e @ open_list e = bd # bs" by (meson neq_Nil_conv)
      then have "fst bd \<noteq> []" using ne [of bd] by simp
      then show False using none by (simp only: eq) simp
    qed
  qed simp
  then show ?thesis by (auto simp: quiet_def pend_ops_def open_list_def split: option.splits)
qed

section \<open>Progress\<close>

text \<open>Every step of a thread lowers this measure, and a thread can step while anything is pending.\<close>

definition work :: "'db engine \<Rightarrow> nat" where
  "work e = 3 * length (en_queue e)
     + (case en_open e of None \<Rightarrow> 0 | Some _ \<Rightarrow> 2) + length (en_commits e)"

lemma engine_step_work: "engine_step L sync e e' \<Longrightarrow> work e' < work e"
  by (induction rule: engine_step.induct) (auto simp: work_def commit_batch_def Let_def)

lemma engine_step_enabled: "\<not> quiet e \<Longrightarrow> \<exists>e'. engine_step L sync e e'"
proof (cases "en_open e")
  case (Some bd)
  then show ?thesis
    by (cases "en_queue e"; cases "length (fst bd) < MAX_BATCH_OPS")
       (blast intro: engine_step.intros)+
next
  case None
  assume "\<not> quiet e"
  with None show ?thesis
    by (cases "en_queue e"; cases "en_commits e") (auto simp: quiet_def intro: engine_step.intros)
qed

lemma quiet_no_step: "quiet e \<Longrightarrow> \<not> engine_step L sync e e'"
  by (auto simp: quiet_def elim: engine_stepE)

text \<open>An executable scheduler, used by the sequential reading of the program: the committer goes
  first, the collector takes all it can.\<close>

definition sched_step :: "'db libs \<Rightarrow> 'db engine \<Rightarrow> 'db engine option" where
  "sched_step L e =
     (case en_commits e of bd # cs \<Rightarrow> Some (commit_batch L bd (e\<lparr>en_commits := cs\<rparr>))
      | [] \<Rightarrow>
        (case en_open e of
           None \<Rightarrow> (case en_queue e of [] \<Rightarrow> None
                    | op # q \<Rightarrow> Some (e\<lparr>en_open := Some (batch_apply ([], []) op), en_queue := q\<rparr>))
         | Some bd \<Rightarrow>
             (case en_queue e of
                [] \<Rightarrow> Some (e\<lparr>en_open := None, en_commits := en_commits e @ [bd]\<rparr>)
              | op # q \<Rightarrow>
                  if length (fst bd) < MAX_BATCH_OPS
                  then Some (e\<lparr>en_open := Some (batch_apply bd op), en_queue := q\<rparr>)
                  else Some (e\<lparr>en_open := None, en_commits := en_commits e @ [bd]\<rparr>))))"

lemma sched_step_sound: "sched_step L e = Some e' \<Longrightarrow> engine_step L sync e e'"
  using send_batch [of e _ sync L]
  by (auto simp: sched_step_def split: list.splits option.splits if_splits intro: engine_step.intros)

lemma sched_step_None: "sched_step L e = None \<longleftrightarrow> quiet e"
  by (auto simp: sched_step_def quiet_def split: list.splits option.splits if_splits)

function drain :: "'db libs \<Rightarrow> 'db engine \<Rightarrow> 'db engine" where
  "drain L e = (case sched_step L e of None \<Rightarrow> e | Some e' \<Rightarrow> drain L e')"
  by pat_completeness auto
termination by (relation "measure (work \<circ> snd)") (auto dest: sched_step_sound engine_step_work)

declare drain.simps [simp del]

lemma drain_steps: "(engine_step L sync)\<^sup>*\<^sup>* e (drain L e) \<and> quiet (drain L e)"
proof (induction L e rule: drain.induct)
  case (1 L e)
  show ?case
  proof (cases "sched_step L e")
    case None
    moreover from None have "quiet e" by (simp add: sched_step_None)
    ultimately show ?thesis by (simp add: drain.simps [of L e])
  next
    case (Some e')
    then show ?thesis using 1 [OF Some] sched_step_sound [OF Some, of sync]
      by (auto simp: drain.simps [of L e] intro: converse_rtranclp_into_rtranclp)
  qed
qed

lemma run_steps:
  "(engine_step L sync)\<^sup>*\<^sup>* e e' \<Longrightarrow> engine_run L sync e0 ops e \<Longrightarrow> engine_run L sync e0 ops e'"
  by (induction rule: rtranclp_induct) (auto intro: engine_run.intros)

lemma steps_moves:
  assumes "(engine_step L sync)\<^sup>*\<^sup>* e e'" and "engine_wf e" and "rocks_ok L absm"
  shows "engine_wf e' \<and> engine_view absm e' = engine_view absm e
    \<and> en_done e' @ tickets_of (pend_tickets e') = en_done e @ tickets_of (pend_tickets e)"
  using assms(1)
proof (induction rule: rtranclp_induct)
  case (step e1 e2)
  then have wf: "engine_wf e1" by simp
  from engine_step_moves [OF step(2) wf assms(3)] obtain n where
    "pend_tickets e2 = drop n (pend_tickets e1)"
    "en_done e2 = en_done e1 @ tickets_of (take n (pend_tickets e1))" by blast
  then have "en_done e2 @ tickets_of (pend_tickets e2)
      = en_done e1 @ tickets_of (take n (pend_tickets e1) @ drop n (pend_tickets e1))"
    by (simp only: tickets_of_append append_assoc)
  then show ?case
    using step engine_step_view [OF step(2) wf assms(3)] engine_step_wf [OF step(2) wf] by simp
qed (use assms in simp)

lemma drain_view:
  assumes "engine_wf e" and "rocks_ok L absm"
  shows "quiet (drain L e)" and "absm (en_db (drain L e)) = engine_view absm e"
    and "en_done (drain L e) = en_done e @ tickets_of (pend_tickets e)"
proof -
  note d = drain_steps [of L False e]
  show "quiet (drain L e)" using d by simp
  then show "absm (en_db (drain L e)) = engine_view absm e"
    "en_done (drain L e) = en_done e @ tickets_of (pend_tickets e)"
    using steps_moves [of L False e "drain L e" absm] d assms
    by (simp_all add: engine_view_def pend_defs quiet_def)
qed

section \<open>Whole runs\<close>

lemma engine_run_prefix:
  assumes "engine_run L sync e0 ops e" and "quiet e0" and "rocks_ok L absm"
  shows "\<exists>n. absm (en_db e) = apply_ops (take n (map op_of ops)) (absm (en_db e0))
     \<and> pend_ops e = drop n (map op_of ops) \<and> pend_tickets e = drop n (map ticket_of ops)
     \<and> en_done e = en_done e0 @ tickets_of (take n (map ticket_of ops)) \<and> n \<le> length ops"
  using assms(1)
proof (induction rule: engine_run.induct)
  case run_start
  then show ?case using assms(2) by (simp add: quiet_def pend_defs)
next
  case (run_send ops e op)
  then obtain n where "absm (en_db e) = apply_ops (take n (map op_of ops)) (absm (en_db e0))"
    "pend_ops e = drop n (map op_of ops)" "pend_tickets e = drop n (map ticket_of ops)"
    "en_done e = en_done e0 @ tickets_of (take n (map ticket_of ops))" "n \<le> length ops" by blast
  then show ?case
    by (intro exI [of _ n]) (simp add: pend_send, simp add: send_op_def)
next
  case (run_step ops e e')
  then obtain n where n: "absm (en_db e) = apply_ops (take n (map op_of ops)) (absm (en_db e0))"
    "pend_ops e = drop n (map op_of ops)" "pend_tickets e = drop n (map ticket_of ops)"
    "en_done e = en_done e0 @ tickets_of (take n (map ticket_of ops))" "n \<le> length ops" by blast
  have "engine_wf e0" using assms(2) by (simp add: quiet_def engine_wf_def open_list_def)
  with run_step have "engine_wf e" by (blast intro: engine_run_wf)
  from engine_step_moves [OF run_step(2) this assms(3)] obtain m where
    m: "absm (en_db e') = apply_ops (take m (pend_ops e)) (absm (en_db e))"
    "pend_ops e' = drop m (pend_ops e)" "pend_tickets e' = drop m (pend_tickets e)"
    "en_done e' = en_done e @ tickets_of (take m (pend_tickets e))" by blast
  let ?k = "min (n + m) (length ops)"
  have "take ?k xs = take n xs @ take m (drop n xs)" "drop ?k xs = drop m (drop n xs)"
    if "length xs = length ops" for xs :: "'x list"
    using that n(5) take_add [of n m xs] by (simp_all add: min_def add.commute)
  from this [of "map op_of ops"] this [of "map ticket_of ops"]
  show ?case
    by (intro exI [of _ ?k]) (simp only: n m apply_ops_append tickets_of_append, simp)
qed

section \<open>Properties\<close>

text \<open>
  C13. In every interleaving of the senders with the two threads of an engine, the database holds a
  prefix of the operations in the order they were sent, exactly the tickets of that prefix have been
  completed, and the remaining operations are still pending in the same order.
\<close>

theorem pipeline_fifo:
  "engine_run L sync (new_engine db) ops e \<Longrightarrow> rocks_ok L absm \<Longrightarrow>
     \<exists>n\<le>length ops. absm (en_db e) = apply_ops (map op_of (take n ops)) (absm db)
       \<and> en_done e = tickets_of (map ticket_of (take n ops))
       \<and> pend_ops e = map op_of (drop n ops)"
  using engine_run_prefix [of L sync "new_engine db" ops e absm]
  by (auto simp: new_engine_def quiet_def take_map drop_map)

theorem pipeline_fifo_witness:
  "\<exists>n\<le>1. fmlookup (en_db (send_op (WPut [1] [2] (Some 7)) (new_engine fmempty)))
     = apply_ops (map op_of (take n [WPut [1] [2] (Some 7)])) (fmlookup fmempty)"
  using pipeline_fifo [OF run_send [OF run_start, of mem_libs False "new_engine fmempty"] mem_rocks_ok, of "WPut [1] [2] (Some 7)"]
  by auto

text \<open>
  C15. Acknowledged means applied: once the ticket of an operation is completed, that operation and
  every operation sent to the engine before it is in the database, and nothing sent later has been
  applied out of order.
\<close>

theorem acked_is_committed:
  assumes "engine_run L sync (new_engine db) ops e" and "rocks_ok L absm"
    and "distinct (tickets_of (map ticket_of ops))"
    and "i < length ops" and "ticket_of (ops ! i) = Some t" and "t \<in> set (en_done e)"
  shows "\<exists>n. i < n \<and> n \<le> length ops \<and> absm (en_db e) = apply_ops (map op_of (take n ops)) (absm db)"
proof -
  from engine_run_prefix [OF assms(1) _ assms(2)] obtain n where
    n: "absm (en_db e) = apply_ops (map op_of (take n ops)) (absm db)"
    "en_done e = tickets_of (map ticket_of (take n ops))" "n \<le> length ops"
    by (auto simp: new_engine_def quiet_def take_map)
  have "i < n"
  proof (rule ccontr)
    assume "\<not> i < n"
    then have "ops ! i \<in> set (drop n ops)"
      using assms(4) by (auto simp: in_set_conv_nth intro!: exI [of _ "i - n"])
    then have "t \<in> set (tickets_of (map ticket_of (drop n ops)))"
      using assms(5) by (force simp: set_tickets_of)
    moreover have "tickets_of (map ticket_of ops)
        = tickets_of (map ticket_of (take n ops)) @ tickets_of (map ticket_of (drop n ops))"
      by (simp only: tickets_of_append [symmetric] map_append [symmetric] append_take_drop_id)
    ultimately show False using assms(3,6) n(2) by auto
  qed
  with n show ?thesis by blast
qed

theorem acked_is_committed_witness:
  "\<exists>e n. engine_run mem_libs False (new_engine fmempty) [WPut [1] [2] (Some 7), WDelete [1] (Some 8)] e
     \<and> 7 \<in> set (en_done e) \<and> 0 < n \<and> n \<le> 2
     \<and> fmlookup (en_db e) = apply_ops (map op_of (take n [WPut [1] [2] (Some 7), WDelete [1] (Some 8)])) (fmlookup fmempty)"
proof -
  let ?ops = "[WPut [1] [2] (Some 7), WDelete [1] (Some 8)]"
  let ?ea = "send_op (WDelete [1] (Some 8)) (send_op (WPut [1] [2] (Some 7)) (new_engine fmempty))"
  let ?eb = "drain mem_libs ?ea"
  have "engine_run mem_libs False (new_engine fmempty) ([] @ [WPut [1] [2] (Some 7)] @ [WDelete [1] (Some 8)]) ?ea"
    unfolding append_assoc [symmetric] by (intro run_send run_start)
  then have r: "engine_run mem_libs False (new_engine fmempty) ?ops ?eb"
    using drain_steps [of mem_libs False ?ea] run_steps by fastforce
  have d: "7 \<in> set (en_done ?eb)"
    by (simp add: drain.simps sched_step_def send_op_def new_engine_def commit_batch_def MAX_BATCH_OPS_def mem_libs_def)
  from acked_is_committed [OF r mem_rocks_ok, of 0 7] d obtain n where
    "0 < n" "n \<le> 2" "fmlookup (en_db ?eb) = apply_ops (map op_of (take n ?ops)) (fmlookup fmempty)" by auto
  with r d show ?thesis by blast
qed

text \<open>
  C18. The pipeline always drains: from any well-formed state its threads can only take finitely many
  steps, and when neither can step, every pending operation has been applied in order and every
  pending ticket has been completed.
\<close>

theorem pipeline_drains:
  assumes "engine_wf e" and "rocks_ok L absm"
  shows "wfP (\<lambda>e'' e'. engine_step L sync e' e'') \<and>
    (\<exists>e'. (engine_step L sync)\<^sup>*\<^sup>* e e' \<and> (\<forall>e''. \<not> engine_step L sync e' e'')) \<and>
    (\<forall>e'. (engine_step L sync)\<^sup>*\<^sup>* e e' \<longrightarrow> (\<forall>e''. \<not> engine_step L sync e' e'') \<longrightarrow>
       quiet e' \<and> absm (en_db e') = apply_ops (pend_ops e) (absm (en_db e))
       \<and> en_done e' = en_done e @ tickets_of (pend_tickets e))"
proof (intro conjI allI impI)
  show "wfP (\<lambda>e'' e'. engine_step L sync e' e'')"
    by (rule wfp_if_convertible_to_nat [of _ work]) (rule engine_step_work)
  show "\<exists>e'. (engine_step L sync)\<^sup>*\<^sup>* e e' \<and> (\<forall>e''. \<not> engine_step L sync e' e'')"
    using drain_steps [of L sync e] quiet_no_step [of "drain L e" L sync] by (intro exI [of _ "drain L e"]) simp
  fix e' assume steps: "(engine_step L sync)\<^sup>*\<^sup>* e e'" and stuck: "\<forall>e''. \<not> engine_step L sync e' e''"
  from stuck show q: "quiet e'" using engine_step_enabled [of e' L sync] by blast
  then have "pend_ops e' = []" "pend_tickets e' = []" by (simp_all add: pend_defs quiet_def)
  then show "absm (en_db e') = apply_ops (pend_ops e) (absm (en_db e))"
    "en_done e' = en_done e @ tickets_of (pend_tickets e)"
    using steps_moves [OF steps assms] by (simp_all add: engine_view_def)
qed

theorem pipeline_drains_witness:
  "\<exists>e'. (engine_step mem_libs True)\<^sup>*\<^sup>* (send_op (WPut [1] [2] (Some 7)) (new_engine fmempty)) e'
     \<and> fmlookup (en_db e') [1] = Some [2] \<and> en_done e' = [7]"
proof -
  let ?e = "send_op (WPut [1] [2] (Some 7)) (new_engine (fmempty :: (bytes, bytes) fmap))"
  have "engine_wf ?e" by (simp add: engine_wf_send engine_wf_new)
  note drains = pipeline_drains [OF this mem_rocks_ok, of True]
  then obtain e' where e': "(engine_step mem_libs True)\<^sup>*\<^sup>* ?e e'" "\<forall>e''. \<not> engine_step mem_libs True e' e''"
    by (elim conjE exE)
  from drains e' have "fmlookup (en_db e') = apply_ops (pend_ops ?e) (fmlookup (en_db ?e))
      \<and> en_done e' = en_done ?e @ tickets_of (pend_tickets ?e)" by (elim conjE) simp
  with e'(1) show ?thesis by (intro exI [of _ e']) (simp add: send_op_def new_engine_def pend_defs)
qed

text \<open>
  Every batch handed to the committer holds between one and \<^verbatim>\<open>MAX_BATCH_OPS\<close> operations and one
  completion slot per operation, whatever the interleaving.
\<close>

theorem batches_bounded:
  "engine_run L sync (new_engine db) ops e \<Longrightarrow> (b, d) \<in> set (en_commits e) \<Longrightarrow>
     1 \<le> length b \<and> length b \<le> 2048 \<and> length d = length b"
proof -
  assume run: "engine_run L sync (new_engine db) ops e" and mem: "(b, d) \<in> set (en_commits e)"
  from run have "engine_wf e" by (rule engine_run_wf) (rule engine_wf_new)
  with mem have "batch_wf (b, d)" by (auto simp: engine_wf_def list_all_iff)
  then show ?thesis by (simp add: batch_wf_def MAX_BATCH_OPS_def Suc_le_eq)
qed

theorem batches_bounded_witness:
  "\<exists>e b d. engine_run mem_libs True (new_engine fmempty) [WDelete [1] None] e \<and> (b, d) \<in> set (en_commits e)
     \<and> 1 \<le> length b \<and> length b \<le> 2048 \<and> length d = length b"
proof -
  let ?ea = "send_op (WDelete [1] None) (new_engine (fmempty :: (bytes, bytes) fmap))"
  let ?eb = "?ea\<lparr>en_open := Some (batch_apply ([], []) (WDelete [1] None)), en_queue := []\<rparr>"
  let ?ec = "?eb\<lparr>en_open := None, en_commits := en_commits ?eb @ [batch_apply ([], []) (WDelete [1] None)]\<rparr>"
  have r0: "engine_run mem_libs True (new_engine fmempty) ([] @ [WDelete [1] None]) ?ea"
    by (intro run_send run_start)
  have s1: "engine_step mem_libs True ?ea ?eb"
    by (rule recv_first) (simp_all add: send_op_def new_engine_def)
  have s2: "engine_step mem_libs True ?eb ?ec"
    by (rule send_batch) simp_all
  from run_step [OF run_step [OF r0 s1] s2]
  have r: "engine_run mem_libs True (new_engine fmempty) [WDelete [1] None] ?ec"
    by (simp only: append_Nil)
  have m: "([WbDelete [1]], [None]) \<in> set (en_commits ?ec)" by simp
  from batches_bounded [OF r m] r m show ?thesis
    by (intro exI [of _ ?ec] exI [of _ "[WbDelete [1]]"] exI [of _ "[None]"]) simp
qed

end
