(* ===== verification/Storage.thy ===== *)
theory Storage
  imports Pipeline "HOL-Library.AList"
begin

text \<open>
  The storage layer (\<^verbatim>\<open>src/src/storage.rs\<close>, \<^verbatim>\<open>impl Storage\<close>): the engines with their write pipelines,
  the metadata caches, the statement cache and the row cache, and every operation on them. An
  operation takes the storage and returns it updated with its result, so that a state change made
  before an error stays.
\<close>

section \<open>State\<close>

text \<open>
  \<^verbatim>\<open>dbs\<close> and \<^verbatim>\<open>writers\<close> have one entry per engine and are kept together in \<open>st_engines\<close>. The hash maps
  are functions, but for the statement cache, whose length the code reads. Tickets are numbered:
  \<open>st_next_ticket\<close> is the number of the next completion channel.
\<close>

record 'db storage =
  st_engines :: "'db engine list"
  st_keyspaces :: "string \<rightharpoonup> keyspace_def"
  st_tables :: "string \<times> string \<rightharpoonup> table_def"
  st_ast_cache :: "(string \<times> statement) list"
  st_write_sync :: bool
  st_row_cache :: "(bytes \<rightharpoonup> bytes) option"
  st_next_ticket :: ticket

type_synonym ('db, 'a) act = "'db storage \<times> 'a anyhow"

definition AST_CACHE_CAPACITY :: nat where "AST_CACHE_CAPACITY = 8192"

abbreviation ndbs :: "'db storage \<Rightarrow> nat" where
  "ndbs s \<equiv> length (st_engines s)"

definition upd_engine :: "nat \<Rightarrow> ('db engine \<Rightarrow> 'db engine) \<Rightarrow> 'db storage \<Rightarrow> 'db storage" where
  "upd_engine i f s = s\<lparr>st_engines := (st_engines s)[i := f (st_engines s ! i)]\<rparr>"

text \<open>Access to the database of an engine: an index out of range panics.\<close>

definition on_db :: "nat \<Rightarrow> ('db \<Rightarrow> 'a anyhow) \<Rightarrow> 'db storage \<Rightarrow> 'a anyhow" where
  "on_db i f s = (if i < ndbs s then f (en_db (st_engines s ! i)) else Panic)"

definition write_db :: "nat \<Rightarrow> ('db \<Rightarrow> 'db anyhow) \<Rightarrow> string \<Rightarrow> 'db storage \<Rightarrow> ('db, unit) act" where
  "write_db i f msg s =
     (case on_db i f s of
        Ok db \<Rightarrow> (upd_engine i (\<lambda>e. e\<lparr>en_db := db\<rparr>) s, Ok ())
      | Err m \<Rightarrow> (s, Err (msg @ m))
      | Halt h \<Rightarrow> (s, Halt h))"

section \<open>Metadata access on engine 0\<close>

definition storage_put :: "'db libs \<Rightarrow> bytes \<Rightarrow> bytes \<Rightarrow> 'db storage \<Rightarrow> ('db, unit) act" where
  "storage_put L key val s = write_db 0 (\<lambda>db. rk_put L db key val) ''rocksdb put failed: '' s"

definition storage_get :: "'db libs \<Rightarrow> bytes \<Rightarrow> 'db storage \<Rightarrow> bytes option anyhow" where
  "storage_get L key s = on_db 0 (\<lambda>db. rk_get L db key) s"

definition storage_delete :: "'db libs \<Rightarrow> bytes \<Rightarrow> 'db storage \<Rightarrow> ('db, unit) act" where
  "storage_delete L key s = write_db 0 (\<lambda>db. rk_delete L db key) ''rocksdb delete failed: '' s"

section \<open>Scans\<close>

text \<open>
  The loop of \<^verbatim>\<open>for_each_on_engine\<close> over the iterator. The callback updates the variables it captures,
  \<open>acc\<close>, and says whether to go on; it may panic.
\<close>

fun scan_loop ::
  "bytes \<Rightarrow> (bytes \<Rightarrow> bytes \<Rightarrow> 'a \<Rightarrow> ('a \<times> bool) anyhow) \<Rightarrow> (bytes \<times> bytes) anyhow list \<Rightarrow> 'a \<Rightarrow> 'a \<times> unit anyhow" where
  "scan_loop pfx f [] acc = (acc, Ok ())"
| "scan_loop pfx f (item # items) acc =
     (case item of
        Err m \<Rightarrow> (acc, Err m)
      | Halt h \<Rightarrow> (acc, Halt h)
      | Ok (k, v) \<Rightarrow>
          if \<not> prefix pfx k then (acc, Ok ())
          else (case f k v acc of
                  Ok (acc', cont) \<Rightarrow> if cont then scan_loop pfx f items acc' else (acc', Ok ())
                | Err m \<Rightarrow> (acc, Err m)
                | Halt h \<Rightarrow> (acc, Halt h)))"

definition for_each_on_engine ::
  "'db libs \<Rightarrow> 'db storage \<Rightarrow> nat \<Rightarrow> bytes \<Rightarrow> (bytes \<Rightarrow> bytes \<Rightarrow> 'a \<Rightarrow> ('a \<times> bool) anyhow) \<Rightarrow> 'a \<Rightarrow> 'a \<times> unit anyhow" where
  "for_each_on_engine L s i pfx f acc =
     (if i < ndbs s then scan_loop pfx f (rk_iter L (en_db (st_engines s ! i)) pfx) acc else (acc, Panic))"

definition push_entry :: "bytes \<Rightarrow> bytes \<Rightarrow> (bytes \<times> bytes) list \<Rightarrow> ((bytes \<times> bytes) list \<times> bool) anyhow" where
  "push_entry k v out = Ok (out @ [(k, v)], True)"

definition scan_prefix :: "'db libs \<Rightarrow> bytes \<Rightarrow> 'db storage \<Rightarrow> (bytes \<times> bytes) list anyhow" where
  "scan_prefix L pfx s =
     (case for_each_on_engine L s 0 pfx push_entry [] of (out, r) \<Rightarrow> rbind r (\<lambda>_. Ok out))"

definition for_each_in_prefix ::
  "'db libs \<Rightarrow> 'db storage \<Rightarrow> bytes \<Rightarrow> (bytes \<Rightarrow> bytes \<Rightarrow> 'a \<Rightarrow> ('a \<times> bool) anyhow) \<Rightarrow> 'a \<Rightarrow> 'a \<times> unit anyhow" where
  "for_each_in_prefix L s pfx f acc = for_each_on_engine L s 0 pfx f acc"

text \<open>\<^verbatim>\<open>for_each_in_table\<close>: the wrapped callback records in \<^verbatim>\<open>stop\<close> whether the caller's said to stop.\<close>

fun table_loop ::
  "'db libs \<Rightarrow> 'db storage \<Rightarrow> bytes \<Rightarrow> (bytes \<Rightarrow> bytes \<Rightarrow> 'a \<Rightarrow> ('a \<times> bool) anyhow) \<Rightarrow> nat list \<Rightarrow> 'a \<Rightarrow> 'a \<times> unit anyhow" where
  "table_loop L s pfx f [] acc = (acc, Ok ())"
| "table_loop L s pfx f (i # is) acc =
     (case for_each_on_engine L s i pfx
             (\<lambda>k v (a, stop). rbind (f k v a) (\<lambda>(a, cont). Ok ((a, \<not> cont), cont))) (acc, False) of
        ((a, stop), Ok _) \<Rightarrow> if stop then (a, Ok ()) else table_loop L s pfx f is a
      | ((a, stop), Err m) \<Rightarrow> (a, Err m)
      | ((a, stop), Halt h) \<Rightarrow> (a, Halt h))"

definition for_each_in_table ::
  "'db libs \<Rightarrow> 'db storage \<Rightarrow> string \<Rightarrow> string \<Rightarrow> (bytes \<Rightarrow> bytes \<Rightarrow> 'a \<Rightarrow> ('a \<times> bool) anyhow) \<Rightarrow> 'a \<Rightarrow> 'a \<times> unit anyhow" where
  "for_each_in_table L s keyspace table f acc =
     table_loop L s (data_prefix keyspace table) f [0..<ndbs s] acc"

definition for_each_in_partition ::
  "'db libs \<Rightarrow> 'db storage \<Rightarrow> string \<Rightarrow> string \<Rightarrow> bytes list \<Rightarrow> (bytes \<Rightarrow> bytes \<Rightarrow> 'a \<Rightarrow> ('a \<times> bool) anyhow) \<Rightarrow> 'a \<Rightarrow> 'a \<times> unit anyhow" where
  "for_each_in_partition L s keyspace table part f acc =
     for_each_on_engine L s (data_engine (ndbs s) keyspace table (first_part part))
       (data_prefix keyspace table @ encode_key part) f acc"

definition scan_rows :: "'db libs \<Rightarrow> string \<Rightarrow> string \<Rightarrow> 'db storage \<Rightarrow> (bytes \<times> bytes) list anyhow" where
  "scan_rows L keyspace table s =
     (case for_each_in_table L s keyspace table push_entry [] of (out, r) \<Rightarrow> rbind r (\<lambda>_. Ok out))"

definition scan_partition ::
  "'db libs \<Rightarrow> string \<Rightarrow> string \<Rightarrow> bytes list \<Rightarrow> 'db storage \<Rightarrow> (bytes \<times> bytes) list anyhow" where
  "scan_partition L keyspace table part s =
     (case for_each_in_partition L s keyspace table part push_entry [] of (out, r) \<Rightarrow> rbind r (\<lambda>_. Ok out))"

section \<open>Deleting ranges\<close>

definition delete_prefix :: "'db libs \<Rightarrow> bytes \<Rightarrow> 'db storage \<Rightarrow> ('db, unit) act" where
  "delete_prefix L pfx s =
     (case prefix_upper_bound pfx of
        Some e \<Rightarrow> write_db 0 (\<lambda>db. rk_write L db [WbDeleteRange pfx e]) ''rocksdb delete_range failed: '' s
      | None \<Rightarrow>
          (case scan_prefix L pfx s of
             Ok kvs \<Rightarrow> for_each_s (\<lambda>(k, _) s. storage_delete L k s) kvs s
           | Err m \<Rightarrow> (s, Err m)
           | Halt h \<Rightarrow> (s, Halt h)))"

text \<open>Sending an operation to the writer of an engine, with a fresh completion channel.\<close>

definition send_ticketed ::
  "nat \<Rightarrow> (ticket option \<Rightarrow> write_op) \<Rightarrow> 'db storage \<Rightarrow> ('db, ticket) act" where
  "send_ticketed i mk s =
     (if ndbs s \<le> i then (s, Panic)
      else
        (let t = st_next_ticket s; s = s\<lparr>st_next_ticket := Suc t\<rparr> in
         if en_gone (st_engines s ! i) then (s, Err ''storage writer is gone'')
         else (upd_engine i (send_op (mk (Some t))) s, Ok t)))"

fun send_ranges :: "bytes \<Rightarrow> bytes \<Rightarrow> nat list \<Rightarrow> ticket list \<Rightarrow> 'db storage \<Rightarrow> ('db, ticket list) act" where
  "send_ranges st en [] ts s = (s, Ok ts)"
| "send_ranges st en (i # is) ts s =
     and_then (send_ticketed i (WDeleteRange st en) s) (\<lambda>s t. send_ranges st en is (ts @ [t]) s)"

text \<open>The fallback for a saturated prefix ignores a failed send but pushes its ticket.\<close>

definition send_delete_of :: "nat \<Rightarrow> bytes \<Rightarrow> bytes \<Rightarrow> 'db storage \<times> ticket list \<Rightarrow> (('db storage \<times> ticket list) \<times> bool) anyhow" where
  "send_delete_of i k v acc =
     (case acc of (s, ts) \<Rightarrow>
        (case send_ticketed i (WDelete k) s of
           (s', Halt h) \<Rightarrow> Halt h
         | (s', _) \<Rightarrow> Ok ((s', ts @ [st_next_ticket s]), True)))"

fun send_deletes ::
  "'db libs \<Rightarrow> bytes \<Rightarrow> nat list \<Rightarrow> ticket list \<Rightarrow> 'db storage \<Rightarrow> ('db, ticket list) act" where
  "send_deletes L pfx [] ts s = (s, Ok ts)"
| "send_deletes L pfx (i # is) ts s =
     (case for_each_on_engine L s i pfx (send_delete_of i) (s, ts) of
        ((s, ts), Ok _) \<Rightarrow> send_deletes L pfx is ts s
      | ((s, ts), Err m) \<Rightarrow> (s, Err m)
      | ((s, ts), Halt h) \<Rightarrow> (s, Halt h))"

definition clear_row_cache :: "'db storage \<Rightarrow> 'db storage" where
  "clear_row_cache s = s\<lparr>st_row_cache := map_option (\<lambda>_. Map.empty) (st_row_cache s)\<rparr>"

definition delete_data_prefix :: "'db libs \<Rightarrow> bytes \<Rightarrow> 'db storage \<Rightarrow> ('db, ticket list) act" where
  "delete_data_prefix L pfx s =
     and_then
       (case prefix_upper_bound pfx of
          Some e \<Rightarrow> send_ranges pfx e [0..<ndbs s] [] s
        | None \<Rightarrow> send_deletes L pfx [0..<ndbs s] [] s)
       (\<lambda>s ts. (if prefix DT_PREFIX pfx then clear_row_cache s else s, Ok ts))"

section \<open>Keyspaces and tables\<close>

text \<open>A computation that reads the storage and fails without changing it.\<close>

definition reading :: "'a anyhow \<Rightarrow> ('a \<Rightarrow> ('db, 'b) act) \<Rightarrow> 'db storage \<Rightarrow> ('db, 'b) act" where
  "reading r f s = (case r of Ok x \<Rightarrow> f x | Err m \<Rightarrow> (s, Err m) | Halt h \<Rightarrow> (s, Halt h))"

definition put_keyspace :: "'db libs \<Rightarrow> keyspace_def \<Rightarrow> 'db storage \<Rightarrow> ('db, unit) act" where
  "put_keyspace L ks s =
     reading (js_ks_to_vec L ks)
       (\<lambda>b. and_then (storage_put L (ks_key (kd_name ks)) b s)
         (\<lambda>s _. (s\<lparr>st_keyspaces := (st_keyspaces s)(kd_name ks \<mapsto> ks)\<rparr>, Ok ()))) s"

definition get_keyspace :: "'db libs \<Rightarrow> string \<Rightarrow> 'db storage \<Rightarrow> ('db, keyspace_def option) act" where
  "get_keyspace L name s =
     (case st_keyspaces s name of
        Some ks \<Rightarrow> (s, Ok (Some ks))
      | None \<Rightarrow>
          reading (storage_get L (ks_key name) s)
            (\<lambda>r. case r of
               None \<Rightarrow> (s, Ok None)
             | Some b \<Rightarrow>
                 reading (js_ks_from_slice L b)
                   (\<lambda>ks. (s\<lparr>st_keyspaces := (st_keyspaces s)(name \<mapsto> ks)\<rparr>, Ok (Some ks))) s) s)"

definition delete_keyspace :: "'db libs \<Rightarrow> string \<Rightarrow> 'db storage \<Rightarrow> ('db, ticket list) act" where
  "delete_keyspace L name s =
     and_then (storage_delete L (ks_key name) s) (\<lambda>s _.
     and_then (delete_prefix L (TB_PREFIX @ str_bytes name @ bang) s) (\<lambda>s _.
     and_then (delete_data_prefix L (DT_PREFIX @ str_bytes name @ bang) s) (\<lambda>s tickets.
       (s\<lparr>st_keyspaces := (st_keyspaces s)(name := None),
          st_tables := (\<lambda>(ks, tb). if ks \<noteq> name then st_tables s (ks, tb) else None)\<rparr>,
        Ok tickets))))"

definition put_table :: "'db libs \<Rightarrow> table_def \<Rightarrow> 'db storage \<Rightarrow> ('db, unit) act" where
  "put_table L table s =
     reading (js_tb_to_vec L table)
       (\<lambda>b. and_then (storage_put L (tb_key (td_keyspace table) (td_name table)) b s)
         (\<lambda>s _. (s\<lparr>st_tables := (st_tables s)((td_keyspace table, td_name table) \<mapsto> table)\<rparr>, Ok ()))) s"

definition get_table :: "'db libs \<Rightarrow> string \<Rightarrow> string \<Rightarrow> 'db storage \<Rightarrow> ('db, table_def option) act" where
  "get_table L keyspace table s =
     (case st_tables s (keyspace, table) of
        Some d \<Rightarrow> (s, Ok (Some d))
      | None \<Rightarrow>
          reading (storage_get L (tb_key keyspace table) s)
            (\<lambda>r. case r of
               None \<Rightarrow> (s, Ok None)
             | Some b \<Rightarrow>
                 reading (js_tb_from_slice L b)
                   (\<lambda>d. (s\<lparr>st_tables := (st_tables s)((keyspace, table) \<mapsto> d)\<rparr>, Ok (Some d))) s) s)"

definition delete_table :: "'db libs \<Rightarrow> string \<Rightarrow> string \<Rightarrow> 'db storage \<Rightarrow> ('db, ticket list) act" where
  "delete_table L keyspace table s =
     and_then (storage_delete L (tb_key keyspace table) s) (\<lambda>s _.
     and_then (delete_data_prefix L (data_prefix keyspace table) s) (\<lambda>s tickets.
       (s\<lparr>st_tables := (st_tables s)((keyspace, table) := None)\<rparr>, Ok tickets)))"

definition truncate_table :: "'db libs \<Rightarrow> string \<Rightarrow> string \<Rightarrow> 'db storage \<Rightarrow> ('db, ticket list) act" where
  "truncate_table L keyspace table s = delete_data_prefix L (data_prefix keyspace table) s"

section \<open>Statement cache\<close>

definition ast_cache_get :: "string \<Rightarrow> 'db storage \<Rightarrow> statement option" where
  "ast_cache_get query s = map_of (st_ast_cache s) query"

definition ast_cache_put :: "string \<Rightarrow> statement \<Rightarrow> 'db storage \<Rightarrow> 'db storage" where
  "ast_cache_put query stmt s =
     (let cache = (if AST_CACHE_CAPACITY \<le> length (st_ast_cache s) then [] else st_ast_cache s)
      in s\<lparr>st_ast_cache := AList.update query stmt cache\<rparr>)"

section \<open>Rows\<close>

definition should_cache :: "string \<Rightarrow> bool" where
  "should_cache keyspace \<longleftrightarrow>
     keyspace \<noteq> ''system'' \<and> keyspace \<noteq> ''system_schema'' \<and> keyspace \<noteq> ''system_virtual_schema''"

definition row_key :: "string \<Rightarrow> string \<Rightarrow> bytes list \<Rightarrow> bytes" where
  "row_key keyspace table key_parts = data_prefix keyspace table @ encode_key key_parts"

definition row_engine :: "'db storage \<Rightarrow> string \<Rightarrow> string \<Rightarrow> bytes list \<Rightarrow> nat" where
  "row_engine s keyspace table key_parts = data_engine (ndbs s) keyspace table (first_part key_parts)"

definition cache_lookup :: "string \<Rightarrow> bytes \<Rightarrow> 'db storage \<Rightarrow> bytes option" where
  "cache_lookup keyspace key s =
     (if should_cache keyspace then Option.bind (st_row_cache s) (\<lambda>c. c key) else None)"

definition cache_set :: "string \<Rightarrow> bytes \<Rightarrow> bytes option \<Rightarrow> 'db storage \<Rightarrow> 'db storage" where
  "cache_set keyspace key val s =
     (if should_cache keyspace then s\<lparr>st_row_cache := map_option (\<lambda>c. c(key := val)) (st_row_cache s)\<rparr> else s)"

definition get_row ::
  "'db libs \<Rightarrow> string \<Rightarrow> string \<Rightarrow> bytes list \<Rightarrow> 'db storage \<Rightarrow> ('db, bytes option) act" where
  "get_row L keyspace table key_parts s =
     (let key = row_key keyspace table key_parts in
      case cache_lookup keyspace key s of
        Some v \<Rightarrow> (s, Ok (Some v))
      | None \<Rightarrow>
          reading (on_db (row_engine s keyspace table key_parts) (\<lambda>db. rk_get L db key) s)
            (\<lambda>res. (case res of Some v \<Rightarrow> cache_set keyspace key (Some v) s | None \<Rightarrow> s, Ok res)) s)"

definition put_row_sync ::
  "'db libs \<Rightarrow> string \<Rightarrow> string \<Rightarrow> bytes list \<Rightarrow> bytes \<Rightarrow> 'db storage \<Rightarrow> ('db, unit) act" where
  "put_row_sync L keyspace table key_parts val s =
     (let key = row_key keyspace table key_parts in
      and_then (write_db (row_engine s keyspace table key_parts) (\<lambda>db. rk_put L db key val) ''rocksdb put failed: '' s)
        (\<lambda>s _. (cache_set keyspace key (Some val) s, Ok ())))"

definition delete_row_sync ::
  "'db libs \<Rightarrow> string \<Rightarrow> string \<Rightarrow> bytes list \<Rightarrow> 'db storage \<Rightarrow> ('db, unit) act" where
  "delete_row_sync L keyspace table key_parts s =
     (let key = row_key keyspace table key_parts in
      and_then (write_db (row_engine s keyspace table key_parts) (\<lambda>db. rk_delete L db key) ''rocksdb delete failed: '' s)
        (\<lambda>s _. (cache_set keyspace key None s, Ok ())))"

definition write_data_op ::
  "string \<Rightarrow> string \<Rightarrow> bytes list \<Rightarrow> (ticket option \<Rightarrow> write_op) \<Rightarrow> 'db storage \<Rightarrow> ('db, ticket) act" where
  "write_data_op keyspace table key_parts mk s = send_ticketed (row_engine s keyspace table key_parts) mk s"

definition put_row ::
  "string \<Rightarrow> string \<Rightarrow> bytes list \<Rightarrow> bytes \<Rightarrow> 'db storage \<Rightarrow> ('db, ticket) act" where
  "put_row keyspace table key_parts val s =
     (let key = row_key keyspace table key_parts
      in write_data_op keyspace table key_parts (WPut key val) (cache_set keyspace key (Some val) s))"

definition delete_row :: "string \<Rightarrow> string \<Rightarrow> bytes list \<Rightarrow> 'db storage \<Rightarrow> ('db, ticket) act" where
  "delete_row keyspace table key_parts s =
     (let key = row_key keyspace table key_parts
      in write_data_op keyspace table key_parts (WDelete key) (cache_set keyspace key None s))"

text \<open>
  The threads of all engines run beside the callers. \<^verbatim>\<open>settle\<close> awaits the completion of its tickets:
  it returns in a state the threads can reach in which they are all completed.
\<close>

inductive storage_step :: "'db libs \<Rightarrow> 'db storage \<Rightarrow> 'db storage \<Rightarrow> bool" for L where
  "i < ndbs s \<Longrightarrow> engine_step L (st_write_sync s) (st_engines s ! i) e' \<Longrightarrow>
     storage_step L s (upd_engine i (\<lambda>_. e') s)"

definition completed :: "'db storage \<Rightarrow> ticket \<Rightarrow> bool" where
  "completed s t \<longleftrightarrow> (\<exists>e\<in>set (st_engines s). t \<in> set (en_done e))"

definition settles :: "'db libs \<Rightarrow> ticket list \<Rightarrow> 'db storage \<Rightarrow> 'db storage \<Rightarrow> bool" where
  "settles L tickets s s' \<longleftrightarrow> (storage_step L)\<^sup>*\<^sup>* s s' \<and> list_all (completed s') tickets"

text \<open>The sequential reading: the threads run until nothing is pending.\<close>

definition settle :: "'db libs \<Rightarrow> 'db storage \<Rightarrow> 'db storage" where
  "settle L s = s\<lparr>st_engines := map (drain L) (st_engines s)\<rparr>"

end
