(* ===== verification/SystemTables.thy ===== *)
theory SystemTables
  imports Storage
begin

text \<open>
  Opening a database (\<^verbatim>\<open>src/src/storage.rs\<close>, \<^verbatim>\<open>Storage::open\<close> and \<^verbatim>\<open>seed_system\<close>): the number of engines, which
  is persisted, and the system keyspaces with their tables. The operating system is the record
  \<open>host\<close>: the environment, the number of processors, the marker file, opening one RocksDB instance, and
  the two random UUIDs. No operation depends on the settings of RocksDB or on the thread that flushes the
  write-ahead log; they are in \<open>Durability\<close>.
\<close>

section \<open>The host\<close>

record 'db host =
  ho_env :: "string \<Rightarrow> string option"
  ho_cpus :: "nat option"
  ho_marker :: "string option"
  ho_create_dir :: "unit anyhow"
  ho_write_marker :: "string \<Rightarrow> unit anyhow"
  ho_open_db :: "nat \<Rightarrow> 'db anyhow"
  ho_host_id :: "128 word"
  ho_schema_version :: "128 word"

definition clamp :: "nat \<Rightarrow> nat \<Rightarrow> nat \<Rightarrow> nat" where
  "clamp lo hi n = (if n < lo then lo else if hi < n then hi else n)"

definition env_num :: "(string \<Rightarrow> string option) \<Rightarrow> string \<Rightarrow> nat \<Rightarrow> nat \<Rightarrow> nat \<Rightarrow> nat" where
  "env_num env name dflt lo hi =
     clamp lo hi (case Option.bind (env name) parse_usize of Some n \<Rightarrow> n | None \<Rightarrow> dflt)"

text \<open>The number of engines of a new database, and of any database: the marker file decides.\<close>

definition new_shard_count :: "'db host \<Rightarrow> nat" where
  "new_shard_count H =
     env_num (ho_env H) ''RHYDADB_ENGINE_SHARDS'' (clamp 4 16 (case ho_cpus H of Some n \<Rightarrow> n | None \<Rightarrow> 4)) 1 64"

definition shard_count :: "'db host \<Rightarrow> nat anyhow" where
  "shard_count H =
     (case ho_marker H of
        Some text \<Rightarrow> Ok (case parse_usize (trim text) of Some n \<Rightarrow> n | None \<Rightarrow> 1)
      | None \<Rightarrow>
          rbind (ho_create_dir H) (\<lambda>_.
          rbind (ho_write_marker H (show_nat (new_shard_count H))) (\<lambda>_. Ok (new_shard_count H))))"

section \<open>The system tables\<close>

definition col :: "string \<Rightarrow> column_type \<Rightarrow> bool \<Rightarrow> column_def" where
  "col name ct is_partition_key =
     \<lparr>cd_name = name, cd_type = ct, cd_is_partition_key = is_partition_key, cd_is_clustering = False\<rparr>"

definition sys_local_def :: table_def where
  "sys_local_def =
     \<lparr>td_keyspace = ''system'', td_name = ''local'',
      td_columns =
        [col ''key'' TText True,
         col ''bootstrapped'' TText False,
         col ''broadcast_address'' TInet False,
         col ''cluster_name'' TText False,
         col ''cql_version'' TText False,
         col ''data_center'' TText False,
         col ''gossip_generation'' TInt False,
         col ''host_id'' TUuid False,
         col ''listen_address'' TInet False,
         col ''native_protocol_version'' TText False,
         col ''partitioner'' TText False,
         col ''rack'' TText False,
         col ''release_version'' TText False,
         col ''rpc_address'' TInet False,
         col ''schema_version'' TUuid False,
         col ''tokens'' (TSet TText) False],
      td_partition_keys = [''key''], td_clustering_keys = []\<rparr>"

definition localhost :: ip_addr where "localhost = V4 0x7F000001"

definition local_row :: "128 word \<Rightarrow> 128 word \<Rightarrow> (u16 \<times> cql_value) list" where
  "local_row host_id schema_version =
     [(0, VText ''local''),
      (1, VText ''COMPLETED''),
      (2, VInet localhost),
      (3, VText ''RhydaDB Cluster''),
      (4, VText ''3.4.5''),
      (5, VText ''datacenter1''),
      (6, VInt 0),
      (7, VUuid host_id),
      (8, VInet localhost),
      (9, VText ''4''),
      (10, VText ''org.apache.cassandra.dht.Murmur3Partitioner''),
      (11, VText ''rack1''),
      (12, VText ''4.0.7''),
      (13, VInet localhost),
      (14, VUuid schema_version),
      (15, VSet [VText ''-9223372036854775808''])]"

definition sys_peers_def :: table_def where
  "sys_peers_def =
     \<lparr>td_keyspace = ''system'', td_name = ''peers'',
      td_columns =
        [col ''peer'' TInet True,
         col ''data_center'' TText False,
         col ''host_id'' TUuid False,
         col ''preferred_ip'' TInet False,
         col ''rack'' TText False,
         col ''release_version'' TText False,
         col ''rpc_address'' TInet False,
         col ''schema_version'' TUuid False,
         col ''tokens'' (TSet TText) False],
      td_partition_keys = [''peer''], td_clustering_keys = []\<rparr>"

definition schema_keyspaces_def :: table_def where
  "schema_keyspaces_def =
     \<lparr>td_keyspace = ''system_schema'', td_name = ''keyspaces'',
      td_columns =
        [col ''keyspace_name'' TText True,
         col ''durable_writes'' TBoolean False,
         col ''replication'' (TMap TText TText) False],
      td_partition_keys = [''keyspace_name''], td_clustering_keys = []\<rparr>"

definition schema_tables_def :: table_def where
  "schema_tables_def =
     \<lparr>td_keyspace = ''system_schema'', td_name = ''tables'',
      td_columns =
        [col ''keyspace_name'' TText True,
         col ''table_name'' TText True,
         col ''bloom_filter_fp_chance'' TDouble False,
         col ''caching'' (TMap TText TText) False,
         col ''comment'' TText False,
         col ''compaction'' (TMap TText TText) False,
         col ''compression'' (TMap TText TText) False,
         col ''crc_check_chance'' TDouble False,
         col ''dclocal_read_repair_chance'' TDouble False,
         col ''default_time_to_live'' TInt False,
         col ''extensions'' (TMap TText TBlob) False,
         col ''flags'' (TSet TText) False,
         col ''gc_grace_seconds'' TInt False,
         col ''max_index_interval'' TInt False,
         col ''memtable_flush_period_in_ms'' TInt False,
         col ''min_index_interval'' TInt False,
         col ''read_repair_chance'' TDouble False,
         col ''speculative_retry'' TText False],
      td_partition_keys = [''keyspace_name'', ''table_name''], td_clustering_keys = []\<rparr>"

definition schema_columns_def :: table_def where
  "schema_columns_def =
     \<lparr>td_keyspace = ''system_schema'', td_name = ''columns'',
      td_columns =
        [col ''keyspace_name'' TText True,
         col ''table_name'' TText True,
         col ''column_name'' TText True,
         col ''clustering_order'' TText False,
         col ''column_name_bytes'' TBlob False,
         col ''kind'' TText False,
         col ''position'' TInt False,
         col ''type'' TText False],
      td_partition_keys = [''keyspace_name'', ''table_name'', ''column_name''], td_clustering_keys = []\<rparr>"

definition schema_indexes_def :: table_def where
  "schema_indexes_def =
     \<lparr>td_keyspace = ''system_schema'', td_name = ''indexes'',
      td_columns =
        [col ''keyspace_name'' TText True,
         col ''table_name'' TText True,
         col ''index_name'' TText True,
         col ''kind'' TText False,
         col ''options'' TText False],
      td_partition_keys = [''keyspace_name'', ''table_name'', ''index_name''], td_clustering_keys = []\<rparr>"

definition schema_triggers_def :: table_def where
  "schema_triggers_def =
     \<lparr>td_keyspace = ''system_schema'', td_name = ''triggers'',
      td_columns =
        [col ''keyspace_name'' TText True,
         col ''table_name'' TText True,
         col ''trigger_name'' TText True,
         col ''options'' TText False],
      td_partition_keys = [''keyspace_name'', ''table_name'', ''trigger_name''], td_clustering_keys = []\<rparr>"

definition schema_types_def :: table_def where
  "schema_types_def =
     \<lparr>td_keyspace = ''system_schema'', td_name = ''types'',
      td_columns =
        [col ''keyspace_name'' TText True,
         col ''type_name'' TText True,
         col ''field_names'' (TList TText) False,
         col ''field_types'' (TList TText) False],
      td_partition_keys = [''keyspace_name'', ''type_name''], td_clustering_keys = []\<rparr>"

definition schema_functions_def :: table_def where
  "schema_functions_def =
     \<lparr>td_keyspace = ''system_schema'', td_name = ''functions'',
      td_columns =
        [col ''keyspace_name'' TText True,
         col ''function_name'' TText True,
         col ''argument_names'' (TList TText) False,
         col ''argument_types'' (TList TText) False,
         col ''body'' TText False,
         col ''called_on_null_input'' TBoolean False,
         col ''language'' TText False,
         col ''return_type'' TText False,
         col ''deterministic'' TBoolean False,
         col ''monotonic'' TBoolean False,
         col ''monotonic_on'' (TSet TText) False],
      td_partition_keys = [''keyspace_name'', ''function_name'', ''argument_types''], td_clustering_keys = []\<rparr>"

definition schema_aggregates_def :: table_def where
  "schema_aggregates_def =
     \<lparr>td_keyspace = ''system_schema'', td_name = ''aggregates'',
      td_columns =
        [col ''keyspace_name'' TText True,
         col ''aggregate_name'' TText True,
         col ''argument_types'' (TList TText) True,
         col ''deterministic'' TBoolean False,
         col ''final_func'' TText False,
         col ''initcond'' TText False,
         col ''return_type'' TText False,
         col ''state_func'' TText False,
         col ''state_type'' TText False],
      td_partition_keys = [''keyspace_name'', ''aggregate_name'', ''argument_types''], td_clustering_keys = []\<rparr>"

definition schema_views_def :: table_def where
  "schema_views_def =
     \<lparr>td_keyspace = ''system_schema'', td_name = ''views'',
      td_columns =
        [col ''keyspace_name'' TText True,
         col ''view_name'' TText True,
         col ''base_table_name'' TText False,
         col ''include_all_columns'' TBoolean False,
         col ''where_clause'' TText False,
         col ''bloom_filter_fp_chance'' TDouble False,
         col ''caching'' (TMap TText TText) False,
         col ''comment'' TText False,
         col ''compaction'' (TMap TText TText) False,
         col ''compression'' (TMap TText TText) False,
         col ''crc_check_chance'' TDouble False,
         col ''dclocal_read_repair_chance'' TDouble False,
         col ''default_time_to_live'' TInt False,
         col ''extensions'' (TMap TText TBlob) False,
         col ''flags'' (TSet TText) False,
         col ''gc_grace_seconds'' TInt False,
         col ''max_index_interval'' TInt False,
         col ''memtable_flush_period_in_ms'' TInt False,
         col ''min_index_interval'' TInt False,
         col ''read_repair_chance'' TDouble False,
         col ''speculative_retry'' TText False],
      td_partition_keys = [''keyspace_name'', ''view_name''], td_clustering_keys = []\<rparr>"

definition vs_keyspaces_def :: table_def where
  "vs_keyspaces_def =
     \<lparr>td_keyspace = ''system_virtual_schema'', td_name = ''keyspaces'',
      td_columns =
        [col ''keyspace_name'' TText True,
         col ''durable_writes'' TBoolean False,
         col ''replication'' (TMap TText TText) False],
      td_partition_keys = [''keyspace_name''], td_clustering_keys = []\<rparr>"

definition sys_schema_defs :: "table_def list" where
  "sys_schema_defs =
     [schema_keyspaces_def, schema_tables_def, schema_columns_def, schema_indexes_def, schema_triggers_def, schema_types_def,
      schema_functions_def, schema_aggregates_def, schema_views_def]"

section \<open>Seeding\<close>

definition seed_keyspace :: "'db libs \<Rightarrow> string \<Rightarrow> ('db storage \<Rightarrow> ('db, unit) act) \<Rightarrow> 'db storage \<Rightarrow> ('db, unit) act" where
  "seed_keyspace L name seed s =
     and_then (get_keyspace L name s) (\<lambda>s r.
       if r \<noteq> None then (s, Ok ())
       else and_then (put_keyspace L \<lparr>kd_name = name, kd_replication = []\<rparr> s) (\<lambda>s _. seed s))"

definition seed_local :: "'db libs \<Rightarrow> 'db host \<Rightarrow> 'db storage \<Rightarrow> ('db, unit) act" where
  "seed_local L H s =
     and_then (put_table L sys_local_def s) (\<lambda>s _.
     and_then (put_row_sync L ''system'' ''local'' [str_bytes ''local'']
                 (encode_row_columns (local_row (ho_host_id H) (ho_schema_version H))) s) (\<lambda>s _.
       put_table L sys_peers_def s))"

definition seed_system :: "'db libs \<Rightarrow> 'db host \<Rightarrow> 'db storage \<Rightarrow> ('db, unit) act" where
  "seed_system L H s =
     and_then (seed_keyspace L ''system'' (seed_local L H) s) (\<lambda>s _.
     and_then (seed_keyspace L ''system_schema'' (for_each_s (put_table L) sys_schema_defs) s) (\<lambda>s _.
       seed_keyspace L ''system_virtual_schema'' (put_table L vs_keyspaces_def) s))"

section \<open>Opening\<close>

definition open_engines :: "'db host \<Rightarrow> 'db list \<Rightarrow> 'db storage" where
  "open_engines H dbs =
     \<lparr>st_engines = map new_engine dbs, st_keyspaces = Map.empty, st_tables = Map.empty, st_ast_cache = [],
      st_write_sync = (ho_env H ''RHYDADB_SYNC'' \<noteq> None),
      st_row_cache = (if env_num (ho_env H) ''RHYDADB_ROW_CACHE_ENTRIES'' 500000 0 10000000 = 0 then None else Some Map.empty),
      st_next_ticket = 0\<rparr>"

definition storage_open :: "'db libs \<Rightarrow> 'db host \<Rightarrow> 'db storage anyhow" where
  "storage_open L H =
     rbind (shard_count H) (\<lambda>n.
     rbind (rmap (ho_open_db H) [0..<n]) (\<lambda>dbs.
       case seed_system L H (open_engines H dbs) of (s, r) \<Rightarrow> rbind r (\<lambda>_. Ok s)))"

end
