(* ===== verification/Stores.thy ===== *)
theory Stores
  imports Prelude
begin

text \<open>
  What the layers above storage rely on, as locales over the operations they call: a lookup service
  whose reads return what an abstract view holds and change nothing that can be seen; a catalog
  (keyspace and table definitions), where definitions are stored under their own name; a row store,
  where values are written and deleted by key. The facts the clients use, such as the visibility of a
  whole list of definitions or of a sequence of writes, are proved here once.
\<close>

locale lookup_service =
  fixes inv :: "'s \<Rightarrow> bool"
    and good :: "'k \<Rightarrow> bool"
    and view :: "'s \<Rightarrow> 'k \<Rightarrow> 'd option"
    and get :: "'k \<Rightarrow> 's \<Rightarrow> 's \<times> ('e, 'd option) result"
  assumes get_ok: "inv s \<Longrightarrow> good k \<Longrightarrow>
    \<exists>s'. get k s = (s', Ok (view s k)) \<and> inv s' \<and> (\<forall>k'. good k' \<longrightarrow> view s' k' = view s k')"
begin

lemma get_result: "inv s \<Longrightarrow> good k \<Longrightarrow> snd (get k s) = Ok (view s k)"
  using get_ok by fastforce

lemma get_inv: "inv s \<Longrightarrow> good k \<Longrightarrow> inv (fst (get k s))"
  using get_ok by fastforce

lemma get_view: "inv s \<Longrightarrow> good k \<Longrightarrow> good k' \<Longrightarrow> view (fst (get k s)) k' = view s k'"
  using get_ok by fastforce

text \<open>Reads commute with reads: a lookup does not influence a later one.\<close>

lemma get_after_get: "inv s \<Longrightarrow> good k \<Longrightarrow> good k' \<Longrightarrow> snd (get k' (fst (get k s))) = Ok (view s k')"
  by (simp add: get_result get_inv get_view)

end

locale catalog = lookup_service inv good view get
  for inv :: "'s \<Rightarrow> bool" and good :: "'k \<Rightarrow> bool" and view :: "'s \<Rightarrow> 'k \<Rightarrow> 'd option"
    and get :: "'k \<Rightarrow> 's \<Rightarrow> 's \<times> ('e, 'd option) result" +
  fixes key_of :: "'d \<Rightarrow> 'k"
    and store :: "'d \<Rightarrow> 's \<Rightarrow> 's \<times> ('e, unit) result"
  assumes store_ok: "inv s \<Longrightarrow> good (key_of d) \<Longrightarrow>
    \<exists>s'. store d s = (s', Ok ()) \<and> inv s' \<and>
      (\<forall>k. good k \<longrightarrow> view s' k = (if k = key_of d then Some d else view s k))"
begin

lemma get_after_store:
  "inv s \<Longrightarrow> good (key_of d) \<Longrightarrow> good k \<Longrightarrow>
     snd (get k (fst (store d s))) = Ok (if k = key_of d then Some d else view s k)"
  using store_ok [of s d] get_result by fastforce

text \<open>Storing a list of definitions with different names makes all of them visible.\<close>

lemma store_all:
  assumes "inv s" and "distinct (map key_of ds)" and "\<forall>d\<in>set ds. good (key_of d)"
  shows "\<exists>s'. for_each_s store ds s = (s', Ok ()) \<and> inv s' \<and>
    (\<forall>d\<in>set ds. view s' (key_of d) = Some d) \<and>
    (\<forall>k. good k \<longrightarrow> k \<notin> key_of ` set ds \<longrightarrow> view s' k = view s k)"
  using assms
proof (induction ds arbitrary: s)
  case (Cons d ds)
  from store_ok [of s d] Cons.prems obtain s1 where
    s1: "store d s = (s1, Ok ())" "inv s1"
      "\<And>k. good k \<Longrightarrow> view s1 k = (if k = key_of d then Some d else view s k)" by auto
  from Cons.IH [of s1] s1(2) Cons.prems obtain s2 where
    "for_each_s store ds s1 = (s2, Ok ())" "inv s2" "\<forall>d\<in>set ds. view s2 (key_of d) = Some d"
    "\<forall>k. good k \<longrightarrow> k \<notin> key_of ` set ds \<longrightarrow> view s2 k = view s1 k" by auto
  with s1 Cons.prems show ?case by (intro exI [of _ s2]) (auto simp: image_iff)
qed simp

end

text \<open>A sequence of writes: \<open>Some\<close> stores, \<open>None\<close> removes. The last write to a key wins.\<close>

definition write_one ::
  "('k \<Rightarrow> 'd \<Rightarrow> 's \<Rightarrow> 's \<times> ('e, unit) result) \<Rightarrow> ('k \<Rightarrow> 's \<Rightarrow> 's \<times> ('e, unit) result)
     \<Rightarrow> 'k \<times> 'd option \<Rightarrow> 's \<Rightarrow> 's \<times> ('e, unit) result" where
  "write_one store remove w s = (case snd w of Some d \<Rightarrow> store (fst w) d s | None \<Rightarrow> remove (fst w) s)"

fun after_writes :: "('k \<times> 'd option) list \<Rightarrow> ('k \<Rightarrow> 'd option) \<Rightarrow> 'k \<Rightarrow> 'd option" where
  "after_writes [] m k = m k"
| "after_writes (w # ws) m k = after_writes ws (m(fst w := snd w)) k"

lemma after_writes_cong: "m k = m' k \<Longrightarrow> after_writes ws m k = after_writes ws m' k"
proof (induction ws arbitrary: m m')
  case (Cons w ws)
  then have "(m(fst w := snd w)) k = (m'(fst w := snd w)) k" by simp
  with Cons.IH [of "m(fst w := snd w)" "m'(fst w := snd w)"] show ?case by (simp only: after_writes.simps)
qed simp

lemma after_writes_other: "k \<notin> fst ` set ws \<Longrightarrow> after_writes ws m k = m k"
  by (induction ws arbitrary: m) simp_all

locale row_store = lookup_service inv good view get
  for inv :: "'s \<Rightarrow> bool" and good :: "'k \<Rightarrow> bool" and view :: "'s \<Rightarrow> 'k \<Rightarrow> 'd option"
    and get :: "'k \<Rightarrow> 's \<Rightarrow> 's \<times> ('e, 'd option) result" +
  fixes store :: "'k \<Rightarrow> 'd \<Rightarrow> 's \<Rightarrow> 's \<times> ('e, unit) result"
    and remove :: "'k \<Rightarrow> 's \<Rightarrow> 's \<times> ('e, unit) result"
  assumes store_ok: "inv s \<Longrightarrow> good k \<Longrightarrow>
    \<exists>s'. store k d s = (s', Ok ()) \<and> inv s' \<and>
      (\<forall>k'. good k' \<longrightarrow> view s' k' = (if k' = k then Some d else view s k'))"
    and remove_ok: "inv s \<Longrightarrow> good k \<Longrightarrow>
    \<exists>s'. remove k s = (s', Ok ()) \<and> inv s' \<and>
      (\<forall>k'. good k' \<longrightarrow> view s' k' = (if k' = k then None else view s k'))"
begin

lemma write_one_ok:
  assumes "inv s" and "good (fst w)"
  shows "\<exists>s'. write_one store remove w s = (s', Ok ()) \<and> inv s' \<and>
    (\<forall>k. good k \<longrightarrow> view s' k = (if k = fst w then snd w else view s k))"
proof (cases "snd w")
  case None
  then show ?thesis using remove_ok [OF assms] by (simp only: write_one_def option.case)
next
  case (Some d)
  then show ?thesis using store_ok [OF assms, of d] by (simp only: write_one_def option.case)
qed

lemma writes_ok:
  assumes "inv s" and "\<forall>w\<in>set ws. good (fst w)"
  shows "\<exists>s'. for_each_s (write_one store remove) ws s = (s', Ok ()) \<and> inv s' \<and>
    (\<forall>k. good k \<longrightarrow> view s' k = after_writes ws (view s) k)"
  using assms
proof (induction ws arbitrary: s)
  case (Cons w ws)
  from write_one_ok [of s w] Cons.prems obtain s1 where
    s1: "write_one store remove w s = (s1, Ok ())" "inv s1"
      "\<And>k. good k \<Longrightarrow> view s1 k = (if k = fst w then snd w else view s k)" by auto
  from Cons.IH [OF s1(2)] Cons.prems obtain s2 where
    s2: "for_each_s (write_one store remove) ws s1 = (s2, Ok ())" "inv s2"
      "\<And>k. good k \<Longrightarrow> view s2 k = after_writes ws (view s1) k" by auto
  have "view s2 k = after_writes (w # ws) (view s) k" if "good k" for k
    using that s2(3) s1(3) [OF that] by (auto intro: after_writes_cong)
  with s1 s2 show ?case by (intro exI [of _ s2]) auto
qed simp

lemma get_after_writes:
  assumes "inv s" and "\<forall>w\<in>set ws. good (fst w)" and "good k"
  shows "snd (get k (fst (for_each_s (write_one store remove) ws s))) = Ok (after_writes ws (view s) k)"
  using writes_ok [OF assms(1,2)] get_result assms(3) by fastforce

end

end
