(* ===== verification/StorageSpec.thy ===== *)
theory StorageSpec
  imports Storage Stores
begin

text \<open>
  What the storage layer promises. The abstract view of a storage is a map of keyspaces, a map of
  tables and a map of rows, read off the databases and what their pipelines still hold; the
  operations implement the contracts of \<open>Stores\<close> on it, and the caches are invisible, with the one
  exception proved at the end (a read that misses the row cache while a write to the row is queued).
\<close>

declare split_paired_All [simp del] split_paired_Ex [simp del]

section \<open>Views and invariants\<close>

type_synonym row_addr = "string \<times> string \<times> bytes list"

definition addr_key :: "row_addr \<Rightarrow> bytes" where
  "addr_key r = (case r of (ks, tb, parts) \<Rightarrow> row_key ks tb parts)"

definition addr_engine :: "'db storage \<Rightarrow> row_addr \<Rightarrow> nat" where
  "addr_engine s r = (case r of (ks, tb, parts) \<Rightarrow> row_engine s ks tb parts)"

text \<open>The row addresses whose keys are unambiguous.\<close>

definition good_row :: "row_addr \<Rightarrow> bool" where
  "good_row r \<longleftrightarrow> (case r of (ks, tb, parts) \<Rightarrow> plain_name ks \<and> plain_name tb \<and> list_all short_part parts)"

definition row_view :: "('db \<Rightarrow> kv) \<Rightarrow> 'db storage \<Rightarrow> row_addr \<Rightarrow> bytes option" where
  "row_view absm s r = engine_view absm (st_engines s ! addr_engine s r) (addr_key r)"

definition db0 :: "('db \<Rightarrow> kv) \<Rightarrow> 'db storage \<Rightarrow> kv" where
  "db0 absm s = absm (en_db (st_engines s ! 0))"

definition ks_view :: "'db libs \<Rightarrow> ('db \<Rightarrow> kv) \<Rightarrow> 'db storage \<Rightarrow> string \<Rightarrow> keyspace_def option" where
  "ks_view L absm s name =
     Option.bind (db0 absm s (ks_key name)) (\<lambda>b. case js_ks_from_slice L b of Ok d \<Rightarrow> Some d | _ \<Rightarrow> None)"

definition tb_view :: "'db libs \<Rightarrow> ('db \<Rightarrow> kv) \<Rightarrow> 'db storage \<Rightarrow> string \<times> string \<Rightarrow> table_def option" where
  "tb_view L absm s kt =
     Option.bind (db0 absm s (tb_key (fst kt) (snd kt)))
       (\<lambda>b. case js_tb_from_slice L b of Ok d \<Rightarrow> Some d | _ \<Rightarrow> None)"

definition good_table :: "string \<times> string \<Rightarrow> bool" where
  "good_table kt \<longleftrightarrow> plain_name (fst kt) \<and> plain_name (snd kt)"

text \<open>What is queued concerns rows only, the writers are running, and the tickets that were handed out
  are below the next one.\<close>

definition data_op :: "wb_op \<Rightarrow> bool" where
  "data_op op \<longleftrightarrow> (\<forall>m k. \<not> prefix DT_PREFIX k \<longrightarrow> apply_op op m k = m k)"

definition engines_wf :: "'db storage \<Rightarrow> bool" where
  "engines_wf s \<longleftrightarrow>
     0 < ndbs s \<and> ndbs s < 2 ^ 64 \<and>
     (\<forall>e\<in>set (st_engines s). engine_wf e \<and> \<not> en_gone e \<and> (\<forall>op\<in>set (pend_ops e). data_op op) \<and>
        (\<forall>t\<in>set (en_done e @ tickets_of (pend_tickets e)). t < st_next_ticket s))"

text \<open>Stored metadata can be read back and the metadata caches agree with it.\<close>

definition meta_wf :: "'db libs \<Rightarrow> ('db \<Rightarrow> kv) \<Rightarrow> 'db storage \<Rightarrow> bool" where
  "meta_wf L absm s \<longleftrightarrow>
     (\<forall>n. (\<forall>b. db0 absm s (ks_key n) = Some b \<longrightarrow> (\<exists>d. js_ks_from_slice L b = Ok d)) \<and>
          (\<forall>d. st_keyspaces s n = Some d \<longrightarrow> ks_view L absm s n = Some d)) \<and>
     (\<forall>kt. good_table kt \<longrightarrow>
          (\<forall>b. db0 absm s (tb_key (fst kt) (snd kt)) = Some b \<longrightarrow>
             (\<exists>d. js_tb_from_slice L b = Ok d \<and> (td_keyspace d, td_name d) = kt)) \<and>
          (\<forall>d. st_tables s kt = Some d \<longrightarrow> tb_view L absm s kt = Some d))"

definition storage_wf :: "'db libs \<Rightarrow> ('db \<Rightarrow> kv) \<Rightarrow> 'db storage \<Rightarrow> bool" where
  "storage_wf L absm s \<longleftrightarrow> rocks_ok L absm \<and> json_ok L \<and> engines_wf s \<and> meta_wf L absm s"

text \<open>Everything in the row cache is what the row will be once the pipelines have drained.\<close>

definition coherent :: "('db \<Rightarrow> kv) \<Rightarrow> 'db storage \<Rightarrow> bool" where
  "coherent absm s \<longleftrightarrow>
     (\<forall>r v. good_row r \<longrightarrow> cache_lookup (fst r) (addr_key r) s = Some v \<longrightarrow> row_view absm s r = Some v)"

definition storage_quiet :: "'db storage \<Rightarrow> bool" where
  "storage_quiet s \<longleftrightarrow> list_all quiet (st_engines s)"

section \<open>Frame lemmas\<close>

named_theorems upd_simps \<open>fields of an updated storage\<close>

lemma apply_op_cong: "m k = m' k \<Longrightarrow> apply_op op m k = apply_op op m' k"
  by (cases op) simp_all

lemma apply_ops_cong: "m k = m' k \<Longrightarrow> apply_ops ops m k = apply_ops ops m' k"
proof (induction ops arbitrary: m m')
  case (Cons op ops)
  show ?case
    using Cons.IH [of "apply_op op m" "apply_op op m'"] apply_op_cong [of m k m' op, OF Cons.prems] by (simp only: apply_ops_Cons)
qed simp

lemma data_ops_frame:
  "\<forall>op\<in>set ops. data_op op \<Longrightarrow> \<not> prefix DT_PREFIX k \<Longrightarrow> apply_ops ops m k = m k"
  by (induction ops arbitrary: m) (simp_all add: data_op_def)

lemma upd_engine_fields [upd_simps, simp]:
  "ndbs (upd_engine i f s) = ndbs s" "st_keyspaces (upd_engine i f s) = st_keyspaces s"
  "st_tables (upd_engine i f s) = st_tables s" "st_ast_cache (upd_engine i f s) = st_ast_cache s"
  "st_row_cache (upd_engine i f s) = st_row_cache s" "st_write_sync (upd_engine i f s) = st_write_sync s"
  "st_next_ticket (upd_engine i f s) = st_next_ticket s"
  by (simp_all add: upd_engine_def)

lemma upd_engine_nth [upd_simps, simp]:
  "i < ndbs s \<Longrightarrow> st_engines (upd_engine i f s) ! j = (if j = i then f (st_engines s ! i) else st_engines s ! j)"
  by (simp add: upd_engine_def nth_list_update)

lemma cache_set_fields [upd_simps, simp]:
  "st_engines (cache_set ks k v s) = st_engines s" "st_keyspaces (cache_set ks k v s) = st_keyspaces s"
  "st_tables (cache_set ks k v s) = st_tables s" "st_ast_cache (cache_set ks k v s) = st_ast_cache s"
  "st_write_sync (cache_set ks k v s) = st_write_sync s"
  "st_next_ticket (cache_set ks k v s) = st_next_ticket s"
  by (simp_all add: cache_set_def)

lemma clear_row_cache_fields [upd_simps, simp]:
  "st_engines (clear_row_cache s) = st_engines s" "st_keyspaces (clear_row_cache s) = st_keyspaces s"
  "st_tables (clear_row_cache s) = st_tables s" "st_ast_cache (clear_row_cache s) = st_ast_cache s"
  "st_write_sync (clear_row_cache s) = st_write_sync s"
  "st_next_ticket (clear_row_cache s) = st_next_ticket s"
  by (simp_all add: clear_row_cache_def)

text \<open>The views and invariants depend on some fields only.\<close>

lemma view_cong:
  assumes "st_engines s' = st_engines s"
  shows "row_view absm s' = row_view absm s" "db0 absm s' = db0 absm s" "ks_view L absm s' = ks_view L absm s"
    "tb_view L absm s' = tb_view L absm s" "storage_quiet s' = storage_quiet s"
    "addr_engine s' = addr_engine s"
  using assms by (simp_all add: fun_eq_iff row_view_def db0_def ks_view_def tb_view_def
      storage_quiet_def addr_engine_def row_engine_def split: prod.splits)

lemma engines_wf_cong:
  assumes "st_engines s' = st_engines s" and "st_next_ticket s' = st_next_ticket s"
  shows "engines_wf s' = engines_wf s"
  using assms by (simp add: engines_wf_def)

lemma addr_engine_upd [simp]: "addr_engine (upd_engine i f s) = addr_engine s"
  by (simp add: fun_eq_iff addr_engine_def row_engine_def split: prod.splits)

lemma addr_engine_less: "engines_wf s \<Longrightarrow> addr_engine s r < ndbs s"
  by (cases r) (simp add: engines_wf_def addr_engine_def row_engine_def data_engine_less)

lemma row_key_inject:
  assumes "good_row r" and "good_row r'"
  shows "addr_key r = addr_key r' \<longleftrightarrow> r = r'"
proof (cases r, cases r')
  fix ks tb parts ks' tb' parts' assume r: "r = (ks, tb, parts)" "r' = (ks', tb', parts')"
  then have "addr_key r = addr_key r' \<longleftrightarrow> ks = ks' \<and> tb = tb' \<and> encode_key parts = encode_key parts'"
    using assms by (simp add: addr_key_def row_key_def good_row_def data_prefix_append_inject)
  moreover have "encode_key parts = encode_key parts' \<longleftrightarrow> parts = parts'"
    using full_key.enc_inject [of parts parts' "[]"] assms r by (simp add: good_row_def)
  ultimately show ?thesis using r by simp
qed

lemma addr_key_data: "prefix DT_PREFIX (addr_key r)"
  by (simp add: addr_key_def row_key_def data_prefix_def split: prod.splits)

section \<open>Direct writes\<close>

lemma engine_set_db [simp]:
  "engine_wf (e\<lparr>en_db := db\<rparr>) = engine_wf e" "pend_ops (e\<lparr>en_db := db\<rparr>) = pend_ops e"
  "quiet (e\<lparr>en_db := db\<rparr>) = quiet e" "pend_tickets (e\<lparr>en_db := db\<rparr>) = pend_tickets e"
  by (simp_all add: engine_wf_def pend_defs quiet_def)

abbreviation set_db :: "nat \<Rightarrow> 'db \<Rightarrow> 'db storage \<Rightarrow> 'db storage" where
  "set_db i db s \<equiv> upd_engine i (\<lambda>e. e\<lparr>en_db := db\<rparr>) s"

lemma engines_wf_upd:
  assumes "engines_wf s" and "i < ndbs s"
    and "engine_wf (f (st_engines s ! i))" "\<not> en_gone (f (st_engines s ! i))"
      "\<forall>op\<in>set (pend_ops (f (st_engines s ! i))). data_op op"
      "\<forall>t\<in>set (en_done (f (st_engines s ! i)) @ tickets_of (pend_tickets (f (st_engines s ! i)))). t < st_next_ticket s"
  shows "engines_wf (upd_engine i f s)"
  using assms
  by (auto simp: engines_wf_def upd_engine_def dest!: subsetD [OF set_update_subset_insert])

lemma engines_wf_nth:
  assumes "engines_wf s" and "i < ndbs s"
  shows "engine_wf (st_engines s ! i)" "\<not> en_gone (st_engines s ! i)" "\<forall>op\<in>set (pend_ops (st_engines s ! i)). data_op op"
    "\<forall>t\<in>set (en_done (st_engines s ! i) @ tickets_of (pend_tickets (st_engines s ! i))). t < st_next_ticket s"
  using assms by (auto simp: engines_wf_def)

lemma engines_wf_set_db: "engines_wf s \<Longrightarrow> i < ndbs s \<Longrightarrow> engines_wf (set_db i db s)"
  by (simp add: engines_wf_upd engines_wf_nth)

lemma quiet_set_db: "storage_quiet s \<Longrightarrow> i < ndbs s \<Longrightarrow> storage_quiet (set_db i db s)"
  by (simp add: storage_quiet_def list_all_length upd_engine_def nth_list_update)

lemma row_view_set_db:
  assumes "i < ndbs s" and "absm db (addr_key r) = absm (en_db (st_engines s ! i)) (addr_key r)"
  shows "row_view absm (set_db i db s) r = row_view absm s r"
  using assms by (auto simp: row_view_def engine_view_def intro: apply_ops_cong)

lemma row_view_write_db:
  assumes "engines_wf s" and "quiet (st_engines s ! addr_engine s r)"
  shows "row_view absm (set_db (addr_engine s r) db s) r = absm db (addr_key r)"
  using assms addr_engine_less [of s r]
  by (simp add: row_view_def engine_view_def pend_defs quiet_def)

lemma write_db_ok:
  assumes "i < ndbs s" and "f (en_db (st_engines s ! i)) = Ok db"
  shows "write_db i f msg s = (set_db i db s, Ok ())"
  using assms by (simp add: write_db_def on_db_def)

lemma storage_put_ok:
  assumes "rocks_ok L absm" and "engines_wf s"
  obtains db where "storage_put L key val s = (set_db 0 db s, Ok ())" and "absm db = (db0 absm s)(key \<mapsto> val)"
  using assms rocks_okD(2) [OF assms(1), of "en_db (st_engines s ! 0)" key val]
  by (auto simp: storage_put_def engines_wf_def db0_def intro: write_db_ok)

lemma storage_delete_ok:
  assumes "rocks_ok L absm" and "engines_wf s"
  obtains db where "storage_delete L key s = (set_db 0 db s, Ok ())" and "absm db = (db0 absm s)(key := None)"
  using assms rocks_okD(3) [OF assms(1), of "en_db (st_engines s ! 0)" key]
  by (auto simp: storage_delete_def engines_wf_def db0_def intro: write_db_ok)

lemma storage_get_ok: "rocks_ok L absm \<Longrightarrow> engines_wf s \<Longrightarrow> storage_get L key s = Ok (db0 absm s key)"
  by (simp add: storage_get_def on_db_def engines_wf_def db0_def rocks_okD(1))

lemma db0_set_db [simp]: "0 < ndbs s \<Longrightarrow> db0 absm (set_db 0 db s) = absm db"
  by (simp add: db0_def)

lemma ks_tb_keys [simp]:
  "ks_key n = ks_key n' \<longleftrightarrow> n = n'" "ks_key n \<noteq> tb_key k t" "tb_key k t \<noteq> ks_key n"
  using namespace_disjoint(4) [of n k t] by (auto simp: ks_key_def)

lemma tb_key_inject: "good_table (k, t) \<Longrightarrow> good_table (k', t') \<Longrightarrow> tb_key k t = tb_key k' t' \<longleftrightarrow> k = k' \<and> t = t'"
  by (auto simp: tb_key_def good_table_def name_sep)

section \<open>Keyspaces and tables are catalogs\<close>

lemma storage_wfD:
  assumes "storage_wf L absm s"
  shows "rocks_ok L absm" "json_ok L" "engines_wf s" "meta_wf L absm s" "0 < ndbs s"
  using assms by (auto simp: storage_wf_def engines_wf_def)

lemma meta_wf_ks_view:
  "meta_wf L absm s \<Longrightarrow> db0 absm s (ks_key n) = Some b \<Longrightarrow> \<exists>d. js_ks_from_slice L b = Ok d \<and> ks_view L absm s n = Some d"
  by (fastforce simp: meta_wf_def ks_view_def)

lemma meta_wf_tb_view:
  "meta_wf L absm s \<Longrightarrow> good_table kt \<Longrightarrow> db0 absm s (tb_key (fst kt) (snd kt)) = Some b \<Longrightarrow>
     \<exists>d. js_tb_from_slice L b = Ok d \<and> (td_keyspace d, td_name d) = kt \<and> tb_view L absm s kt = Some d"
proof -
  assume "meta_wf L absm s" "good_table kt" and b: "db0 absm s (tb_key (fst kt) (snd kt)) = Some b"
  then obtain d where "js_tb_from_slice L b = Ok d" "(td_keyspace d, td_name d) = kt"
    unfolding meta_wf_def by blast
  with b show ?thesis by (simp add: tb_view_def)
qed

lemma tb_view_name:
  assumes "meta_wf L absm s" and "good_table kt" and "tb_view L absm s kt = Some d"
  shows "(td_keyspace d, td_name d) = kt"
  using meta_wf_tb_view [OF assms(1,2)] assms(3) by (cases "db0 absm s (tb_key (fst kt) (snd kt))") (auto simp: tb_view_def)

lemma get_keyspace_ok:
  assumes "storage_wf L absm s"
  shows "\<exists>s'. get_keyspace L n s = (s', Ok (ks_view L absm s n)) \<and> storage_wf L absm s' \<and>
    st_engines s' = st_engines s \<and> st_row_cache s' = st_row_cache s"
proof (cases "st_keyspaces s n")
  case (Some d)
  then show ?thesis using assms by (auto simp: get_keyspace_def storage_wf_def meta_wf_def)
next
  case None
  note wf = storage_wfD [OF assms]
  show ?thesis
  proof (cases "db0 absm s (ks_key n)")
    case (Some b)
    with meta_wf_ks_view [OF wf(4)] obtain d where
      d: "js_ks_from_slice L b = Ok d" "ks_view L absm s n = Some d" by blast
    let ?s = "s\<lparr>st_keyspaces := (st_keyspaces s)(n \<mapsto> d)\<rparr>"
    have "storage_wf L absm ?s"
      using assms d view_cong [of ?s s] engines_wf_cong [of ?s s] by (simp add: storage_wf_def meta_wf_def)
    then show ?thesis using None Some d wf by (simp add: get_keyspace_def reading_def storage_get_ok)
  qed (use None wf assms in \<open>simp add: get_keyspace_def reading_def storage_get_ok ks_view_def\<close>)
qed

lemma get_table_ok:
  assumes "storage_wf L absm s" and "good_table (ks, tb)"
  shows "\<exists>s'. get_table L ks tb s = (s', Ok (tb_view L absm s (ks, tb))) \<and> storage_wf L absm s' \<and>
    st_engines s' = st_engines s \<and> st_row_cache s' = st_row_cache s"
proof (cases "st_tables s (ks, tb)")
  case (Some d)
  then show ?thesis using assms by (auto simp: get_table_def storage_wf_def meta_wf_def)
next
  case None
  note wf = storage_wfD [OF assms(1)]
  show ?thesis
  proof (cases "db0 absm s (tb_key ks tb)")
    case (Some b)
    with meta_wf_tb_view [OF wf(4) assms(2)] obtain d where
      d: "js_tb_from_slice L b = Ok d" "tb_view L absm s (ks, tb) = Some d" by auto
    let ?s = "s\<lparr>st_tables := (st_tables s)((ks, tb) \<mapsto> d)\<rparr>"
    have "storage_wf L absm ?s"
      using assms d view_cong [of ?s s] engines_wf_cong [of ?s s] by (simp add: storage_wf_def meta_wf_def)
    then show ?thesis using None Some d wf by (simp add: get_table_def reading_def storage_get_ok)
  qed (use None wf assms in \<open>simp add: get_table_def reading_def storage_get_ok tb_view_def\<close>)
qed

text \<open>A direct write to a key outside the row data is invisible to rows.\<close>

lemma set_db0_rows:
  assumes "engines_wf s" and "\<forall>k. prefix DT_PREFIX k \<longrightarrow> absm db k = db0 absm s k"
  shows "row_view absm (set_db 0 db s) r = row_view absm s r"
  using assms by (intro row_view_set_db) (simp_all add: engines_wf_def db0_def addr_key_data)

lemma coherent_cong:
  "coherent absm s \<Longrightarrow> st_row_cache s' = st_row_cache s \<Longrightarrow> (\<And>r. good_row r \<Longrightarrow> row_view absm s' r = row_view absm s r) \<Longrightarrow>
     coherent absm s'"
  by (simp add: coherent_def cache_lookup_def)

lemma put_keyspace_ok:
  assumes "storage_wf L absm s"
  shows "\<exists>s'. put_keyspace L d s = (s', Ok ()) \<and> storage_wf L absm s' \<and>
    ks_view L absm s' = (ks_view L absm s)(kd_name d \<mapsto> d) \<and> tb_view L absm s' = tb_view L absm s \<and>
    row_view absm s' = row_view absm s \<and> st_row_cache s' = st_row_cache s \<and> (storage_quiet s \<longrightarrow> storage_quiet s')"
proof -
  note wf = storage_wfD [OF assms]
  from wf(2) obtain b where b: "js_ks_to_vec L d = Ok b" "js_ks_from_slice L b = Ok d" by (auto simp: json_ok_def)
  from storage_put_ok [OF wf(1,3)] obtain db where
    db: "storage_put L (ks_key (kd_name d)) b s = (set_db 0 db s, Ok ())"
      "absm db = (db0 absm s)(ks_key (kd_name d) \<mapsto> b)" by blast
  let ?s = "(set_db 0 db s)\<lparr>st_keyspaces := (st_keyspaces s)(kd_name d \<mapsto> d)\<rparr>"
  have eng: "st_engines ?s = st_engines (set_db 0 db s)" by simp
  have ks: "ks_view L absm ?s = (ks_view L absm s)(kd_name d \<mapsto> d)"
    and tb: "tb_view L absm ?s = tb_view L absm s"
    and d0: "db0 absm ?s = (db0 absm s)(ks_key (kd_name d) \<mapsto> b)"
    using wf(5) db(2) b(2) by (auto simp: view_cong [OF eng] ks_view_def tb_view_def)
  have "meta_wf L absm ?s"
    unfolding meta_wf_def ks tb d0 using wf(4) b(2) by (simp add: meta_wf_def)
  moreover have "engines_wf ?s" using engines_wf_set_db [OF wf(3,5)] by (simp add: engines_wf_cong [OF eng])
  moreover have "row_view absm ?s = row_view absm s"
    using set_db0_rows [OF wf(3), of absm db] db(2) namespace_disjoint(1) by (auto simp: view_cong [OF eng])
  moreover have "storage_quiet s \<longrightarrow> storage_quiet ?s"
    using quiet_set_db [OF _ wf(5)] by (simp add: view_cong [OF eng])
  ultimately show ?thesis
    using b db wf ks tb by (auto simp: put_keyspace_def reading_def storage_wf_def)
qed

lemma put_table_ok:
  assumes "storage_wf L absm s" and "good_table (td_keyspace d, td_name d)"
  shows "\<exists>s'. put_table L d s = (s', Ok ()) \<and> storage_wf L absm s' \<and>
    (\<forall>kt. good_table kt \<longrightarrow>
       tb_view L absm s' kt = (if kt = (td_keyspace d, td_name d) then Some d else tb_view L absm s kt)) \<and>
    ks_view L absm s' = ks_view L absm s \<and>
    row_view absm s' = row_view absm s \<and> st_row_cache s' = st_row_cache s \<and> (storage_quiet s \<longrightarrow> storage_quiet s')"
proof -
  note wf = storage_wfD [OF assms(1)]
  let ?k = "tb_key (td_keyspace d) (td_name d)"
  from wf(2) obtain b where b: "js_tb_to_vec L d = Ok b" "js_tb_from_slice L b = Ok d" by (auto simp: json_ok_def)
  from storage_put_ok [OF wf(1,3)] obtain db where
    db: "storage_put L ?k b s = (set_db 0 db s, Ok ())" "absm db = (db0 absm s)(?k \<mapsto> b)" by blast
  let ?s = "(set_db 0 db s)\<lparr>st_tables := (st_tables s)((td_keyspace d, td_name d) \<mapsto> d)\<rparr>"
  have eng: "st_engines ?s = st_engines (set_db 0 db s)" by simp
  have key: "tb_key (fst kt) (snd kt) = ?k \<longleftrightarrow> kt = (td_keyspace d, td_name d)" if "good_table kt" for kt
    using that assms(2) tb_key_inject [of "fst kt" "snd kt"] by (cases kt) auto
  have ks: "ks_view L absm ?s = ks_view L absm s"
    and d0: "db0 absm ?s = (db0 absm s)(?k \<mapsto> b)"
    using wf(5) db(2) by (auto simp: view_cong [OF eng] ks_view_def)
  have tb: "tb_view L absm ?s kt = (if kt = (td_keyspace d, td_name d) then Some d else tb_view L absm s kt)"
    if "good_table kt" for kt
    using key [OF that] b(2) by (auto simp: tb_view_def d0)
  have "meta_wf L absm ?s"
    unfolding meta_wf_def ks d0 using wf(4) b(2) key tb by (auto simp: meta_wf_def)
  moreover have "engines_wf ?s" using engines_wf_set_db [OF wf(3,5)] by (simp add: engines_wf_cong [OF eng])
  moreover have "row_view absm ?s = row_view absm s"
    using set_db0_rows [OF wf(3), of absm db] db(2) namespace_disjoint(2) by (auto simp: view_cong [OF eng])
  moreover have "storage_quiet s \<longrightarrow> storage_quiet ?s"
    using quiet_set_db [OF _ wf(5)] by (simp add: view_cong [OF eng])
  ultimately show ?thesis
    using b db wf ks tb by (auto simp: put_table_def reading_def storage_wf_def)
qed

interpretation ks_catalog: catalog "storage_wf L absm" "\<lambda>_. True" "ks_view L absm" "get_keyspace L" kd_name "put_keyspace L"
  for L :: "'db libs" and absm
proof
  fix s :: "'db storage" and k
  assume "storage_wf L absm s"
  from get_keyspace_ok [OF this, of k] obtain s' where
    "get_keyspace L k s = (s', Ok (ks_view L absm s k))" "storage_wf L absm s'" "st_engines s' = st_engines s" by blast
  with view_cong(3) [of s' s L absm]
  show "\<exists>s'. get_keyspace L k s = (s', Ok (ks_view L absm s k)) \<and> storage_wf L absm s' \<and>
      (\<forall>k'. True \<longrightarrow> ks_view L absm s' k' = ks_view L absm s k')" by auto
next
  fix s :: "'db storage" and d
  assume "storage_wf L absm s"
  from put_keyspace_ok [OF this, of d]
  show "\<exists>s'. put_keyspace L d s = (s', Ok ()) \<and> storage_wf L absm s' \<and>
      (\<forall>k. True \<longrightarrow> ks_view L absm s' k = (if k = kd_name d then Some d else ks_view L absm s k))"
    by auto
qed

interpretation tb_catalog: catalog "storage_wf L absm" good_table "tb_view L absm" "\<lambda>kt. get_table L (fst kt) (snd kt)"
    "\<lambda>d. (td_keyspace d, td_name d)" "put_table L"
  for L :: "'db libs" and absm
proof
  fix s :: "'db storage" and k
  assume "storage_wf L absm s" "good_table k"
  with get_table_ok [of L absm s "fst k" "snd k"] obtain s' where
    "get_table L (fst k) (snd k) s = (s', Ok (tb_view L absm s k))" "storage_wf L absm s'" "st_engines s' = st_engines s"
    by auto
  with view_cong(4) [of s' s L absm]
  show "\<exists>s'. get_table L (fst k) (snd k) s = (s', Ok (tb_view L absm s k)) \<and> storage_wf L absm s' \<and>
      (\<forall>k'. good_table k' \<longrightarrow> tb_view L absm s' k' = tb_view L absm s k')" by auto
next
  fix s :: "'db storage" and d :: table_def
  assume "storage_wf L absm s" "good_table (td_keyspace d, td_name d)"
  from put_table_ok [OF this]
  show "\<exists>s'. put_table L d s = (s', Ok ()) \<and> storage_wf L absm s' \<and>
      (\<forall>k. good_table k \<longrightarrow> tb_view L absm s' k = (if k = (td_keyspace d, td_name d) then Some d else tb_view L absm s k))"
    by blast
qed

section \<open>The threads change nothing that can be seen\<close>

lemma send_ticketed_ok:
  assumes "engines_wf s" and "i < ndbs s"
  shows "send_ticketed i mk s =
    (upd_engine i (send_op (mk (Some (st_next_ticket s)))) (s\<lparr>st_next_ticket := Suc (st_next_ticket s)\<rparr>), Ok (st_next_ticket s))"
  using engines_wf_nth(2) [OF assms] assms(2) by (simp add: send_ticketed_def Let_def)

text \<open>An update of one engine that keeps its database outside the row data and its invariant.\<close>

lemma storage_wf_upd:
  assumes "storage_wf L absm s" and "i < ndbs s" and "engines_wf (upd_engine i f s)"
    and "\<And>k. \<not> prefix DT_PREFIX k \<Longrightarrow> absm (en_db (f (st_engines s ! i))) k = absm (en_db (st_engines s ! i)) k"
  shows "storage_wf L absm (upd_engine i f s)" "ks_view L absm (upd_engine i f s) = ks_view L absm s"
    "tb_view L absm (upd_engine i f s) = tb_view L absm s"
proof -
  have d0: "db0 absm (upd_engine i f s) k = db0 absm s k" if "\<not> prefix DT_PREFIX k" for k
    using assms(2) assms(4) [OF that] by (cases "i = 0") (simp_all add: db0_def)
  then have keys: "db0 absm (upd_engine i f s) (ks_key n) = db0 absm s (ks_key n)"
    "db0 absm (upd_engine i f s) (tb_key k t) = db0 absm s (tb_key k t)" for n k t
    using namespace_disjoint by auto
  show ks: "ks_view L absm (upd_engine i f s) = ks_view L absm s"
    and tb: "tb_view L absm (upd_engine i f s) = tb_view L absm s"
    by (simp_all add: fun_eq_iff ks_view_def tb_view_def keys)
  have "meta_wf L absm (upd_engine i f s) = meta_wf L absm s"
    by (simp add: meta_wf_def ks tb keys)
  then show "storage_wf L absm (upd_engine i f s)" using assms by (simp add: storage_wf_def)
qed

lemma storage_step_ok:
  assumes "storage_step L s s'" and "storage_wf L absm s"
  shows "storage_wf L absm s' \<and> row_view absm s' = row_view absm s \<and> ks_view L absm s' = ks_view L absm s \<and>
    tb_view L absm s' = tb_view L absm s \<and> st_row_cache s' = st_row_cache s"
  using assms(1)
proof cases
  case (1 i e')
  note wf = storage_wfD [OF assms(2)]
  let ?e = "st_engines s ! i"
  note ewf = engines_wf_nth [OF wf(3) 1(2)]
  from engine_step_moves [OF 1(3) ewf(1) wf(1)] obtain n where
    n: "absm (en_db e') = apply_ops (take n (pend_ops ?e)) (absm (en_db ?e))" "pend_ops e' = drop n (pend_ops ?e)"
      "pend_tickets e' = drop n (pend_tickets ?e)" "en_done e' = en_done ?e @ tickets_of (take n (pend_tickets ?e))" by blast
  have gone: "en_gone e' = en_gone ?e" using 1(3) by cases (simp_all add: commit_batch_def Let_def)
  have view: "engine_view absm e' = engine_view absm ?e" by (rule engine_step_view [OF 1(3) ewf(1) wf(1)])
  have ewf': "engines_wf s'"
    unfolding 1(1)
  proof (rule engines_wf_upd [OF wf(3) 1(2)])
    show "engine_wf e'" "\<not> en_gone e'" using engine_step_wf [OF 1(3) ewf(1)] ewf(2) gone by simp_all
    show "\<forall>op\<in>set (pend_ops e'). data_op op" using ewf(3) n(2) by (auto dest: in_set_dropD)
    show "\<forall>t\<in>set (en_done e' @ tickets_of (pend_tickets e')). t < st_next_ticket s"
      using ewf(4) n(3,4) by (auto simp: set_tickets_of dest: in_set_takeD in_set_dropD)
  qed
  have "absm (en_db e') k = absm (en_db ?e) k" if "\<not> prefix DT_PREFIX k" for k
    unfolding n(1) using ewf(3) that by (intro data_ops_frame) (auto dest: in_set_takeD)
  with storage_wf_upd [OF assms(2) 1(2), of "\<lambda>_. e'"] ewf' view show ?thesis
    using 1(2) by (auto simp: 1(1) row_view_def)
qed

lemma storage_steps_ok:
  assumes "(storage_step L)\<^sup>*\<^sup>* s s'" and "storage_wf L absm s"
  shows "storage_wf L absm s' \<and> row_view absm s' = row_view absm s \<and> ks_view L absm s' = ks_view L absm s \<and>
    tb_view L absm s' = tb_view L absm s \<and> st_row_cache s' = st_row_cache s"
  using assms(1)
proof (induction rule: rtranclp_induct)
  case (step y z)
  then show ?case using storage_step_ok [of L y z absm] by simp
qed (use assms(2) in simp)

lemma engine_steps_storage:
  assumes "(engine_step L (st_write_sync s))\<^sup>*\<^sup>* (st_engines s ! i) e'" and "i < ndbs s"
  shows "(storage_step L)\<^sup>*\<^sup>* s (upd_engine i (\<lambda>_. e') s)"
  using assms(1)
proof (induction rule: rtranclp_induct)
  case base
  then show ?case by (simp add: upd_engine_def)
next
  case (step e1 e2)
  have "storage_step L (upd_engine i (\<lambda>_. e1) s) (upd_engine i (\<lambda>_. e2) (upd_engine i (\<lambda>_. e1) s))"
    using step assms(2) by (intro storage_step.intros) simp_all
  moreover have "upd_engine i (\<lambda>_. e2) (upd_engine i (\<lambda>_. e1) s) = upd_engine i (\<lambda>_. e2) s"
    by (simp add: upd_engine_def)
  ultimately show ?case using step by (simp add: rtranclp.rtrancl_into_rtrancl)
qed

lemma settle_steps: "(storage_step L)\<^sup>*\<^sup>* s (settle L s)"
proof -
  have "(storage_step L)\<^sup>*\<^sup>* s (s\<lparr>st_engines := map (drain L) (take n (st_engines s)) @ drop n (st_engines s)\<rparr>)"
    if "n \<le> ndbs s" for n
    using that
  proof (induction n)
    case (Suc n)
    let ?s = "s\<lparr>st_engines := map (drain L) (take n (st_engines s)) @ drop n (st_engines s)\<rparr>"
    have n: "n < ndbs s" using Suc by simp
    have nth: "st_engines ?s ! n = st_engines s ! n" using n by (simp add: nth_append)
    have "(storage_step L)\<^sup>*\<^sup>* ?s (upd_engine n (\<lambda>_. drain L (st_engines s ! n)) ?s)"
      using n nth drain_steps [of L "st_write_sync s" "st_engines s ! n"] by (intro engine_steps_storage) simp_all
    moreover have "upd_engine n (\<lambda>_. drain L (st_engines s ! n)) ?s
        = s\<lparr>st_engines := map (drain L) (take (Suc n) (st_engines s)) @ drop (Suc n) (st_engines s)\<rparr>"
      using n by (simp add: upd_engine_def list_update_append Cons_nth_drop_Suc [symmetric] take_Suc_conv_app_nth)
    ultimately show ?case using Suc by simp
  qed simp
  from this [of "ndbs s"] show ?thesis by (simp add: settle_def)
qed

lemma settle_ok:
  assumes "storage_wf L absm s"
  shows "storage_wf L absm (settle L s)" "row_view absm (settle L s) = row_view absm s"
    "ks_view L absm (settle L s) = ks_view L absm s" "tb_view L absm (settle L s) = tb_view L absm s"
    "st_row_cache (settle L s) = st_row_cache s" "storage_quiet (settle L s)"
  using storage_steps_ok [OF settle_steps assms] drain_steps
  by (auto simp: storage_quiet_def settle_def list_all_iff)

lemma coherent_settle: "storage_wf L absm s \<Longrightarrow> coherent absm s \<Longrightarrow> coherent absm (settle L s)"
  by (rule coherent_cong) (simp_all add: settle_ok)

section \<open>Queued row operations\<close>

lemma send_op_fields [simp]:
  "en_gone (send_op op e) = en_gone e" "en_done (send_op op e) = en_done e" "en_db (send_op op e) = en_db e"
  by (simp_all add: send_op_def)

lemma engines_wf_send:
  assumes "engines_wf s" and "i < ndbs s" and "data_op (op_of (mk (Some (st_next_ticket s))))"
    and "\<And>t. ticket_of (mk t) = t"
  shows "engines_wf (upd_engine i (send_op (mk (Some (st_next_ticket s)))) (s\<lparr>st_next_ticket := Suc (st_next_ticket s)\<rparr>))"
proof -
  let ?s = "s\<lparr>st_next_ticket := Suc (st_next_ticket s)\<rparr>"
  have "engines_wf ?s" using assms(1) by (auto simp: engines_wf_def less_Suc_eq)
  moreover note e = engines_wf_nth [OF assms(1,2)]
  ultimately show ?thesis
    using assms(2-4) by (intro engines_wf_upd) (auto simp: engine_wf_send pend_send less_Suc_eq)
qed

lemma send_row_ok:
  assumes "storage_wf L absm s" and "data_op (op_of (mk (Some (st_next_ticket s))))" and "\<And>t. ticket_of (mk t) = t"
    and "i < ndbs s"
  defines "s' \<equiv> upd_engine i (send_op (mk (Some (st_next_ticket s)))) (s\<lparr>st_next_ticket := Suc (st_next_ticket s)\<rparr>)"
  shows "send_ticketed i mk s = (s', Ok (st_next_ticket s))" "storage_wf L absm s'"
    "ks_view L absm s' = ks_view L absm s" "tb_view L absm s' = tb_view L absm s" "st_row_cache s' = st_row_cache s"
    "row_view absm s' r = (if addr_engine s r = i
       then apply_op (op_of (mk (Some (st_next_ticket s)))) (engine_view absm (st_engines s ! i)) (addr_key r) else row_view absm s r)"
proof -
  note wf = storage_wfD [OF assms(1)]
  show "send_ticketed i mk s = (s', Ok (st_next_ticket s))"
    unfolding s'_def by (rule send_ticketed_ok [OF wf(3) assms(4)])
  let ?s = "s\<lparr>st_next_ticket := Suc (st_next_ticket s)\<rparr>"
  have eng: "st_engines ?s = st_engines s" by simp
  have "engines_wf ?s" using wf(3) by (auto simp: engines_wf_def less_Suc_eq)
  then have "storage_wf L absm ?s" using assms(1) by (simp add: storage_wf_def meta_wf_def view_cong [OF eng])
  from storage_wf_upd [OF this, of i] engines_wf_send [OF wf(3) assms(4), of mk] assms(2-4)
  show "storage_wf L absm s'" "ks_view L absm s' = ks_view L absm s" "tb_view L absm s' = tb_view L absm s"
    by (simp_all add: s'_def view_cong [OF eng])
  show "st_row_cache s' = st_row_cache s" by (simp add: s'_def)
  show "row_view absm s' r = (if addr_engine s r = i
       then apply_op (op_of (mk (Some (st_next_ticket s)))) (engine_view absm (st_engines s ! i)) (addr_key r) else row_view absm s r)"
    using assms(4) by (simp add: s'_def row_view_def engine_view_send view_cong [OF eng])
qed

lemma cache_set_ok:
  "storage_wf L absm (cache_set ks k v s) = storage_wf L absm s" "row_view absm (cache_set ks k v s) = row_view absm s"
  "ks_view L absm (cache_set ks k v s) = ks_view L absm s" "tb_view L absm (cache_set ks k v s) = tb_view L absm s"
  "addr_engine (cache_set ks k v s) = addr_engine s" "storage_quiet (cache_set ks k v s) = storage_quiet s"
proof -
  have eng: "st_engines (cache_set ks k v s) = st_engines s" by simp
  show "storage_wf L absm (cache_set ks k v s) = storage_wf L absm s"
    by (simp add: storage_wf_def meta_wf_def view_cong [OF eng] engines_wf_cong [OF eng])
  show "row_view absm (cache_set ks k v s) = row_view absm s" "ks_view L absm (cache_set ks k v s) = ks_view L absm s"
    "tb_view L absm (cache_set ks k v s) = tb_view L absm s" "addr_engine (cache_set ks k v s) = addr_engine s"
    "storage_quiet (cache_set ks k v s) = storage_quiet s"
    by (simp_all only: view_cong [OF eng])
qed

lemma cache_lookup_set:
  assumes "good_row r" and "good_row r'"
  shows "cache_lookup (fst r') (addr_key r') (cache_set (fst r) (addr_key r) v s) =
    (if r' = r \<and> should_cache (fst r) \<and> st_row_cache s \<noteq> None then v else cache_lookup (fst r') (addr_key r') s)"
  using row_key_inject [OF assms(2,1)] by (cases "st_row_cache s") (auto simp: cache_lookup_def cache_set_def)

text \<open>A change of one row in the view, mirrored in the cache, keeps the cache coherent.\<close>

lemma coherent_write:
  assumes "coherent absm s" and "good_row r"
    and "\<And>r'. good_row r' \<Longrightarrow> row_view absm s' r' = (if r' = r then v else row_view absm s r')"
    and "st_row_cache s' = st_row_cache (cache_set (fst r) (addr_key r) v s)"
  shows "coherent absm s'"
  unfolding coherent_def
proof (intro allI impI)
  fix r' w assume r': "good_row r'" and "cache_lookup (fst r') (addr_key r') s' = Some w"
  then have look: "cache_lookup (fst r') (addr_key r') (cache_set (fst r) (addr_key r) v s) = Some w"
    using assms(4) by (simp add: cache_lookup_def split: if_splits)
  have "cache_lookup (fst r') (addr_key r') s = Some w \<Longrightarrow> row_view absm s r' = Some w"
    using assms(1) r' unfolding coherent_def by blast
  then show "row_view absm s' r' = Some w"
    using look assms(3) [OF r'] unfolding cache_lookup_set [OF assms(2) r']
    by (cases "r' = r") (auto simp: cache_lookup_def split: if_splits)
qed

text \<open>The effect of writing one row: it and nothing else changes in the view.\<close>

definition row_update ::
  "'db libs \<Rightarrow> ('db \<Rightarrow> kv) \<Rightarrow> 'db storage \<Rightarrow> row_addr \<Rightarrow> bytes option \<Rightarrow> 'db storage \<Rightarrow> bool" where
  "row_update L absm s r v s' \<longleftrightarrow>
     storage_wf L absm s' \<and>
     (\<forall>r'. good_row r' \<longrightarrow> row_view absm s' r' = (if r' = r then v else row_view absm s r')) \<and>
     ks_view L absm s' = ks_view L absm s \<and> tb_view L absm s' = tb_view L absm s \<and>
     (coherent absm s \<longrightarrow> coherent absm s')"

text \<open>A queued operation that sets the value of one row.\<close>

lemma queued_row_ok:
  assumes "storage_wf L absm s" and "good_row (ks, tb, parts)" and "\<And>t. ticket_of (mk t) = t"
    and eff: "\<And>t m k. apply_op (op_of (mk t)) m k = (if k = addr_key (ks, tb, parts) then v else m k)"
  shows "\<exists>s'. write_data_op ks tb parts mk (cache_set ks (addr_key (ks, tb, parts)) v s) = (s', Ok (st_next_ticket s)) \<and>
    row_update L absm s (ks, tb, parts) v s'"
proof -
  let ?r = "(ks, tb, parts)"
  let ?c = "cache_set ks (addr_key ?r) v s"
  have eng: "row_engine ?c ks tb parts = addr_engine s ?r" by (simp add: addr_engine_def row_engine_def)
  have wf: "storage_wf L absm ?c" using assms(1) by (simp only: cache_set_ok)
  have less: "addr_engine s ?r < ndbs ?c" using addr_engine_less [of s ?r] storage_wfD(3) [OF assms(1)] by simp
  have "data_op (op_of (mk t))" for t using addr_key_data [of ?r] by (auto simp: data_op_def eff)
  note send = send_row_ok [OF wf this assms(3) less]
  let ?s = "upd_engine (addr_engine s ?r) (send_op (mk (Some (st_next_ticket ?c)))) (?c\<lparr>st_next_ticket := Suc (st_next_ticket ?c)\<rparr>)"
  have view: "row_view absm ?s r = (if r = ?r then v else row_view absm s r)" if "good_row r" for r
    using send(6) [of r] row_key_inject [OF that assms(2)] by (auto simp: cache_set_ok row_view_def eff)
  have "coherent absm ?s" if "coherent absm s"
    by (rule coherent_write [OF that assms(2) view]) simp_all
  then show ?thesis
    using send(1-4) view unfolding row_update_def
    by (intro exI [of _ ?s] conjI allI impI) (simp_all add: write_data_op_def eng cache_set_ok)
qed

lemma put_row_ok:
  assumes "storage_wf L absm s" and "good_row (ks, tb, parts)"
  shows "\<exists>s'. put_row ks tb parts v s = (s', Ok (st_next_ticket s)) \<and> row_update L absm s (ks, tb, parts) (Some v) s'"
  using queued_row_ok [OF assms, of "WPut (addr_key (ks, tb, parts)) v" "Some v"]
  by (simp add: put_row_def addr_key_def Let_def)

lemma delete_row_ok:
  assumes "storage_wf L absm s" and "good_row (ks, tb, parts)"
  shows "\<exists>s'. delete_row ks tb parts s = (s', Ok (st_next_ticket s)) \<and> row_update L absm s (ks, tb, parts) None s'"
  using queued_row_ok [OF assms, of "WDelete (addr_key (ks, tb, parts))" None]
  by (simp add: delete_row_def addr_key_def Let_def)

section \<open>Reads and synchronous writes\<close>

text \<open>A read is exact when the row is cached or nothing is pending for it.\<close>

lemma get_row_ok:
  assumes "storage_wf L absm s" and "good_row (ks, tb, parts)" and "coherent absm s"
    and "cache_lookup ks (addr_key (ks, tb, parts)) s \<noteq> None \<or> quiet (st_engines s ! addr_engine s (ks, tb, parts))"
  shows "\<exists>s'. get_row L ks tb parts s = (s', Ok (row_view absm s (ks, tb, parts))) \<and> storage_wf L absm s' \<and>
    st_engines s' = st_engines s \<and> coherent absm s'"
proof (cases "cache_lookup ks (addr_key (ks, tb, parts)) s")
  case (Some v)
  moreover have "row_view absm s (ks, tb, parts) = Some v" using Some assms(2,3) by (simp add: coherent_def)
  ultimately show ?thesis using assms by (simp add: get_row_def addr_key_def)
next
  case None
  let ?r = "(ks, tb, parts)"
  let ?c = "cache_set (fst ?r) (addr_key ?r) (row_view absm s ?r) s"
  note wf = storage_wfD [OF assms(1)]
  have less: "row_engine s ks tb parts < ndbs s" using addr_engine_less [OF wf(3), of ?r] by (simp add: addr_engine_def)
  have v: "absm (en_db (st_engines s ! row_engine s ks tb parts)) (row_key ks tb parts) = row_view absm s ?r"
    using None assms(4) by (simp add: row_view_def engine_view_def quiet_def pend_defs addr_engine_def addr_key_def)
  have "coherent absm ?c"
    by (rule coherent_write [OF assms(3,2)]) (simp_all add: cache_set_ok)
  then show ?thesis
    using None less assms(1,3) wf(1) v
    by (auto simp: get_row_def on_db_def rocks_okD(1) reading_def addr_key_def cache_set_ok split: option.split)
qed

lemma write_row_sync_ok:
  assumes "storage_wf L absm s" and "good_row (ks, tb, parts)" and "quiet (st_engines s ! addr_engine s (ks, tb, parts))"
    and "\<And>db. \<exists>db'. f db = Ok db' \<and> absm db' = (absm db)(addr_key (ks, tb, parts) := v)"
  shows "\<exists>s'. and_then (write_db (row_engine s ks tb parts) f msg s) (\<lambda>s _. (cache_set ks (addr_key (ks, tb, parts)) v s, Ok ()))
      = (s', Ok ()) \<and> row_update L absm s (ks, tb, parts) v s' \<and> (storage_quiet s \<longrightarrow> storage_quiet s')"
proof -
  let ?r = "(ks, tb, parts)"
  let ?i = "addr_engine s ?r"
  note wf = storage_wfD [OF assms(1)]
  have less: "?i < ndbs s" by (rule addr_engine_less [OF wf(3)])
  from assms(4) obtain db where db: "f (en_db (st_engines s ! ?i)) = Ok db"
    "absm db = (absm (en_db (st_engines s ! ?i)))(addr_key ?r := v)" by blast
  let ?d = "set_db ?i db s"
  let ?s = "cache_set ks (addr_key ?r) v ?d"
  have w: "write_db (row_engine s ks tb parts) f msg s = (?d, Ok ())"
    using write_db_ok [of ?i s f db, OF less db(1)] by (simp add: addr_engine_def)
  have "absm (en_db ((st_engines s ! ?i)\<lparr>en_db := db\<rparr>)) k = absm (en_db (st_engines s ! ?i)) k" if "\<not> prefix DT_PREFIX k" for k
    using that addr_key_data [of ?r] db(2) by auto
  note d = storage_wf_upd [OF assms(1) less engines_wf_set_db [OF wf(3) less] this]
  have view: "row_view absm ?s r = (if r = ?r then v else row_view absm s r)" if "good_row r" for r
    using row_key_inject [OF that assms(2)] row_view_write_db [OF wf(3) assms(3), of absm db]
      row_view_set_db [OF less, of absm db r] db(2) by (auto simp: cache_set_ok)
  have "coherent absm ?s" if "coherent absm s"
    by (rule coherent_write [OF that assms(2) view]) (simp_all add: cache_set_def)
  then show ?thesis
    using w d view quiet_set_db [OF _ less] unfolding row_update_def
    by (intro exI [of _ ?s] conjI allI impI) (simp_all add: cache_set_ok)
qed

lemma put_row_sync_ok:
  assumes "storage_wf L absm s" and "good_row (ks, tb, parts)" and "quiet (st_engines s ! addr_engine s (ks, tb, parts))"
  shows "\<exists>s'. put_row_sync L ks tb parts v s = (s', Ok ()) \<and> row_update L absm s (ks, tb, parts) (Some v) s' \<and> (storage_quiet s \<longrightarrow> storage_quiet s')"
  using write_row_sync_ok [OF assms, of "\<lambda>db. rk_put L db (addr_key (ks, tb, parts)) v" "Some v"]
    rocks_okD(2) [OF storage_wfD(1) [OF assms(1)]]
  by (simp add: put_row_sync_def addr_key_def Let_def)

lemma delete_row_sync_ok:
  assumes "storage_wf L absm s" and "good_row (ks, tb, parts)" and "quiet (st_engines s ! addr_engine s (ks, tb, parts))"
  shows "\<exists>s'. delete_row_sync L ks tb parts s = (s', Ok ()) \<and> row_update L absm s (ks, tb, parts) None s' \<and> (storage_quiet s \<longrightarrow> storage_quiet s')"
  using write_row_sync_ok [OF assms, of "\<lambda>db. rk_delete L db (addr_key (ks, tb, parts))" None]
    rocks_okD(3) [OF storage_wfD(1) [OF assms(1)]]
  by (simp add: delete_row_sync_def addr_key_def Let_def)

section \<open>Range deletions\<close>

lemma addr_engine_ticket [simp]: "addr_engine (s\<lparr>st_next_ticket := t\<rparr>) = addr_engine s"
  by (rule view_cong) simp

lemma send_ranges_ok:
  assumes "storage_wf L absm s" and "data_op (WbDeleteRange st en)" and "distinct is" and "\<forall>i\<in>set is. i < ndbs s"
  shows "\<exists>s' ts'. send_ranges st en is ts s = (s', Ok (ts @ ts')) \<and> length ts' = length is \<and> storage_wf L absm s' \<and>
    ks_view L absm s' = ks_view L absm s \<and> tb_view L absm s' = tb_view L absm s \<and> st_row_cache s' = st_row_cache s \<and>
    (\<forall>r. row_view absm s' r = (if addr_engine s r \<in> set is \<and> st \<le> addr_key r \<and> addr_key r < en then None else row_view absm s r))"
  using assms
proof (induction "is" arbitrary: s ts)
  case (Cons i "is")
  then have i: "i < ndbs s" by simp
  let ?t = "st_next_ticket s"
  let ?s = "upd_engine i (send_op (WDeleteRange st en (Some ?t))) (s\<lparr>st_next_ticket := Suc ?t\<rparr>)"
  note send = send_row_ok [OF Cons.prems(1) _ _ i, of "WDeleteRange st en"]
  have wf: "storage_wf L absm ?s" using send(2) Cons.prems(2) by simp
  have eng: "addr_engine ?s r = addr_engine s r" for r by simp
  from Cons.IH [OF wf Cons.prems(2), of "ts @ [?t]"] Cons.prems(3,4) obtain s' ts' where
    s': "send_ranges st en is (ts @ [?t]) ?s = (s', Ok ((ts @ [?t]) @ ts'))" "length ts' = length is" "storage_wf L absm s'"
      "ks_view L absm s' = ks_view L absm ?s" "tb_view L absm s' = tb_view L absm ?s" "st_row_cache s' = st_row_cache ?s"
      "\<And>r. row_view absm s' r = (if addr_engine s r \<in> set is \<and> st \<le> addr_key r \<and> addr_key r < en then None else row_view absm ?s r)"
    by (auto simp: eng)
  have "row_view absm s' r = (if addr_engine s r \<in> set (i # is) \<and> st \<le> addr_key r \<and> addr_key r < en then None else row_view absm s r)" for r
    unfolding s'(7) using send(6) [of r] Cons.prems(2) by (auto simp: row_view_def [of absm s])
  then show ?case
    using s'(1-6) send(1,3-5) Cons.prems(2)
    by (intro exI [of _ s'] exI [of _ "?t # ts'"] conjI allI) simp_all
qed simp

lemma clear_row_cache_ok:
  "storage_wf L absm (clear_row_cache s) = storage_wf L absm s" "row_view absm (clear_row_cache s) = row_view absm s"
  "ks_view L absm (clear_row_cache s) = ks_view L absm s" "tb_view L absm (clear_row_cache s) = tb_view L absm s"
  "coherent absm (clear_row_cache s)"
proof -
  have eng: "st_engines (clear_row_cache s) = st_engines s" by simp
  show "storage_wf L absm (clear_row_cache s) = storage_wf L absm s"
    by (simp add: storage_wf_def meta_wf_def view_cong [OF eng] engines_wf_cong [OF eng])
  show "row_view absm (clear_row_cache s) = row_view absm s" "ks_view L absm (clear_row_cache s) = ks_view L absm s"
    "tb_view L absm (clear_row_cache s) = tb_view L absm s"
    by (simp_all only: view_cong [OF eng])
  show "coherent absm (clear_row_cache s)"
    by (cases "st_row_cache s") (simp_all add: coherent_def cache_lookup_def clear_row_cache_def)
qed

text \<open>A range deletion removes the rows under its prefix from every engine and empties the row cache.\<close>

lemma delete_data_prefix_ok:
  assumes "storage_wf L absm s" and "prefix DT_PREFIX pfx" and "last pfx \<noteq> 0xFF"
  shows "\<exists>s' ts. delete_data_prefix L pfx s = (s', Ok ts) \<and> length ts = ndbs s \<and> storage_wf L absm s' \<and> coherent absm s' \<and>
    ks_view L absm s' = ks_view L absm s \<and> tb_view L absm s' = tb_view L absm s \<and>
    (\<forall>r. row_view absm s' r = (if prefix pfx (addr_key r) then None else row_view absm s r))"
proof -
  have "pfx \<noteq> []" using assms(2) by (auto simp: DT_PREFIX_def str_bytes_def)
  from prefix_upper_bound_exact [OF this assms(3)] obtain en where
    en: "prefix_upper_bound pfx = Some en" "\<And>k. pfx \<le> k \<and> k < en \<longleftrightarrow> prefix pfx k" by blast
  have "data_op (WbDeleteRange pfx en)"
    using en(2) assms(2) by (auto simp: data_op_def dest: prefix_order.trans)
  from send_ranges_ok [OF assms(1) this, of "[0..<ndbs s]" "[]"] obtain s' ts where
    s': "send_ranges pfx en [0..<ndbs s] [] s = (s', Ok ts)" "length ts = ndbs s" "storage_wf L absm s'"
      "ks_view L absm s' = ks_view L absm s" "tb_view L absm s' = tb_view L absm s"
      "\<And>r. row_view absm s' r = (if addr_engine s r \<in> set [0..<ndbs s] \<and> pfx \<le> addr_key r \<and> addr_key r < en then None else row_view absm s r)"
    by auto
  have "row_view absm s' r = (if prefix pfx (addr_key r) then None else row_view absm s r)" for r
    using s'(6) [of r] en(2) [of "addr_key r"] addr_engine_less [OF storage_wfD(3) [OF assms(1)], of r] by auto
  then show ?thesis
    using en(1) s'(1-5) assms(2)
    by (intro exI [of _ "clear_row_cache s'"] exI [of _ ts] conjI allI) (simp_all add: delete_data_prefix_def clear_row_cache_ok)
qed

lemma last_data_prefix: "last (data_prefix ks tb) \<noteq> 0xFF" "prefix DT_PREFIX (data_prefix ks tb)"
  "last (DT_PREFIX @ str_bytes ks @ bang) \<noteq> 0xFF" "prefix DT_PREFIX (DT_PREFIX @ str_bytes ks @ bang)"
  by (simp_all add: data_prefix_def bang_bytes)

lemma table_rows_prefix:
  "plain_name ks \<Longrightarrow> plain_name tb \<Longrightarrow> good_row r \<Longrightarrow>
     prefix (data_prefix ks tb) (addr_key r) \<longleftrightarrow> fst r = ks \<and> fst (snd r) = tb"
  by (cases r) (auto simp: addr_key_def row_key_def good_row_def data_prefix_prefix_iff)

lemma keyspace_rows_prefix:
  assumes "plain_name ks" and "good_row r"
  shows "prefix (DT_PREFIX @ str_bytes ks @ bang) (addr_key r) \<longleftrightarrow> fst r = ks"
  using assms name_sep [of "fst r" ks]
  by (cases r) (auto simp: addr_key_def row_key_def good_row_def data_prefix_def prefix_def)

lemma truncate_table_ok:
  assumes "storage_wf L absm s" and "plain_name ks" and "plain_name tb"
  shows "\<exists>s' ts. truncate_table L ks tb s = (s', Ok ts) \<and> length ts = ndbs s \<and> storage_wf L absm s' \<and> coherent absm s' \<and>
    ks_view L absm s' = ks_view L absm s \<and> tb_view L absm s' = tb_view L absm s \<and>
    (\<forall>r. good_row r \<longrightarrow> row_view absm s' r = (if fst r = ks \<and> fst (snd r) = tb then None else row_view absm s r))"
proof -
  from delete_data_prefix_ok [OF assms(1) last_data_prefix(2,1)] obtain s' ts where
    "delete_data_prefix L (data_prefix ks tb) s = (s', Ok ts)" "length ts = ndbs s" "storage_wf L absm s'" "coherent absm s'"
    "ks_view L absm s' = ks_view L absm s" "tb_view L absm s' = tb_view L absm s"
    "\<forall>r. row_view absm s' r = (if prefix (data_prefix ks tb) (addr_key r) then None else row_view absm s r)" by blast
  then show ?thesis
    using table_rows_prefix [OF assms(2,3)] unfolding truncate_table_def
    by (intro exI [of _ s'] exI [of _ ts] conjI allI impI) simp_all
qed

text \<open>The metadata caches play no part in a range deletion.\<close>

definition with_caches ::
  "(string \<rightharpoonup> keyspace_def) \<Rightarrow> (string \<times> string \<rightharpoonup> table_def) \<Rightarrow> 'db storage \<Rightarrow> 'db storage" where
  "with_caches K T s = s\<lparr>st_keyspaces := K, st_tables := T\<rparr>"

lemma with_caches_fields [simp]:
  "st_engines (with_caches K T s) = st_engines s" "st_next_ticket (with_caches K T s) = st_next_ticket s"
  "st_row_cache (with_caches K T s) = st_row_cache s" "st_keyspaces (with_caches K T s) = K" "st_tables (with_caches K T s) = T"
  "upd_engine i f (with_caches K T s) = with_caches K T (upd_engine i f s)"
  "clear_row_cache (with_caches K T s) = with_caches K T (clear_row_cache s)"
  "(with_caches K T s)\<lparr>st_next_ticket := t\<rparr> = with_caches K T (s\<lparr>st_next_ticket := t\<rparr>)"
  by (simp_all add: with_caches_def upd_engine_def clear_row_cache_def)

lemma with_caches_id: "with_caches (st_keyspaces s) (st_tables s) s = s"
  by (simp add: with_caches_def)

lemma send_ticketed_caches:
  "send_ticketed i mk (with_caches K T s) = (with_caches K T (fst (send_ticketed i mk s)), snd (send_ticketed i mk s))"
  "st_keyspaces (fst (send_ticketed i mk s)) = st_keyspaces s" "st_tables (fst (send_ticketed i mk s)) = st_tables s"
  by (auto simp: send_ticketed_def Let_def)

lemma send_ranges_caches:
  "send_ranges st en is ts (with_caches K T s) = (with_caches K T (fst (send_ranges st en is ts s)), snd (send_ranges st en is ts s))
   \<and> st_keyspaces (fst (send_ranges st en is ts s)) = st_keyspaces s \<and> st_tables (fst (send_ranges st en is ts s)) = st_tables s"
proof (induction "is" arbitrary: ts s)
  case (Cons i "is")
  obtain s1 r where r: "send_ticketed i (WDeleteRange st en) s = (s1, r)" by force
  with Cons.IH [of _ s1] send_ticketed_caches(1) [of i "WDeleteRange st en" K T s]
    send_ticketed_caches(2,3) [of i "WDeleteRange st en" s]
  show ?case by (cases r) simp_all
qed simp

lemma delete_data_prefix_caches:
  assumes "prefix_upper_bound pfx \<noteq> None"
  shows "delete_data_prefix L pfx (with_caches K T s)
      = (with_caches K T (fst (delete_data_prefix L pfx s)), snd (delete_data_prefix L pfx s))"
    "st_keyspaces (fst (delete_data_prefix L pfx s)) = st_keyspaces s"
    "st_tables (fst (delete_data_prefix L pfx s)) = st_tables s"
proof -
  from assms obtain en where en: "prefix_upper_bound pfx = Some en" by auto
  obtain s1 r where r: "send_ranges pfx en [0..<ndbs s] [] s = (s1, r)" by force
  with send_ranges_caches [of pfx en "[0..<ndbs s]" "[]" K T s] en
  show "delete_data_prefix L pfx (with_caches K T s)
      = (with_caches K T (fst (delete_data_prefix L pfx s)), snd (delete_data_prefix L pfx s))"
    "st_keyspaces (fst (delete_data_prefix L pfx s)) = st_keyspaces s"
    "st_tables (fst (delete_data_prefix L pfx s)) = st_tables s"
    by (cases r; simp add: delete_data_prefix_def)+
qed

lemma prefix_upper_bound_data: "last pfx \<noteq> 0xFF \<Longrightarrow> prefix DT_PREFIX pfx \<Longrightarrow> prefix_upper_bound pfx \<noteq> None"
  by (rule prefix_upper_bound_exact [of pfx]) (auto simp: DT_PREFIX_def str_bytes_def)

text \<open>A range deletion after a metadata change, with the caches adjusted at the end.\<close>

lemma delete_data_prefix_adjust:
  assumes "storage_wf L absm (with_caches K T s)" and "prefix DT_PREFIX pfx" and "last pfx \<noteq> 0xFF"
  obtains s' ts where "delete_data_prefix L pfx s = (s', Ok ts)" "length ts = ndbs s"
    "st_keyspaces s' = st_keyspaces s" "st_tables s' = st_tables s"
    "storage_wf L absm (with_caches K T s')" "coherent absm (with_caches K T s')"
    "ks_view L absm (with_caches K T s') = ks_view L absm s" "tb_view L absm (with_caches K T s') = tb_view L absm s"
    "\<And>r. row_view absm (with_caches K T s') r = (if prefix pfx (addr_key r) then None else row_view absm s r)"
proof -
  have eng: "st_engines (with_caches K T s) = st_engines s" by simp
  from delete_data_prefix_ok [OF assms] obtain s1 ts where
    s1: "delete_data_prefix L pfx (with_caches K T s) = (s1, Ok ts)" "length ts = ndbs s" "storage_wf L absm s1" "coherent absm s1"
      "ks_view L absm s1 = ks_view L absm s" "tb_view L absm s1 = tb_view L absm s"
      "\<And>r. row_view absm s1 r = (if prefix pfx (addr_key r) then None else row_view absm s r)"
    by (auto simp: view_cong [OF eng])
  obtain s' where s': "delete_data_prefix L pfx s = (s', Ok ts)" "s1 = with_caches K T s'"
    using delete_data_prefix_caches(1) [OF prefix_upper_bound_data [OF assms(3,2)], of L K T s] s1(1)
    by (cases "delete_data_prefix L pfx s") auto
  show ?thesis
    using that [OF s'(1) s1(2)] s1(3-7) s' delete_data_prefix_caches(2,3) [OF prefix_upper_bound_data [OF assms(3,2)], of L s]
    by simp
qed

lemma delete_table_ok:
  assumes "storage_wf L absm s" and "good_table (ks, tb)"
  shows "\<exists>s' ts. delete_table L ks tb s = (s', Ok ts) \<and> length ts = ndbs s \<and> storage_wf L absm s' \<and> coherent absm s' \<and>
    ks_view L absm s' = ks_view L absm s \<and>
    (\<forall>kt. good_table kt \<longrightarrow> tb_view L absm s' kt = (if kt = (ks, tb) then None else tb_view L absm s kt)) \<and>
    (\<forall>r. good_row r \<longrightarrow> row_view absm s' r = (if fst r = ks \<and> fst (snd r) = tb then None else row_view absm s r))"
proof -
  note wf = storage_wfD [OF assms(1)]
  from storage_delete_ok [OF wf(1,3)] obtain db where
    db: "storage_delete L (tb_key ks tb) s = (set_db 0 db s, Ok ())" "absm db = (db0 absm s)(tb_key ks tb := None)" by blast
  let ?T = "(st_tables s)((ks, tb) := None)"
  let ?c = "with_caches (st_keyspaces s) ?T (set_db 0 db s)"
  have eng: "st_engines ?c = st_engines (set_db 0 db s)" by simp
  have d0: "db0 absm ?c = (db0 absm s)(tb_key ks tb := None)" using db(2) wf(5) by (simp add: view_cong [OF eng] fun_eq_iff)
  have key: "tb_key (fst kt) (snd kt) = tb_key ks tb \<longleftrightarrow> kt = (ks, tb)" if "good_table kt" for kt
    using that assms(2) tb_key_inject [of "fst kt" "snd kt"] by (cases kt) auto
  have ksv: "ks_view L absm ?c = ks_view L absm s" by (simp add: fun_eq_iff ks_view_def d0)
  have tbv: "tb_view L absm ?c kt = (if kt = (ks, tb) then None else tb_view L absm s kt)" if "good_table kt" for kt
    using key [OF that] by (auto simp: tb_view_def d0)
  have "meta_wf L absm ?c"
    unfolding meta_wf_def ksv d0 using wf(4) key tbv by (auto simp: meta_wf_def)
  then have cwf: "storage_wf L absm ?c"
    using wf engines_wf_set_db [OF wf(3,5)] by (simp add: storage_wf_def engines_wf_cong [OF eng])
  from delete_data_prefix_adjust [OF cwf last_data_prefix(2,1) [of ks tb]] obtain s' ts where
    s': "delete_data_prefix L (data_prefix ks tb) (set_db 0 db s) = (s', Ok ts)" "length ts = ndbs s"
      "st_keyspaces s' = st_keyspaces s" "st_tables s' = st_tables s" "storage_wf L absm (with_caches (st_keyspaces s) ?T s')"
      "coherent absm (with_caches (st_keyspaces s) ?T s')"
      "ks_view L absm (with_caches (st_keyspaces s) ?T s') = ks_view L absm (set_db 0 db s)"
      "tb_view L absm (with_caches (st_keyspaces s) ?T s') = tb_view L absm (set_db 0 db s)"
      "\<And>r. row_view absm (with_caches (st_keyspaces s) ?T s') r = (if prefix (data_prefix ks tb) (addr_key r) then None else row_view absm (set_db 0 db s) r)"
    by auto
  have rows: "row_view absm (set_db 0 db s) = row_view absm s"
    using set_db0_rows [OF wf(3), of absm db] db(2) namespace_disjoint(2) by auto
  have fin: "delete_table L ks tb s = (with_caches (st_keyspaces s) ?T s', Ok ts)"
    using db(1) s'(1,3,4) by (simp add: delete_table_def with_caches_def)
  show ?thesis
    unfolding fin using s'(2,5-9) ksv tbv rows table_rows_prefix [of ks tb] assms(2)
    by (intro exI [of _ "with_caches (st_keyspaces s) ?T s'"] exI [of _ ts] conjI allI impI)
       (simp_all add: view_cong [OF eng] good_table_def)
qed

lemma keyspace_tables_prefix:
  assumes "plain_name ks" and "good_table kt"
  shows "prefix (TB_PREFIX @ str_bytes ks @ bang) (tb_key (fst kt) (snd kt)) \<longleftrightarrow> fst kt = ks"
  using assms name_sep [of "fst kt" ks] by (auto simp: tb_key_def good_table_def prefix_def)

lemma tables_range:
  obtains e where "prefix_upper_bound (TB_PREFIX @ str_bytes ks @ bang) = Some e"
    and "\<And>k. TB_PREFIX @ str_bytes ks @ bang \<le> k \<and> k < e \<longleftrightarrow> prefix (TB_PREFIX @ str_bytes ks @ bang) k"
  using prefix_upper_bound_exact [of "TB_PREFIX @ str_bytes ks @ bang"] by (auto simp: bang_bytes)

lemma delete_keyspace_ok:
  assumes "storage_wf L absm s" and "plain_name ks"
  shows "\<exists>s' ts. delete_keyspace L ks s = (s', Ok ts) \<and> length ts = ndbs s \<and> storage_wf L absm s' \<and> coherent absm s' \<and>
    ks_view L absm s' = (ks_view L absm s)(ks := None) \<and>
    (\<forall>kt. good_table kt \<longrightarrow> tb_view L absm s' kt = (if fst kt = ks then None else tb_view L absm s kt)) \<and>
    (\<forall>r. good_row r \<longrightarrow> row_view absm s' r = (if fst r = ks then None else row_view absm s r))"
proof -
  note wf = storage_wfD [OF assms(1)]
  let ?p = "TB_PREFIX @ str_bytes ks @ bang"
  from storage_delete_ok [OF wf(1,3)] obtain db1 where
    db1: "storage_delete L (ks_key ks) s = (set_db 0 db1 s, Ok ())" "absm db1 = (db0 absm s)(ks_key ks := None)" by blast
  from tables_range obtain e where e: "prefix_upper_bound ?p = Some e" "\<And>k. ?p \<le> k \<and> k < e \<longleftrightarrow> prefix ?p k" by blast
  from rocks_okD(4) [OF wf(1)] obtain db where
    db: "rk_write L db1 [WbDeleteRange ?p e] = Ok db" "absm db = (\<lambda>k. if prefix ?p k then None else absm db1 k)"
    by (fastforce simp: e(2))
  have del: "delete_prefix L ?p (set_db 0 db1 s) = (set_db 0 db s, Ok ())"
    using db(1) e(1) wf(5) by (simp add: delete_prefix_def write_db_def on_db_def upd_engine_def)
  let ?K = "(st_keyspaces s)(ks := None)" and ?T = "\<lambda>(k, t). if k \<noteq> ks then st_tables s (k, t) else None"
  let ?c = "with_caches ?K ?T (set_db 0 db s)"
  have eng: "st_engines ?c = st_engines (set_db 0 db s)" by simp
  have d0: "db0 absm ?c k = (if prefix ?p k \<or> k = ks_key ks then None else db0 absm s k)" for k
    using db(2) db1(2) wf(5) by (simp add: view_cong [OF eng])
  have noks: "\<not> prefix ?p (ks_key n)" for n
    using namespace_disjoint(3) [of n] by (auto dest: append_prefixD)
  have ksv: "ks_view L absm ?c = (ks_view L absm s)(ks := None)" by (simp add: fun_eq_iff ks_view_def d0 noks)
  have tbv: "tb_view L absm ?c kt = (if fst kt = ks then None else tb_view L absm s kt)" if "good_table kt" for kt
    using keyspace_tables_prefix [OF assms(2) that] by (auto simp: tb_view_def d0)
  have "meta_wf L absm ?c"
    unfolding meta_wf_def ksv d0 using wf(4) keyspace_tables_prefix [OF assms(2)] tbv noks
    by (auto simp: meta_wf_def split: prod.splits if_splits)
  then have cwf: "storage_wf L absm ?c"
    using wf engines_wf_set_db [OF wf(3,5)] by (simp add: storage_wf_def engines_wf_cong [OF eng])
  from delete_data_prefix_adjust [OF cwf last_data_prefix(4,3) [of ks]] obtain s' ts where
    s': "delete_data_prefix L (DT_PREFIX @ str_bytes ks @ bang) (set_db 0 db s) = (s', Ok ts)" "length ts = ndbs s"
      "st_keyspaces s' = st_keyspaces s" "st_tables s' = st_tables s" "storage_wf L absm (with_caches ?K ?T s')"
      "coherent absm (with_caches ?K ?T s')"
      "ks_view L absm (with_caches ?K ?T s') = ks_view L absm (set_db 0 db s)"
      "tb_view L absm (with_caches ?K ?T s') = tb_view L absm (set_db 0 db s)"
      "\<And>r. row_view absm (with_caches ?K ?T s') r = (if prefix (DT_PREFIX @ str_bytes ks @ bang) (addr_key r) then None else row_view absm (set_db 0 db s) r)"
    by auto
  have "absm db k = db0 absm s k" if "prefix DT_PREFIX k" for k
  proof -
    have "\<not> prefix ?p k" using that by (auto simp: DT_PREFIX_def TB_PREFIX_def str_bytes_def prefix_def)
    moreover have "k \<noteq> ks_key ks" using that namespace_disjoint(1) [of ks] by auto
    ultimately show ?thesis using db(2) db1(2) by simp
  qed
  then have rows: "row_view absm (set_db 0 db s) = row_view absm s"
    using set_db0_rows [OF wf(3), of absm db] by auto
  have fin: "delete_keyspace L ks s = (with_caches ?K ?T s', Ok ts)"
    unfolding s'(4) [symmetric] using db1(1) del s'(1,3) by (simp add: delete_keyspace_def with_caches_def)
  show ?thesis
    unfolding fin using s'(2,5-9) ksv tbv rows keyspace_rows_prefix [OF assms(2)]
    by (intro exI [of _ "with_caches ?K ?T s'"] exI [of _ ts] conjI allI impI) (simp_all add: view_cong [OF eng])
qed

section \<open>Acknowledged writes form a row store\<close>

text \<open>
  What a client sees of a write: the server settles its ticket before the response is sent.
\<close>

definition row_inv :: "'db libs \<Rightarrow> ('db \<Rightarrow> kv) \<Rightarrow> 'db storage \<Rightarrow> bool" where
  "row_inv L absm s \<longleftrightarrow> storage_wf L absm s \<and> coherent absm s \<and> storage_quiet s"

definition read_row :: "'db libs \<Rightarrow> row_addr \<Rightarrow> 'db storage \<Rightarrow> ('db, bytes option) act" where
  "read_row L r s = get_row L (fst r) (fst (snd r)) (snd (snd r)) s"

definition acked_put :: "'db libs \<Rightarrow> row_addr \<Rightarrow> bytes \<Rightarrow> 'db storage \<Rightarrow> ('db, unit) act" where
  "acked_put L r v s = and_then (put_row (fst r) (fst (snd r)) (snd (snd r)) v s) (\<lambda>s _. (settle L s, Ok ()))"

definition acked_delete :: "'db libs \<Rightarrow> row_addr \<Rightarrow> 'db storage \<Rightarrow> ('db, unit) act" where
  "acked_delete L r s = and_then (delete_row (fst r) (fst (snd r)) (snd (snd r)) s) (\<lambda>s _. (settle L s, Ok ()))"

lemma quiet_nth: "storage_quiet s \<Longrightarrow> i < ndbs s \<Longrightarrow> quiet (st_engines s ! i)"
  by (simp add: storage_quiet_def list_all_length)

lemma row_inv_settle:
  "row_update L absm s r v s' \<Longrightarrow> coherent absm s \<Longrightarrow>
     row_inv L absm (settle L s') \<and>
     (\<forall>r'. good_row r' \<longrightarrow> row_view absm (settle L s') r' = (if r' = r then v else row_view absm s r'))"
  using settle_ok [of L absm s'] coherent_settle [of L absm s'] by (simp add: row_update_def row_inv_def)

interpretation rows: row_store "row_inv L absm" good_row "row_view absm" "read_row L" "acked_put L" "acked_delete L"
  for L :: "'db libs" and absm
proof
  fix s :: "'db storage" and r
  assume inv: "row_inv L absm s" and r: "good_row r"
  then have "quiet (st_engines s ! addr_engine s r)"
    using quiet_nth addr_engine_less storage_wfD(3) unfolding row_inv_def by blast
  with inv r get_row_ok [of L absm s "fst r" "fst (snd r)" "snd (snd r)"] obtain s' where
    "read_row L r s = (s', Ok (row_view absm s r))" "storage_wf L absm s'" "st_engines s' = st_engines s" "coherent absm s'"
    by (auto simp: row_inv_def read_row_def)
  with view_cong(1,5) [of s' s] inv
  show "\<exists>s'. read_row L r s = (s', Ok (row_view absm s r)) \<and> row_inv L absm s' \<and>
      (\<forall>k'. good_row k' \<longrightarrow> row_view absm s' k' = row_view absm s k')"
    by (intro exI [of _ s']) (simp add: row_inv_def)
next
  fix s :: "'db storage" and r d
  assume inv: "row_inv L absm s" and r: "good_row r"
  from put_row_ok [of L absm s "fst r" "fst (snd r)" "snd (snd r)" d] inv r obtain s' t where
    "put_row (fst r) (fst (snd r)) (snd (snd r)) d s = (s', Ok t)" "row_update L absm s r (Some d) s'"
    by (auto simp: row_inv_def)
  with row_inv_settle [of L absm s r "Some d" s'] inv
  show "\<exists>s'. acked_put L r d s = (s', Ok ()) \<and> row_inv L absm s' \<and>
      (\<forall>k'. good_row k' \<longrightarrow> row_view absm s' k' = (if k' = r then Some d else row_view absm s k'))"
    by (intro exI [of _ "settle L s'"]) (simp add: acked_put_def row_inv_def)
next
  fix s :: "'db storage" and r
  assume inv: "row_inv L absm s" and r: "good_row r"
  from delete_row_ok [of L absm s "fst r" "fst (snd r)" "snd (snd r)"] inv r obtain s' t where
    "delete_row (fst r) (fst (snd r)) (snd (snd r)) s = (s', Ok t)" "row_update L absm s r None s'"
    by (auto simp: row_inv_def)
  with row_inv_settle [of L absm s r None s'] inv
  show "\<exists>s'. acked_delete L r s = (s', Ok ()) \<and> row_inv L absm s' \<and>
      (\<forall>k'. good_row k' \<longrightarrow> row_view absm s' k' = (if k' = r then None else row_view absm s k'))"
    by (intro exI [of _ "settle L s'"]) (simp add: acked_delete_def row_inv_def)
qed

text \<open>A fresh storage.\<close>

definition fresh_storage :: "nat \<Rightarrow> 'db \<Rightarrow> bool \<Rightarrow> bool \<Rightarrow> 'db storage" where
  "fresh_storage n db sync cache =
     \<lparr>st_engines = replicate n (new_engine db), st_keyspaces = Map.empty, st_tables = Map.empty, st_ast_cache = [],
      st_write_sync = sync, st_row_cache = (if cache then Some Map.empty else None), st_next_ticket = 0\<rparr>"

lemma fresh_storage_ok:
  assumes "rocks_ok L absm" and "json_ok L" and "\<And>k. \<not> prefix DT_PREFIX k \<Longrightarrow> absm db k = None" and "0 < n" and "n < 2 ^ 64"
  shows "row_inv L absm (fresh_storage n db sync cache)"
proof -
  let ?s = "fresh_storage n db sync cache"
  have e: "engine_wf (new_engine db)" "pend_ops (new_engine db) = []" "pend_tickets (new_engine db) = []"
    "\<not> en_gone (new_engine db)" "en_done (new_engine db) = []" "quiet (new_engine db)"
    by (simp_all add: engine_wf_def new_engine_def pend_defs quiet_def)
  have "engines_wf ?s" using assms e by (simp add: engines_wf_def fresh_storage_def)
  moreover have "db0 absm ?s k = None" if "\<not> prefix DT_PREFIX k" for k
    using assms that by (simp add: db0_def fresh_storage_def new_engine_def)
  then have "meta_wf L absm ?s" using namespace_disjoint by (simp add: meta_wf_def fresh_storage_def)
  moreover have "coherent absm ?s" by (simp add: coherent_def cache_lookup_def fresh_storage_def)
  moreover have "storage_quiet ?s" using e by (simp add: storage_quiet_def fresh_storage_def list_all_length)
  ultimately show ?thesis using assms by (simp add: row_inv_def storage_wf_def)
qed

lemma mem_fresh: "0 < n \<Longrightarrow> n < 2 ^ 64 \<Longrightarrow> row_inv mem_libs fmlookup (fresh_storage n fmempty sync cache)"
  by (rule fresh_storage_ok) (simp_all add: mem_rocks_ok mem_json_ok fun_eq_iff)

lemma fresh_row_view: "0 < n \<Longrightarrow> n < 2 ^ 64 \<Longrightarrow> absm db = Map.empty \<Longrightarrow> row_view absm (fresh_storage n db sync cache) r = None"
  by (cases r) (simp add: row_view_def engine_view_def fresh_storage_def new_engine_def pend_defs addr_engine_def
      row_engine_def data_engine_less)

section \<open>What a scan sees\<close>

lemma above_prefix: "pfx \<le> (k :: bytes) \<Longrightarrow> \<not> prefix pfx k \<Longrightarrow> prefix pfx k' \<Longrightarrow> k' < k"
proof (induction pfx arbitrary: k k')
  case (Cons p pfx)
  then show ?case by (cases k; cases k') auto
qed simp

fun entries_loop ::
  "(bytes \<Rightarrow> bytes \<Rightarrow> 'a \<Rightarrow> ('a \<times> bool) anyhow) \<Rightarrow> (bytes \<times> bytes) list \<Rightarrow> 'a \<Rightarrow> 'a \<times> unit anyhow" where
  "entries_loop f [] acc = (acc, Ok ())"
| "entries_loop f ((k, v) # es) acc =
     (case f k v acc of
        Ok (acc', cont) \<Rightarrow> if cont then entries_loop f es acc' else (acc', Ok ())
      | Err m \<Rightarrow> (acc, Err m) | Halt h \<Rightarrow> (acc, Halt h))"

lemma scan_loop_filter:
  "sorted_wrt (<) (map fst es) \<Longrightarrow> \<forall>e\<in>set es. pfx \<le> fst e \<Longrightarrow>
     scan_loop pfx f (map Ok es) acc = entries_loop f (filter (\<lambda>e. prefix pfx (fst e)) es) acc"
proof (induction es arbitrary: acc)
  case (Cons e es)
  show ?case
  proof (cases "prefix pfx (fst e)")
    case True
    with Cons show ?thesis by (cases e) (auto split: result.split)
  next
    case False
    have "\<not> prefix pfx (fst x)" if "x \<in> set es" for x
      using above_prefix [of pfx "fst e" "fst x"] False Cons.prems that by fastforce
    then have "filter (\<lambda>e. prefix pfx (fst e)) (e # es) = []" using False by simp
    then show ?thesis using False by (cases e) simp
  qed
qed simp

definition entries_of :: "'db libs \<Rightarrow> 'db \<Rightarrow> bytes \<Rightarrow> (bytes \<times> bytes) list" where
  "entries_of L db pfx = filter (\<lambda>e. prefix pfx (fst e)) (concat (map (\<lambda>r. case r of Ok e \<Rightarrow> [e] | _ \<Rightarrow> []) (rk_iter L db pfx)))"

lemma concat_map_Ok: "concat (map (\<lambda>r. case r of Ok e \<Rightarrow> [e] | _ \<Rightarrow> []) (map Ok es)) = es"
  by (induction es) simp_all

lemma entries_of_spec:
  assumes "rocks_ok L absm"
  shows "sorted_wrt (<) (map fst (entries_of L db pfx))"
    and "set (entries_of L db pfx) = {(k, v). absm db k = Some v \<and> prefix pfx k}"
proof -
  from rocks_okD(5) [OF assms] obtain es where es: "rk_iter L db pfx = map Ok es" "iter_spec (absm db) pfx es" by blast
  then have e: "entries_of L db pfx = filter (\<lambda>e. prefix pfx (fst e)) es" by (simp only: entries_of_def concat_map_Ok)
  show "sorted_wrt (<) (map fst (entries_of L db pfx))"
    using es(2) unfolding e iter_spec_def by (simp add: sorted_wrt_map sorted_wrt_filter)
  show "set (entries_of L db pfx) = {(k, v). absm db k = Some v \<and> prefix pfx k}"
    using es(2) unfolding e iter_spec_def by (auto simp: prefix_le)
qed

lemma for_each_on_engine_entries:
  assumes "rocks_ok L absm" and "i < ndbs s"
  shows "for_each_on_engine L s i pfx f acc = entries_loop f (entries_of L (en_db (st_engines s ! i)) pfx) acc"
proof -
  from rocks_okD(5) [OF assms(1)] obtain es where
    es: "rk_iter L (en_db (st_engines s ! i)) pfx = map Ok es" "iter_spec (absm (en_db (st_engines s ! i))) pfx es" by blast
  then have "scan_loop pfx f (map Ok es) acc = entries_loop f (filter (\<lambda>e. prefix pfx (fst e)) es) acc"
    by (intro scan_loop_filter) (auto simp: iter_spec_def)
  then show ?thesis
    using es(1) assms(2) by (simp add: for_each_on_engine_def entries_of_def concat_map_Ok del: map_map concat_map_singleton)
qed

lemma entries_loop_push: "entries_loop push_entry es out = (out @ es, Ok ())"
  by (induction es arbitrary: out) (auto simp: push_entry_def)

lemma scan_partition_entries:
  assumes "rocks_ok L absm" and "engines_wf s"
  shows "scan_partition L ks tb part s =
    Ok (entries_of L (en_db (st_engines s ! row_engine s ks tb part)) (data_prefix ks tb @ encode_key part))"
  using assms addr_engine_less [OF assms(2), of "(ks, tb, part)"]
  by (simp add: scan_partition_def for_each_in_partition_def for_each_on_engine_entries entries_loop_push
      row_engine_def addr_engine_def)

section \<open>Tickets under every schedule\<close>

lemma steps_suffix:
  assumes "(engine_step L sync)\<^sup>*\<^sup>* e e'" and "engine_wf e" and "rocks_ok L absm"
  shows "\<exists>n. pend_ops e' = drop n (pend_ops e) \<and> pend_tickets e' = drop n (pend_tickets e)"
  using assms(1)
proof (induction rule: rtranclp_induct)
  case base
  show ?case by (rule exI [of _ 0]) simp
next
  case (step e1 e2)
  then obtain n where n: "pend_ops e1 = drop n (pend_ops e)" "pend_tickets e1 = drop n (pend_tickets e)" by blast
  have "engine_wf e1" using steps_moves [OF step(1) assms(2,3)] by simp
  from engine_step_moves [OF step(2) this assms(3)] obtain m where
    "pend_ops e2 = drop m (pend_ops e1)" "pend_tickets e2 = drop m (pend_tickets e1)" by blast
  with n show ?case by (intro exI [of _ "m + n"]) simp
qed

text \<open>When the ticket of the operation sent last is completed, nothing is pending on its engine.\<close>

lemma last_ticket_quiet:
  assumes "engine_wf e" and "rocks_ok L absm" and "ticket_of op = Some t"
    and "t \<notin> set (en_done e @ tickets_of (pend_tickets e))"
    and "(engine_step L sync)\<^sup>*\<^sup>* (send_op op e) e'" and "t \<in> set (en_done e')"
  shows "quiet e'"
proof -
  have wf: "engine_wf (send_op op e)" using assms(1) by (simp add: engine_wf_send)
  note moves = steps_moves [OF assms(5) wf assms(2)]
  from steps_suffix [OF assms(5) wf assms(2)] obtain n where
    n: "pend_ops e' = drop n (pend_ops e @ [op_of op])" "pend_tickets e' = drop n (pend_tickets e @ [Some t])"
    by (auto simp: pend_send assms(3))
  have "length (pend_tickets e) < n"
  proof (rule ccontr)
    assume "\<not> length (pend_tickets e) < n"
    then have "pend_tickets e' = drop n (pend_tickets e) @ [Some t]" using n(2) by simp
    with moves have "en_done e' @ tickets_of (drop n (pend_tickets e)) = en_done e @ tickets_of (pend_tickets e)"
      by (simp add: pend_send assms(3))
    then have "t \<in> set (en_done e @ tickets_of (pend_tickets e))" using assms(6) by (metis Un_iff set_append)
    with assms(4) show False by simp
  qed
  then have "pend_ops e' = []" using n(1) length_pend [OF assms(1)] by simp
  then show ?thesis using quiet_pend moves by blast
qed

lemma storage_steps_engine:
  assumes "(storage_step L)\<^sup>*\<^sup>* s s'"
  shows "ndbs s' = ndbs s \<and> st_write_sync s' = st_write_sync s \<and>
    (\<forall>i<ndbs s. (engine_step L (st_write_sync s))\<^sup>*\<^sup>* (st_engines s ! i) (st_engines s' ! i))"
  using assms
proof (induction rule: rtranclp_induct)
  case (step y z)
  from step(2) step(3) show ?case
    by cases (auto intro: rtranclp.rtrancl_into_rtrancl)
qed simp

lemma completed_engine:
  assumes "rocks_ok L absm" and "engines_wf s" and "i < ndbs s"
    and "engine_wf (st_engines s' ! i)" "ndbs s' = ndbs s"
    and "\<And>j. j < ndbs s \<Longrightarrow> j \<noteq> i \<Longrightarrow> st_engines s' ! j = st_engines s ! j"
    and "(storage_step L)\<^sup>*\<^sup>* s' s''" and "completed s'' t" and "st_next_ticket s \<le> t"
  shows "t \<in> set (en_done (st_engines s'' ! i))"
proof -
  note steps = storage_steps_engine [OF assms(7)]
  from assms(8) obtain j where j: "j < ndbs s''" "t \<in> set (en_done (st_engines s'' ! j))"
    by (metis completed_def in_set_conv_nth)
  have "j = i"
  proof (rule ccontr)
    assume "j \<noteq> i"
    then have eq: "st_engines s' ! j = st_engines s ! j" and js: "j < ndbs s" using j steps assms(5,6) by auto
    note e = engines_wf_nth [OF assms(2) js]
    from steps_moves [of L "st_write_sync s'" "st_engines s ! j" "st_engines s'' ! j" absm] e(1) assms(1) steps js assms(5) eq
    have "en_done (st_engines s'' ! j) @ tickets_of (pend_tickets (st_engines s'' ! j))
        = en_done (st_engines s ! j) @ tickets_of (pend_tickets (st_engines s ! j))" by metis
    then have "t \<in> set (en_done (st_engines s ! j) @ tickets_of (pend_tickets (st_engines s ! j)))"
      using j(2) by (metis Un_iff set_append)
    with e(4) assms(9) show False by (meson linorder_not_less)
  qed
  with j show ?thesis by simp
qed

lemma queued_shape:
  assumes "storage_wf L absm s" and "write_data_op ks tb parts mk (cache_set ks (addr_key (ks, tb, parts)) v s) = (s1, Ok t)"
  shows "t = st_next_ticket s" and "ndbs s1 = ndbs s"
    and "st_row_cache s1 = st_row_cache (cache_set ks (addr_key (ks, tb, parts)) v s)"
    and "st_engines s1 ! addr_engine s (ks, tb, parts) = send_op (mk (Some t)) (st_engines s ! addr_engine s (ks, tb, parts))"
    and "j \<noteq> addr_engine s (ks, tb, parts) \<Longrightarrow> st_engines s1 ! j = st_engines s ! j"
proof -
  let ?r = "(ks, tb, parts)"
  let ?c = "cache_set ks (addr_key ?r) v s"
  have eng: "row_engine ?c ks tb parts = addr_engine s ?r" by (simp add: addr_engine_def row_engine_def)
  have cwf: "engines_wf ?c" using storage_wfD(3) [OF assms(1)] engines_wf_cong [of ?c s] by simp
  have less: "addr_engine s ?r < ndbs ?c" using addr_engine_less [OF storage_wfD(3) [OF assms(1)]] by simp
  from send_ticketed_ok [OF cwf less, of mk] assms(2)
  have s1: "s1 = upd_engine (addr_engine s ?r) (send_op (mk (Some (st_next_ticket s)))) (?c\<lparr>st_next_ticket := Suc (st_next_ticket s)\<rparr>)"
    and t: "t = st_next_ticket s"
    by (auto simp: write_data_op_def eng)
  show "t = st_next_ticket s" by (rule t)
  show "ndbs s1 = ndbs s" "st_row_cache s1 = st_row_cache ?c"
    "st_engines s1 ! addr_engine s ?r = send_op (mk (Some t)) (st_engines s ! addr_engine s ?r)"
    "j \<noteq> addr_engine s ?r \<Longrightarrow> st_engines s1 ! j = st_engines s ! j"
    using less by (simp_all add: s1 t)
qed

lemma put_row_queued:
  "put_row ks tb parts v s = write_data_op ks tb parts (WPut (addr_key (ks, tb, parts)) v) (cache_set ks (addr_key (ks, tb, parts)) (Some v) s)"
  "delete_row ks tb parts s = write_data_op ks tb parts (WDelete (addr_key (ks, tb, parts))) (cache_set ks (addr_key (ks, tb, parts)) None s)"
  by (simp_all add: put_row_def delete_row_def addr_key_def Let_def)

text \<open>Draining completes every ticket that is pending.\<close>

definition issued :: "'db storage \<Rightarrow> ticket \<Rightarrow> bool" where
  "issued s t \<longleftrightarrow> (\<exists>e\<in>set (st_engines s). t \<in> set (en_done e @ tickets_of (pend_tickets e)))"

lemma settle_completes:
  assumes "storage_wf L absm s" and "list_all (issued s) ts"
  shows "settles L ts s (settle L s)"
proof -
  note wf = storage_wfD [OF assms(1)]
  have "completed (settle L s) t" if "issued s t" for t
  proof -
    from that obtain e where e: "e \<in> set (st_engines s)" "t \<in> set (en_done e @ tickets_of (pend_tickets e))"
      by (auto simp: issued_def)
    with wf(3) have "engine_wf e" by (simp add: engines_wf_def)
    with e drain_view(3) [of e L absm] wf(1) show ?thesis
      by (auto simp: completed_def settle_def intro!: bexI [of _ e])
  qed
  then show ?thesis using assms(2) settle_steps by (auto simp: settles_def list_all_iff)
qed

lemma queued_ticket:
  assumes "storage_wf L absm s" and "write_data_op ks tb parts mk (cache_set ks (addr_key (ks, tb, parts)) v s) = (s1, Ok t)"
    and "ticket_of (mk (Some t)) = Some t"
  shows "issued s1 t"
proof -
  note shape = queued_shape [OF assms(1,2)]
  have less: "addr_engine s (ks, tb, parts) < ndbs s1"
    using shape(2) addr_engine_less [OF storage_wfD(3) [OF assms(1)]] by simp
  then have "st_engines s1 ! addr_engine s (ks, tb, parts) \<in> set (st_engines s1)" by simp
  moreover have "t \<in> set (tickets_of (pend_tickets (st_engines s1 ! addr_engine s (ks, tb, parts))))"
    by (simp add: shape(4) pend_send assms(3))
  ultimately show ?thesis unfolding issued_def by (metis Un_iff set_append)
qed

lemma acked_put_cache:
  assumes "storage_wf L absm s" and "good_row r" and "acked_put L r v s = (s', Ok ())" and "st_row_cache s \<noteq> None"
  shows "st_row_cache s' \<noteq> None"
proof -
  obtain ks tb parts where r: "r = (ks, tb, parts)" by (cases r)
  from put_row_ok [OF assms(1), of ks tb parts v] assms(2) r obtain s1 t where
    s1: "put_row ks tb parts v s = (s1, Ok t)" "storage_wf L absm s1" by (auto simp: row_update_def)
  have "st_row_cache s1 \<noteq> None"
    using queued_shape(3) [OF assms(1) s1(1) [unfolded put_row_queued]] assms(4) by (auto simp: cache_set_def)
  with s1 assms(3) r settle_ok(5) [OF s1(2)] show ?thesis by (auto simp: acked_put_def)
qed

lemma issued_cong: "st_engines s' = st_engines s \<Longrightarrow> issued s' = issued s"
  by (simp add: fun_eq_iff issued_def)

section \<open>Properties\<close>

lemma good_row_sample: "good_row (''shop'', ''kv'', [[1]])" "good_row (''shop'', ''kv'', [[2]])"
  by (simp_all add: good_row_def plain_name_def short_part_def)

text \<open>A row operation whose ticket is completed has reached its database, under every schedule.\<close>

lemma queued_row_settled:
  assumes "storage_wf L absm s" and queued: "write_data_op ks tb parts mk (cache_set ks (addr_key (ks, tb, parts)) v s) = (s1, Ok t)"
    and mk: "ticket_of (mk (Some t)) = Some t" and "storage_wf L absm s1" and "coherent absm s1" and "settles L [t] s1 s2"
  shows "storage_wf L absm s2 \<and> coherent absm s2 \<and> row_view absm s2 = row_view absm s1 \<and>
    tb_view L absm s2 = tb_view L absm s1 \<and> quiet (st_engines s2 ! addr_engine s2 (ks, tb, parts))"
proof -
  let ?i = "addr_engine s (ks, tb, parts)"
  note wf = storage_wfD [OF assms(1)]
  note shape = queued_shape [OF assms(1) queued]
  have less: "?i < ndbs s" by (rule addr_engine_less [OF wf(3)])
  from assms(6) have steps: "(storage_step L)\<^sup>*\<^sup>* s1 s2" "completed s2 t" by (simp_all add: settles_def)
  note same = storage_steps_ok [OF steps(1) assms(4)]
  note eng = storage_steps_engine [OF steps(1)]
  have s2: "storage_wf L absm s2" "coherent absm s2" "row_view absm s2 = row_view absm s1" "tb_view L absm s2 = tb_view L absm s1"
    using same coherent_cong [OF assms(5), of s2] by auto
  have ai: "addr_engine s2 (ks, tb, parts) = ?i" using eng shape(2) by (simp add: addr_engine_def row_engine_def)
  note ewf = engines_wf_nth [OF wf(3) less]
  have d: "t \<in> set (en_done (st_engines s2 ! ?i))"
    using completed_engine [OF wf(1,3) less _ shape(2) shape(5) steps] shape(1,4) ewf(1) mk by (simp add: engine_wf_send)
  have n: "t \<notin> set (en_done (st_engines s ! ?i) @ tickets_of (pend_tickets (st_engines s ! ?i)))"
    using ewf(4) shape(1) by auto
  have st: "(engine_step L (st_write_sync s1))\<^sup>*\<^sup>* (send_op (mk (Some t)) (st_engines s ! ?i)) (st_engines s2 ! ?i)"
    using eng less shape(2,4) by metis
  have "quiet (st_engines s2 ! ?i)"
    by (rule last_ticket_quiet [OF ewf(1) wf(1) mk n st d])
  with s2 ai show ?thesis by simp
qed

lemma put_row_settled:
  assumes "storage_wf L absm s" and "coherent absm s" and "good_row (ks, tb, parts)"
    and "put_row ks tb parts v s = (s1, Ok t)" and "settles L [t] s1 s2"
  shows "storage_wf L absm s2 \<and> coherent absm s2 \<and> row_view absm s2 (ks, tb, parts) = Some v \<and>
    tb_view L absm s2 = tb_view L absm s \<and> quiet (st_engines s2 ! addr_engine s2 (ks, tb, parts))"
proof -
  from put_row_ok [OF assms(1,3), of v] assms(2-4) have s1: "storage_wf L absm s1" "coherent absm s1"
    "row_view absm s1 (ks, tb, parts) = Some v" "tb_view L absm s1 = tb_view L absm s"
    by (auto simp: row_update_def)
  with queued_row_settled [OF assms(1) assms(4) [unfolded put_row_queued] _ s1(1,2) assms(5)] show ?thesis by simp
qed

lemma delete_row_settled:
  assumes "storage_wf L absm s" and "coherent absm s" and "good_row (ks, tb, parts)"
    and "delete_row ks tb parts s = (s1, Ok t)" and "settles L [t] s1 s2"
  shows "storage_wf L absm s2 \<and> coherent absm s2 \<and> row_view absm s2 (ks, tb, parts) = None \<and>
    tb_view L absm s2 = tb_view L absm s \<and> quiet (st_engines s2 ! addr_engine s2 (ks, tb, parts))"
proof -
  from delete_row_ok [OF assms(1,3)] assms(2-4) have s1: "storage_wf L absm s1" "coherent absm s1"
    "row_view absm s1 (ks, tb, parts) = None" "tb_view L absm s1 = tb_view L absm s"
    by (auto simp: row_update_def)
  with queued_row_settled [OF assms(1) assms(4) [unfolded put_row_queued] _ s1(1,2) assms(5)] show ?thesis by simp
qed

text \<open>
  C7. Read your writes under every schedule: once the ticket of a row write is completed, in whatever
  way the threads of all engines were interleaved meanwhile, a read returns the value written.
\<close>

theorem read_your_writes:
  assumes "storage_wf L absm s" and "coherent absm s" and "good_row (ks, tb, parts)"
    and "put_row ks tb parts v s = (s1, Ok t)" and "settles L [t] s1 s2"
  shows "snd (get_row L ks tb parts s2) = Ok (Some v)"
  using get_row_ok [of L absm s2] put_row_settled [OF assms] assms(3) by fastforce

theorem read_your_writes_witness:
  "\<exists>s1 t s2. put_row ''shop'' ''kv'' [[1]] [7] (fresh_storage 4 fmempty True False) = (s1, Ok t) \<and>
     settles mem_libs [t] s1 s2 \<and> snd (get_row mem_libs ''shop'' ''kv'' [[1]] s2) = Ok (Some [7])"
proof -
  let ?s = "fresh_storage 4 (fmempty :: (bytes, bytes) fmap) True False"
  have inv: "storage_wf mem_libs fmlookup ?s" "coherent fmlookup ?s"
    using mem_fresh [of 4 True False] by (simp_all add: row_inv_def)
  from put_row_ok [OF inv(1) good_row_sample(1), of "[7]"] obtain s1 t where
    s1: "put_row ''shop'' ''kv'' [[1]] [7] ?s = (s1, Ok t)" "storage_wf mem_libs fmlookup s1"
    by (auto simp: row_update_def)
  have "settles mem_libs [t] s1 (settle mem_libs s1)"
    using settle_completes [OF s1(2), of "[t]"] queued_ticket [OF inv(1) s1(1) [unfolded put_row_queued]] by simp
  with read_your_writes [OF inv good_row_sample(1) s1(1)] s1(1) show ?thesis by blast
qed

text \<open>
  C36. A way the row cache goes wrong: a read that misses the cache while a deletion of the row is
  queued puts the old value back, and after the deletion has been acknowledged every read still
  returns the deleted row although no engine holds it any more.
\<close>

theorem stale_row_after_acked_delete:
  assumes "row_inv L absm s" and "good_row (ks, tb, parts)" and "should_cache ks" and "st_row_cache s \<noteq> None"
    and "row_view absm s (ks, tb, parts) = Some v"
    and "delete_row ks tb parts s = (s1, Ok t)" and "s2 = fst (get_row L ks tb parts s1)" and "s3 = settle L s2"
  shows "settles L [t] s2 s3 \<and> storage_quiet s3 \<and> row_view absm s3 (ks, tb, parts) = None \<and>
    snd (get_row L ks tb parts s3) = Ok (Some v)"
proof -
  let ?r = "(ks, tb, parts)"
  let ?i = "addr_engine s ?r"
  have inv: "storage_wf L absm s" "storage_quiet s" using assms(1) by (simp_all add: row_inv_def)
  note wf = storage_wfD [OF inv(1)]
  note shape = queued_shape [OF inv(1) assms(6) [unfolded put_row_queued]]
  have less: "?i < ndbs s" by (rule addr_engine_less [OF wf(3)])
  from delete_row_ok [OF inv(1) assms(2)] assms(2,6) have s1: "storage_wf L absm s1" "row_view absm s1 ?r = None"
    by (auto simp: row_update_def)
  have ai: "row_engine s1 ks tb parts = ?i" using shape(2) by (simp add: addr_engine_def row_engine_def)
  have "absm (en_db (st_engines s ! ?i)) (addr_key ?r) = Some v"
    using assms(5) quiet_nth [OF inv(2) less] by (simp add: row_view_def engine_view_def pend_defs quiet_def)
  then have miss: "on_db (row_engine s1 ks tb parts) (\<lambda>db. rk_get L db (row_key ks tb parts)) s1 = Ok (Some v)"
    using less shape(2,4) wf(1) by (simp add: on_db_def ai rocks_okD(1) addr_key_def)
  have "cache_lookup ks (addr_key ?r) s1 = None"
    using shape(3) assms(3,4) by (auto simp: cache_lookup_def cache_set_def)
  with miss assms(7) have s2: "s2 = cache_set ks (addr_key ?r) (Some v) s1"
    by (simp add: get_row_def reading_def addr_key_def)
  have wf2: "storage_wf L absm s2" "row_view absm s2 ?r = None" using s1 by (simp_all add: s2 cache_set_ok)
  have "cache_lookup ks (addr_key ?r) s3 = Some v"
    using assms(3,4) settle_ok(5) [OF wf2(1)] shape(3) by (auto simp: assms(8) s2 cache_lookup_def cache_set_def)
  then have "snd (get_row L ks tb parts s3) = Ok (Some v)" by (simp add: get_row_def addr_key_def)
  moreover have "issued s2 t"
    using queued_ticket [OF inv(1) assms(6) [unfolded put_row_queued]] issued_cong [of s2 s1] by (simp add: s2)
  ultimately show ?thesis
    using settle_completes [OF wf2(1), of "[t]"] settle_ok [OF wf2(1)] wf2(2) assms(8) by simp
qed

theorem stale_row_after_acked_delete_witness:
  "\<exists>s t s1. row_view fmlookup s (''shop'', ''kv'', [[1]]) = Some [7] \<and> delete_row ''shop'' ''kv'' [[1]] s = (s1, Ok t) \<and>
     (let s2 = fst (get_row mem_libs ''shop'' ''kv'' [[1]] s1); s3 = settle mem_libs s2 in
      settles mem_libs [t] s2 s3 \<and> row_view fmlookup s3 (''shop'', ''kv'', [[1]]) = None \<and>
      snd (get_row mem_libs ''shop'' ''kv'' [[1]] s3) = Ok (Some [7]))"
proof -
  let ?r = "(''shop'', ''kv'', [[1]]) :: row_addr"
  have inv: "row_inv mem_libs fmlookup (fresh_storage 4 fmempty True True)" using mem_fresh [of 4 True True] by simp
  from rows.store_ok [OF inv good_row_sample(1), of "[7]"] obtain s where
    s: "acked_put mem_libs ?r [7] (fresh_storage 4 fmempty True True) = (s, Ok ())" "row_inv mem_libs fmlookup s"
      "row_view fmlookup s ?r = Some [7]" by (auto simp: good_row_sample)
  have cache: "st_row_cache s \<noteq> None"
    using acked_put_cache [of mem_libs fmlookup "fresh_storage 4 fmempty True True" ?r "[7]" s] s(1) mem_fresh [of 4 True True] good_row_sample(1)
    by (auto simp: row_inv_def fresh_storage_def)
  from delete_row_ok [of mem_libs fmlookup s "''shop''" "''kv''" "[[1]]"] s(2) good_row_sample(1) obtain s1 t where
    d: "delete_row ''shop'' ''kv'' [[1]] s = (s1, Ok t)" by (auto simp: row_inv_def)
  from stale_row_after_acked_delete [OF s(2) good_row_sample(1) _ cache s(3) d refl refl] s(3) d
  show ?thesis by (auto simp: should_cache_def Let_def)
qed

text \<open>
  The table catalog: a stored definition is what a lookup returns, through the cache or from disk,
  lookups of other tables are not affected, and definitions stored in a row are all visible.
\<close>

theorem table_catalog:
  "storage_wf L absm s \<Longrightarrow> \<forall>d\<in>set ds. good_table (td_keyspace d, td_name d) \<Longrightarrow>
   distinct (map (\<lambda>d. (td_keyspace d, td_name d)) ds) \<Longrightarrow>
     \<exists>s'. for_each_s (put_table L) ds s = (s', Ok ()) \<and> storage_wf L absm s' \<and>
       (\<forall>d\<in>set ds. snd (get_table L (td_keyspace d) (td_name d) s') = Ok (Some d))"
proof -
  assume wf: "storage_wf L absm s" and good: "\<forall>d\<in>set ds. good_table (td_keyspace d, td_name d)"
    and "distinct (map (\<lambda>d. (td_keyspace d, td_name d)) ds)"
  from tb_catalog.store_all [OF wf this(3)] good obtain s' where
    s': "for_each_s (put_table L) ds s = (s', Ok ())" "storage_wf L absm s'"
      "\<forall>d\<in>set ds. tb_view L absm s' (td_keyspace d, td_name d) = Some d" by blast
  moreover have "snd (get_table L (td_keyspace d) (td_name d) s') = Ok (Some d)" if "d \<in> set ds" for d
    using tb_catalog.get_result [OF s'(2), of "(td_keyspace d, td_name d)"] good s'(3) that by simp
  ultimately show ?thesis by blast
qed

theorem table_catalog_witness:
  "\<exists>s'. for_each_s (put_table mem_libs) [kv_table] (fresh_storage 1 fmempty False True) = (s', Ok ()) \<and>
     snd (get_table mem_libs ''shop'' ''kv'' s') = Ok (Some kv_table)"
proof -
  have "storage_wf mem_libs fmlookup (fresh_storage 1 fmempty False True)" using mem_fresh [of 1] by (simp add: row_inv_def)
  from table_catalog [OF this, of "[kv_table]"] show ?thesis
    by (auto simp: kv_table_def good_table_def plain_name_def)
qed

text \<open>
  Dropping a table is exact: the definition and every row of the table are gone, in whatever state
  the pipelines were, every other table and every row of another table is as before, and the row cache
  is left coherent, so that no read can return a row of the dropped table.
\<close>

theorem drop_table_exact:
  "storage_wf L absm s \<Longrightarrow> good_table (ks, tb) \<Longrightarrow>
     \<exists>s' ts. delete_table L ks tb s = (s', Ok ts) \<and> storage_wf L absm s' \<and> coherent absm s' \<and>
       (\<forall>kt. good_table kt \<longrightarrow> tb_view L absm s' kt = (if kt = (ks, tb) then None else tb_view L absm s kt)) \<and>
       (\<forall>r. good_row r \<longrightarrow> row_view absm s' r = (if fst r = ks \<and> fst (snd r) = tb then None else row_view absm s r))"
  using delete_table_ok [of L absm s ks tb] by blast

theorem drop_table_exact_witness:
  "\<exists>s' ts. delete_table mem_libs ''shop'' ''kv'' (fresh_storage 4 fmempty False True) = (s', Ok ts) \<and> coherent fmlookup s'"
proof -
  have "storage_wf mem_libs fmlookup (fresh_storage 4 fmempty False True)" using mem_fresh [of 4] by (simp add: row_inv_def)
  from drop_table_exact [OF this, of "''shop''" "''kv''"] show ?thesis by (auto simp: good_table_def plain_name_def)
qed

text \<open>
  C27. Dropping a keyspace removes the keyspace, all its tables and all their rows, and nothing else.
\<close>

theorem drop_keyspace_exact:
  "storage_wf L absm s \<Longrightarrow> plain_name ks \<Longrightarrow>
     \<exists>s' ts. delete_keyspace L ks s = (s', Ok ts) \<and> storage_wf L absm s' \<and> coherent absm s' \<and>
       ks_view L absm s' = (ks_view L absm s)(ks := None) \<and>
       (\<forall>kt. good_table kt \<longrightarrow> tb_view L absm s' kt = (if fst kt = ks then None else tb_view L absm s kt)) \<and>
       (\<forall>r. good_row r \<longrightarrow> row_view absm s' r = (if fst r = ks then None else row_view absm s r))"
  using delete_keyspace_ok [of L absm s ks] by blast

theorem drop_keyspace_exact_witness:
  "\<exists>s' ts. delete_keyspace mem_libs ''shop'' (fresh_storage 4 fmempty False True) = (s', Ok ts) \<and>
     ks_view mem_libs fmlookup s' ''shop'' = None"
proof -
  have "storage_wf mem_libs fmlookup (fresh_storage 4 fmempty False True)" using mem_fresh [of 4] by (simp add: row_inv_def)
  from drop_keyspace_exact [OF this, of "''shop''"] show ?thesis by (auto simp: plain_name_def)
qed

lemma length_alist_update: "length (AList.update k v al) \<le> Suc (length al)"
  by (induction al) auto

text \<open>
  The statement cache never holds more than \<^verbatim>\<open>AST_CACHE_CAPACITY\<close> statements, and a statement just
  stored is found; other entries are kept unless the cache was full.
\<close>

theorem ast_cache_bounded:
  "length (st_ast_cache s) \<le> 8192 \<Longrightarrow>
     length (st_ast_cache (ast_cache_put q st s)) \<le> 8192 \<and>
     ast_cache_get q (ast_cache_put q st s) = Some st \<and>
     (q' \<noteq> q \<longrightarrow> length (st_ast_cache s) < 8192 \<longrightarrow> ast_cache_get q' (ast_cache_put q st s) = ast_cache_get q' s)"
proof -
  assume "length (st_ast_cache s) \<le> 8192"
  then show ?thesis
    using length_alist_update [of q st "st_ast_cache s"]
    by (auto simp: ast_cache_put_def ast_cache_get_def AST_CACHE_CAPACITY_def update_conv Let_def)
qed

theorem ast_cache_bounded_witness:
  "ast_cache_get ''USE a'' (ast_cache_put ''USE a'' (SUse (Unquoted ''a'')) (fresh_storage 1 (fmempty :: (bytes, bytes) fmap) False True))
     = Some (SUse (Unquoted ''a''))"
  using ast_cache_bounded [of "fresh_storage 1 (fmempty :: (bytes, bytes) fmap) False True" "''USE a''" "SUse (Unquoted ''a'')" "[]"]
  by (simp add: fresh_storage_def)

text \<open>
  A scan of a partition returns the committed entries under the partition's key prefix, each once
  and in key order, from the one engine the partition is routed to.
\<close>

theorem scan_partition_sorted:
  "rocks_ok L absm \<Longrightarrow> engines_wf s \<Longrightarrow>
     \<exists>es. scan_partition L ks tb part s = Ok es \<and> sorted_wrt (<) (map fst es) \<and>
       set es = {(k, v). absm (en_db (st_engines s ! row_engine s ks tb part)) k = Some v
                  \<and> prefix (data_prefix ks tb @ encode_key part) k}"
  using scan_partition_entries [of L absm s ks tb part] entries_of_spec [of L absm] by simp

theorem scan_partition_sorted_witness:
  "\<exists>es. scan_partition mem_libs ''shop'' ''kv'' [[1]] (fresh_storage 4 fmempty False True) = Ok es \<and> set es = {}"
proof -
  let ?s = "fresh_storage 4 (fmempty :: (bytes, bytes) fmap) False True"
  have wf: "engines_wf ?s" using mem_fresh [of 4 False True] by (simp add: row_inv_def storage_wf_def)
  moreover have "en_db (st_engines ?s ! row_engine ?s ''shop'' ''kv'' [[1]]) = fmempty"
    using addr_engine_less [OF wf, of "(''shop'', ''kv'', [[1]])"] by (simp add: addr_engine_def fresh_storage_def new_engine_def)
  ultimately show ?thesis using scan_partition_sorted [OF mem_rocks_ok wf, of "''shop''" "''kv''" "[[1]]"] by auto
qed

end
