(* ===== verification/Query.thy ===== *)
theory Query
  imports StorageSpec
begin

text \<open>
  The query engine (\<^verbatim>\<open>src/src/query.rs\<close>), first part: errors and responses, bind variables, literals
  and operands, the SELECT list, WHERE restrictions, and the projection of stored rows, none of which
  touch the storage.
\<close>

section \<open>Errors and responses\<close>

record query_error =
  qe_code :: i32
  qe_message :: string

type_synonym 'a qres = "(query_error, 'a) result"

definition strip_quotes :: "string \<Rightarrow> string" where
  "strip_quotes s = trim_end_matches CHR 0x27 (trim_start_matches CHR 0x27 (trim s))"

definition syntax_err :: "string \<Rightarrow> query_error" where
  "syntax_err msg = \<lparr>qe_code = 0x2000, qe_message = msg\<rparr>"

definition invalid_err :: "string \<Rightarrow> query_error" where
  "invalid_err msg = \<lparr>qe_code = 0x2200, qe_message = msg\<rparr>"

definition already_exists_err :: "string \<Rightarrow> string \<Rightarrow> query_error" where
  "already_exists_err keyspace table =
     \<lparr>qe_code = 0x2400, qe_message = keyspace @ ''.'' @ table @ '' already exists''\<rparr>"

definition internal_err :: "string \<Rightarrow> query_error" where
  "internal_err e = \<lparr>qe_code = 0x0000, qe_message = ''internal error: '' @ e\<rparr>"

definition SYSTEM_KEYSPACES :: "string list" where
  "SYSTEM_KEYSPACES = [''system'', ''system_schema'', ''system_virtual_schema'']"

definition check_writable :: "string \<Rightarrow> unit qres" where
  "check_writable keyspace =
     (if keyspace \<in> set SYSTEM_KEYSPACES
      then Err (invalid_err (''Modifications to keyspace '' @ [CHR 0x27] @ keyspace @ [CHR 0x27] @ '' are not allowed''))
      else Ok ())"

type_synonym col_spec = "string \<times> column_type"

datatype response =
    RRows string string "col_spec list" "cql_value list list" "bytes option"
  | RVoid
  | RSetKeyspace string
  | RSchemaChange string string string string

record prepared_info =
  pi_keyspace :: string
  pi_table :: string
  pi_bind_specs :: "col_spec list"
  pi_pk_indexes :: "u16 list"
  pi_result_cols :: "col_spec list"

section \<open>Bind variables and operands\<close>

text \<open>A bound value of the protocol: \<^verbatim>\<open>as_value\<close> gives the bytes of a value and \<open>None\<close> for null and unset.\<close>

datatype raw_value = RawNull | RawUnset | RawBytes bytes

fun raw_as_value :: "raw_value \<Rightarrow> bytes option" where
  "raw_as_value (RawBytes b) = Some b"
| "raw_as_value RawNull = None"
| "raw_as_value RawUnset = None"

record binds =
  bi_values :: "raw_value list"
  bi_next :: nat

definition binds_none :: binds where
  "binds_none = \<lparr>bi_values = [], bi_next = 0\<rparr>"

definition binds_new :: "raw_value list \<Rightarrow> binds" where
  "binds_new vs = \<lparr>bi_values = vs, bi_next = 0\<rparr>"

definition binds_take :: "column_type \<Rightarrow> binds \<Rightarrow> binds \<times> cql_value qres" where
  "binds_take ct b =
     (if \<not> bi_next b < length (bi_values b) then (b, Err (invalid_err ''Invalid amount of bind variables''))
      else
        (b\<lparr>bi_next := bi_next b + 1\<rparr>,
         case raw_as_value (bi_values b ! bi_next b) of
           Some raw \<Rightarrow> map_err (\<lambda>e. invalid_err (''Invalid bind value: '' @ e)) (from_raw_bytes raw ct)
         | None \<Rightarrow> Ok VNull))"

definition literal_value :: "'db libs \<Rightarrow> string \<Rightarrow> column_type \<Rightarrow> cql_value qres" where
  "literal_value L text ct = map_err invalid_err (parse_literal (hex_dec L) text ct)"

definition operand_to_value :: "'db libs \<Rightarrow> operand \<Rightarrow> column_type \<Rightarrow> binds \<Rightarrow> binds \<times> cql_value qres" where
  "operand_to_value L operand ct b =
     (case operand of
        OpNull \<Rightarrow> (b, Ok VNull)
      | OpConst text \<Rightarrow> (b, literal_value L text ct)
      | OpParam _ \<Rightarrow> binds_take ct b
      | OpSet items \<Rightarrow>
          (b, case ct of
                TSet et \<Rightarrow> rbind (rmap (\<lambda>it. literal_value L it et) items) (\<lambda>v. Ok (VSet v))
              | _ \<Rightarrow> Err (invalid_err ''Collection type mismatch in values''))
      | OpList items \<Rightarrow>
          (b, case ct of
                TList et \<Rightarrow> rbind (rmap (\<lambda>it. literal_value L it et) items) (\<lambda>v. Ok (VList v))
              | _ \<Rightarrow> Err (invalid_err ''Collection type mismatch in values''))
      | OpMap entries \<Rightarrow>
          (b, case ct of
                TMap k_type v_type \<Rightarrow>
                  rbind
                    (rmap (\<lambda>(k, v). rbind (literal_value L k k_type) (\<lambda>k. rbind (literal_value L v v_type) (\<lambda>v. Ok (k, v)))) entries)
                    (\<lambda>v. Ok (VMap v))
              | _ \<Rightarrow> Err (invalid_err ''Collection type mismatch in values''))
      | _ \<Rightarrow> (b, Err (invalid_err ''Only literal values are supported (no bind markers)'')))"

section \<open>The SELECT list\<close>

definition undefined_column :: "string \<Rightarrow> query_error" where
  "undefined_column name = invalid_err (''Undefined column name '' @ name)"

fun select_loop ::
  "table_def \<Rightarrow> select_element list \<Rightarrow> bool \<Rightarrow> col_spec list \<Rightarrow> (bool \<times> col_spec list) qres" where
  "select_loop table [] all_columns selected = Ok (all_columns, selected)"
| "select_loop table (SelStar # elems) all_columns selected = select_loop table elems True selected"
| "select_loop table (SelColumn named # elems) all_columns selected =
     rbind (ok_or (undefined_column (norm_id (nc_name named))) (column table (norm_id (nc_name named))))
       (\<lambda>col. select_loop table elems all_columns (selected @ [(norm_id (nc_alias_or_name named), cd_type col)]))"
| "select_loop table (SelFunction # elems) all_columns selected =
     Err (invalid_err ''Functions in SELECT are not supported'')"

definition select_columns :: "table_def \<Rightarrow> select_element list \<Rightarrow> col_spec list qres" where
  "select_columns table elems =
     rbind (select_loop table elems False [])
       (\<lambda>(all_columns, selected).
          Ok (if all_columns then map (\<lambda>c. (cd_name c, cd_type c)) (td_columns table) else selected))"

section \<open>Restrictions\<close>

datatype filter = FEq string cql_value | FIn string "cql_value list"

definition where_err :: query_error where
  "where_err = invalid_err ''Only literal values are supported in WHERE''"

text \<open>One element of an IN list.\<close>

definition in_item :: "'db libs \<Rightarrow> column_type \<Rightarrow> operand \<Rightarrow> binds \<Rightarrow> binds \<times> cql_value qres" where
  "in_item L ct item b =
     (case item of
        OpConst text \<Rightarrow> (b, literal_value L text ct)
      | OpParam _ \<Rightarrow> binds_take ct b
      | _ \<Rightarrow> (b, Err where_err))"

fun in_items :: "'db libs \<Rightarrow> column_type \<Rightarrow> operand list \<Rightarrow> binds \<Rightarrow> binds \<times> cql_value list qres" where
  "in_items L ct [] b = (b, Ok [])"
| "in_items L ct (item # items) b =
     and_then (in_item L ct item b) (\<lambda>b v. and_then (in_items L ct items b) (\<lambda>b vs. (b, Ok (v # vs))))"

definition parse_filter :: "'db libs \<Rightarrow> table_def \<Rightarrow> relation_element \<Rightarrow> binds \<Rightarrow> binds \<times> filter qres" where
  "parse_filter L table rel b =
     (case re_obj rel of
        OpColumn col \<Rightarrow>
          (case find (\<lambda>c. ident_eq col (cd_name c)) (td_columns table) of
             None \<Rightarrow> (b, Err (undefined_column (norm_id col)))
           | Some d \<Rightarrow>
               (case re_oper rel of
                  RelEqual \<Rightarrow>
                    (case re_value rel of
                       OpNull \<Rightarrow> (b, Ok (FEq (cd_name d) VNull))
                     | OpConst text \<Rightarrow> (b, rbind (literal_value L text (cd_type d)) (\<lambda>v. Ok (FEq (cd_name d) v)))
                     | OpParam _ \<Rightarrow> and_then (binds_take (cd_type d) b) (\<lambda>b v. (b, Ok (FEq (cd_name d) v)))
                     | _ \<Rightarrow> (b, Err where_err))
                | RelIn \<Rightarrow>
                    (case re_value rel of
                       OpTuple items \<Rightarrow> and_then (in_items L (cd_type d) items b) (\<lambda>b vs. (b, Ok (FIn (cd_name d) vs)))
                     | v \<Rightarrow> and_then (in_item L (cd_type d) v b) (\<lambda>b v. (b, Ok (FIn (cd_name d) [v]))))
                | RelOther \<Rightarrow> (b, Err (invalid_err (''Only '' @ [CHR 0x27] @ ''='' @ [CHR 0x27] @ '' and '' @ [CHR 0x27] @ ''IN'' @ [CHR 0x27] @ '' restrictions are supported in WHERE'')))))
      | _ \<Rightarrow> (b, Err (invalid_err ''Only column restrictions are supported in WHERE'')))"

fun parse_filters :: "'db libs \<Rightarrow> table_def \<Rightarrow> relation_element list \<Rightarrow> binds \<Rightarrow> binds \<times> filter list qres" where
  "parse_filters L table [] b = (b, Ok [])"
| "parse_filters L table (rel # rels) b =
     and_then (parse_filter L table rel b) (\<lambda>b f. and_then (parse_filters L table rels b) (\<lambda>b fs. (b, Ok (f # fs))))"

text \<open>The first equality restriction on a column.\<close>

fun eq_value :: "string \<Rightarrow> filter list \<Rightarrow> cql_value option" where
  "eq_value name [] = None"
| "eq_value name (FEq n v # fs) = (if n = name then Some v else eq_value name fs)"
| "eq_value name (FIn n vs # fs) = eq_value name fs"

definition key_names :: "table_def \<Rightarrow> string list" where
  "key_names table = td_partition_keys table @ td_clustering_keys table"

definition key_parts_from_filters :: "table_def \<Rightarrow> filter list \<Rightarrow> bytes list qres" where
  "key_parts_from_filters table filters =
     rmap (\<lambda>name.
        rbind (ok_or (invalid_err (''Restrictions are incomplete for key part '' @ name)) (eq_value name filters))
          (\<lambda>v. if value_eq v VNull then Err (invalid_err (''Invalid null value for key part '' @ name))
                else Ok (raw_bytes v)))
       (key_names table)"

section \<open>Projecting stored rows\<close>

text \<open>Indexing a vector panics out of range.\<close>

definition index :: "'a list \<Rightarrow> nat \<Rightarrow> ('e, 'a) result" where
  "index xs i = (if i < length xs then Ok (xs ! i) else Panic)"

definition set_index :: "'a list \<Rightarrow> nat \<Rightarrow> 'a \<Rightarrow> ('e, 'a list) result" where
  "set_index xs i x = (if i < length xs then Ok (xs[i := x]) else Panic)"

fun set_key_columns :: "table_def \<Rightarrow> bytes list \<Rightarrow> (nat \<times> nat) list \<Rightarrow> cql_value list \<Rightarrow> cql_value list anyhow" where
  "set_key_columns table key_parts [] row = Ok row"
| "set_key_columns table key_parts ((part_idx, col_idx) # rest) row =
     (if part_idx < length key_parts
      then rbind (index (td_columns table) col_idx) (\<lambda>c.
           rbind (from_raw_bytes (key_parts ! part_idx) (cd_type c)) (\<lambda>v.
           rbind (set_index row col_idx v) (set_key_columns table key_parts rest)))
      else set_key_columns table key_parts rest row)"

fun check_eq_filters :: "(nat \<times> cql_value) list \<Rightarrow> cql_value list \<Rightarrow> bool anyhow" where
  "check_eq_filters [] row = Ok True"
| "check_eq_filters ((idx, expected) # fs) row =
     rbind (index row idx) (\<lambda>v. if \<not> value_eq expected v then Ok False else check_eq_filters fs row)"

fun check_in_filters :: "(nat \<times> cql_value list) list \<Rightarrow> cql_value list \<Rightarrow> bool anyhow" where
  "check_in_filters [] row = Ok True"
| "check_in_filters ((idx, vs) # fs) row =
     (if vs = [] then Ok False
      else rbind (index row idx) (\<lambda>v. if list_ex (\<lambda>w. value_eq w v) vs then check_in_filters fs row else Ok False))"

text \<open>The result says whether a row was emitted and what the output rows are then.\<close>

definition project_decoded ::
  "table_def \<Rightarrow> nat list \<Rightarrow> (nat \<times> cql_value) list \<Rightarrow> (nat \<times> cql_value list) list \<Rightarrow> nat list \<Rightarrow> bytes list \<Rightarrow> bytes
     \<Rightarrow> cql_value list list \<Rightarrow> (bool \<times> cql_value list list) anyhow" where
  "project_decoded table selected_idxs eq_filters in_filters key_col_idxs key_parts value_bytes out_rows =
     rbind (decode_row_columns value_bytes table) (\<lambda>row.
     rbind (set_key_columns table key_parts (enumerate 0 key_col_idxs) row) (\<lambda>row.
     rbind (check_eq_filters eq_filters row) (\<lambda>eq.
       if \<not> eq then Ok (False, out_rows) else
     rbind (check_in_filters in_filters row) (\<lambda>i.
       if \<not> i then Ok (False, out_rows) else
     rbind (rmap (index row) selected_idxs) (\<lambda>out. Ok (True, out_rows @ [out]))))))"

definition handle_entry ::
  "table_def \<Rightarrow> nat list \<Rightarrow> (nat \<times> cql_value) list \<Rightarrow> (nat \<times> cql_value list) list \<Rightarrow> nat list \<Rightarrow> string \<Rightarrow> nat option
     \<Rightarrow> bytes \<Rightarrow> bytes \<Rightarrow> cql_value list list \<Rightarrow> string option \<Rightarrow> (bool \<times> cql_value list list \<times> string option) anyhow" where
  "handle_entry table selected_idxs eq_filters in_filters key_col_idxs keyspace limit key val out_rows error_slot =
     (case rbind (decode_key keyspace (td_name table) key)
             (\<lambda>key_parts. project_decoded table selected_idxs eq_filters in_filters key_col_idxs key_parts val out_rows) of
        Ok (True, out_rows) \<Rightarrow> Ok (case limit of Some l \<Rightarrow> length out_rows < l | None \<Rightarrow> True, out_rows, error_slot)
      | Ok (False, out_rows) \<Rightarrow> Ok (True, out_rows, error_slot)
      | Err e \<Rightarrow> Ok (False, out_rows, case error_slot of None \<Rightarrow> Some e | Some e' \<Rightarrow> Some e')
      | Halt h \<Rightarrow> Halt h)"

text \<open>
  The column scan of the fast path. Offsets are 64-bit and wrap: on a corrupt row with a negative
  length the scan can move backwards and run for ever, so not returning is the value \<open>None\<close>.
\<close>

definition usize_add :: "nat \<Rightarrow> nat \<Rightarrow> nat" where
  "usize_add a b = (a + b) mod 2 ^ 64"

partial_function (option) fast_scan :: "table_def \<Rightarrow> bytes \<Rightarrow> nat \<Rightarrow> nat \<Rightarrow> cql_value anyhow option" where
  "fast_scan table data idx off =
     (if \<not> off < length data then Some (Ok VNull)
      else if off + 2 > length data then Some (Err ''corrupt row value'')
      else if off + 2 + 4 > length data then Some (Err ''corrupt row value'')
      else
        (let c_idx = unat (u16_at data off); len = i32_at data (off + 2); off = off + 6
         in if c_idx = idx
            then
              (if len = - 1 then Some (Ok VNull)
               else if usize_add off (as_usize len) > length data then Some (Err ''corrupt row value'')
               else if usize_add off (as_usize len) < off then Some Panic
               else Some (rbind (index (td_columns table) idx) (\<lambda>c. from_raw_bytes (slice data off (usize_add off (as_usize len))) (cd_type c))))
            else if len \<noteq> - 1 then fast_scan table data idx (usize_add off (as_usize len))
            else fast_scan table data idx off))"

text \<open>The values of the selected columns, in order; the scan runs once per selected column.\<close>

fun fast_columns ::
  "table_def \<Rightarrow> nat list \<Rightarrow> bytes list \<Rightarrow> bytes \<Rightarrow> nat list \<Rightarrow> cql_value list anyhow option" where
  "fast_columns table key_col_idxs key_parts data [] = Some (Ok [])"
| "fast_columns table key_col_idxs key_parts data (idx # idxs) =
     Option.bind
       (case position (\<lambda>k. k = idx) key_col_idxs of
          Some pos \<Rightarrow>
            Some (rbind (index key_parts pos) (\<lambda>p. rbind (index (td_columns table) idx) (\<lambda>c. from_raw_bytes p (cd_type c))))
        | None \<Rightarrow> fast_scan table data idx 0)
       (\<lambda>r. case r of
          Ok v \<Rightarrow> map_option (\<lambda>r. rbind r (\<lambda>vs. Ok (v # vs))) (fast_columns table key_col_idxs key_parts data idxs)
        | Err e \<Rightarrow> Some (Err e)
        | Halt h \<Rightarrow> Some (Halt h))"

definition project_fast_point ::
  "table_def \<Rightarrow> nat list \<Rightarrow> nat list \<Rightarrow> bytes list \<Rightarrow> bytes \<Rightarrow> cql_value list list \<Rightarrow> (bool \<times> cql_value list list) anyhow option" where
  "project_fast_point table selected_idxs key_col_idxs key_parts value_bytes out_rows =
     map_option (\<lambda>r. rbind r (\<lambda>out. Ok (True, out_rows @ [out])))
       (fast_columns table key_col_idxs key_parts value_bytes selected_idxs)"

end
