(* ===== verification/QueryExec.thy ===== *)
theory QueryExec
  imports Query
begin

text \<open>
  The query engine (\<^verbatim>\<open>src/src/query.rs\<close>), second part: the statements, which read and change the
  storage. Every handler returns the storage with its outcome; the tickets of the writes it queued
  (\<^verbatim>\<open>gates\<close>) come with a successful response and are lost with an error, as in the code.
\<close>

type_synonym ('db, 'a) qact = "'db storage \<times> 'a qres"

section \<open>System schema rows\<close>

fun schema_row :: "table_def \<Rightarrow> (string \<times> cql_value) list \<Rightarrow> (u16 \<times> cql_value) list anyhow" where
  "schema_row d [] = Ok []"
| "schema_row d ((name, v) # cols) =
     rbind (ok_or (''column '' @ name @ '' missing'') (column_index d name))
       (\<lambda>idx. rbind (schema_row d cols) (\<lambda>row. Ok ((word_of_nat idx, v) # row)))"

definition put_system_schema_row ::
  "'db libs \<Rightarrow> string \<Rightarrow> string list \<Rightarrow> (string \<times> cql_value) list \<Rightarrow> 'db storage \<Rightarrow> ('db, unit) act" where
  "put_system_schema_row L table pk cols s =
     and_then (get_table L ''system_schema'' table s) (\<lambda>s r.
     and_then (s, ok_or (''system_schema.'' @ table @ '' missing'') r) (\<lambda>s d.
     and_then (s, schema_row d cols) (\<lambda>s row.
       put_row_sync L ''system_schema'' table (map str_bytes pk) (encode_row_columns row) s)))"

definition delete_system_schema_partition ::
  "'db libs \<Rightarrow> string \<Rightarrow> bytes list \<Rightarrow> 'db storage \<Rightarrow> ('db, unit) act" where
  "delete_system_schema_partition L table partition_key s =
     and_then (s, scan_partition L ''system_schema'' table partition_key s) (\<lambda>s kvs.
       for_each_s (\<lambda>(key, _) s.
          and_then (s, decode_key ''system_schema'' table key) (\<lambda>s parts.
            delete_row_sync L ''system_schema'' table parts s)) kvs s)"

section \<open>Names and statements\<close>

definition target_keyspace :: "string option \<Rightarrow> fq_name \<Rightarrow> string qres" where
  "target_keyspace session_ks name =
     (case fq_keyspace name of
        Some k \<Rightarrow> Ok (norm_id k)
      | None \<Rightarrow> ok_or (invalid_err ''No keyspace specified; use USE <keyspace>'') session_ks)"

definition resolve_table ::
  "'db libs \<Rightarrow> string option \<Rightarrow> fq_name \<Rightarrow> 'db storage \<Rightarrow> ('db, string \<times> table_def) qact" where
  "resolve_table L session_ks name s =
     and_then (s, target_keyspace session_ks name) (\<lambda>s keyspace.
     let table = norm_id (fq_name.fq_name name) in
     and_then (with_err internal_err (get_table L keyspace table s)) (\<lambda>s r.
     and_then (s, ok_or (invalid_err (''table '' @ keyspace @ ''.'' @ table @ '' does not exist'')) r) (\<lambda>s d.
       (s, Ok (keyspace, d)))))"

fun collect_where_binds :: "table_def \<Rightarrow> relation_element list \<Rightarrow> col_spec list \<Rightarrow> col_spec list qres" where
  "collect_where_binds table [] out = Ok out"
| "collect_where_binds table (rel # rels) out =
     (case re_obj rel of
        OpColumn col \<Rightarrow>
          rbind (ok_or (undefined_column (norm_id col)) (column table (norm_id col))) (\<lambda>c.
            collect_where_binds table rels
              (case re_value rel of
                 OpParam _ \<Rightarrow> out @ [(norm_id col, cd_type c)]
               | OpTuple items \<Rightarrow>
                   out @ map (\<lambda>_. (norm_id col, cd_type c)) (filter (\<lambda>i. case i of OpParam _ \<Rightarrow> True | _ \<Rightarrow> False) items)
               | _ \<Rightarrow> out))
      | _ \<Rightarrow> Err (invalid_err ''Only column restrictions are supported in WHERE''))"

text \<open>The columns of an INSERT or the assigned columns of an UPDATE, each with its type.\<close>

fun named_specs :: "table_def \<Rightarrow> ident list \<Rightarrow> col_spec list qres" where
  "named_specs table [] = Ok []"
| "named_specs table (i # ids) =
     rbind (ok_or (undefined_column (norm_id i)) (column table (norm_id i))) (\<lambda>c.
     rbind (named_specs table ids) (\<lambda>specs. Ok ((norm_id i, cd_type c) # specs)))"

definition prepared_info ::
  "'db libs \<Rightarrow> string option \<Rightarrow> statement \<Rightarrow> 'db storage \<Rightarrow> ('db, prepared_info) qact" where
  "prepared_info L session_ks stmt s =
     (case stmt of
        SInsert i \<Rightarrow>
          and_then (resolve_table L session_ks (in_table_name i) s) (\<lambda>s (keyspace, table).
          and_then (s, named_specs table (in_columns i)) (\<lambda>s bind_specs.
            (s, Ok \<lparr>pi_keyspace = keyspace, pi_table = td_name table, pi_bind_specs = bind_specs,
                   pi_pk_indexes =
                     List.map_filter (\<lambda>pk. map_option word_of_nat (position (\<lambda>c. norm_id c = pk) (in_columns i))) (key_names table),
                   pi_result_cols = []\<rparr>)))
      | SUpdate u \<Rightarrow>
          and_then (resolve_table L session_ks (up_table_name u) s) (\<lambda>s (keyspace, table).
          and_then (s, named_specs table (map as_column (up_assignments u))) (\<lambda>s bind_specs.
          and_then (s, collect_where_binds table (up_where u) bind_specs) (\<lambda>s bind_specs.
            (s, Ok \<lparr>pi_keyspace = keyspace, pi_table = td_name table, pi_bind_specs = bind_specs,
                   pi_pk_indexes = [], pi_result_cols = []\<rparr>))))
      | SSelect sel \<Rightarrow>
          and_then (resolve_table L session_ks (sl_table_name sel) s) (\<lambda>s (keyspace, table).
          and_then (s, collect_where_binds table (sl_where sel) []) (\<lambda>s bind_specs.
          and_then (s, select_columns table (sl_columns sel)) (\<lambda>s result_cols.
            (s, Ok \<lparr>pi_keyspace = keyspace, pi_table = td_name table, pi_bind_specs = bind_specs,
                   pi_pk_indexes = [], pi_result_cols = result_cols\<rparr>))))
      | SDelete d \<Rightarrow>
          and_then (resolve_table L session_ks (de_table_name d) s) (\<lambda>s (keyspace, table).
          and_then (s, collect_where_binds table (de_where d) []) (\<lambda>s bind_specs.
            (s, Ok \<lparr>pi_keyspace = keyspace, pi_table = td_name table, pi_bind_specs = bind_specs,
                   pi_pk_indexes = [], pi_result_cols = []\<rparr>)))
      | other \<Rightarrow> (s, Err (invalid_err (''Statement cannot be prepared: '' @ short_name L other))))"

definition parse_error :: query_error where
  "parse_error = syntax_err ''line 1: syntax error in statement''"

definition parse_cached :: "'db libs \<Rightarrow> string \<Rightarrow> 'db storage \<Rightarrow> ('db, statement) qact" where
  "parse_cached L query s =
     (case ast_cache_get query s of
        Some stmt \<Rightarrow> (s, Ok stmt)
      | None \<Rightarrow>
          (let ast = cql_parse L query in
           if ast_has_error ast then (s, Err parse_error)
           else (case ast_statements ast of
                   (False, stmt) # _ \<Rightarrow> (ast_cache_put query stmt s, Ok stmt)
                 | _ \<Rightarrow> (s, Err parse_error))))"

section \<open>Keyspace and table statements\<close>

definition exec_use :: "'db libs \<Rightarrow> ident \<Rightarrow> 'db storage \<Rightarrow> ('db, response) qact" where
  "exec_use L i s =
     (let ks = norm_id i in
      and_then (with_err internal_err (get_keyspace L ks s)) (\<lambda>s r.
        (s, if r = None then Err (invalid_err (''Keyspace '' @ [CHR 0x27] @ ks @ [CHR 0x27] @ '' does not exist''))
            else Ok (RSetKeyspace ks))))"

definition exec_create_keyspace :: "'db libs \<Rightarrow> create_keyspace \<Rightarrow> 'db storage \<Rightarrow> ('db, response) qact" where
  "exec_create_keyspace L ks s =
     (let name = norm_id (ck_name ks) in
      and_then (with_err internal_err (get_keyspace L name s)) (\<lambda>s r.
        if r \<noteq> None then (s, if ck_if_not_exists ks then Ok RVoid else Err (already_exists_err name []))
        else if name \<in> set SYSTEM_KEYSPACES
        then (s, Err (invalid_err (''Cannot create keyspace '' @ [CHR 0x27] @ name @ [CHR 0x27])))
        else
          and_then (with_err internal_err (put_keyspace L \<lparr>kd_name = name, kd_replication = ck_replication ks\<rparr> s)) (\<lambda>s _.
          and_then (with_err internal_err
             (put_system_schema_row L ''keyspaces'' [name]
                [(''durable_writes'', VBoolean True),
                 (''replication'',
                    VMap (map (\<lambda>(k, v). (VText (strip_quotes k), VText (strip_quotes v))) (ck_replication ks)))] s)) (\<lambda>s _.
            (s, Ok (RSchemaChange ''CREATED'' ''KEYSPACE'' name []))))))"

definition table_options :: "(string \<times> cql_value) list" where
  "table_options =
     [(''bloom_filter_fp_chance'', VDouble 0x3F847AE147AE147B),
      (''caching'', VMap []),
      (''comment'', VText []),
      (''compaction'',
         VMap [(VText ''class'', VText ''org.apache.cassandra.db.compaction.SizeTieredCompactionStrategy'')]),
      (''compression'', VMap []),
      (''crc_check_chance'', VDouble 0x3FF0000000000000),
      (''dclocal_read_repair_chance'', VDouble 0x3FB999999999999A),
      (''default_time_to_live'', VInt 0),
      (''extensions'', VMap []),
      (''flags'', VSet [VText ''compound'']),
      (''gc_grace_seconds'', VInt 864000),
      (''max_index_interval'', VInt 2048),
      (''memtable_flush_period_in_ms'', VInt 0),
      (''min_index_interval'', VInt 128),
      (''read_repair_chance'', VDouble 0),
      (''speculative_retry'', VText ''99PERCENTILE'')]"

definition column_kind :: "table_def \<Rightarrow> column_def \<Rightarrow> (string \<times> i32 \<times> string) anyhow" where
  "column_kind d c =
     (if cd_is_partition_key c
      then rbind (unwrap (position (\<lambda>p. p = cd_name c) (td_partition_keys d)))
             (\<lambda>i. Ok (''partition_key'', word_of_nat i, ''NONE''))
      else if cd_is_clustering c
      then rbind (unwrap (position (\<lambda>p. p = cd_name c) (td_clustering_keys d)))
             (\<lambda>i. Ok (''clustering'', word_of_nat i, ''ASC''))
      else Ok (''regular'', - 1, ''NONE''))"

definition mirror_column :: "'db libs \<Rightarrow> table_def \<Rightarrow> column_def \<Rightarrow> 'db storage \<Rightarrow> ('db, unit) act" where
  "mirror_column L d c s =
     and_then (s, column_kind d c) (\<lambda>s (kind, pos, clustering_order).
       put_system_schema_row L ''columns'' [td_keyspace d, td_name d, cd_name c]
         [(''clustering_order'', VText clustering_order),
          (''column_name_bytes'', VBlob (str_bytes (cd_name c))),
          (''kind'', VText kind),
          (''position'', VInt pos),
          (''type'', VText (cql_string (cd_type c)))] s)"

definition mirror_table_metadata :: "'db libs \<Rightarrow> table_def \<Rightarrow> 'db storage \<Rightarrow> ('db, unit) act" where
  "mirror_table_metadata L d s =
     and_then (put_system_schema_row L ''tables'' [td_keyspace d, td_name d] table_options s)
       (\<lambda>s _. for_each_s (mirror_column L d) (td_columns d) s)"

definition exec_create_table :: "'db libs \<Rightarrow> string option \<Rightarrow> create_table \<Rightarrow> 'db storage \<Rightarrow> ('db, response) qact" where
  "exec_create_table L session_ks t s =
     and_then (s, target_keyspace session_ks (ct_name t)) (\<lambda>s keyspace.
     let table = norm_id (fq_name.fq_name (ct_name t)) in
     and_then (with_err internal_err (get_table L keyspace table s)) (\<lambda>s r.
       if r \<noteq> None then (s, if ct_if_not_exists t then Ok RVoid else Err (already_exists_err keyspace table))
       else
     and_then (s, check_writable keyspace) (\<lambda>s _.
     and_then (s, ok_or (invalid_err ''Unsupported column type; supported types: int, bigint, smallint, tinyint, float, double, boolean, text, varchar, ascii, blob, timestamp, uuid, inet'')
                    (build_table_def keyspace table t)) (\<lambda>s d.
       if td_partition_keys d = [] then (s, Err (invalid_err ''Primary key is required''))
       else
     and_then (with_err internal_err (put_table L d s)) (\<lambda>s _.
     and_then (with_err internal_err (mirror_table_metadata L d s)) (\<lambda>s _.
       (s, Ok (RSchemaChange ''CREATED'' ''TABLE'' keyspace table))))))))"

definition unmirror_table_metadata :: "'db libs \<Rightarrow> string \<Rightarrow> string \<Rightarrow> 'db storage \<Rightarrow> ('db, unit) act" where
  "unmirror_table_metadata L keyspace table s =
     and_then (delete_row ''system_schema'' ''tables'' [str_bytes keyspace, str_bytes table] s)
       (\<lambda>s _. delete_system_schema_partition L ''columns'' [str_bytes keyspace, str_bytes table] s)"

definition exec_drop_keyspace :: "'db libs \<Rightarrow> common_drop \<Rightarrow> 'db storage \<Rightarrow> ('db, response \<times> ticket list) qact" where
  "exec_drop_keyspace L d s =
     (let name = norm_id (fq_name.fq_name (dr_name d)) in
      and_then (with_err internal_err (get_keyspace L name s)) (\<lambda>s r.
        if r = None
        then (s, if dr_if_exists d then Ok (RVoid, [])
                 else Err (invalid_err (''Cannot drop non existing keyspace '' @ [CHR 0x27] @ name @ [CHR 0x27])))
        else
      and_then (s, check_writable name) (\<lambda>s _.
      and_then (with_err internal_err (delete_keyspace L name s)) (\<lambda>s tickets.
      and_then (with_err internal_err
          (for_each_s (\<lambda>table. delete_system_schema_partition L table [str_bytes name])
             [''keyspaces'', ''tables'', ''columns''] s)) (\<lambda>s _.
        (s, Ok (RSchemaChange ''DROPPED'' ''KEYSPACE'' name [], tickets)))))))"

definition exec_drop_table ::
  "'db libs \<Rightarrow> string option \<Rightarrow> common_drop \<Rightarrow> 'db storage \<Rightarrow> ('db, response \<times> ticket list) qact" where
  "exec_drop_table L session_ks d s =
     and_then (s, target_keyspace session_ks (dr_name d)) (\<lambda>s keyspace.
     let table = norm_id (fq_name.fq_name (dr_name d)) in
     and_then (with_err internal_err (get_table L keyspace table s)) (\<lambda>s r.
       if r = None
       then (s, if dr_if_exists d then Ok (RVoid, [])
                else Err (invalid_err (''Cannot drop non existing table '' @ [CHR 0x27] @ keyspace @ ''.'' @ table @ [CHR 0x27])))
       else
     and_then (s, check_writable keyspace) (\<lambda>s _.
     and_then (with_err internal_err (delete_table L keyspace table s)) (\<lambda>s tickets.
     and_then (with_err internal_err (unmirror_table_metadata L keyspace table s)) (\<lambda>s _.
       (s, Ok (RSchemaChange ''DROPPED'' ''TABLE'' keyspace table, tickets)))))))"

definition exec_truncate ::
  "'db libs \<Rightarrow> string option \<Rightarrow> fq_name \<Rightarrow> 'db storage \<Rightarrow> ('db, response \<times> ticket list) qact" where
  "exec_truncate L session_ks name s =
     and_then (resolve_table L session_ks name s) (\<lambda>s (keyspace, _).
     and_then (s, check_writable keyspace) (\<lambda>s _.
     and_then (with_err internal_err (truncate_table L keyspace (norm_id (fq_name.fq_name name)) s)) (\<lambda>s tickets.
       (s, Ok (RVoid, tickets)))))"

section \<open>INSERT\<close>

text \<open>Values by column index; a later value for the same column replaces an earlier one.\<close>

fun resolve_values ::
  "'db libs \<Rightarrow> table_def \<Rightarrow> (ident \<times> operand) list \<Rightarrow> cql_value option list \<Rightarrow> binds \<Rightarrow> binds \<times> cql_value option list qres" where
  "resolve_values L table [] resolved b = (b, Ok resolved)"
| "resolve_values L table ((col_id, operand) # rest) resolved b =
     (case position (\<lambda>c. ident_eq col_id (cd_name c)) (td_columns table) of
        None \<Rightarrow> (b, Err (undefined_column (norm_id col_id)))
      | Some idx \<Rightarrow>
          and_then (operand_to_value L operand (cd_type (td_columns table ! idx)) b)
            (\<lambda>b v. resolve_values L table rest (resolved[idx := Some v]) b))"

definition insert_key_part :: "table_def \<Rightarrow> cql_value option list \<Rightarrow> string \<Rightarrow> bytes qres" where
  "insert_key_part table resolved pk =
     rbind (ok_or (internal_err ''key column missing'') (position (\<lambda>c. cd_name c = pk) (td_columns table))) (\<lambda>pos.
     rbind (ok_or (invalid_err (''Some key parts are missing: '' @ pk)) (resolved ! pos)) (\<lambda>v.
       if value_eq v VNull then Err (invalid_err (''Invalid null value for key part '' @ pk))
       else Ok (raw_bytes v)))"

definition is_regular :: "column_def \<Rightarrow> bool" where
  "is_regular c \<longleftrightarrow> \<not> cd_is_partition_key c \<and> \<not> cd_is_clustering c"

definition regular_indices :: "table_def \<Rightarrow> nat list" where
  "regular_indices table = filter (\<lambda>i. is_regular (td_columns table ! i)) [0..<length (td_columns table)]"

definition insert_row :: "table_def \<Rightarrow> cql_value option list \<Rightarrow> (u16 \<times> cql_value) list" where
  "insert_row table resolved =
     map (\<lambda>idx. (word_of_nat idx, case resolved ! idx of Some v \<Rightarrow> v | None \<Rightarrow> VNull)) (regular_indices table)"

definition exec_insert ::
  "'db libs \<Rightarrow> string option \<Rightarrow> insert_ast \<Rightarrow> binds \<Rightarrow> 'db storage \<Rightarrow> ('db, response \<times> ticket list) qact" where
  "exec_insert L session_ks ins b s =
     and_then (resolve_table L session_ks (in_table_name ins) s) (\<lambda>s (keyspace, table).
     and_then (s, check_writable keyspace) (\<lambda>s _.
       case in_values ins of
         InsJson _ \<Rightarrow> (s, Err (invalid_err ''INSERT JSON is not supported''))
       | InsValues operands \<Rightarrow>
           if length (in_columns ins) \<noteq> length operands then (s, Err (syntax_err ''Wrong number of values provided''))
           else
             and_then (s, snd (resolve_values L table (zip (in_columns ins) operands) (replicate (length (td_columns table)) None) b)) (\<lambda>s resolved.
             and_then (s, rmap (insert_key_part table resolved) (key_names table)) (\<lambda>s key_parts.
             and_then (with_err internal_err (put_row keyspace (td_name table) key_parts (encode_row_columns (insert_row table resolved)) s)) (\<lambda>s ticket.
               (s, Ok (RVoid, [ticket])))))))"

section \<open>DELETE and UPDATE\<close>

definition exec_delete ::
  "'db libs \<Rightarrow> string option \<Rightarrow> delete_ast \<Rightarrow> binds \<Rightarrow> 'db storage \<Rightarrow> ('db, response \<times> ticket list) qact" where
  "exec_delete L session_ks del b s =
     and_then (resolve_table L session_ks (de_table_name del) s) (\<lambda>s (keyspace, table).
     and_then (s, check_writable keyspace) (\<lambda>s _.
       if de_has_columns del then (s, Err (invalid_err ''Column-level DELETE is not supported yet''))
       else
     and_then (s, snd (parse_filters L table (de_where del) b)) (\<lambda>s filters.
     and_then (s, key_parts_from_filters table filters) (\<lambda>s key_parts.
     and_then (with_err internal_err (delete_row keyspace (td_name table) key_parts s)) (\<lambda>s ticket.
       (s, Ok (RVoid, [ticket])))))))"

fun assign_values ::
  "'db libs \<Rightarrow> table_def \<Rightarrow> assignment list \<Rightarrow> binds \<Rightarrow> binds \<times> (nat \<times> cql_value) list qres" where
  "assign_values L table [] b = (b, Ok [])"
| "assign_values L table (a # as) b =
     (if as_has_operator a then (b, Err (invalid_err ''Increment/decrement assignments are not supported''))
      else
        (let name = norm_id (as_column a) in
         and_then (b, ok_or (undefined_column name) (column table name)) (\<lambda>b col.
         and_then (operand_to_value L (as_value a) (cd_type col) b) (\<lambda>b v.
         and_then (b, unwrap (column_index table name)) (\<lambda>b idx.
         and_then (assign_values L table as b) (\<lambda>b rest. (b, Ok ((idx, v) # rest))))))))"

text \<open>
  The row of an UPDATE that assigns every regular column: the \<^verbatim>\<open>HashMap\<close> of the assignments is indexed
  by every regular column, which panics for a column that was not assigned.
\<close>

definition update_covering :: "table_def \<Rightarrow> (nat \<times> cql_value) list \<Rightarrow> (u16 \<times> cql_value) list qres" where
  "update_covering table new_values =
     rmap (\<lambda>idx. rbind (unwrap (map_of (rev new_values) idx)) (\<lambda>v. Ok (word_of_nat idx, v))) (regular_indices table)"

definition update_merge :: "table_def \<Rightarrow> (nat \<times> cql_value) list \<Rightarrow> cql_value list \<Rightarrow> (u16 \<times> cql_value) list" where
  "update_merge table new_values row =
     (let row = fold (\<lambda>(idx, v) row. row[idx := v]) new_values row
      in map (\<lambda>idx. (word_of_nat idx, row ! idx)) (regular_indices table))"

definition covers_all_regular :: "table_def \<Rightarrow> (nat \<times> cql_value) list \<Rightarrow> bool" where
  "covers_all_regular table new_values \<longleftrightarrow>
     length new_values = length (filter is_regular (td_columns table)) \<and> distinct (map fst new_values)"

definition exec_update ::
  "'db libs \<Rightarrow> string option \<Rightarrow> update_ast \<Rightarrow> binds \<Rightarrow> 'db storage \<Rightarrow> ('db, response \<times> ticket list) qact" where
  "exec_update L session_ks upd b s =
     and_then (resolve_table L session_ks (up_table_name upd) s) (\<lambda>s (keyspace, table).
     and_then (s, check_writable keyspace) (\<lambda>s _.
       (case assign_values L table (up_assignments upd) b of (b, r) \<Rightarrow>
     and_then (s, r) (\<lambda>s new_values.
     and_then (s, snd (parse_filters L table (up_where upd) b)) (\<lambda>s filters.
     and_then (s, key_parts_from_filters table filters) (\<lambda>s key_parts.
     and_then
       (if covers_all_regular table new_values then (s, update_covering table new_values)
        else
          and_then (with_err internal_err (get_row L keyspace (td_name table) key_parts s)) (\<lambda>s existing.
          and_then (s, case existing of
                         Some data \<Rightarrow> map_err internal_err (decode_row_columns data table)
                       | None \<Rightarrow> Ok (replicate (length (td_columns table)) VNull)) (\<lambda>s row.
            (s, Ok (update_merge table new_values row)))))
       (\<lambda>s row_encoded.
     and_then (with_err internal_err (put_row keyspace (td_name table) key_parts (encode_row_columns row_encoded) s)) (\<lambda>s ticket.
       (s, Ok (RVoid, [ticket]))))))))))"

section \<open>SELECT\<close>

definition column_idxs :: "table_def \<Rightarrow> string list \<Rightarrow> nat list qres" where
  "column_idxs table names = rmap (\<lambda>name. unwrap (column_index table name)) names"

fun split_filters :: "table_def \<Rightarrow> filter list \<Rightarrow> ((nat \<times> cql_value) list \<times> (nat \<times> cql_value list) list) qres" where
  "split_filters table [] = Ok ([], [])"
| "split_filters table (FEq name v # fs) =
     rbind (unwrap (column_index table name)) (\<lambda>idx. rbind (split_filters table fs) (\<lambda>(es, is). Ok ((idx, v) # es, is)))"
| "split_filters table (FIn name vs # fs) =
     rbind (unwrap (column_index table name)) (\<lambda>idx. rbind (split_filters table fs) (\<lambda>(es, is). Ok (es, (idx, vs) # is)))"

fun point_key_of :: "filter list \<Rightarrow> string list \<Rightarrow> bytes list option" where
  "point_key_of filters [] = Some []"
| "point_key_of filters (name # names) =
     (case eq_value name filters of
        Some v \<Rightarrow> if value_eq v VNull then None else map_option ((#) (raw_bytes v)) (point_key_of filters names)
      | None \<Rightarrow> None)"

definition filter_name :: "filter \<Rightarrow> string" where
  "filter_name f = (case f of FEq n _ \<Rightarrow> n | FIn n _ \<Rightarrow> n)"

definition pk_restricted :: "table_def \<Rightarrow> filter list \<Rightarrow> bool" where
  "pk_restricted table filters \<longleftrightarrow>
     list_all (\<lambda>pk. list_ex (\<lambda>f. filter_name f = pk) filters) (td_partition_keys table)"

definition pk_values :: "filter list \<Rightarrow> string \<Rightarrow> bytes list" where
  "pk_values filters pk =
     concat (map (\<lambda>f. if filter_name f = pk
                      then (case f of FEq _ v \<Rightarrow> [raw_bytes v] | FIn _ vs \<Rightarrow> map raw_bytes vs) else []) filters)"

definition partitions_of :: "table_def \<Rightarrow> filter list \<Rightarrow> bytes list list" where
  "partitions_of table filters =
     fold (\<lambda>pk partitions. concat (map (\<lambda>combo. map (\<lambda>v. combo @ [v]) (pk_values filters pk)) partitions))
       (td_partition_keys table) [[]]"

text \<open>What the callbacks of the two scans capture: the output rows, the last key, the error and \<^verbatim>\<open>done\<close>.\<close>

record scan_state =
  sc_rows :: "cql_value list list"
  sc_last_key :: "bytes option"
  sc_error :: "string option"
  sc_done :: bool

definition scan_entry ::
  "table_def \<Rightarrow> nat list \<Rightarrow> (nat \<times> cql_value) list \<Rightarrow> (nat \<times> cql_value list) list \<Rightarrow> nat list \<Rightarrow> string \<Rightarrow> bytes option \<Rightarrow> nat option
     \<Rightarrow> bytes \<Rightarrow> bytes \<Rightarrow> scan_state \<Rightarrow> (scan_state \<times> bool) anyhow" where
  "scan_entry table selected_idxs eq_filters in_filters key_col_idxs keyspace paging page_limit k v a =
     (if (case paging of Some ps \<Rightarrow> k \<le> ps | None \<Rightarrow> False) then Ok (a, True)
      else if (case page_limit of Some pl \<Rightarrow> pl \<le> length (sc_rows a) | None \<Rightarrow> False)
      then Ok (a\<lparr>sc_last_key := Some k, sc_done := True\<rparr>, False)
      else
        rbind (handle_entry table selected_idxs eq_filters in_filters key_col_idxs keyspace page_limit k v (sc_rows a) (sc_error a))
          (\<lambda>(cont, rows, err).
             let a = a\<lparr>sc_rows := rows, sc_error := err\<rparr> in
             if cont
             then (if (case page_limit of Some pl \<Rightarrow> pl \<le> length rows | None \<Rightarrow> False)
                   then Ok (a\<lparr>sc_last_key := Some k, sc_done := True\<rparr>, False) else Ok (a, True))
             else Ok (a\<lparr>sc_done := True\<rparr>, False)))"

fun scan_partitions ::
  "'db libs \<Rightarrow> 'db storage \<Rightarrow> string \<Rightarrow> string \<Rightarrow> (bytes \<Rightarrow> bytes \<Rightarrow> scan_state \<Rightarrow> (scan_state \<times> bool) anyhow) \<Rightarrow> nat option
     \<Rightarrow> bytes list list \<Rightarrow> scan_state \<Rightarrow> scan_state anyhow" where
  "scan_partitions L s keyspace table f page_limit [] a = Ok a"
| "scan_partitions L s keyspace table f page_limit (p # ps) a =
     (case for_each_in_partition L s keyspace table p f (a\<lparr>sc_done := False\<rparr>) of
        (a, r) \<Rightarrow>
          rbind r (\<lambda>_.
            if sc_done a \<or> sc_error a \<noteq> None then Ok a
            else if (case page_limit of Some pl \<Rightarrow> pl \<le> length (sc_rows a) | None \<Rightarrow> False) then Ok a
            else scan_partitions L s keyspace table f page_limit ps a))"

text \<open>The point lookup and its two projections. The scan of the fast one may not return: on a corrupt row it can step back for ever.\<close>

definition fast_lookup :: "table_def \<Rightarrow> (nat \<times> cql_value) list \<Rightarrow> (nat \<times> cql_value list) list \<Rightarrow> nat list \<Rightarrow> bool" where
  "fast_lookup table eq_filters in_filters key_col_idxs \<longleftrightarrow>
     in_filters = [] \<and> length eq_filters = length key_col_idxs \<and> td_clustering_keys table = []
     \<and> length (td_partition_keys table) = 1 \<and> list_all (\<lambda>(idx, _). idx \<in> set key_col_idxs) eq_filters"

definition project_point ::
  "table_def \<Rightarrow> nat list \<Rightarrow> (nat \<times> cql_value) list \<Rightarrow> (nat \<times> cql_value list) list \<Rightarrow> nat list \<Rightarrow> bytes list \<Rightarrow> bytes
     \<Rightarrow> (bool \<times> cql_value list list) anyhow" where
  "project_point table selected_idxs eq_filters in_filters key_col_idxs key_parts data =
     (if fast_lookup table eq_filters in_filters key_col_idxs
      then (case project_fast_point table selected_idxs key_col_idxs key_parts data [] of Some r \<Rightarrow> r | None \<Rightarrow> Hang)
      else project_decoded table selected_idxs eq_filters in_filters key_col_idxs key_parts data [])"

definition select_point ::
  "'db libs \<Rightarrow> string \<Rightarrow> table_def \<Rightarrow> nat list \<Rightarrow> (nat \<times> cql_value) list \<Rightarrow> (nat \<times> cql_value list) list \<Rightarrow> nat list \<Rightarrow> bytes list
     \<Rightarrow> 'db storage \<Rightarrow> ('db, cql_value list list) qact" where
  "select_point L keyspace table selected_idxs eq_filters in_filters key_col_idxs key_parts s =
     and_then (with_err internal_err (get_row L keyspace (td_name table) key_parts s)) (\<lambda>s r.
       (s, case r of
             None \<Rightarrow> Ok []
           | Some data \<Rightarrow>
               map_err internal_err
                 (rbind (project_point table selected_idxs eq_filters in_filters key_col_idxs key_parts data) (\<lambda>out. Ok (snd out)))))"

definition select_scan ::
  "'db libs \<Rightarrow> string \<Rightarrow> table_def \<Rightarrow> nat list \<Rightarrow> (nat \<times> cql_value) list \<Rightarrow> (nat \<times> cql_value list) list \<Rightarrow> nat list \<Rightarrow> filter list
     \<Rightarrow> nat option \<Rightarrow> bytes option \<Rightarrow> 'db storage \<Rightarrow> scan_state qres" where
  "select_scan L keyspace table selected_idxs eq_filters in_filters key_col_idxs filters page_limit paging s =
     (let f = scan_entry table selected_idxs eq_filters in_filters key_col_idxs keyspace paging page_limit;
          a = \<lparr>sc_rows = [], sc_last_key = None, sc_error = None, sc_done = False\<rparr>
      in rbind
           (map_err internal_err
             (if pk_restricted table filters
              then scan_partitions L s keyspace (td_name table) f page_limit (partitions_of table filters) a
              else (case for_each_in_table L s keyspace (td_name table) f a of (a, r) \<Rightarrow> rbind r (\<lambda>_. Ok a))))
           (\<lambda>a. case sc_error a of Some e \<Rightarrow> Err (internal_err e) | None \<Rightarrow> Ok a))"

definition hard_cap :: nat where "hard_cap = 5000"

definition effective_page_limit :: "i32 option \<Rightarrow> i32 option \<Rightarrow> nat option" where
  "effective_page_limit page_size limit =
     (case (map_option as_usize page_size, map_option as_usize limit) of
        (Some ps, Some l) \<Rightarrow> Some (min ps l)
      | (Some ps, None) \<Rightarrow> Some ps
      | (None, Some l) \<Rightarrow> Some l
      | (None, None) \<Rightarrow> None)"

definition next_paging_state :: "i32 option \<Rightarrow> nat option \<Rightarrow> scan_state \<Rightarrow> bytes option" where
  "next_paging_state page_size effective a =
     (let has_more =
        (case effective of
           Some _ \<Rightarrow> (case page_size of Some ps \<Rightarrow> as_usize ps \<le> length (sc_rows a) \<and> sc_last_key a \<noteq> None | None \<Rightarrow> False)
         | None \<Rightarrow> hard_cap \<le> length (sc_rows a) \<and> sc_last_key a \<noteq> None)
      in if has_more then sc_last_key a else None)"

definition finish_select :: "string \<Rightarrow> table_def \<Rightarrow> col_spec list \<Rightarrow> cql_value list list \<Rightarrow> bytes option \<Rightarrow> response qres" where
  "finish_select keyspace table selected rows paging_state = Ok (RRows keyspace (td_name table) selected rows paging_state)"

text \<open>The stub for missing tables of the virtual schema.\<close>

definition virtual_stub :: "'db libs \<Rightarrow> string option \<Rightarrow> select_ast \<Rightarrow> 'db storage \<Rightarrow> ('db, response option) qact" where
  "virtual_stub L session_ks sel s =
     (let ks = (case fq_keyspace (sl_table_name sel) of Some k \<Rightarrow> Some (norm_id k) | None \<Rightarrow> session_ks);
          tname = norm_id (fq_name.fq_name (sl_table_name sel))
      in if ks = Some ''system_virtual_schema''
         then and_then (with_err internal_err (get_table L ''system_virtual_schema'' tname s)) (\<lambda>s r.
                (s, Ok (if r = None then Some (RRows ''system_virtual_schema'' tname [] [] None) else None)))
         else (s, Ok None))"

definition select_rows ::
  "'db libs \<Rightarrow> string \<Rightarrow> table_def \<Rightarrow> nat list \<Rightarrow> (nat \<times> cql_value) list \<Rightarrow> (nat \<times> cql_value list) list \<Rightarrow> nat list \<Rightarrow> filter list
     \<Rightarrow> i32 option \<Rightarrow> nat option \<Rightarrow> bytes option \<Rightarrow> 'db storage \<Rightarrow> ('db, cql_value list list \<times> bytes option) qact" where
  "select_rows L keyspace table selected_idxs eq_filters in_filters key_col_idxs filters page_size effective paging_state s =
     (let page_limit = (case effective of Some l \<Rightarrow> Some l | None \<Rightarrow> Some hard_cap) in
      case point_key_of filters (key_names table) of
        Some key_parts \<Rightarrow>
          and_then (select_point L keyspace table selected_idxs eq_filters in_filters key_col_idxs key_parts s) (\<lambda>s rows.
            (s, Ok (rows, None)))
      | None \<Rightarrow>
          and_then (s, select_scan L keyspace table selected_idxs eq_filters in_filters key_col_idxs filters page_limit paging_state s) (\<lambda>s a.
            (s, Ok (sc_rows a, next_paging_state page_size effective a))))"

definition select_table ::
  "'db libs \<Rightarrow> string option \<Rightarrow> select_ast \<Rightarrow> binds \<Rightarrow> i32 option \<Rightarrow> bytes option \<Rightarrow> 'db storage \<Rightarrow> ('db, response) qact" where
  "select_table L session_ks sel b page_size paging_state s =
     and_then (resolve_table L session_ks (sl_table_name sel) s) (\<lambda>s (keyspace, table).
     and_then (s, select_columns table (sl_columns sel)) (\<lambda>s selected.
     and_then (s, snd (parse_filters L table (sl_where sel) b)) (\<lambda>s filters.
     and_then (s, column_idxs table (map fst selected)) (\<lambda>s selected_idxs.
     and_then (s, split_filters table filters) (\<lambda>s (eq_filters, in_filters).
     and_then (s, column_idxs table (key_names table)) (\<lambda>s key_col_idxs.
     and_then (select_rows L keyspace table selected_idxs eq_filters in_filters key_col_idxs filters page_size
                 (effective_page_limit page_size (sl_limit sel)) paging_state s) (\<lambda>s (rows, next_state).
       (s, finish_select keyspace table selected rows next_state))))))))"

definition exec_select ::
  "'db libs \<Rightarrow> string option \<Rightarrow> select_ast \<Rightarrow> binds \<Rightarrow> i32 option \<Rightarrow> bytes option \<Rightarrow> 'db storage \<Rightarrow> ('db, response) qact" where
  "exec_select L session_ks sel b page_size paging_state s =
     and_then (virtual_stub L session_ks sel s) (\<lambda>s stub.
       case stub of
         Some r \<Rightarrow> (s, Ok r)
       | None \<Rightarrow> select_table L session_ks sel b page_size paging_state s)"

section \<open>Statements and entry points\<close>

definition ungated :: "('db, response) qact \<Rightarrow> ('db, response \<times> ticket list) qact" where
  "ungated m = and_then m (\<lambda>s r. (s, Ok (r, [])))"

definition execute_statement ::
  "'db libs \<Rightarrow> string option \<Rightarrow> statement \<Rightarrow> binds \<Rightarrow> i32 option \<Rightarrow> bytes option \<Rightarrow> 'db storage \<Rightarrow> ('db, response \<times> ticket list) qact" where
  "execute_statement L session_ks stmt b page_size paging_state s =
     (case stmt of
        SUse i \<Rightarrow> ungated (exec_use L i s)
      | SCreateKeyspace ks \<Rightarrow> ungated (exec_create_keyspace L ks s)
      | SCreateTable t \<Rightarrow> ungated (exec_create_table L session_ks t s)
      | SDropKeyspace d \<Rightarrow> exec_drop_keyspace L d s
      | SDropTable d \<Rightarrow> exec_drop_table L session_ks d s
      | SInsert i \<Rightarrow> exec_insert L session_ks i b s
      | SSelect sel \<Rightarrow> ungated (exec_select L session_ks sel b page_size paging_state s)
      | SDelete d \<Rightarrow> exec_delete L session_ks d b s
      | SUpdate u \<Rightarrow> exec_update L session_ks u b s
      | STruncate name \<Rightarrow> exec_truncate L session_ks name s
      | SOther n \<Rightarrow> (s, Err (invalid_err (''Statement not supported: '' @ short_name L (SOther n)))))"

definition execute :: "'db libs \<Rightarrow> string option \<Rightarrow> string \<Rightarrow> 'db storage \<Rightarrow> ('db, response \<times> ticket list) qact" where
  "execute L keyspace query s =
     and_then (parse_cached L query s) (\<lambda>s stmt. execute_statement L keyspace stmt binds_none None None s)"

definition execute_with_values ::
  "'db libs \<Rightarrow> string option \<Rightarrow> string \<Rightarrow> raw_value list \<Rightarrow> 'db storage \<Rightarrow> ('db, response \<times> ticket list) qact" where
  "execute_with_values L keyspace query values s =
     and_then (parse_cached L query s) (\<lambda>s stmt. execute_statement L keyspace stmt (binds_new values) None None s)"

definition execute_with_values_paged ::
  "'db libs \<Rightarrow> string option \<Rightarrow> string \<Rightarrow> raw_value list \<Rightarrow> i32 option \<Rightarrow> bytes option \<Rightarrow> 'db storage
     \<Rightarrow> ('db, response \<times> ticket list) qact" where
  "execute_with_values_paged L keyspace query values page_size paging_state s =
     and_then (parse_cached L query s)
       (\<lambda>s stmt. execute_statement L keyspace stmt (binds_new values) page_size paging_state s)"

definition execute_prepared ::
  "'db libs \<Rightarrow> string option \<Rightarrow> statement \<Rightarrow> raw_value list \<Rightarrow> 'db storage \<Rightarrow> ('db, response \<times> ticket list) qact" where
  "execute_prepared L keyspace stmt values s = execute_statement L keyspace stmt (binds_new values) None None s"

definition execute_prepared_paged ::
  "'db libs \<Rightarrow> string option \<Rightarrow> statement \<Rightarrow> raw_value list \<Rightarrow> i32 option \<Rightarrow> bytes option \<Rightarrow> 'db storage
     \<Rightarrow> ('db, response \<times> ticket list) qact" where
  "execute_prepared_paged L keyspace stmt values page_size paging_state s =
     execute_statement L keyspace stmt (binds_new values) page_size paging_state s"

end
