(* ===== verification/Projection.thy ===== *)
theory Projection
  imports Query
begin

text \<open>
  The two ways a stored row becomes an output row. On the rows that the database writes, the fast path
  for point lookups always returns and gives what the general path gives; the general path gives the
  stored values of the selected columns.
\<close>

section \<open>The fast column scan\<close>

lemma fast_scan_null:
  assumes "unat i \<noteq> idx"
  shows "fast_scan t (pre @ enc_col (i, VNull) @ r) idx (length pre)
       = fast_scan t (pre @ enc_col (i, VNull) @ r) idx (length (pre @ enc_col (i, VNull)))"
proof -
  let ?d = "pre @ to_be_bytes i @ to_be_bytes (- 1 :: i32) @ r"
  have "u16_at ?d (length pre) = i" by (simp add: u16_at_be)
  moreover have "i32_at ?d (length pre + 2) = - 1"
    using i32_at_be [of "pre @ to_be_bytes i" "- 1"] by simp
  ultimately show ?thesis
    using assms by (subst fast_scan.simps) (simp add: enc_col_def to_wire_Null Let_def add.commute)
qed

text \<open>The header of a non-null entry, as the scan reads it.\<close>

lemma entry_header:
  fixes pre r :: bytes and i :: u16
  assumes "v \<noteq> VNull" and "wire_sized v"
  defines "d \<equiv> pre @ enc_col (i, v) @ r"
  shows "u16_at d (length pre) = i" and "i32_at d (length pre + 2) = len_i32 (length (raw_bytes v))"
    and "len_i32 (length (raw_bytes v)) \<noteq> - 1" and "as_usize (len_i32 (length (raw_bytes v))) = length (raw_bytes v)"
    and "length (enc_col (i, v)) = 6 + length (raw_bytes v)"
    and "slice d (length pre + 6) (length pre + 6 + length (raw_bytes v)) = raw_bytes v"
proof -
  let ?n = "length (raw_bytes v)"
  have sz: "?n < 2 ^ 31" using assms(2) by (simp add: wire_sized_def)
  have w: "to_wire v = to_be_bytes (len_i32 ?n) @ raw_bytes v" using assms(1) by (rule to_wire_raw)
  show "u16_at d (length pre) = i" by (simp add: d_def enc_col_def u16_at_be)
  show "i32_at d (length pre + 2) = len_i32 ?n"
    using i32_at_be [of "pre @ to_be_bytes i" "len_i32 ?n" "raw_bytes v @ r"] by (simp add: d_def enc_col_def w)
  show "len_i32 ?n \<noteq> - 1"
  proof
    assume "len_i32 ?n = - 1"
    then have "sint (len_i32 ?n) = sint (- 1 :: i32)" by simp
    with sz show False by (simp add: sint_len_i32)
  qed
  show "as_usize (len_i32 ?n) = ?n" using sz by (rule as_usize_len_i32)
  show "length (enc_col (i, v)) = 6 + ?n" by (simp add: enc_col_def w)
  show "slice d (length pre + 6) (length pre + 6 + ?n) = raw_bytes v"
    using slice_mid [of "pre @ to_be_bytes i @ to_be_bytes (len_i32 ?n)" "raw_bytes v" r]
    by (simp add: d_def enc_col_def w add.assoc)
qed

lemma fast_scan_skip:
  assumes "v \<noteq> VNull" and "wire_sized v" and "unat i \<noteq> idx" and "length (pre @ enc_col (i, v) @ r) < 2 ^ 64"
  shows "fast_scan t (pre @ enc_col (i, v) @ r) idx (length pre)
       = fast_scan t (pre @ enc_col (i, v) @ r) idx (length (pre @ enc_col (i, v)))"
proof -
  note h = entry_header [OF assms(1,2)]
  have "usize_add (length pre + 6) (length (raw_bytes v)) = length pre + 6 + length (raw_bytes v)"
    using assms(4) by (simp add: usize_add_def h(5))
  then show ?thesis
    using assms(3) h(3,4) h(1,2) [of pre i r] h(5) [of i]
    by (subst fast_scan.simps) (simp add: Let_def add.assoc)
qed

lemma fast_scan_found:
  assumes "col_fits t (i, v)" and "length (pre @ enc_col (i, v) @ r) < 2 ^ 64"
  shows "fast_scan t (pre @ enc_col (i, v) @ r) (unat i) (length pre) = Some (Ok v)"
proof (cases "v = VNull")
  case True
  let ?d = "pre @ to_be_bytes i @ to_be_bytes (- 1 :: i32) @ r"
  have "u16_at ?d (length pre) = i" by (simp add: u16_at_be)
  moreover have "i32_at ?d (length pre + 2) = - 1"
    using i32_at_be [of "pre @ to_be_bytes i" "- 1"] by simp
  ultimately show ?thesis
    using True by (subst fast_scan.simps) (simp add: enc_col_def to_wire_Null Let_def)
next
  case False
  have sz: "wire_sized v" and i: "unat i < length (td_columns t)"
    and dec: "from_raw_bytes (raw_bytes v) (cd_type (td_columns t ! unat i)) = Ok v"
    using assms(1) raw.dec_enc False by (auto simp: col_fits_def conforms_def)
  note h = entry_header [OF False sz]
  have "usize_add (length pre + 6) (length (raw_bytes v)) = length pre + 6 + length (raw_bytes v)"
    using assms(2) by (simp add: usize_add_def h(5))
  then show ?thesis
    using i dec h(3,4) h(1,2,6) [of pre i r] h(5) [of i]
    by (subst fast_scan.simps) (simp add: Let_def index_def)
qed

lemma fast_scan_row:
  assumes "list_all (col_fits t) cs" and "length (pre @ concat (map enc_col cs)) < 2 ^ 64"
  shows "fast_scan t (pre @ concat (map enc_col cs)) idx (length pre)
       = Some (Ok (case find (\<lambda>c. unat (fst c) = idx) cs of Some c \<Rightarrow> snd c | None \<Rightarrow> VNull))"
  using assms
proof (induction cs arbitrary: pre)
  case Nil
  then show ?case by (subst fast_scan.simps) simp
next
  case (Cons c cs)
  obtain i v where c: "c = (i, v)" by (cases c)
  let ?r = "concat (map enc_col cs)"
  from Cons.prems have fits: "col_fits t (i, v)" "list_all (col_fits t) cs" by (simp_all add: c)
  have len: "length (pre @ enc_col (i, v) @ ?r) < 2 ^ 64" using Cons.prems(2) by (simp add: c)
  show ?case
  proof (cases "unat i = idx")
    case True
    then show ?thesis using fast_scan_found [OF fits(1) len] by (simp add: c)
  next
    case False
    have "fast_scan t (pre @ enc_col (i, v) @ ?r) idx (length pre)
        = fast_scan t ((pre @ enc_col (i, v)) @ ?r) idx (length (pre @ enc_col (i, v)))"
      using fast_scan_null [OF False] fast_scan_skip [OF _ _ False len] fits(1)
      by (cases "v = VNull") (auto simp: col_fits_def)
    with Cons.IH [OF fits(2), of "pre @ enc_col (i, v)"] len False show ?thesis by (simp add: c)
  qed
qed

section \<open>The general path\<close>

text \<open>The value of a column in a stored row.\<close>

definition stored_value :: "(u16 \<times> cql_value) list \<Rightarrow> nat \<Rightarrow> cql_value" where
  "stored_value cs idx = (case find (\<lambda>c. unat (fst c) = idx) cs of Some c \<Rightarrow> snd c | None \<Rightarrow> VNull)"

definition stored_row :: "table_def \<Rightarrow> (u16 \<times> cql_value) list \<Rightarrow> cql_value list" where
  "stored_row t cs = map (stored_value cs) [0..<length (td_columns t)]"

lemma fold_update_row:
  assumes "distinct (map fst cs)" and "list_all (\<lambda>c. unat (fst c) < n) cs"
  shows "fold (\<lambda>(i, v) out. out[unat (i :: u16) := v]) cs (replicate n VNull) = map (stored_value cs) [0..<n]"
proof (rule nth_equalityI)
  show len: "length (fold (\<lambda>(i, v) out. out[unat (i :: u16) := v]) cs (replicate n VNull)) = length (map (stored_value cs) [0..<n])"
    by (simp add: length_fold_update)
  fix j assume "j < length (fold (\<lambda>(i, v) out. out[unat (i :: u16) := v]) cs (replicate n VNull))"
  then have j: "j < n" by (simp add: length_fold_update)
  show "fold (\<lambda>(i, v) out. out[unat i := v]) cs (replicate n VNull) ! j = map (stored_value cs) [0..<n] ! j"
  proof (cases "find (\<lambda>c. unat (fst c) = j) cs")
    case None
    then have "j \<notin> (unat \<circ> fst) ` set cs" by (auto simp: find_None_iff)
    with None j show ?thesis by (simp add: fold_update_other stored_value_def)
  next
    case (Some c)
    then have "c \<in> set cs" and ju: "unat (fst c) = j" by (auto simp: find_Some_iff)
    then have "(fst c, snd c) \<in> set cs" by simp
    from fold_update_at [OF assms(1) this, of "replicate n VNull"] ju j Some show ?thesis
      by (simp add: stored_value_def)
  qed
qed

lemma decode_stored_row:
  assumes "list_all (col_fits t) cs" and "distinct (map fst cs)"
  shows "decode_row_columns (encode_row_columns cs) t = Ok (stored_row t cs)"
proof -
  have "list_all (\<lambda>c. unat (fst c) < length (td_columns t)) cs"
    using assms(1) by (auto simp: list_all_iff col_fits_def)
  with fold_update_row [OF assms(2) this] decode_encode_row [OF assms(1)] show ?thesis by (simp add: stored_row_def)
qed

text \<open>A table with one partition key column and no clustering column, addressed by that key.\<close>

lemma fast_columns_row:
  assumes "list_all (col_fits t) cs" and "length (encode_row_columns cs) < 2 ^ 64" and "k < length (td_columns t)"
    and "has_type (cd_type (td_columns t ! k)) v" and "wire_sized v" and "list_all (\<lambda>i. i < length (td_columns t)) idxs"
  shows "fast_columns t [k] [raw_bytes v] (encode_row_columns cs) idxs
       = Some (Ok (map (\<lambda>i. ((stored_row t cs)[k := v]) ! i) idxs))"
  using assms(6)
proof (induction idxs)
  case (Cons i idxs)
  have key: "from_raw_bytes (raw_bytes v) (cd_type (td_columns t ! k)) = Ok v"
    using raw.dec_enc assms(4,5) by (simp add: conforms_def)
  have scan: "fast_scan t (encode_row_columns cs) i 0 = Some (Ok (stored_value cs i))"
    using fast_scan_row [OF assms(1), of "[]"] assms(2) by (simp add: encode_row_concat stored_value_def)
  from Cons.prems have "i < length (td_columns t)" by simp
  with Cons key scan assms(3) show ?case
    by (cases "i = k") (simp_all add: index_def stored_row_def)
qed simp

lemma rmap_index: "list_all (\<lambda>i. i < length row) idxs \<Longrightarrow> rmap (index row) idxs = Ok (map ((!) row) idxs)"
  by (induction idxs) (simp_all add: index_def)

text \<open>Writing the decoded key parts over the stored row.\<close>

definition key_fits :: "table_def \<Rightarrow> nat \<times> cql_value \<Rightarrow> bool" where
  "key_fits t kv \<longleftrightarrow> fst kv < length (td_columns t) \<and> has_type (cd_type (td_columns t ! fst kv)) (snd kv) \<and> wire_sized (snd kv)"

definition with_keys :: "(nat \<times> cql_value) list \<Rightarrow> cql_value list \<Rightarrow> cql_value list" where
  "with_keys kvs row = fold (\<lambda>(i, v) row. row[i := v]) kvs row"

lemma with_keys_simps [simp]:
  "with_keys [] row = row" "with_keys ((i, v) # kvs) row = with_keys kvs (row[i := v])"
  "length (with_keys kvs row) = length row"
  by (simp_all add: with_keys_def, induction kvs arbitrary: row) auto

lemma with_keys_other: "j \<notin> fst ` set kvs \<Longrightarrow> with_keys kvs row ! j = row ! j"
  by (induction kvs arbitrary: row) auto

lemma with_keys_at:
  "distinct (map fst kvs) \<Longrightarrow> (i, v) \<in> set kvs \<Longrightarrow> i < length row \<Longrightarrow> with_keys kvs row ! i = v"
proof (induction kvs arbitrary: row)
  case (Cons kv kvs)
  obtain j w where kv: "kv = (j, w)" by (cases kv)
  show ?case
  proof (cases "(i, v) = kv")
    case True
    with Cons.prems kv have "i \<notin> fst ` set kvs" by auto
    with True kv Cons.prems(3) show ?thesis by (auto simp: with_keys_other)
  next
    case False
    with Cons.prems have "(i, v) \<in> set kvs" by auto
    with Cons.IH [of "row[j := w]"] Cons.prems kv show ?thesis by auto
  qed
qed simp

lemma set_key_columns_row:
  assumes "list_all (key_fits t) kvs" and "length row = length (td_columns t)"
    and "key_parts = done @ map (raw_bytes \<circ> snd) kvs"
  shows "set_key_columns t key_parts (enumerate (length done) (map fst kvs)) row = Ok (with_keys kvs row)"
  using assms
proof (induction kvs arbitrary: "done" row)
  case (Cons kv kvs)
  obtain i v where kv: "kv = (i, v)" by (cases kv)
  with Cons.prems have fits: "i < length (td_columns t)" "has_type (cd_type (td_columns t ! i)) v" "wire_sized v"
    by (auto simp: key_fits_def)
  then have "from_raw_bytes (raw_bytes v) (cd_type (td_columns t ! i)) = Ok v"
    using raw.dec_enc by (simp add: conforms_def)
  moreover have "key_parts ! length done = raw_bytes v" "length done < length key_parts"
    using Cons.prems(3) kv by (simp_all add: nth_append)
  moreover have "set_key_columns t key_parts (enumerate (length (done @ [raw_bytes v])) (map fst kvs)) (row[i := v])
      = Ok (with_keys kvs (row[i := v]))"
    using Cons.prems kv by (intro Cons.IH) simp_all
  ultimately show ?case
    using fits(1) Cons.prems(2) kv by (simp add: index_def set_index_def)
qed simp

lemma check_eq_filters_hit:
  "list_all (\<lambda>(i, v). i < length row \<and> value_eq v (row ! i)) eqs \<Longrightarrow> check_eq_filters eqs row = Ok True"
  by (induction eqs) (auto simp: index_def)

lemma project_decoded_row:
  assumes "list_all (col_fits t) cs" and "distinct (map fst cs)" and "list_all (key_fits t) kvs"
    and "\<And>i v. (i, v) \<in> set eqs \<Longrightarrow> i < length (td_columns t) \<and> value_eq v (with_keys kvs (stored_row t cs) ! i)"
    and "list_all (\<lambda>i. i < length (td_columns t)) sel"
  shows "project_decoded t sel eqs [] (map fst kvs) (map (raw_bytes \<circ> snd) kvs) (encode_row_columns cs) out
    = Ok (True, out @ [map ((!) (with_keys kvs (stored_row t cs))) sel])"
proof -
  have len: "length (stored_row t cs) = length (td_columns t)" by (simp add: stored_row_def)
  have "set_key_columns t (map (raw_bytes \<circ> snd) kvs) (enumerate 0 (map fst kvs)) (stored_row t cs) = Ok (with_keys kvs (stored_row t cs))"
    using set_key_columns_row [OF assms(3) len, of _ "[]"] by simp
  moreover have "check_eq_filters eqs (with_keys kvs (stored_row t cs)) = Ok True"
    using assms(4) len by (intro check_eq_filters_hit) (auto simp: list_all_iff)
  moreover have "(rmap (index (with_keys kvs (stored_row t cs))) sel :: cql_value list anyhow) = Ok (map ((!) (with_keys kvs (stored_row t cs))) sel)"
    using assms(5) len by (intro rmap_index) simp
  ultimately show ?thesis
    by (simp add: project_decoded_def decode_stored_row [OF assms(1,2)])
qed

section \<open>Properties\<close>

text \<open>
  C24. The fast path of a point lookup is equivalent to the general path: on every row the database
  writes, and for every selection of columns, it returns (although its scan could run for ever on a
  corrupt row) and emits the row the general path emits, which holds the key value and the stored
  values. The key value must equal itself, which only a NaN does not.
\<close>

theorem fast_path_equivalent:
  assumes "list_all (col_fits t) cs" and "distinct (map fst cs)" and "length (encode_row_columns cs) < 2 ^ 64"
    and "k < length (td_columns t)" and "has_type (cd_type (td_columns t ! k)) v" and "wire_sized v" and "value_eq v v"
    and "list_all (\<lambda>i. i < length (td_columns t)) selected_idxs"
  shows "project_fast_point t selected_idxs [k] [raw_bytes v] (encode_row_columns cs) out_rows
      = Some (project_decoded t selected_idxs [(k, v)] [] [k] [raw_bytes v] (encode_row_columns cs) out_rows)
    \<and> project_decoded t selected_idxs [(k, v)] [] [k] [raw_bytes v] (encode_row_columns cs) out_rows
      = Ok (True, out_rows @ [map (\<lambda>i. if i = k then v else stored_value cs i) selected_idxs])"
proof -
  let ?row = "(stored_row t cs)[k := v]"
  have len: "k < length (stored_row t cs)" using assms(4) by (simp add: stored_row_def)
  have fast: "project_fast_point t selected_idxs [k] [raw_bytes v] (encode_row_columns cs) out_rows
      = Some (Ok (True, out_rows @ [map ((!) ?row) selected_idxs]))"
    using fast_columns_row [OF assms(1,3,4,5,6,8)] by (simp add: project_fast_point_def)
  have dec: "project_decoded t selected_idxs [(k, v)] [] [k] [raw_bytes v] (encode_row_columns cs) out_rows
      = Ok (True, out_rows @ [map ((!) ?row) selected_idxs])"
    using project_decoded_row [OF assms(1,2), of "[(k, v)]" "[(k, v)]" selected_idxs out_rows] assms(4-8) len
    by (simp add: key_fits_def comp_def)
  have "map ((!) ?row) selected_idxs = map (\<lambda>i. if i = k then v else stored_value cs i) selected_idxs"
    using assms(8) len by (auto simp: stored_row_def list_all_iff)
  with fast dec show ?thesis by simp
qed

lemma kv_row_fits: "list_all (col_fits kv_table) [(1, VText ''x'')]"
  by (simp add: col_fits_def kv_table_def conforms_def utf8_valid_def utf8_check_def str_bytes_def wire_sized_def)

theorem fast_path_equivalent_witness:
  "project_fast_point kv_table [0, 1] [0] [raw_bytes (VInt 5)] (encode_row_columns [(1, VText ''x'')]) []
     = Some (Ok (True, [[VInt 5, VText ''x'']]))"
proof -
  have "has_type (cd_type (td_columns kv_table ! 0)) (VInt 5)" "wire_sized (VInt 5)" "value_eq (VInt 5) (VInt 5)"
    "0 < length (td_columns kv_table)" "list_all (\<lambda>i. i < length (td_columns kv_table)) [0, 1]"
    by (simp_all add: kv_table_def wire_sized_def to_be_bytes_def)
  moreover have "length (encode_row_columns [(1, VText ''x'')]) < 2 ^ 64"
    by (simp add: encode_row_concat enc_col_def to_wire_def to_be_bytes_def)
  ultimately show ?thesis
    using fast_path_equivalent [OF kv_row_fits, of 0 "VInt 5" "[0, 1]" "[]"] by (simp add: stored_value_def)
qed

text \<open>
  Where the two paths differ: a row whose key is NaN is found by the fast path and filtered out by
  the general path, because the general path compares the key again.
\<close>

theorem nan_key_paths_differ:
  assumes "list_all (col_fits t) cs" and "distinct (map fst cs)" and "length (encode_row_columns cs) < 2 ^ 64"
    and "k < length (td_columns t)" and "has_type (cd_type (td_columns t ! k)) v" and "wire_sized v" and "\<not> value_eq v v"
  shows "project_decoded t [k] [(k, v)] [] [k] [raw_bytes v] (encode_row_columns cs) [] = Ok (False, [])
    \<and> project_fast_point t [k] [k] [raw_bytes v] (encode_row_columns cs) [] = Some (Ok (True, [[v]]))"
proof -
  have len: "length (stored_row t cs) = length (td_columns t)" by (simp add: stored_row_def)
  have "set_key_columns t [raw_bytes v] (enumerate 0 [k]) (stored_row t cs) = Ok ((stored_row t cs)[k := v])"
    using set_key_columns_row [of t "[(k, v)]" "stored_row t cs" "[raw_bytes v]" "[]"] len assms(4-6) by (simp add: key_fits_def)
  then show ?thesis
    using fast_columns_row [OF assms(1,3-6), of "[k]"] assms(4,7) len
    by (simp add: project_decoded_def decode_stored_row [OF assms(1,2)] project_fast_point_def index_def)
qed

definition f32_table :: table_def where
  "f32_table =
     \<lparr>td_keyspace = ''shop'', td_name = ''f'',
      td_columns = [\<lparr>cd_name = ''k'', cd_type = TFloat, cd_is_partition_key = True, cd_is_clustering = False\<rparr>],
      td_partition_keys = [''k''], td_clustering_keys = []\<rparr>"

theorem nan_key_paths_differ_witness:
  "project_decoded f32_table [0] [(0, VFloat 0x7FC00000)] [] [0] [raw_bytes (VFloat 0x7FC00000)] (encode_row_columns []) [] = Ok (False, [])
   \<and> project_fast_point f32_table [0] [0] [raw_bytes (VFloat 0x7FC00000)] (encode_row_columns []) [] = Some (Ok (True, [[VFloat 0x7FC00000]]))"
  by (rule nan_key_paths_differ)
     (simp_all add: f32_table_def wire_sized_def to_be_bytes_def encode_row_columns_def f32_eq_def)

end
