(* ===== verification/QuerySpec.thy ===== *)
theory QuerySpec
  imports QueryExec Projection
begin

text \<open>
  What the query engine promises: the handlers of \<open>QueryExec\<close> against the abstract view of the
  storage in \<open>StorageSpec\<close>.
\<close>

section \<open>Tables and columns\<close>

text \<open>
  The tables a \<^verbatim>\<open>CREATE TABLE\<close> with distinct column names produces: the key columns are columns, the
  flags say which columns are key columns, and a column index fits 16 bits.
\<close>

definition table_ok :: "table_def \<Rightarrow> bool" where
  "table_ok t \<longleftrightarrow>
     distinct (map cd_name (td_columns t)) \<and> distinct (key_names t) \<and>
     set (key_names t) \<subseteq> cd_name ` set (td_columns t) \<and> length (td_columns t) \<le> 2 ^ 16 \<and>
     list_all (\<lambda>c. is_regular c \<longleftrightarrow> cd_name c \<notin> set (key_names t)) (td_columns t)"

lemma name_neq:
  "distinct (map cd_name cs) \<Longrightarrow> i < length cs \<Longrightarrow> j < i \<Longrightarrow> cd_name (cs ! j) \<noteq> cd_name (cs ! i)"
  by (auto simp: distinct_conv_nth)

lemma position_name:
  assumes "distinct (map cd_name cs)" and "i < length cs"
  shows "position (\<lambda>c. cd_name c = cd_name (cs ! i)) cs = Some i"
    and "position (\<lambda>c. cd_name (cs ! i) = cd_name c) cs = Some i"
  using assms name_neq [OF assms(1)] by (auto simp: position_Some_iff) metis

lemma find_name:
  assumes "distinct (map cd_name cs)" and "i < length cs"
  shows "find (\<lambda>c. cd_name c = cd_name (cs ! i)) cs = Some (cs ! i)"
    and "find (\<lambda>c. cd_name (cs ! i) = cd_name c) cs = Some (cs ! i)"
  using assms name_neq [OF assms(1)] by (auto simp: find_Some_iff intro!: exI [of _ i]) metis

text \<open>The index of a key column.\<close>

definition key_idx :: "table_def \<Rightarrow> string \<Rightarrow> nat" where
  "key_idx t name = the (column_index t name)"

lemma key_idx_ok:
  assumes "table_ok t" and "name \<in> set (key_names t)"
  shows "key_idx t name < length (td_columns t)" and "cd_name (td_columns t ! key_idx t name) = name"
    and "column_index t name = Some (key_idx t name)"
proof -
  from assms have "name \<in> cd_name ` set (td_columns t)" by (auto simp: table_ok_def)
  then obtain i where i: "i < length (td_columns t)" "name = cd_name (td_columns t ! i)"
    by (metis imageE in_set_conv_nth)
  with position_name(1) [of "td_columns t" i] assms(1)
  show "key_idx t name < length (td_columns t)" "cd_name (td_columns t ! key_idx t name) = name"
    "column_index t name = Some (key_idx t name)"
    by (simp_all add: key_idx_def column_index_def table_ok_def)
qed

lemma key_idx_inject:
  "table_ok t \<Longrightarrow> m \<in> set (key_names t) \<Longrightarrow> n \<in> set (key_names t) \<Longrightarrow> key_idx t m = key_idx t n \<longleftrightarrow> m = n"
  by (metis key_idx_ok(2))

lemma distinct_key_idx: "table_ok t \<Longrightarrow> distinct (map (key_idx t) (key_names t))"
  by (auto simp: distinct_map inj_on_def key_idx_inject) (simp add: table_ok_def)

text \<open>A column index is the index of a key column or of a regular column.\<close>

lemma regular_or_key:
  assumes "table_ok t" and "i < length (td_columns t)"
  shows "i \<in> set (regular_indices t) \<longleftrightarrow> i \<notin> key_idx t ` set (key_names t)"
proof -
  have "cd_name (td_columns t ! i) \<in> set (key_names t) \<longleftrightarrow> i \<in> key_idx t ` set (key_names t)"
  proof
    assume k: "cd_name (td_columns t ! i) \<in> set (key_names t)"
    then have "key_idx t (cd_name (td_columns t ! i)) = i"
      using position_name(1) [of "td_columns t" i] assms by (simp add: key_idx_def column_index_def table_ok_def)
    with k show "i \<in> key_idx t ` set (key_names t)" by force
  qed (use key_idx_ok(2) [OF assms(1)] in auto)
  with assms show ?thesis
    by (auto simp: regular_indices_def table_ok_def list_all_length)
qed

section \<open>Bound values\<close>

text \<open>A value as a client binds it.\<close>

definition bound :: "cql_value \<Rightarrow> raw_value" where
  "bound v = (if v = VNull then RawNull else RawBytes (raw_bytes v))"

lemma binds_take_bound:
  assumes "bi_values b ! bi_next b = bound v" and "bi_next b < length (bi_values b)"
    and "conforms ct v" and "wire_sized v"
  shows "binds_take ct b = (b\<lparr>bi_next := bi_next b + 1\<rparr>, Ok v)"
  using assms raw.dec_enc [of ct v] by (auto simp: binds_take_def bound_def conforms_def)

text \<open>The values of a row, and the value of a key column in it.\<close>

definition key_value :: "table_def \<Rightarrow> cql_value list \<Rightarrow> string \<Rightarrow> cql_value" where
  "key_value t vals name = vals ! key_idx t name"

definition row_ok :: "table_def \<Rightarrow> cql_value list \<Rightarrow> bool" where
  "row_ok t vals \<longleftrightarrow>
     list_all2 (\<lambda>c v. conforms (cd_type c) v \<and> wire_sized v) (td_columns t) vals \<and>
     list_all (\<lambda>n. key_value t vals n \<noteq> VNull \<and> value_eq (key_value t vals n) (key_value t vals n) \<and>
                 short_part (raw_bytes (key_value t vals n))) (key_names t)"

lemma row_okD:
  assumes "row_ok t vals"
  shows "length vals = length (td_columns t)"
    and "i < length (td_columns t) \<Longrightarrow> conforms (cd_type (td_columns t ! i)) (vals ! i) \<and> wire_sized (vals ! i)"
    and "n \<in> set (key_names t) \<Longrightarrow> key_value t vals n \<noteq> VNull \<and> value_eq (key_value t vals n) (key_value t vals n)
      \<and> short_part (raw_bytes (key_value t vals n))"
  using assms by (auto simp: row_ok_def list_all2_conv_all_nth list_all_iff)

section \<open>Resolving a table\<close>

lemma coherent_same:
  "coherent absm s \<Longrightarrow> st_engines s' = st_engines s \<Longrightarrow> st_row_cache s' = st_row_cache s \<Longrightarrow> coherent absm s'"
  using view_cong(1) [of s' s] by (simp add: coherent_def cache_lookup_def)

lemma resolve_table_ok:
  assumes "storage_wf L absm s" and "target_keyspace session_ks name = Ok ks" and "norm_id (fq_name.fq_name name) = tb"
    and "good_table (ks, tb)" and "tb_view L absm s (ks, tb) = Some t"
  shows "\<exists>s'. resolve_table L session_ks name s = (s', Ok (ks, t)) \<and> storage_wf L absm s' \<and>
    st_engines s' = st_engines s \<and> st_row_cache s' = st_row_cache s"
  using get_table_ok [OF assms(1,4)] assms(2,3,5) by (auto simp: resolve_table_def)

section \<open>INSERT with a value for every column\<close>

definition table_name_of :: "string \<Rightarrow> string \<Rightarrow> fq_name" where
  "table_name_of ks tb = \<lparr>fq_keyspace = Some (Quoted ks), fq_name = Quoted tb\<rparr>"

definition insert_full :: "string \<Rightarrow> string \<Rightarrow> table_def \<Rightarrow> insert_ast" where
  "insert_full ks tb t =
     \<lparr>in_table_name = table_name_of ks tb, in_columns = map (\<lambda>c. Quoted (cd_name c)) (td_columns t),
      in_values = InsValues (map (\<lambda>_. OpParam ''?'') (td_columns t))\<rparr>"

lemma target_keyspace_of [simp]:
  "target_keyspace session_ks (table_name_of ks tb) = Ok ks" "norm_id (fq_name.fq_name (table_name_of ks tb)) = tb"
  by (simp_all add: target_keyspace_def table_name_of_def)

lemma resolve_all_values:
  assumes "distinct (map cd_name (td_columns t))" and "length vals = length (td_columns t)"
    and "\<And>i. i < length vals \<Longrightarrow> conforms (cd_type (td_columns t ! i)) (vals ! i) \<and> wire_sized (vals ! i)"
    and "n \<le> length vals"
  shows "snd (resolve_values L t (map (\<lambda>i. (Quoted (cd_name (td_columns t ! i)), OpParam ''?'')) [n..<length vals])
      (map Some (take n vals) @ replicate (length vals - n) None) \<lparr>bi_values = map bound vals, bi_next = n\<rparr>)
    = Ok (map Some vals)"
  using assms(4)
proof (induction "length vals - n" arbitrary: n)
  case 0
  then show ?case by simp
next
  case (Suc m)
  then have n: "n < length vals" by simp
  let ?b = "\<lparr>bi_values = map bound vals, bi_next = n\<rparr>"
  have take: "binds_take (cd_type (td_columns t ! n)) ?b = (?b\<lparr>bi_next := n + 1\<rparr>, Ok (vals ! n))"
    using binds_take_bound [of ?b "vals ! n"] assms(3) n by simp
  have "(map Some (take n vals) @ replicate (length vals - n) None)[n := Some (vals ! n)]
      = map Some (take (Suc n) vals) @ replicate (length vals - Suc n) None"
    using n by (simp add: list_update_append take_Suc_conv_app_nth Suc_diff_Suc [symmetric])
  with Suc.hyps(1) [of "Suc n"] Suc.hyps(2) n take position_name(2) [OF assms(1), of n] assms(2) show ?case
    by (simp add: upt_conv_Cons operand_to_value_def)
qed

text \<open>The row an INSERT of these values writes.\<close>

definition row_columns :: "table_def \<Rightarrow> cql_value list \<Rightarrow> (u16 \<times> cql_value) list" where
  "row_columns t vals = map (\<lambda>i. (word_of_nat i, vals ! i)) (regular_indices t)"

definition row_parts :: "table_def \<Rightarrow> cql_value list \<Rightarrow> bytes list" where
  "row_parts t vals = map (\<lambda>n. raw_bytes (key_value t vals n)) (key_names t)"

lemma value_eq_VNull: "value_eq v VNull \<longleftrightarrow> v = VNull"
  by (cases v) simp_all

lemma insert_key_parts:
  assumes "table_ok t" and "row_ok t vals"
  shows "rmap (insert_key_part t (map Some vals)) (key_names t) = Ok (row_parts t vals)"
proof -
  have "insert_key_part t (map Some vals) n = Ok (raw_bytes (key_value t vals n))" if "n \<in> set (key_names t)" for n
    using key_idx_ok [OF assms(1) that] row_okD [OF assms(2)] that
    by (simp add: insert_key_part_def column_index_def [symmetric] key_value_def value_eq_VNull)
  then show ?thesis by (simp add: rmap_all_Ok row_parts_def)
qed

lemma insert_row_full:
  "length vals = length (td_columns t) \<Longrightarrow> insert_row t (map Some vals) = row_columns t vals"
  by (auto simp: insert_row_def row_columns_def regular_indices_def)

lemma exec_insert_full:
  assumes "storage_wf L absm s" and "good_table (ks, tb)" and "tb_view L absm s (ks, tb) = Some t"
    and "ks \<notin> set SYSTEM_KEYSPACES" and "table_ok t" and "row_ok t vals"
  shows "\<exists>s'. storage_wf L absm s' \<and> st_engines s' = st_engines s \<and> st_row_cache s' = st_row_cache s \<and>
    exec_insert L session_ks (insert_full ks tb t) (binds_new (map bound vals)) s =
      and_then (with_err internal_err (put_row ks tb (row_parts t vals) (encode_row_columns (row_columns t vals)) s'))
        (\<lambda>s ticket. (s, Ok (RVoid, [ticket])))"
proof -
  obtain s' where s': "resolve_table L session_ks (table_name_of ks tb) s = (s', Ok (ks, t))" "storage_wf L absm s'"
      "st_engines s' = st_engines s" "st_row_cache s' = st_row_cache s"
    using resolve_table_ok [OF assms(1) target_keyspace_of assms(2,3)] by blast
  have len: "length vals = length (td_columns t)" by (rule row_okD(1) [OF assms(6)])
  have name: "td_name t = tb" using tb_view_name [OF storage_wfD(4) [OF assms(1)] assms(2,3)] by simp
  have zip: "zip (in_columns (insert_full ks tb t)) (map (\<lambda>_. OpParam ''?'') (td_columns t))
      = map (\<lambda>i. (Quoted (cd_name (td_columns t ! i)), OpParam ''?'')) [0..<length vals]"
    by (rule nth_equalityI) (simp_all add: insert_full_def len)
  have "snd (resolve_values L t (zip (in_columns (insert_full ks tb t)) (map (\<lambda>_. OpParam ''?'') (td_columns t)))
      (replicate (length (td_columns t)) None) (binds_new (map bound vals))) = Ok (map Some vals)"
    using resolve_all_values [of t vals 0] assms(5) row_okD(2) [OF assms(6)] len
    unfolding zip by (simp add: table_ok_def binds_new_def)
  then show ?thesis
    using s' assms(4) insert_key_parts [OF assms(5,6)]
    by (intro exI [of _ s']) (simp add: exec_insert_def check_writable_def insert_full_def insert_row_full [OF len] name)
qed

section \<open>SELECT by the full key\<close>

definition select_by_key :: "string \<Rightarrow> string \<Rightarrow> table_def \<Rightarrow> select_ast" where
  "select_by_key ks tb t =
     \<lparr>sl_table_name = table_name_of ks tb, sl_columns = [SelStar],
      sl_where = map (\<lambda>n. \<lparr>re_obj = OpColumn (Quoted n), re_oper = RelEqual, re_value = OpParam ''?''\<rparr>) (key_names t),
      sl_limit = None\<rparr>"

lemma parse_key_filters_at:
  assumes "table_ok t" and "row_ok t vals" and "key_names t = ms @ ns"
  shows "snd (parse_filters L t (map (\<lambda>n. \<lparr>re_obj = OpColumn (Quoted n), re_oper = RelEqual, re_value = OpParam ''?''\<rparr>) ns)
      \<lparr>bi_values = pre @ map (\<lambda>n. bound (key_value t vals n)) (ms @ ns), bi_next = length pre + length ms\<rparr>)
    = Ok (map (\<lambda>n. FEq n (key_value t vals n)) ns)"
  using assms(3)
proof (induction ns arbitrary: ms)
  case (Cons n ns)
  let ?b = "\<lparr>bi_values = pre @ map (\<lambda>n. bound (key_value t vals n)) (ms @ n # ns), bi_next = length pre + length ms\<rparr>"
  let ?c = "td_columns t ! key_idx t n"
  from Cons.prems have n: "n \<in> set (key_names t)" by simp
  note k = key_idx_ok [OF assms(1) n]
  have "find (\<lambda>c. ident_eq (Quoted n) (cd_name c)) (td_columns t) = Some ?c"
    using find_name(2) [of "td_columns t" "key_idx t n"] k assms(1) by (simp add: table_ok_def)
  moreover have "binds_take (cd_type ?c) ?b = (?b\<lparr>bi_next := length pre + length ms + 1\<rparr>, Ok (key_value t vals n))"
    using binds_take_bound [of ?b "key_value t vals n"] row_okD(2) [OF assms(2) k(1)]
    by (simp add: key_value_def nth_append)
  ultimately have "parse_filter L t \<lparr>re_obj = OpColumn (Quoted n), re_oper = RelEqual, re_value = OpParam ''?''\<rparr> ?b
      = (?b\<lparr>bi_next := length pre + length ms + 1\<rparr>, Ok (FEq n (key_value t vals n)))"
    using k by (simp add: parse_filter_def)
  with Cons.IH [of "ms @ [n]"] Cons.prems show ?case by (simp add: snd_and_then)
qed simp

lemmas parse_key_filters = parse_key_filters_at [where pre = "[]", simplified append_Nil list.size(3) add_0]

lemma split_key_filters:
  assumes "table_ok t" and "set ns \<subseteq> set (key_names t)"
  shows "split_filters t (map (\<lambda>n. FEq n (f n)) ns) = Ok (map (\<lambda>n. (key_idx t n, f n)) ns, [])"
  using assms(2) by (induction ns) (simp_all add: key_idx_ok(3) [OF assms(1)])

lemma eq_value_key: "n \<in> set ns \<Longrightarrow> eq_value n (map (\<lambda>n. FEq n (f n)) ns) = Some (f n)"
  by (induction ns) auto

lemma point_key:
  assumes "\<And>n. n \<in> set names \<Longrightarrow> n \<in> set ns \<and> f n \<noteq> VNull"
  shows "point_key_of (map (\<lambda>n. FEq n (f n)) ns) names = Some (map (\<lambda>n. raw_bytes (f n)) names)"
  using assms by (induction names) (simp_all add: eq_value_key value_eq_VNull)

lemma column_idxs_all:
  assumes "distinct (map cd_name (td_columns t))"
  shows "column_idxs t (map cd_name (td_columns t)) = Ok [0..<length (td_columns t)]"
proof -
  have "rmap (\<lambda>name. unwrap (column_index t name)) (map (\<lambda>i. cd_name (td_columns t ! i)) [0..<length (td_columns t)])
      = Ok (map (\<lambda>i. i) [0..<length (td_columns t)])"
    using position_name(1) [OF assms] by (intro rmap_map_Ok) (simp add: column_index_def)
  moreover have "map (\<lambda>i. cd_name (td_columns t ! i)) [0..<length (td_columns t)] = map cd_name (td_columns t)"
    by (rule nth_equalityI) simp_all
  ultimately show ?thesis by (simp add: column_idxs_def)
qed

lemma column_idxs_keys:
  "table_ok t \<Longrightarrow> column_idxs t (key_names t) = Ok (map (key_idx t) (key_names t))"
  by (auto simp: column_idxs_def key_idx_ok(3) intro!: rmap_all_Ok)

section \<open>The stored row and its projection\<close>

lemma row_columns_fit:
  assumes "table_ok t" and "row_ok t vals"
  shows "list_all (col_fits t) (row_columns t vals)" and "distinct (map fst (row_columns t vals))"
    and "i \<in> set (regular_indices t) \<Longrightarrow> stored_value (row_columns t vals) i = vals ! i"
proof -
  have less: "i < 2 ^ 16" if "i < length (td_columns t)" for i using that assms(1) by (simp add: table_ok_def)
  have u: "unat (word_of_nat i :: u16) = i" if "i \<in> set (regular_indices t)" for i
    using less [of i] that by (simp add: regular_indices_def unat_of_nat take_bit_nat_eq_self)
  then show "list_all (col_fits t) (row_columns t vals)"
    using row_okD(2) [OF assms(2)] by (auto simp: row_columns_def list_all_iff col_fits_def) (auto simp: regular_indices_def)
  have "inj_on (word_of_nat :: nat \<Rightarrow> u16) (set (regular_indices t))"
    using u by (metis inj_onI)
  moreover have "distinct (regular_indices t)" by (simp add: regular_indices_def)
  ultimately show "distinct (map fst (row_columns t vals))"
    by (simp add: row_columns_def comp_def distinct_map)
  assume i: "i \<in> set (regular_indices t)"
  have "find (\<lambda>c. unat (fst c) = i) (map (\<lambda>i. (word_of_nat i :: u16, vals ! i)) is) = (if i \<in> set is then Some (word_of_nat i, vals ! i) else None)"
    if "set is \<subseteq> set (regular_indices t)" for "is"
    using that u by (induction "is") auto
  from this [of "regular_indices t"] i show "stored_value (row_columns t vals) i = vals ! i"
    by (simp add: stored_value_def row_columns_def)
qed


lemma restored_row:
  assumes "table_ok t" and "row_ok t vals"
  shows "with_keys (map (\<lambda>n. (key_idx t n, key_value t vals n)) (key_names t)) (stored_row t (row_columns t vals)) = vals"
    (is "with_keys ?kvs ?row = vals")
proof (rule nth_equalityI)
  show "length (with_keys ?kvs ?row) = length vals" using row_okD(1) [OF assms(2)] by (simp add: stored_row_def)
  fix i assume "i < length (with_keys ?kvs ?row)"
  then have i: "i < length (td_columns t)" by (simp add: stored_row_def)
  show "with_keys ?kvs ?row ! i = vals ! i"
  proof (cases "i \<in> key_idx t ` set (key_names t)")
    case True
    then obtain n where "n \<in> set (key_names t)" "i = key_idx t n" by blast
    then have "(i, vals ! i) \<in> set ?kvs" by (auto simp: key_value_def)
    with distinct_key_idx [OF assms(1)] i show ?thesis
      by (intro with_keys_at) (simp_all add: comp_def stored_row_def)
  next
    case False
    then have "with_keys ?kvs ?row ! i = ?row ! i" by (intro with_keys_other) (auto simp: image_iff)
    also have "\<dots> = vals ! i"
      using False i regular_or_key [OF assms(1) i] row_columns_fit(3) [OF assms] by (simp add: stored_row_def)
    finally show ?thesis .
  qed
qed

lemma length_encode_row:
  assumes "list_all (col_fits t) cs"
  shows "length (encode_row_columns cs) \<le> length cs * (2 ^ 31 + 6)"
proof -
  have "length (enc_col c) \<le> 2 ^ 31 + 6" if "col_fits t c" for c
    using that by (cases "snd c = VNull") (auto simp: enc_col_def to_wire_Null length_to_wire col_fits_def wire_sized_def)
  with assms show ?thesis unfolding encode_row_concat by (induction cs) fastforce+
qed

lemma row_columns_small:
  assumes "table_ok t" and "row_ok t vals"
  shows "length (encode_row_columns (row_columns t vals)) < 2 ^ 64"
proof -
  have "length (row_columns t vals) \<le> 2 ^ 16"
    using assms(1) by (auto simp: row_columns_def regular_indices_def table_ok_def intro: order_trans [OF length_filter_le])
  then have "length (row_columns t vals) * (2 ^ 31 + 6) \<le> 2 ^ 16 * (2 ^ 31 + 6)" by (rule mult_le_mono1)
  with length_encode_row [OF row_columns_fit(1) [OF assms]] show ?thesis by simp
qed

text \<open>Both projections of a point lookup return the row.\<close>

lemma project_point_row:
  assumes "table_ok t" and "row_ok t vals"
  defines "idxs \<equiv> map (key_idx t) (key_names t)" and "eqs \<equiv> map (\<lambda>n. (key_idx t n, key_value t vals n)) (key_names t)"
  shows "project_decoded t [0..<length (td_columns t)] eqs [] idxs (row_parts t vals) (encode_row_columns (row_columns t vals)) []
      = Ok (True, [vals])"
    and "length (key_names t) = 1 \<Longrightarrow>
      project_fast_point t [0..<length (td_columns t)] idxs (row_parts t vals) (encode_row_columns (row_columns t vals)) []
      = Some (Ok (True, [vals]))"
proof -
  note fit = row_columns_fit [OF assms(1,2)]
  have len: "length vals = length (td_columns t)" by (rule row_okD(1) [OF assms(2)])
  have keys: "key_fits t (key_idx t n, key_value t vals n)" if "n \<in> set (key_names t)" for n
    using that key_idx_ok(1) [OF assms(1)] row_okD(2,3) [OF assms(2)]
    by (auto simp: key_fits_def key_value_def conforms_def)
  have all: "map ((!) vals) [0..<length (td_columns t)] = vals" by (rule nth_equalityI) (simp_all add: len)
  have "project_decoded t [0..<length (td_columns t)] eqs [] (map fst eqs) (map (raw_bytes \<circ> snd) eqs)
      (encode_row_columns (row_columns t vals)) [] = Ok (True, [] @ [map ((!) (with_keys eqs (stored_row t (row_columns t vals)))) [0..<length (td_columns t)]])"
    using keys key_idx_ok(1) [OF assms(1)] row_okD(3) [OF assms(2)]
    by (intro project_decoded_row fit) (auto simp: eqs_def list_all_iff key_value_def restored_row [OF assms(1,2), unfolded key_value_def])
  then show "project_decoded t [0..<length (td_columns t)] eqs [] idxs (row_parts t vals) (encode_row_columns (row_columns t vals)) []
      = Ok (True, [vals])"
    by (simp add: eqs_def idxs_def row_parts_def comp_def restored_row [OF assms(1,2)] all)
  assume "length (key_names t) = 1"
  then obtain n where n: "key_names t = [n]" by (auto simp: length_Suc_conv)
  then have k: "key_fits t (key_idx t n, key_value t vals n)" using keys by simp
  have "(stored_row t (row_columns t vals))[key_idx t n := key_value t vals n] = vals"
    using restored_row [OF assms(1,2)] n by simp
  with fast_columns_row [OF fit(1) row_columns_small [OF assms(1,2)], of "key_idx t n" "key_value t vals n" "[0..<length (td_columns t)]"] k
  show "project_fast_point t [0..<length (td_columns t)] idxs (row_parts t vals) (encode_row_columns (row_columns t vals)) []
      = Some (Ok (True, [vals]))"
    by (simp add: project_fast_point_def idxs_def row_parts_def n key_fits_def all list_all_iff)
qed

text \<open>A SELECT of all columns by the full key is a point lookup of the stored row.\<close>

lemma exec_select_point:
  assumes "storage_wf L absm s" and "coherent absm s" and "good_table (ks, tb)" and "tb_view L absm s (ks, tb) = Some t"
    and "ks \<notin> set SYSTEM_KEYSPACES" and "table_ok t" and "row_ok t vals"
    and "row_view absm s (ks, tb, row_parts t vals) = Some data"
    and "quiet (st_engines s ! addr_engine s (ks, tb, row_parts t vals))"
  shows "snd (exec_select L session_ks (select_by_key ks tb t) (binds_new (map (\<lambda>n. bound (key_value t vals n)) (key_names t)))
      page_size paging_state s)
    = rbind (map_err internal_err (project_point t [0..<length (td_columns t)] (map (\<lambda>n. (key_idx t n, key_value t vals n)) (key_names t)) []
        (map (key_idx t) (key_names t)) (row_parts t vals) data))
        (\<lambda>out. Ok (RRows ks tb (map (\<lambda>c. (cd_name c, cd_type c)) (td_columns t)) (snd out) None))"
proof -
  let ?sel = "select_by_key ks tb t"
  let ?eqs = "map (\<lambda>n. (key_idx t n, key_value t vals n)) (key_names t)"
  obtain s' where s': "resolve_table L session_ks (table_name_of ks tb) s = (s', Ok (ks, t))" "storage_wf L absm s'"
      "st_engines s' = st_engines s" "st_row_cache s' = st_row_cache s"
    using resolve_table_ok [OF assms(1) target_keyspace_of assms(3,4)] by blast
  have name: "td_name t = tb" using tb_view_name [OF storage_wfD(4) [OF assms(1)] assms(3,4)] by simp
  have stub: "virtual_stub L session_ks ?sel s = (s, Ok None)"
    using assms(5) by (auto simp: virtual_stub_def select_by_key_def table_name_of_def SYSTEM_KEYSPACES_def)
  have sel: "select_columns t (sl_columns ?sel) = Ok (map (\<lambda>c. (cd_name c, cd_type c)) (td_columns t))"
    by (simp add: select_columns_def select_by_key_def)
  have filters: "snd (parse_filters L t (sl_where ?sel) (binds_new (map (\<lambda>n. bound (key_value t vals n)) (key_names t))))
      = Ok (map (\<lambda>n. FEq n (key_value t vals n)) (key_names t))"
    using parse_key_filters [OF assms(6,7), of "[]" "key_names t" L] by (simp add: select_by_key_def binds_new_def)
  have point: "point_key_of (map (\<lambda>n. FEq n (key_value t vals n)) (key_names t)) (key_names t) = Some (row_parts t vals)"
    using point_key [of "key_names t" "key_names t" "key_value t vals"] row_okD(3) [OF assms(7)] by (simp add: row_parts_def)
  have good: "good_row (ks, tb, row_parts t vals)"
    using assms(3) row_okD(3) [OF assms(7)] by (auto simp: good_row_def good_table_def row_parts_def list_all_iff)
  have s'v: "row_view absm s' = row_view absm s" "addr_engine s' = addr_engine s" using view_cong [OF s'(3)] by simp_all
  obtain s'' where s'': "get_row L ks tb (row_parts t vals) s' = (s'', Ok (Some data))"
    using get_row_ok [OF s'(2) good coherent_same [OF assms(2) s'(3,4)]] assms(8,9) s'(3) s'v by auto
  have "snd (select_point L ks t [0..<length (td_columns t)] ?eqs [] (map (key_idx t) (key_names t)) (row_parts t vals) s')
      = map_err internal_err (rbind (project_point t [0..<length (td_columns t)] ?eqs [] (map (key_idx t) (key_names t)) (row_parts t vals) data)
          (\<lambda>out. Ok (snd out)))"
    by (simp add: select_point_def name s'')
  moreover have "column_idxs t (map fst (map (\<lambda>c. (cd_name c, cd_type c)) (td_columns t))) = Ok [0..<length (td_columns t)]"
    using column_idxs_all [of t] assms(6) by (simp add: table_ok_def comp_def)
  moreover have "sl_table_name ?sel = table_name_of ks tb" by (simp add: select_by_key_def)
  ultimately show ?thesis
    using s'(1) stub sel filters point split_key_filters [OF assms(6), of "key_names t"] column_idxs_keys [OF assms(6)]
    by (cases "project_point t [0..<length (td_columns t)] ?eqs [] (map (key_idx t) (key_names t)) (row_parts t vals) data")
       (simp_all add: exec_select_def select_table_def select_rows_def snd_and_then finish_select_def name snd_and_then_stop del: map_map)
qed

lemma exec_select_row:
  assumes "storage_wf L absm s" and "coherent absm s" and "good_table (ks, tb)" and "tb_view L absm s (ks, tb) = Some t"
    and "ks \<notin> set SYSTEM_KEYSPACES" and "table_ok t" and "row_ok t vals"
    and "row_view absm s (ks, tb, row_parts t vals) = Some (encode_row_columns (row_columns t vals))"
    and "quiet (st_engines s ! addr_engine s (ks, tb, row_parts t vals))"
  shows "snd (exec_select L session_ks (select_by_key ks tb t) (binds_new (map (\<lambda>n. bound (key_value t vals n)) (key_names t)))
      page_size paging_state s)
    = Ok (RRows ks tb (map (\<lambda>c. (cd_name c, cd_type c)) (td_columns t)) [vals] None)"
proof -
  have "length (key_names t) = 1" if "td_clustering_keys t = []" "length (td_partition_keys t) = 1"
    using that by (simp add: key_names_def)
  then have "project_point t [0..<length (td_columns t)] (map (\<lambda>n. (key_idx t n, key_value t vals n)) (key_names t)) []
      (map (key_idx t) (key_names t)) (row_parts t vals) (encode_row_columns (row_columns t vals)) = Ok (True, [vals])"
    using project_point_row [OF assms(6,7)] by (simp add: project_point_def fast_lookup_def)
  with exec_select_point [OF assms] show ?thesis by simp
qed

text \<open>What an INSERT leaves: once its ticket is completed, the row is in the engine that the key selects.\<close>

lemma statement_insert_row:
  assumes "storage_wf L absm s" and "coherent absm s" and "good_table (ks, tb)" and "tb_view L absm s (ks, tb) = Some t"
    and "ks \<notin> set SYSTEM_KEYSPACES" and "table_ok t" and "row_ok t vals"
  shows "\<exists>s1 ticket.
    execute_statement L session_ks (SInsert (insert_full ks tb t)) (binds_new (map bound vals)) page_size paging_state s = (s1, Ok (RVoid, [ticket])) \<and>
    settles L [ticket] s1 (settle L s1) \<and>
    (\<forall>s2. settles L [ticket] s1 s2 \<longrightarrow>
       storage_wf L absm s2 \<and> coherent absm s2 \<and> tb_view L absm s2 = tb_view L absm s \<and> ks_view L absm s2 = ks_view L absm s \<and>
       row_view absm s2 (ks, tb, row_parts t vals) = Some (encode_row_columns (row_columns t vals)) \<and>
       quiet (st_engines s2 ! addr_engine s2 (ks, tb, row_parts t vals)))"
proof -
  let ?parts = "row_parts t vals"
  let ?data = "encode_row_columns (row_columns t vals)"
  obtain s' where s': "storage_wf L absm s'" "st_engines s' = st_engines s" "st_row_cache s' = st_row_cache s"
    "exec_insert L session_ks (insert_full ks tb t) (binds_new (map bound vals)) s =
      and_then (with_err internal_err (put_row ks tb ?parts ?data s')) (\<lambda>s ticket. (s, Ok (RVoid, [ticket])))"
    using exec_insert_full [OF assms(1,3-7)] by blast
  note views = view_cong [OF s'(2)]
  have good: "good_row (ks, tb, ?parts)"
    using assms(3) row_okD(3) [OF assms(7)] by (auto simp: good_row_def good_table_def row_parts_def list_all_iff)
  have coh: "coherent absm s'" by (rule coherent_same [OF assms(2) s'(2,3)])
  from put_row_ok [OF s'(1) good, of ?data] obtain s1 ticket where put: "put_row ks tb ?parts ?data s' = (s1, Ok ticket)"
    and s1: "storage_wf L absm s1" "ks_view L absm s1 = ks_view L absm s'" by (auto simp: row_update_def)
  have "settles L [ticket] s1 (settle L s1)"
    using settle_completes [OF s1(1), of "[ticket]"] queued_ticket [OF s'(1) put [unfolded put_row_queued]] by simp
  moreover have "ks_view L absm s2 = ks_view L absm s" if "settles L [ticket] s1 s2" for s2
    using that storage_steps_ok [of L s1 s2] s1 views by (simp add: settles_def)
  ultimately show ?thesis
    using s'(4) put put_row_settled [OF s'(1) coh good put] views
    by (intro exI [of _ s1] exI [of _ ticket]) (simp add: execute_statement_def)
qed

lemma statement_select_row:
  assumes "storage_wf L absm s" and "coherent absm s" and "good_table (ks, tb)" and "tb_view L absm s (ks, tb) = Some t"
    and "ks \<notin> set SYSTEM_KEYSPACES" and "table_ok t" and "row_ok t vals"
    and "row_view absm s (ks, tb, row_parts t vals) = Some (encode_row_columns (row_columns t vals))"
    and "quiet (st_engines s ! addr_engine s (ks, tb, row_parts t vals))"
  shows "snd (execute_statement L session_ks (SSelect (select_by_key ks tb t))
      (binds_new (map (\<lambda>n. bound (key_value t vals n)) (key_names t))) page_size paging_state s)
    = Ok (RRows ks tb (map (\<lambda>c. (cd_name c, cd_type c)) (td_columns t)) [vals] None, [])"
  using exec_select_row [OF assms] by (simp add: execute_statement_def ungated_def snd_and_then)

lemma statement_insert_select:
  assumes "storage_wf L absm s" and "coherent absm s" and "good_table (ks, tb)" and "tb_view L absm s (ks, tb) = Some t"
    and "ks \<notin> set SYSTEM_KEYSPACES" and "table_ok t" and "row_ok t vals"
  shows "\<exists>s1 ticket.
    execute_statement L session_ks (SInsert (insert_full ks tb t)) (binds_new (map bound vals)) page_size paging_state s = (s1, Ok (RVoid, [ticket])) \<and>
    settles L [ticket] s1 (settle L s1) \<and>
    (\<forall>s2. settles L [ticket] s1 s2 \<longrightarrow>
       snd (execute_statement L session_ks' (SSelect (select_by_key ks tb t))
         (binds_new (map (\<lambda>n. bound (key_value t vals n)) (key_names t))) page_size' paging_state' s2)
       = Ok (RRows ks tb (map (\<lambda>c. (cd_name c, cd_type c)) (td_columns t)) [vals] None, []))"
proof -
  from statement_insert_row [OF assms, of session_ks page_size paging_state] obtain s1 ticket where
    ins: "execute_statement L session_ks (SInsert (insert_full ks tb t)) (binds_new (map bound vals)) page_size paging_state s = (s1, Ok (RVoid, [ticket]))"
    "settles L [ticket] s1 (settle L s1)" and
    after: "\<And>s2. settles L [ticket] s1 s2 \<Longrightarrow> storage_wf L absm s2 \<and> coherent absm s2 \<and> tb_view L absm s2 = tb_view L absm s \<and>
       row_view absm s2 (ks, tb, row_parts t vals) = Some (encode_row_columns (row_columns t vals)) \<and>
       quiet (st_engines s2 ! addr_engine s2 (ks, tb, row_parts t vals))" by (elim exE conjE) simp
  have "snd (execute_statement L session_ks' (SSelect (select_by_key ks tb t))
         (binds_new (map (\<lambda>n. bound (key_value t vals n)) (key_names t))) page_size' paging_state' s2)
       = Ok (RRows ks tb (map (\<lambda>c. (cd_name c, cd_type c)) (td_columns t)) [vals] None, [])" if "settles L [ticket] s1 s2" for s2
    using after [OF that] assms(4) by (intro statement_select_row [where absm = absm, OF _ _ assms(3) _ assms(5-7)]) simp_all
  with ins show ?thesis by blast
qed

section \<open>Properties\<close>

text \<open>
  C9. End to end: a prepared INSERT that binds a value to every column of a table is accepted, and its write completes, and
  once it is acknowledged, under every schedule of the writer threads, a prepared SELECT by the key
  returns exactly that row, with the values the client bound. Null values are allowed outside the key;
  a key value must not be a NaN.
\<close>

theorem insert_then_select:
  assumes "storage_wf L absm s" and "coherent absm s" and "good_table (ks, tb)" and "tb_view L absm s (ks, tb) = Some t"
    and "ks \<notin> set SYSTEM_KEYSPACES" and "table_ok t" and "row_ok t vals"
  shows "\<exists>s1 ticket.
    execute_prepared L session_ks (SInsert (insert_full ks tb t)) (map bound vals) s = (s1, Ok (RVoid, [ticket])) \<and>
    settles L [ticket] s1 (settle L s1) \<and>
    (\<forall>s2. settles L [ticket] s1 s2 \<longrightarrow>
       snd (execute_prepared L session_ks' (SSelect (select_by_key ks tb t)) (map (\<lambda>n. bound (key_value t vals n)) (key_names t)) s2)
       = Ok (RRows ks tb (map (\<lambda>c. (cd_name c, cd_type c)) (td_columns t)) [vals] None, []))"
  unfolding execute_prepared_def by (rule statement_insert_select [OF assms])

text \<open>A new database with one table and no rows.\<close>

lemma table_storage:
  assumes "td_keyspace d = ks" and "td_name d = tb" and "good_table (ks, tb)"
  shows "\<exists>s. row_inv mem_libs fmlookup s \<and> tb_view mem_libs fmlookup s (ks, tb) = Some d \<and>
    (st_row_cache s = None \<longleftrightarrow> \<not> cache) \<and> (\<forall>r. row_view fmlookup s r = None)"
proof -
  let ?s0 = "fresh_storage 4 (fmempty :: (bytes, bytes) fmap) True cache"
  have inv: "row_inv mem_libs fmlookup ?s0" by (rule mem_fresh) simp_all
  with put_table_ok [of mem_libs fmlookup ?s0 d] assms
  obtain s where s: "storage_wf mem_libs fmlookup s"
    "\<forall>kt. good_table kt \<longrightarrow> tb_view mem_libs fmlookup s kt = (if kt = (ks, tb) then Some d else tb_view mem_libs fmlookup ?s0 kt)"
    "row_view fmlookup s = row_view fmlookup ?s0"
    "st_row_cache s = st_row_cache ?s0" "storage_quiet s"
    by (auto simp: row_inv_def)
  moreover have "coherent fmlookup s"
    using coherent_cong [of fmlookup ?s0 s] s inv by (simp add: row_inv_def)
  moreover have "\<forall>r. row_view fmlookup s r = None" using s(3) by (simp add: fresh_row_view fun_eq_iff)
  ultimately show ?thesis using assms(3) by (intro exI [of _ s]) (simp add: row_inv_def fresh_storage_def)
qed

lemma kv_storage:
  "\<exists>s. row_inv mem_libs fmlookup s \<and> tb_view mem_libs fmlookup s (''shop'', ''kv'') = Some kv_table \<and>
     st_row_cache s \<noteq> None \<and> (\<forall>r. row_view fmlookup s r = None)"
  using table_storage [of kv_table "''shop''" "''kv''" True] by (auto simp: kv_table_def good_table_def plain_name_def)

lemma kv_table_ok: "table_ok kv_table" and kv_row_ok: "row_ok kv_table [VInt 5, VText ''x'']"
  by (simp_all add: table_ok_def row_ok_def key_names_def is_regular_def key_value_def key_idx_def column_index_def conforms_def
      wire_sized_def kv_table_def to_be_bytes_def short_part_def utf8_valid_def utf8_check_def str_bytes_def)

theorem insert_then_select_witness:
  "\<exists>s s1 ticket.
     execute_prepared mem_libs None (SInsert (insert_full ''shop'' ''kv'' kv_table)) [bound (VInt 5), bound (VText ''x'')] s
       = (s1, Ok (RVoid, [ticket])) \<and>
     snd (execute_prepared mem_libs None (SSelect (select_by_key ''shop'' ''kv'' kv_table)) [bound (VInt 5)] (settle mem_libs s1))
       = Ok (RRows ''shop'' ''kv'' [(''k'', TInt), (''v'', TText)] [[VInt 5, VText ''x'']] None, [])"
proof -
  obtain s where s: "storage_wf mem_libs fmlookup s" "coherent fmlookup s" "tb_view mem_libs fmlookup s (''shop'', ''kv'') = Some kv_table"
    using kv_storage by (auto simp: row_inv_def)
  have good: "good_table (''shop'', ''kv'')" by (simp add: good_table_def plain_name_def)
  have "''shop'' \<notin> set SYSTEM_KEYSPACES" by (simp add: SYSTEM_KEYSPACES_def)
  from insert_then_select [OF s(1,2) good s(3) this kv_table_ok kv_row_ok, of None None]
  obtain s1 ticket where
    "execute_prepared mem_libs None (SInsert (insert_full ''shop'' ''kv'' kv_table)) (map bound [VInt 5, VText ''x'']) s
       = (s1, Ok (RVoid, [ticket]))"
    "snd (execute_prepared mem_libs None (SSelect (select_by_key ''shop'' ''kv'' kv_table))
        (map (\<lambda>n. bound (key_value kv_table [VInt 5, VText ''x''] n)) (key_names kv_table)) (settle mem_libs s1))
       = Ok (RRows ''shop'' ''kv'' (map (\<lambda>c. (cd_name c, cd_type c)) (td_columns kv_table)) [[VInt 5, VText ''x'']] None, [])"
    by blast
  moreover have "map (\<lambda>n. bound (key_value kv_table [VInt 5, VText ''x''] n)) (key_names kv_table) = [bound (VInt 5)]"
    "map (\<lambda>c. (cd_name c, cd_type c)) (td_columns kv_table) = [(''k'', TInt), (''v'', TText)]"
    by (simp_all add: key_names_def key_value_def key_idx_def column_index_def kv_table_def)
  ultimately show ?thesis by (intro exI [of _ s] exI [of _ s1] exI [of _ ticket]) simp
qed


section \<open>Scans\<close>

text \<open>What one stored entry contributes to the result of a scan.\<close>

definition entry_result ::
  "table_def \<Rightarrow> nat list \<Rightarrow> (nat \<times> cql_value) list \<Rightarrow> (nat \<times> cql_value list) list \<Rightarrow> nat list \<Rightarrow> string \<Rightarrow> bytes \<times> bytes
     \<Rightarrow> (bool \<times> cql_value list list) anyhow" where
  "entry_result t sel eqs ins kidx ks e =
     rbind (decode_key ks (td_name t) (fst e)) (\<lambda>parts. project_decoded t sel eqs ins kidx parts (snd e) [])"

definition entry_rows :: "(bool \<times> cql_value list list) anyhow \<Rightarrow> cql_value list list" where
  "entry_rows r = (case r of Ok (_, rows) \<Rightarrow> rows | _ \<Rightarrow> [])"

lemma project_decoded_append:
  "project_decoded t sel eqs ins kidx parts data out =
     rbind (project_decoded t sel eqs ins kidx parts data []) (\<lambda>(b, rows). Ok (b, out @ rows))"
  by (simp add: project_decoded_def rbind_assoc if_distrib [where f = "\<lambda>m. rbind m g" for g] cong: if_cong)

lemma entry_result_shape:
  assumes "entry_result t sel eqs ins kidx ks e = Ok (b, rows)"
  shows "length rows = (if b then 1 else 0)"
  using assms by (auto simp: entry_result_def project_decoded_def result_simps split: if_splits)

lemma scan_entry_ok:
  assumes "entry_result t sel eqs ins kidx ks (k, v) = Ok (b, rows)" and "length (sc_rows a) < pl"
  shows "scan_entry t sel eqs ins kidx ks None (Some pl) k v a =
    Ok (a\<lparr>sc_rows := sc_rows a @ rows, sc_done := sc_done a \<or> pl \<le> length (sc_rows a @ rows)\<rparr>, length (sc_rows a @ rows) < pl)"
proof -
  have "rbind (decode_key ks (td_name t) k) (\<lambda>parts. project_decoded t sel eqs ins kidx parts v (sc_rows a))
      = rbind (entry_result t sel eqs ins kidx ks (k, v)) (\<lambda>(b, rows). Ok (b, sc_rows a @ rows))"
    unfolding entry_result_def rbind_assoc by (subst project_decoded_append) simp
  with assms entry_result_shape [OF assms(1)] show ?thesis
    by (cases b) (auto simp: scan_entry_def handle_entry_def Let_def)
qed

text \<open>The callback as \<^verbatim>\<open>for_each_in_table\<close> wraps it, and a plain scan as its projection.\<close>

abbreviation (input) stopping :: "(bytes \<Rightarrow> bytes \<Rightarrow> 'a \<Rightarrow> ('a \<times> bool) anyhow) \<Rightarrow> bytes \<Rightarrow> bytes \<Rightarrow> 'a \<times> bool \<Rightarrow> (('a \<times> bool) \<times> bool) anyhow" where
  "stopping f \<equiv> \<lambda>k v (a, stop). rbind (f k v a) (\<lambda>(a, cont). Ok ((a, \<not> cont), cont))"

lemma entries_loop_stopping:
  "entries_loop f es a = (fst (fst (entries_loop (stopping f) es (a, b))), snd (entries_loop (stopping f) es (a, b)))"
  by (induction es arbitrary: a b) (auto split: result.split)

definition after_scan :: "nat \<Rightarrow> cql_value list list \<Rightarrow> scan_state \<Rightarrow> scan_state" where
  "after_scan pl rows a =
     a\<lparr>sc_rows := take pl (sc_rows a @ rows), sc_done := sc_done a \<or> pl \<le> length (sc_rows a @ rows)\<rparr>"

lemma entries_loop_take:
  assumes "\<forall>e\<in>set es. \<exists>r. entry_result t sel eqs ins kidx ks e = Ok r" and "length (sc_rows a) < pl"
  defines "rows \<equiv> concat (map (\<lambda>e. entry_rows (entry_result t sel eqs ins kidx ks e)) es)"
  shows "entries_loop (stopping (scan_entry t sel eqs ins kidx ks None (Some pl))) es (a, False)
    = ((after_scan pl rows a, pl \<le> length (sc_rows a @ rows)), Ok ())"
  using assms(1,2) unfolding rows_def
proof (induction es arbitrary: a)
  case Nil
  then show ?case by (simp add: after_scan_def)
next
  case (Cons e es)
  obtain k v where e: "e = (k, v)" by (cases e)
  from Cons.prems(1) obtain b rows where r: "entry_result t sel eqs ins kidx ks (k, v) = Ok (b, rows)"
    by (force simp: e)
  let ?a = "a\<lparr>sc_rows := sc_rows a @ rows, sc_done := sc_done a \<or> pl \<le> length (sc_rows a @ rows)\<rparr>"
  note step = scan_entry_ok [OF r Cons.prems(2)]
  show ?case
  proof (cases "length (sc_rows a @ rows) < pl")
    case True
    then show ?thesis
      using step Cons.IH [of ?a] Cons.prems(1) by (simp add: e r entry_rows_def after_scan_def)
  next
    case False
    with entry_result_shape [OF r] Cons.prems(2) have "length (sc_rows a @ rows) = pl" by (auto split: if_splits)
    with step show ?thesis by (auto simp: e r entry_rows_def after_scan_def)
  qed
qed

lemma entries_loop_take_plain:
  assumes "\<forall>e\<in>set es. \<exists>r. entry_result t sel eqs ins kidx ks e = Ok r" and "length (sc_rows a) < pl"
  shows "entries_loop (scan_entry t sel eqs ins kidx ks None (Some pl)) es a
    = (after_scan pl (concat (map (\<lambda>e. entry_rows (entry_result t sel eqs ins kidx ks e)) es)) a, Ok ())"
  using entries_loop_take [OF assms] entries_loop_stopping [of _ es a False] by simp

text \<open>The stored entries a scan visits, one list per partition or per engine.\<close>

definition partition_entries :: "'db libs \<Rightarrow> 'db storage \<Rightarrow> string \<Rightarrow> string \<Rightarrow> bytes list \<Rightarrow> (bytes \<times> bytes) list" where
  "partition_entries L s ks tb p =
     entries_of L (en_db (st_engines s ! data_engine (ndbs s) ks tb (first_part p))) (data_prefix ks tb @ encode_key p)"

definition engine_entries :: "'db libs \<Rightarrow> 'db storage \<Rightarrow> bytes \<Rightarrow> nat \<Rightarrow> (bytes \<times> bytes) list" where
  "engine_entries L s pfx i = entries_of L (en_db (st_engines s ! i)) pfx"

definition scan_segments ::
  "'db libs \<Rightarrow> 'db storage \<Rightarrow> string \<Rightarrow> table_def \<Rightarrow> filter list \<Rightarrow> (bytes \<times> bytes) list list" where
  "scan_segments L s ks t filters =
     (if pk_restricted t filters
      then map (partition_entries L s ks (td_name t)) (partitions_of t filters)
      else map (engine_entries L s (data_prefix ks (td_name t))) [0..<ndbs s])"

lemma after_scan_after:
  "length (sc_rows a @ xs) < pl \<Longrightarrow> after_scan pl ys (after_scan pl xs a) = after_scan pl (xs @ ys) a"
  by (simp add: after_scan_def)

lemma scan_partitions_take:
  fixes a :: scan_state
  assumes wf: "storage_wf L absm s"
    and "\<forall>p\<in>set ps. \<forall>e\<in>set (partition_entries L s ks (td_name t) p). \<exists>r. entry_result t sel eqs ins kidx ks e = Ok r"
    and "length (sc_rows a) < pl" and "sc_error a = None"
  shows "\<exists>a'. scan_partitions L s ks (td_name t) (scan_entry t sel eqs ins kidx ks None (Some pl)) (Some pl) ps a = Ok a' \<and>
    sc_rows a' = take pl (sc_rows a @ concat (map (\<lambda>e. entry_rows (entry_result t sel eqs ins kidx ks e)) (concat (map (partition_entries L s ks (td_name t)) ps)))) \<and>
    sc_last_key a' = sc_last_key a \<and> sc_error a' = None"
  using assms(2-4)
proof (induction ps arbitrary: a)
  case (Cons p ps)
  let ?f = "scan_entry t sel eqs ins kidx ks None (Some pl)"
  let ?rows = "\<lambda>es. concat (map (\<lambda>e. entry_rows (entry_result t sel eqs ins kidx ks e)) es)"
  let ?a = "after_scan pl (?rows (partition_entries L s ks (td_name t) p)) (a\<lparr>sc_done := False\<rparr>)"
  note wf' = storage_wfD [OF wf]
  have "data_engine (ndbs s) ks (td_name t) (first_part p) < ndbs s"
    using wf'(3) by (intro data_engine_less) (simp_all add: engines_wf_def)
  then have run: "for_each_in_partition L s ks (td_name t) p ?f (a\<lparr>sc_done := False\<rparr>) = (?a, Ok ())"
    using entries_loop_take_plain [of "partition_entries L s ks (td_name t) p" t sel eqs ins kidx ks "a\<lparr>sc_done := False\<rparr>" pl] Cons.prems
    by (simp add: for_each_in_partition_def for_each_on_engine_entries [OF wf'(1)] partition_entries_def)
  show ?case
  proof (cases "pl \<le> length (sc_rows a @ ?rows (partition_entries L s ks (td_name t) p))")
    case True
    then show ?thesis using run Cons.prems by (simp add: after_scan_def)
  next
    case False
    then have "\<exists>a'. scan_partitions L s ks (td_name t) ?f (Some pl) ps ?a = Ok a' \<and>
        sc_rows a' = take pl (sc_rows ?a @ ?rows (concat (map (partition_entries L s ks (td_name t)) ps))) \<and> sc_last_key a' = sc_last_key ?a \<and> sc_error a' = None"
      using Cons.prems by (intro Cons.IH) (simp_all add: after_scan_def)
    with False run Cons.prems show ?thesis by (simp add: after_scan_def)
  qed
qed simp

lemma table_loop_take:
  fixes a :: scan_state
  assumes wf: "rocks_ok L absm"
    and "\<forall>i\<in>set is. i < ndbs s \<and> (\<forall>e\<in>set (engine_entries L s pfx i). \<exists>r. entry_result t sel eqs ins kidx ks e = Ok r)"
    and "length (sc_rows a) < pl"
  shows "\<exists>a'. table_loop L s pfx (scan_entry t sel eqs ins kidx ks None (Some pl)) is a = (a', Ok ()) \<and>
    sc_rows a' = take pl (sc_rows a @ concat (map (\<lambda>e. entry_rows (entry_result t sel eqs ins kidx ks e)) (concat (map (engine_entries L s pfx) is)))) \<and>
    sc_last_key a' = sc_last_key a \<and> sc_error a' = sc_error a"
  using assms(2-3)
proof (induction "is" arbitrary: a)
  case (Cons i "is")
  let ?f = "scan_entry t sel eqs ins kidx ks None (Some pl)"
  let ?rows = "\<lambda>es. concat (map (\<lambda>e. entry_rows (entry_result t sel eqs ins kidx ks e)) es)"
  let ?a = "after_scan pl (?rows (engine_entries L s pfx i)) a"
  have run: "for_each_on_engine L s i pfx (stopping ?f) (a, False) = ((?a, pl \<le> length (sc_rows a @ ?rows (engine_entries L s pfx i))), Ok ())"
    using entries_loop_take [of "engine_entries L s pfx i" t sel eqs ins kidx ks a pl] Cons.prems
    by (simp add: for_each_on_engine_entries [OF wf] engine_entries_def)
  show ?case
  proof (cases "pl \<le> length (sc_rows a @ ?rows (engine_entries L s pfx i))")
    case True
    then show ?thesis using run by (simp add: after_scan_def)
  next
    case False
    then have "\<exists>a'. table_loop L s pfx ?f is ?a = (a', Ok ()) \<and>
        sc_rows a' = take pl (sc_rows ?a @ ?rows (concat (map (engine_entries L s pfx) is))) \<and> sc_last_key a' = sc_last_key ?a \<and> sc_error a' = sc_error ?a"
      using Cons.prems by (intro Cons.IH) (simp_all add: after_scan_def)
    with False run Cons.prems show ?thesis by (simp add: after_scan_def)
  qed
qed simp

text \<open>
  A scan gives what the entries it visits give, in the order in which the partitions (or the engines) are
  visited and by key within each, cut at the page limit; no paging state is left.
\<close>

lemma select_scan_entries:
  assumes "storage_wf L absm s" and "0 < pl"
    and "\<forall>e\<in>set (concat (scan_segments L s ks t filters)). \<exists>r. entry_result t sel eqs ins kidx ks e = Ok r"
  shows "\<exists>a. select_scan L ks t sel eqs ins kidx filters (Some pl) None s = Ok a \<and>
    sc_rows a = take pl (concat (map (\<lambda>e. entry_rows (entry_result t sel eqs ins kidx ks e))
                                   (concat (scan_segments L s ks t filters)))) \<and> sc_last_key a = None"
proof -
  let ?a = "\<lparr>sc_rows = [], sc_last_key = None, sc_error = None, sc_done = False\<rparr>"
  show ?thesis
  proof (cases "pk_restricted t filters")
    case True
    with scan_partitions_take [OF assms(1), of "partitions_of t filters" ks t sel eqs ins kidx ?a pl] assms(2,3)
    show ?thesis by (auto simp: select_scan_def scan_segments_def)
  next
    case False
    with table_loop_take [OF storage_wfD(1) [OF assms(1)], of "[0..<ndbs s]" s "data_prefix ks (td_name t)" t sel eqs ins kidx ks ?a pl] assms(2,3)
    show ?thesis by (auto simp: select_scan_def scan_segments_def for_each_in_table_def)
  qed
qed

text \<open>A database with rows of \<open>kv_table\<close>.\<close>

definition kv_key :: "i32 \<Rightarrow> bytes" where
  "kv_key i = row_key ''shop'' ''kv'' [raw_bytes (VInt i)]"

definition kv_data :: bytes where
  "kv_data = encode_row_columns [(1, VText ''x'')]"

lemma kv_entry:
  "entry_result kv_table [0, Suc 0] [] [] [0] ''shop'' (kv_key i, kv_data) = Ok (True, [[VInt i, VText ''x'']])"
proof -
  have "decode_key ''shop'' ''kv'' (kv_key i) = Ok [raw_bytes (VInt i)]"
    using full_key.dec_enc [of "[raw_bytes (VInt i)]" "data_prefix ''shop'' ''kv''"]
    by (simp add: decode_key_def kv_key_def row_key_def short_part_def)
  moreover have "key_fits kv_table (0, VInt i)" by (simp add: key_fits_def kv_table_def wire_sized_def)
  ultimately show ?thesis
    using project_decoded_row [OF kv_row_fits, of "[(0, VInt i)]" "[]" "[0, 1]" "[]"]
    by (simp add: entry_result_def kv_data_def stored_row_def stored_value_def kv_table_def comp_def)
qed

lemma kv_key_props: "prefix DT_PREFIX (kv_key i)" "prefix (data_prefix ''shop'' ''kv'') (kv_key i)"
  using addr_key_data [of "(''shop'', ''kv'', [raw_bytes (VInt i)])"] by (simp_all add: kv_key_def addr_key_def row_key_def)

section \<open>Page limits\<close>

lemma project_decoded_length:
  "project_decoded t sel eqs ins kidx parts data out = Ok (b, out') \<Longrightarrow> length out' = length out + (if b then 1 else 0)"
  by (auto simp: project_decoded_def result_simps split: if_splits)

definition page_open :: "nat \<Rightarrow> scan_state \<Rightarrow> bool" where
  "page_open pl a \<longleftrightarrow> sc_last_key a = None \<and> length (sc_rows a) < pl"

definition page_closed :: "nat \<Rightarrow> scan_state \<Rightarrow> bool" where
  "page_closed pl a \<longleftrightarrow> sc_last_key a = None \<and> length (sc_rows a) \<le> pl \<and> sc_done a"

lemma scan_entry_page:
  assumes "scan_entry t sel eqs ins kidx ks paging (Some pl) k v a = Ok (a', cont)" and "page_open pl a"
  shows "if cont then page_open pl a' else page_closed pl a'"
  using assms
  by (auto simp: scan_entry_def page_open_def page_closed_def handle_entry_def Let_def result_simps
      dest!: project_decoded_length split: if_splits option.splits result.splits prod.splits)

lemma scan_loop_inv:
  assumes "\<And>k v a a' c. P a \<Longrightarrow> f k v a = Ok (a', c) \<Longrightarrow> if c then P a' else Q a'"
  shows "P a \<Longrightarrow> scan_loop pfx f items a = (a', Ok ()) \<Longrightarrow> P a' \<or> Q a'"
proof (induction items arbitrary: a)
  case (Cons item items)
  then show ?case by (auto split: result.splits if_splits prod.splits dest!: assms)
qed simp

lemma for_each_on_engine_inv:
  assumes "\<And>k v a a' c. P a \<Longrightarrow> f k v a = Ok (a', c) \<Longrightarrow> if c then P a' else Q a'"
    and "P a" and "for_each_on_engine L s i pfx f a = (a', Ok ())"
  shows "P a' \<or> Q a'"
  using scan_loop_inv [of P f Q a pfx _ a'] assms by (auto simp: for_each_on_engine_def split: if_splits)

lemma scan_partitions_page:
  "scan_partitions L s ks tb (scan_entry t sel eqs ins kidx ks paging (Some pl)) (Some pl) ps a = Ok a' \<Longrightarrow> page_open pl a \<Longrightarrow>
     sc_last_key a' = None \<and> length (sc_rows a') \<le> pl"
proof (induction ps arbitrary: a)
  case (Cons p ps)
  let ?f = "scan_entry t sel eqs ins kidx ks paging (Some pl)"
  obtain b r where run: "for_each_in_partition L s ks tb p ?f (a\<lparr>sc_done := False\<rparr>) = (b, r)" by fastforce
  with Cons.prems(1) have r: "r = Ok ()" by (auto simp: result_simps)
  have "page_open pl b \<or> page_closed pl b"
    by (rule for_each_on_engine_inv [where P = "page_open pl" and f = ?f, OF scan_entry_page])
       (use run r Cons.prems(2) in \<open>auto simp: for_each_in_partition_def page_open_def\<close>)
  then show ?case
    using Cons.IH [of b] Cons.prems(1) run r
    by (auto simp: page_open_def page_closed_def split: if_splits)
qed (simp add: page_open_def)

lemma table_loop_page:
  "table_loop L s pfx (scan_entry t sel eqs ins kidx ks paging (Some pl)) is a = (a', Ok ()) \<Longrightarrow> page_open pl a \<Longrightarrow>
     sc_last_key a' = None \<and> length (sc_rows a') \<le> pl"
proof (induction "is" arbitrary: a)
  case (Cons i "is")
  let ?f = "scan_entry t sel eqs ins kidx ks paging (Some pl)"
  obtain b stop r where run: "for_each_on_engine L s i pfx (stopping ?f) (a, False) = ((b, stop), r)"
    by (cases "for_each_on_engine L s i pfx (stopping ?f) (a, False)") auto
  with Cons.prems(1) have r: "r = Ok ()" by (auto split: result.splits)
  have step: "if c then page_open pl (fst x') \<and> \<not> snd x' else page_closed pl (fst x') \<and> snd x'"
    if "page_open pl (fst x) \<and> \<not> snd x" "stopping ?f k v x = Ok (x', c)" for k v c and x x' :: "scan_state \<times> bool"
    using that scan_entry_page [of t sel eqs ins kidx ks paging pl k v "fst x" "fst x'" c]
    by (cases x; cases x'; cases "?f k v (fst x)") auto
  have "(page_open pl (fst (b, stop)) \<and> \<not> snd (b, stop)) \<or> (page_closed pl (fst (b, stop)) \<and> snd (b, stop))"
    using Cons.prems(2) run [unfolded r]
    by (intro for_each_on_engine_inv [where P = "\<lambda>x. page_open pl (fst x) \<and> \<not> snd x" and f = "stopping ?f"]) (rule step, auto)
  then show ?case
    using Cons.IH [of b] Cons.prems(1) run r by (auto simp: page_closed_def split: if_splits)
qed (simp add: page_open_def)

lemma select_scan_page:
  assumes "select_scan L ks t sel eqs ins kidx filters (Some pl) paging s = Ok a" and "0 < pl"
  shows "sc_last_key a = None \<and> length (sc_rows a) \<le> pl"
proof -
  have "page_open pl \<lparr>sc_rows = [], sc_last_key = None, sc_error = None, sc_done = False\<rparr>"
    using assms(2) by (simp add: page_open_def)
  with assms(1) show ?thesis
    by (auto simp: select_scan_def result_simps for_each_in_table_def Let_def split: if_splits option.splits prod.splits
        dest: scan_partitions_page table_loop_page)
qed

lemma select_point_one:
  assumes "snd (select_point L ks t sel eqs ins kidx parts s) = Ok rows"
  shows "length rows \<le> 1"
proof -
  have one: "length rows \<le> 1" if p: "project_point t sel eqs ins kidx parts data = Ok (b, rows)" for data b rows
  proof (cases "fast_lookup t eqs ins kidx")
    case True
    with p show ?thesis by (auto simp: project_point_def project_fast_point_def result_simps split: option.splits)
  qed (use p project_decoded_length in \<open>force simp: project_point_def\<close>)
  from assms obtain r where "(case r of None \<Rightarrow> Ok [] | Some data \<Rightarrow> map_err internal_err
      (rbind (project_point t sel eqs ins kidx parts data) (\<lambda>out. Ok (snd out)))) = Ok rows"
    unfolding select_point_def snd_and_then_Ok snd_conv by blast
  then show ?thesis by (cases r) (auto simp: result_simps dest: one)
qed

text \<open>
  C35. Every SELECT whose effective limit is not zero returns at most that many rows (or 5000 when the
  request has neither a page size nor a LIMIT), and its response never carries a paging state: a
  client whose result was cut at the page size is told that there is nothing more to fetch.
\<close>

theorem truncated_without_paging_state:
  assumes "snd (exec_select L session_ks sel b page_size paging_state s) = Ok (RRows ks tb cols rows next_state)"
    and "effective_page_limit page_size (sl_limit sel) \<noteq> Some 0"
  shows "next_state = None \<and> length rows \<le> (case effective_page_limit page_size (sl_limit sel) of Some l \<Rightarrow> l | None \<Rightarrow> hard_cap)"
proof -
  let ?eff = "effective_page_limit page_size (sl_limit sel)"
  let ?pl = "case ?eff of Some l \<Rightarrow> l | None \<Rightarrow> hard_cap"
  have pl: "0 < ?pl" using assms(2) by (cases ?eff) (auto simp: hard_cap_def)
  have some: "(case ?eff of Some l \<Rightarrow> Some l | None \<Rightarrow> Some hard_cap) = Some ?pl" by (cases ?eff) simp_all
  have rows: "st = None \<and> length rows \<le> ?pl"
    if "snd (select_rows L ks t sel eqs ins kidx filters page_size ?eff paging s') = Ok (rows, st)"
    for ks t sel eqs ins kidx filters paging rows st and s' :: "'a storage"
  proof (cases "point_key_of filters (key_names t)")
    case None
    with that obtain a where a: "select_scan L ks t sel eqs ins kidx filters (Some ?pl) paging s' = Ok a"
      "rows = sc_rows a" "st = next_paging_state page_size ?eff a"
      by (auto simp: select_rows_def some result_simps)
    with select_scan_page [OF a(1) pl] show ?thesis by (simp add: next_paging_state_def Let_def)
  next
    case (Some parts)
    with that select_point_one pl show ?thesis by (fastforce simp: select_rows_def result_simps)
  qed
  show ?thesis
  proof (cases "snd (virtual_stub L session_ks sel s)")
    case (Ok stub)
    show ?thesis
    proof (cases stub)
      case (Some r)
      with Ok assms(1) show ?thesis
        by (auto simp: exec_select_def snd_and_then virtual_stub_def result_simps Let_def split: if_splits)
    next
      case None
      with Ok assms(1) have "snd (select_table L session_ks sel b page_size paging_state (fst (virtual_stub L session_ks sel s)))
          = Ok (RRows ks tb cols rows next_state)"
        by (simp add: exec_select_def snd_and_then)
      then show ?thesis
        by (auto simp: select_table_def finish_select_def result_simps dest!: rows)
    qed
  qed (use assms(1) in \<open>auto simp: exec_select_def result_simps\<close>)
qed


definition kv_select :: select_ast where
  "kv_select = \<lparr>sl_table_name = table_name_of ''shop'' ''kv'', sl_columns = [SelStar], sl_where = [], sl_limit = None\<rparr>"

definition two_rows :: "(bytes, bytes) fmap storage" where
  "two_rows = (fresh_storage 1 (fmupd (kv_key 1) kv_data (fmupd (kv_key 2) kv_data fmempty)) True True)
     \<lparr>st_tables := [(''shop'', ''kv'') \<mapsto> kv_table]\<rparr>"

lemma kv_scan_one:
  "\<exists>rows. snd (exec_select mem_libs None kv_select binds_none (Some 1) None two_rows)
      = Ok (RRows ''shop'' ''kv'' [(''k'', TInt), (''v'', TText)] rows None) \<and> length rows = 1"
proof -
  let ?db = "fmupd (kv_key 1) kv_data (fmupd (kv_key 2) kv_data fmempty)"
  let ?a = "\<lparr>sc_rows = [], sc_last_key = None, sc_error = None, sc_done = False\<rparr>"
  let ?es = "engine_entries mem_libs two_rows (data_prefix ''shop'' ''kv'') 0"
  have "set ?es = {(k, v). fmlookup ?db k = Some v \<and> prefix (data_prefix ''shop'' ''kv'') k}"
    using entries_of_spec(2) [OF mem_rocks_ok] by (simp add: engine_entries_def two_rows_def fresh_storage_def new_engine_def)
  then have es: "set ?es = {(kv_key 1, kv_data), (kv_key 2, kv_data)}"
    using kv_key_props(2) by (auto split: if_splits)
  then obtain e es where cons: "?es = e # es" "e \<in> {(kv_key 1, kv_data), (kv_key 2, kv_data)}"
    by (cases ?es) auto
  from cons(2) have "length (entry_rows (entry_result kv_table [0, 1] [] [] [0] ''shop'' e)) = 1"
    by (auto simp: kv_entry entry_rows_def)
  moreover have n: "ndbs two_rows = 1" by (simp add: two_rows_def fresh_storage_def)
  then have "\<forall>i\<in>set [0..<1]. i < ndbs two_rows \<and> (\<forall>e\<in>set (engine_entries mem_libs two_rows (data_prefix ''shop'' ''kv'') i).
      \<exists>r. entry_result kv_table [0, 1] [] [] [0] ''shop'' e = Ok r)"
    using es n by (simp add: kv_entry)
  ultimately obtain a where a: "table_loop mem_libs two_rows (data_prefix ''shop'' ''kv'')
      (scan_entry kv_table [0, 1] [] [] [0] ''shop'' None (Some 1)) [0..<1] ?a = (a, Ok ())"
    "length (sc_rows a) = 1" "sc_last_key a = None" "sc_error a = None"
    using table_loop_take [OF mem_rocks_ok, of "[0..<1]" two_rows "data_prefix ''shop'' ''kv''" kv_table "[0, 1]" "[]" "[]" "[0]" "''shop''" ?a 1] cons(1)
    by (auto simp: min_def)
  have kv: "map (\<lambda>c. (cd_name c, cd_type c)) (td_columns kv_table) = [(''k'', TInt), (''v'', TText)]" "td_name kv_table = ''kv''"
    "key_names kv_table = [''k'']"
    by (simp_all add: kv_table_def key_names_def)
  have npk: "\<not> pk_restricted kv_table []" by (simp add: pk_restricted_def kv_table_def)
  have scan: "select_scan mem_libs ''shop'' kv_table [0, 1] [] [] [0] [] (Some 1) None two_rows = Ok a"
    unfolding select_scan_def for_each_in_table_def n kv Let_def a(1) using a(4) by (simp add: npk)
  have tab: "get_table mem_libs ''shop'' ''kv'' two_rows = (two_rows, Ok (Some kv_table))"
    by (simp add: get_table_def two_rows_def)
  have idx: "column_idxs kv_table [''k'', ''v''] = Ok [0, 1]" "column_idxs kv_table (key_names kv_table) = Ok [0]"
    by (simp_all add: column_idxs_def column_index_def key_names_def kv_table_def)
  have "virtual_stub mem_libs None kv_select two_rows = (two_rows, Ok None)"
    by (simp add: virtual_stub_def kv_select_def table_name_of_def)
  then have "snd (exec_select mem_libs None kv_select binds_none (Some 1) None two_rows)
      = Ok (RRows ''shop'' ''kv'' [(''k'', TInt), (''v'', TText)] (sc_rows a) None)"
    using scan idx a(3)
    by (simp add: exec_select_def select_table_def resolve_table_def kv_select_def tab select_columns_def kv select_rows_def
        effective_page_limit_def as_usize_def finish_select_def next_paging_state_def del: map_map)
  with a(2) show ?thesis by blast
qed

theorem truncated_without_paging_state_witness:
  "\<exists>rows next_state. snd (exec_select mem_libs None kv_select binds_none (Some 1) None two_rows)
      = Ok (RRows ''shop'' ''kv'' [(''k'', TInt), (''v'', TText)] rows next_state) \<and>
     length rows = 1 \<and> length rows \<le> 1 \<and> next_state = None"
proof -
  from kv_scan_one obtain rows where
    r: "snd (exec_select mem_libs None kv_select binds_none (Some 1) None two_rows)
      = Ok (RRows ''shop'' ''kv'' [(''k'', TInt), (''v'', TText)] rows None)" "length rows = 1" by blast
  have "effective_page_limit (Some 1) (sl_limit kv_select) = Some 1"
    by (simp add: effective_page_limit_def kv_select_def as_usize_def)
  with truncated_without_paging_state [OF r(1)] r show ?thesis by auto
qed

end
