(* ===== verification/SystemSpec.thy ===== *)
theory SystemSpec
  imports SystemTables QuerySpec
begin

text \<open>
  What opening a database promises: a new database has the system keyspaces and tables, a restart
  finds every keyspace, table and row where it was, and CREATE TABLE works on what was seeded.
\<close>

declare split_paired_All [simp del] split_paired_Ex [simp del]

section \<open>Metadata operations on a quiet storage\<close>

lemma row_inv_cong:
  assumes "row_inv L absm s" and "storage_wf L absm s'" and "row_view absm s' = row_view absm s"
    and "st_row_cache s' = st_row_cache s" and "storage_quiet s'"
  shows "row_inv L absm s'"
  using assms coherent_cong [of absm s s'] by (simp add: row_inv_def)

lemma put_table_inv:
  assumes "row_inv L absm s" and "good_table (td_keyspace d, td_name d)"
  shows "\<exists>s'. put_table L d s = (s', Ok ()) \<and> row_inv L absm s' \<and>
    (\<forall>kt. good_table kt \<longrightarrow> tb_view L absm s' kt = (if kt = (td_keyspace d, td_name d) then Some d else tb_view L absm s kt)) \<and>
    ks_view L absm s' = ks_view L absm s \<and> row_view absm s' = row_view absm s"
proof -
  from assms(1) have "storage_wf L absm s" and q: "storage_quiet s" by (simp_all add: row_inv_def)
  from put_table_ok [OF this(1) assms(2)] q row_inv_cong [OF assms(1)] show ?thesis by metis
qed

lemma put_keyspace_inv:
  assumes "row_inv L absm s"
  shows "\<exists>s'. put_keyspace L d s = (s', Ok ()) \<and> row_inv L absm s' \<and>
    ks_view L absm s' = (ks_view L absm s)(kd_name d \<mapsto> d) \<and> tb_view L absm s' = tb_view L absm s \<and>
    row_view absm s' = row_view absm s"
proof -
  from assms have "storage_wf L absm s" and q: "storage_quiet s" by (simp_all add: row_inv_def)
  from put_keyspace_ok [OF this(1)] q row_inv_cong [OF assms] show ?thesis by metis
qed

lemma get_keyspace_inv:
  assumes "row_inv L absm s"
  shows "\<exists>s'. get_keyspace L n s = (s', Ok (ks_view L absm s n)) \<and> row_inv L absm s' \<and> st_engines s' = st_engines s"
proof -
  from assms have "storage_wf L absm s" and q: "storage_quiet s" by (simp_all add: row_inv_def)
  from get_keyspace_ok [OF this(1)] obtain s' where s': "get_keyspace L n s = (s', Ok (ks_view L absm s n))"
    "storage_wf L absm s'" "st_engines s' = st_engines s" "st_row_cache s' = st_row_cache s" by blast
  moreover have "storage_quiet s'" using q s'(3) by (simp add: storage_quiet_def)
  ultimately show ?thesis using row_inv_cong [OF assms s'(2)] view_cong [OF s'(3)] by blast
qed

lemma put_row_sync_inv:
  assumes "row_inv L absm s" and "good_row (ks, tb, parts)"
  shows "\<exists>s'. put_row_sync L ks tb parts v s = (s', Ok ()) \<and> row_inv L absm s' \<and>
    ks_view L absm s' = ks_view L absm s \<and> tb_view L absm s' = tb_view L absm s \<and>
    (\<forall>r. good_row r \<longrightarrow> row_view absm s' r = (if r = (ks, tb, parts) then Some v else row_view absm s r))"
proof -
  from assms(1) have s: "storage_wf L absm s" "storage_quiet s" "coherent absm s" by (simp_all add: row_inv_def)
  have "quiet (st_engines s ! addr_engine s (ks, tb, parts))"
    by (rule quiet_nth [OF s(2) addr_engine_less [OF storage_wfD(3) [OF s(1)]]])
  from put_row_sync_ok [OF s(1) assms(2) this, of v] s show ?thesis
    unfolding row_update_def row_inv_def by blast
qed

text \<open>Storing several tables.\<close>

lemma put_tables_inv:
  assumes "row_inv L absm s" and "\<forall>d\<in>set ds. good_table (td_keyspace d, td_name d)"
    and "distinct (map (\<lambda>d. (td_keyspace d, td_name d)) ds)"
  shows "\<exists>s'. for_each_s (put_table L) ds s = (s', Ok ()) \<and> row_inv L absm s' \<and>
    (\<forall>d\<in>set ds. tb_view L absm s' (td_keyspace d, td_name d) = Some d) \<and>
    (\<forall>kt. good_table kt \<longrightarrow> kt \<notin> (\<lambda>d. (td_keyspace d, td_name d)) ` set ds \<longrightarrow> tb_view L absm s' kt = tb_view L absm s kt) \<and>
    ks_view L absm s' = ks_view L absm s \<and> row_view absm s' = row_view absm s"
  using assms
proof (induction ds arbitrary: s)
  case (Cons d ds)
  have good: "good_table (td_keyspace d, td_name d)" using Cons.prems(2) by simp
  from put_table_inv [OF Cons.prems(1) good] obtain s1 where
    s1: "put_table L d s = (s1, Ok ())" "row_inv L absm s1"
      "\<forall>kt. good_table kt \<longrightarrow> tb_view L absm s1 kt = (if kt = (td_keyspace d, td_name d) then Some d else tb_view L absm s kt)"
      "ks_view L absm s1 = ks_view L absm s" "row_view absm s1 = row_view absm s" by blast
  from Cons.IH [OF s1(2)] Cons.prems obtain s2 where
    s2: "for_each_s (put_table L) ds s1 = (s2, Ok ())" "row_inv L absm s2"
      "\<forall>d\<in>set ds. tb_view L absm s2 (td_keyspace d, td_name d) = Some d"
      "\<forall>kt. good_table kt \<longrightarrow> kt \<notin> (\<lambda>d. (td_keyspace d, td_name d)) ` set ds \<longrightarrow> tb_view L absm s2 kt = tb_view L absm s1 kt"
      "ks_view L absm s2 = ks_view L absm s1" "row_view absm s2 = row_view absm s1" by auto
  have "tb_view L absm s2 (td_keyspace d, td_name d) = Some d"
    using s2(4) s1(3) good Cons.prems(3) by simp
  moreover have "tb_view L absm s2 kt = tb_view L absm s kt"
    if "good_table kt" "kt \<notin> (\<lambda>d. (td_keyspace d, td_name d)) ` set (d # ds)" for kt
    using s2(4) s1(3) that by simp
  ultimately show ?case using s1 s2 by (intro exI [of _ s2]) simp
qed simp


section \<open>Seeding\<close>

abbreviation table_id :: "table_def \<Rightarrow> string \<times> string" where
  "table_id d \<equiv> (td_keyspace d, td_name d)"

definition system_tables :: "table_def list" where
  "system_tables = [sys_local_def, sys_peers_def] @ sys_schema_defs @ [vs_keyspaces_def]"

lemmas system_defs = sys_local_def_def sys_peers_def_def schema_keyspaces_def_def schema_tables_def_def schema_columns_def_def
  schema_indexes_def_def schema_triggers_def_def schema_types_def_def schema_functions_def_def schema_aggregates_def_def
  schema_views_def_def vs_keyspaces_def_def

lemma system_table_ids:
  "table_id sys_local_def = (''system'', ''local'')" "table_id sys_peers_def = (''system'', ''peers'')"
  "map table_id sys_schema_defs = map (Pair ''system_schema'') [''keyspaces'', ''tables'', ''columns'', ''indexes'', ''triggers'',
     ''types'', ''functions'', ''aggregates'', ''views'']"
  "table_id vs_keyspaces_def = (''system_virtual_schema'', ''keyspaces'')"
  by (simp_all add: sys_schema_defs_def system_defs)

lemma plain_system_names:
  "\<forall>n\<in>set [''system'', ''system_schema'', ''system_virtual_schema'', ''local'', ''peers'', ''keyspaces'', ''tables'', ''columns'', ''indexes'',
     ''triggers'', ''types'', ''functions'', ''aggregates'', ''views'']. plain_name n"
  by (simp add: plain_name_def)

lemma good_system_tables: "d \<in> set system_tables \<Longrightarrow> good_table (table_id d)"
  and distinct_system_tables: "distinct (map table_id system_tables)"
proof -
  have ids: "map table_id system_tables = (''system'', ''local'') # (''system'', ''peers'') #
    map (Pair ''system_schema'') [''keyspaces'', ''tables'', ''columns'', ''indexes'', ''triggers'', ''types'', ''functions'', ''aggregates'', ''views'']
    @ [(''system_virtual_schema'', ''keyspaces'')]"
    using system_table_ids by (simp add: system_tables_def)
  show "distinct (map table_id system_tables)" unfolding ids by simp
  assume "d \<in> set system_tables"
  then have "table_id d \<in> set (map table_id system_tables)" by simp
  then show "good_table (table_id d)" unfolding ids using plain_system_names by (auto simp: good_table_def)
qed

text \<open>What one stage of the seeding does to the storage: it adds the keyspace, the tables and the rows.\<close>

definition seeded ::
  "'db libs \<Rightarrow> ('db \<Rightarrow> kv) \<Rightarrow> 'db storage \<Rightarrow> table_def list \<Rightarrow> (row_addr \<rightharpoonup> bytes) \<Rightarrow> 'db storage \<Rightarrow> bool" where
  "seeded L absm s ds rs s' \<longleftrightarrow>
     row_inv L absm s' \<and>
     (\<forall>d\<in>set ds. tb_view L absm s' (table_id d) = Some d) \<and>
     (\<forall>kt. good_table kt \<longrightarrow> kt \<notin> table_id ` set ds \<longrightarrow> tb_view L absm s' kt = tb_view L absm s kt) \<and>
     (\<forall>r. good_row r \<longrightarrow> row_view absm s' r = (row_view absm s ++ rs) r)"

lemma seeded_trans:
  assumes "seeded L absm s ds rs s1" and "seeded L absm s1 ds' rs' s2"
    and "table_id ` set ds \<inter> table_id ` set ds' = {}" and "\<forall>d\<in>set ds. good_table (table_id d)"
  shows "seeded L absm s (ds @ ds') (rs ++ rs') s2"
proof -
  have "tb_view L absm s2 (table_id d) = Some d" if "d \<in> set ds" for d
  proof -
    from that assms(3) have "table_id d \<notin> table_id ` set ds'" by blast
    with that assms(1,2,4) show ?thesis by (simp add: seeded_def)
  qed
  moreover have "tb_view L absm s2 kt = tb_view L absm s kt"
    if "good_table kt" "kt \<notin> table_id ` set (ds @ ds')" for kt
    using that assms(1,2) by (simp add: seeded_def image_Un)
  ultimately show ?thesis using assms(1,2) by (auto simp: seeded_def map_add_def split: option.split)
qed

lemma seed_tables:
  assumes "row_inv L absm s" and "\<forall>d\<in>set ds. good_table (table_id d)" and "distinct (map table_id ds)"
  shows "\<exists>s'. for_each_s (put_table L) ds s = (s', Ok ()) \<and> seeded L absm s ds Map.empty s' \<and> ks_view L absm s' = ks_view L absm s"
  using put_tables_inv [OF assms] by (auto simp: seeded_def)

definition local_addr :: row_addr where
  "local_addr = (''system'', ''local'', [str_bytes ''local''])"

definition local_data :: "'db host \<Rightarrow> bytes" where
  "local_data H = encode_row_columns (local_row (ho_host_id H) (ho_schema_version H))"

lemma good_local: "good_row local_addr"
  by (simp add: good_row_def local_addr_def plain_name_def short_part_def)

lemma seed_local_ok:
  assumes "row_inv L absm s"
  shows "\<exists>s'. seed_local L H s = (s', Ok ()) \<and> seeded L absm s [sys_local_def, sys_peers_def] [local_addr \<mapsto> local_data H] s' \<and>
    ks_view L absm s' = ks_view L absm s"
proof -
  have g: "good_table (table_id sys_local_def)" "good_table (table_id sys_peers_def)"
    using good_system_tables by (simp_all add: system_tables_def)
  have ne: "td_name sys_peers_def \<noteq> td_name sys_local_def" by (simp add: system_defs)
  from put_table_inv [OF assms g(1)] obtain s1 where s1: "put_table L sys_local_def s = (s1, Ok ())" "row_inv L absm s1"
    "\<forall>kt. good_table kt \<longrightarrow> tb_view L absm s1 kt = (if kt = table_id sys_local_def then Some sys_local_def else tb_view L absm s kt)"
    "ks_view L absm s1 = ks_view L absm s" "row_view absm s1 = row_view absm s" by blast
  from put_row_sync_inv [OF s1(2) good_local [unfolded local_addr_def], of "local_data H"] obtain s2 where
    s2: "put_row_sync L ''system'' ''local'' [str_bytes ''local''] (local_data H) s1 = (s2, Ok ())" "row_inv L absm s2"
      "ks_view L absm s2 = ks_view L absm s1" "tb_view L absm s2 = tb_view L absm s1"
      "\<forall>r. good_row r \<longrightarrow> row_view absm s2 r = (if r = local_addr then Some (local_data H) else row_view absm s1 r)"
    unfolding local_addr_def by blast
  from put_table_inv [OF s2(2) g(2)] obtain s3 where s3: "put_table L sys_peers_def s2 = (s3, Ok ())" "row_inv L absm s3"
    "\<forall>kt. good_table kt \<longrightarrow> tb_view L absm s3 kt = (if kt = table_id sys_peers_def then Some sys_peers_def else tb_view L absm s2 kt)"
    "ks_view L absm s3 = ks_view L absm s2" "row_view absm s3 = row_view absm s2" by blast
  have "seeded L absm s [sys_local_def, sys_peers_def] [local_addr \<mapsto> local_data H] s3"
    using s1 s2 s3 g ne ne [symmetric] by (simp add: seeded_def map_add_def)
  moreover have "seed_local L H s = (s3, Ok ())"
    using s1(1) s2(1) s3(1) by (simp add: seed_local_def local_data_def)
  ultimately show ?thesis using s1(4) s2(3) s3(4) by auto
qed


lemma seed_keyspace_new:
  assumes "row_inv L absm s" and "ks_view L absm s name = None"
    and seed: "\<And>s. row_inv L absm s \<Longrightarrow> \<exists>s'. seed s = (s', Ok ()) \<and> seeded L absm s ds rs s' \<and> ks_view L absm s' = ks_view L absm s"
  shows "\<exists>s'. seed_keyspace L name seed s = (s', Ok ()) \<and> seeded L absm s ds rs s' \<and>
    ks_view L absm s' = (ks_view L absm s)(name \<mapsto> \<lparr>kd_name = name, kd_replication = []\<rparr>)"
proof -
  let ?d = "\<lparr>kd_name = name, kd_replication = []\<rparr>"
  from get_keyspace_inv [OF assms(1), of name] assms(2) obtain s1 where
    s1: "get_keyspace L name s = (s1, Ok None)" "row_inv L absm s1" "st_engines s1 = st_engines s" by auto
  from put_keyspace_inv [OF s1(2), of ?d] obtain s2 where s2: "put_keyspace L ?d s1 = (s2, Ok ())" "row_inv L absm s2"
    "ks_view L absm s2 = (ks_view L absm s1)(name \<mapsto> ?d)" "tb_view L absm s2 = tb_view L absm s1" "row_view absm s2 = row_view absm s1"
    by auto
  from seed [OF s2(2)] obtain s3 where s3: "seed s2 = (s3, Ok ())" "seeded L absm s2 ds rs s3" "ks_view L absm s3 = ks_view L absm s2" by blast
  have "seed_keyspace L name seed s = (s3, Ok ())" using s1(1) s2(1) s3(1) by (simp add: seed_keyspace_def)
  moreover have "seeded L absm s ds rs s3" using s3(2) s2(4,5) view_cong [OF s1(3)] by (simp add: seeded_def)
  ultimately show ?thesis using s3(3) s2(3) view_cong [OF s1(3)] by auto
qed

lemma seed_keyspace_old:
  assumes "row_inv L absm s" and "ks_view L absm s name \<noteq> None"
  shows "\<exists>s'. seed_keyspace L name seed s = (s', Ok ()) \<and> row_inv L absm s' \<and> st_engines s' = st_engines s"
  using get_keyspace_inv [OF assms(1), of name] assms(2) by (auto simp: seed_keyspace_def)

lemma and_then_unit: "and_then m (\<lambda>s _. (s, Ok ())) = m"
  by (cases m; cases "snd m") auto

lemma seed_system_new:
  assumes "row_inv L absm s" and "\<forall>n\<in>set SYSTEM_KEYSPACES. ks_view L absm s n = None"
  shows "\<exists>s'. seed_system L H s = (s', Ok ()) \<and> seeded L absm s system_tables [local_addr \<mapsto> local_data H] s' \<and>
    (\<forall>n\<in>set SYSTEM_KEYSPACES. ks_view L absm s' n \<noteq> None) \<and>
    (\<forall>n. n \<notin> set SYSTEM_KEYSPACES \<longrightarrow> ks_view L absm s' n = ks_view L absm s n)"
proof -
  note dist = distinct_system_tables [unfolded system_tables_def]
  have good: "\<forall>d\<in>set system_tables. good_table (table_id d)" using good_system_tables by blast
  from seed_keyspace_new [OF assms(1) _ seed_local_ok, of "''system''" H] assms(2) obtain s1 where
    s1: "seed_keyspace L ''system'' (seed_local L H) s = (s1, Ok ())"
      "seeded L absm s [sys_local_def, sys_peers_def] [local_addr \<mapsto> local_data H] s1"
      "ks_view L absm s1 = (ks_view L absm s)(''system'' \<mapsto> \<lparr>kd_name = ''system'', kd_replication = []\<rparr>)"
    by (auto simp: SYSTEM_KEYSPACES_def)
  from s1(2) have i1: "row_inv L absm s1" by (simp add: seeded_def)
  have g2: "\<forall>d\<in>set sys_schema_defs. good_table (table_id d)" "distinct (map table_id sys_schema_defs)"
    using good dist by (simp_all add: system_tables_def)
  have "ks_view L absm s1 ''system_schema'' = None" using s1(3) assms(2) by (simp add: SYSTEM_KEYSPACES_def)
  from seed_keyspace_new [OF i1 this seed_tables [OF _ g2]] obtain s2 where
    s2: "seed_keyspace L ''system_schema'' (for_each_s (put_table L) sys_schema_defs) s1 = (s2, Ok ())"
      "seeded L absm s1 sys_schema_defs Map.empty s2"
      "ks_view L absm s2 = (ks_view L absm s1)(''system_schema'' \<mapsto> \<lparr>kd_name = ''system_schema'', kd_replication = []\<rparr>)"
    by auto
  from s2(2) have i2: "row_inv L absm s2" by (simp add: seeded_def)
  have g3: "\<forall>d\<in>set [vs_keyspaces_def]. good_table (table_id d)" "distinct (map table_id [vs_keyspaces_def])"
    using good by (simp_all add: system_tables_def)
  have one: "put_table L vs_keyspaces_def = for_each_s (put_table L) [vs_keyspaces_def]"
    by (rule ext) (simp add: and_then_unit)
  have "ks_view L absm s2 ''system_virtual_schema'' = None" using s1(3) s2(3) assms(2) by (simp add: SYSTEM_KEYSPACES_def)
  from seed_keyspace_new [OF i2 this seed_tables [OF _ g3]] obtain s3 where
    s3: "seed_keyspace L ''system_virtual_schema'' (put_table L vs_keyspaces_def) s2 = (s3, Ok ())"
      "seeded L absm s2 [vs_keyspaces_def] Map.empty s3"
      "ks_view L absm s3 = (ks_view L absm s2)(''system_virtual_schema'' \<mapsto> \<lparr>kd_name = ''system_virtual_schema'', kd_replication = []\<rparr>)"
    unfolding one [symmetric] by auto
  have "seeded L absm s ([sys_local_def, sys_peers_def] @ sys_schema_defs) ([local_addr \<mapsto> local_data H] ++ Map.empty) s2"
    using dist good by (intro seeded_trans [OF s1(2) s2(2)]) (auto simp: system_tables_def)
  then have "seeded L absm s (([sys_local_def, sys_peers_def] @ sys_schema_defs) @ [vs_keyspaces_def])
      (([local_addr \<mapsto> local_data H] ++ Map.empty) ++ Map.empty) s3"
    using dist good by (intro seeded_trans [OF _ s3(2)]) (auto simp: system_tables_def)
  then show ?thesis
    using s1(1,3) s2(1,3) s3(1,3) by (auto simp: seed_system_def system_tables_def SYSTEM_KEYSPACES_def)
qed

lemma seed_system_old:
  assumes "row_inv L absm s" and "\<forall>n\<in>set SYSTEM_KEYSPACES. ks_view L absm s n \<noteq> None"
  shows "\<exists>s'. seed_system L H s = (s', Ok ()) \<and> row_inv L absm s' \<and> st_engines s' = st_engines s"
proof -
  from seed_keyspace_old [OF assms(1), of "''system''" "seed_local L H"] assms(2) obtain s1 where
    s1: "seed_keyspace L ''system'' (seed_local L H) s = (s1, Ok ())" "row_inv L absm s1" "st_engines s1 = st_engines s"
    by (auto simp: SYSTEM_KEYSPACES_def)
  note v1 = view_cong [OF s1(3)]
  from seed_keyspace_old [OF s1(2), of "''system_schema''" "for_each_s (put_table L) sys_schema_defs"] assms(2) v1(3) obtain s2 where
    s2: "seed_keyspace L ''system_schema'' (for_each_s (put_table L) sys_schema_defs) s1 = (s2, Ok ())" "row_inv L absm s2"
      "st_engines s2 = st_engines s1"
    by (auto simp: SYSTEM_KEYSPACES_def)
  note v2 = view_cong [OF s2(3)]
  from seed_keyspace_old [OF s2(2), of "''system_virtual_schema''" "put_table L vs_keyspaces_def"] assms(2) v1(3) v2(3) obtain s3 where
    "seed_keyspace L ''system_virtual_schema'' (put_table L vs_keyspaces_def) s2 = (s3, Ok ())" "row_inv L absm s3"
      "st_engines s3 = st_engines s2"
    by (auto simp: SYSTEM_KEYSPACES_def)
  with s1 s2 show ?thesis by (auto simp: seed_system_def)
qed


section \<open>Opening\<close>

lemma trim_show_nat: "trim (show_nat n) = show_nat n"
proof -
  have "printable c" if "c \<in> set (show_nat n)" for c using set_show_nat [OF that] by (simp add: printable_def)
  then show ?thesis by (intro trim_printable) simp_all
qed

lemma parse_usize_show_nat:
  assumes "n < 2 ^ 64"
  shows "parse_usize (show_nat n) = Some n"
proof -
  obtain c r where cr: "show_nat n = c # r" by (cases "show_nat n") auto
  with hd_show_nat [of n] have "c \<noteq> CHR ''+''" by auto
  with cr have "parse_usize (show_nat n) = (case parse_digits (show_nat n) of None \<Rightarrow> None | Some n \<Rightarrow> if n < 2 ^ 64 then Some n else None)"
    by (simp add: parse_usize_def)
  also have "parse_digits (show_nat n) = Some n" by (simp add: parse_digits_def digits_val_show_nat)
  finally show ?thesis using assms by simp
qed

lemma new_shard_count_bounds: "1 \<le> new_shard_count H \<and> new_shard_count H \<le> 64"
  by (simp add: new_shard_count_def env_num_def clamp_def)

text \<open>The storage over databases whose metadata can be read.\<close>

lemma open_engines_inv:
  assumes "rocks_ok L absm" and "json_ok L" and "dbs \<noteq> []" and "length dbs < 2 ^ 64"
    and "\<And>n b. absm (dbs ! 0) (ks_key n) = Some b \<Longrightarrow> \<exists>d. js_ks_from_slice L b = Ok d"
    and "\<And>kt b. good_table kt \<Longrightarrow> absm (dbs ! 0) (tb_key (fst kt) (snd kt)) = Some b \<Longrightarrow>
      \<exists>d. js_tb_from_slice L b = Ok d \<and> (td_keyspace d, td_name d) = kt"
  shows "row_inv L absm (open_engines H dbs)"
proof -
  let ?s = "open_engines H dbs"
  have e: "engine_wf (new_engine db)" "pend_ops (new_engine db) = []" "pend_tickets (new_engine db) = []"
    "\<not> en_gone (new_engine db)" "en_done (new_engine db) = []" "quiet (new_engine db)" for db :: 'a
    by (simp_all add: engine_wf_def new_engine_def pend_defs quiet_def)
  have "engines_wf ?s" using assms(3,4) e by (auto simp: engines_wf_def open_engines_def)
  moreover have "db0 absm ?s = absm (dbs ! 0)" using assms(3) by (simp add: db0_def open_engines_def new_engine_def)
  then have "meta_wf L absm ?s" using assms(5,6) unfolding meta_wf_def by (auto simp: open_engines_def)
  moreover have "coherent absm ?s" by (simp add: coherent_def cache_lookup_def open_engines_def)
  moreover have "storage_quiet ?s" using e by (simp add: storage_quiet_def open_engines_def list_all_length)
  ultimately show ?thesis using assms by (simp add: row_inv_def storage_wf_def)
qed

lemma open_dbs:
  "\<forall>i<n. open_db i = Ok (dbs ! i) \<Longrightarrow> length dbs = n \<Longrightarrow> rmap open_db [0..<n] = Ok dbs"
  using rmap_all_Ok [of "[0..<n]" open_db "(!) dbs"] map_nth [of dbs] by simp

lemma storage_openD:
  assumes "storage_open L H = Ok s"
  obtains n opened where "shard_count H = Ok n" "rmap (ho_open_db H) [0..<n] = Ok opened"
    "seed_system L H (open_engines H opened) = (s, Ok ())"
proof -
  from assms obtain n opened where *: "shard_count H = Ok n" "rmap (ho_open_db H) [0..<n] = Ok opened"
    "(case seed_system L H (open_engines H opened) of (s, r) \<Rightarrow> rbind r (\<lambda>_. Ok s)) = Ok s"
    by (auto simp: storage_open_def result_simps)
  from *(3) have "seed_system L H (open_engines H opened) = (s, Ok ())"
    by (cases "seed_system L H (open_engines H opened)") (auto simp: result_simps)
  with * show thesis using that by blast
qed

lemma storage_open_new:
  assumes "rocks_ok L absm" and "json_ok L" and "ho_marker H = None" and "shard_count H = Ok n"
    and "\<forall>i<n. ho_open_db H i = Ok (dbs ! i) \<and> absm (dbs ! i) = Map.empty" and "length dbs = n"
  shows "\<exists>s. storage_open L H = Ok s \<and> row_inv L absm s \<and> 1 \<le> n \<and> n \<le> 64 \<and>
    seeded L absm (open_engines H dbs) system_tables [local_addr \<mapsto> local_data H] s \<and>
    (\<forall>k\<in>set SYSTEM_KEYSPACES. ks_view L absm s k \<noteq> None) \<and> (\<forall>k. k \<notin> set SYSTEM_KEYSPACES \<longrightarrow> ks_view L absm s k = None)"
proof -
  from assms(3,4) have n: "n = new_shard_count H" by (auto simp: shard_count_def result_simps)
  with new_shard_count_bounds [of H] have b: "1 \<le> n" "n \<le> 64" by simp_all
  then have ne: "dbs \<noteq> []" "length dbs < 2 ^ 64" using assms(6) by auto
  from b assms(5) have empty: "absm (dbs ! 0) = Map.empty" by simp
  have inv: "row_inv L absm (open_engines H dbs)"
    by (rule open_engines_inv [OF assms(1,2) ne]) (simp_all add: empty)
  have "db0 absm (open_engines H dbs) = Map.empty" using ne empty by (simp add: db0_def open_engines_def new_engine_def)
  then have none: "ks_view L absm (open_engines H dbs) k = None" for k by (simp add: ks_view_def)
  from seed_system_new [OF inv, of H] none obtain s where
    s: "seed_system L H (open_engines H dbs) = (s, Ok ())" "seeded L absm (open_engines H dbs) system_tables [local_addr \<mapsto> local_data H] s"
      "\<forall>k\<in>set SYSTEM_KEYSPACES. ks_view L absm s k \<noteq> None" "\<forall>k. k \<notin> set SYSTEM_KEYSPACES \<longrightarrow> ks_view L absm s k = None"
    by auto
  moreover have "storage_open L H = Ok s"
    using assms(4,5) s(1) open_dbs [of n "ho_open_db H" dbs] assms(6) by (simp add: storage_open_def)
  moreover have "row_inv L absm s" using s(2) by (simp add: seeded_def)
  ultimately show ?thesis using b by blast
qed

text \<open>
  C22. Opening a database for the first time: the number of shards is between 1 and 64, the text written to
  the marker file is that number in decimal (the open goes through just when this text can be written, and
  whoever reads it later gets the same number of shards), and the storage that is returned satisfies the
  invariants and has the system keyspaces and all twelve system tables, readable through the catalogue,
  and the row that drivers ask for first.
\<close>

theorem open_creates_system:
  fixes L :: "'db libs"
  assumes "rocks_ok L absm" and "json_ok L" and "ho_marker H = None" and "shard_count H = Ok n"
    and "\<forall>i<n. ho_open_db H i = Ok (dbs ! i) \<and> absm (dbs ! i) = Map.empty" and "length dbs = n"
  shows "\<exists>s. storage_open L H = Ok s \<and> row_inv L absm s \<and> 1 \<le> n \<and> n \<le> 64 \<and>
    (\<forall>w. shard_count (H\<lparr>ho_write_marker := w\<rparr>) = Ok n \<longleftrightarrow> w (show_nat n) = Ok ()) \<and>
    (\<forall>H' :: 'db host. ho_marker H' = Some (show_nat n) \<longrightarrow> shard_count H' = Ok n) \<and>
    (\<forall>d\<in>set system_tables. snd (get_table L (td_keyspace d) (td_name d) s) = Ok (Some d)) \<and>
    (\<forall>k\<in>set SYSTEM_KEYSPACES. \<exists>d. snd (get_keyspace L k s) = Ok (Some d)) \<and>
    snd (get_row L ''system'' ''local'' [str_bytes ''local''] s) = Ok (Some (local_data H))"
proof -
  from storage_open_new [OF assms] obtain s where s: "storage_open L H = Ok s" "row_inv L absm s" "1 \<le> n" "n \<le> 64"
    "seeded L absm (open_engines H dbs) system_tables [local_addr \<mapsto> local_data H] s"
    "\<forall>k\<in>set SYSTEM_KEYSPACES. ks_view L absm s k \<noteq> None" by blast
  from s(2) have swf: "storage_wf L absm s" by (simp add: row_inv_def)
  have "snd (get_table L (td_keyspace d) (td_name d) s) = Ok (Some d)" if "d \<in> set system_tables" for d
    using tb_catalog.get_result [OF swf, of "table_id d"] good_system_tables [OF that] s(5) that by (simp add: seeded_def)
  moreover have "\<exists>d. snd (get_keyspace L k s) = Ok (Some d)" if "k \<in> set SYSTEM_KEYSPACES" for k
    using ks_catalog.get_result [OF swf, of k] s(6) that by auto
  moreover have "snd (get_row L ''system'' ''local'' [str_bytes ''local''] s) = Ok (Some (local_data H))"
    using rows.get_result [OF s(2) good_local] s(5) good_local by (simp add: seeded_def read_row_def local_addr_def)
  moreover have "shard_count (H\<lparr>ho_write_marker := w\<rparr>) = Ok n \<longleftrightarrow> w (show_nat n) = Ok ()" for w
    using assms(3,4) by (auto simp: shard_count_def new_shard_count_def result_simps)
  moreover have "shard_count H' = Ok n" if "ho_marker H' = Some (show_nat n)" for H' :: "'db host"
    using s(4) by (simp add: shard_count_def that trim_show_nat parse_usize_show_nat)
  ultimately show ?thesis using s by blast
qed

text \<open>The rows as the committed writes left them, without what is still queued.\<close>

definition committed_view :: "('db \<Rightarrow> kv) \<Rightarrow> 'db storage \<Rightarrow> row_addr \<Rightarrow> bytes option" where
  "committed_view absm s r = absm (en_db (st_engines s ! addr_engine s r)) (addr_key r)"

lemma open_engines_nth:
  "ndbs (open_engines H dbs) = length dbs" "i < length dbs \<Longrightarrow> en_db (st_engines (open_engines H dbs) ! i) = dbs ! i"
  "st_write_sync (open_engines H dbs) \<longleftrightarrow> ho_env H ''RHYDADB_SYNC'' \<noteq> None"
  by (simp_all add: open_engines_def new_engine_def)

text \<open>Opening databases with given contents again, whatever was queued when the process ended.\<close>

lemma restart_committed:
  assumes "storage_wf L absm s" and "\<forall>k\<in>set SYSTEM_KEYSPACES. ks_view L absm s k \<noteq> None"
    and "length dbs = ndbs s" and "\<forall>i<ndbs s. absm (dbs ! i) = absm (en_db (st_engines s ! i))"
    and "ho_marker H = Some (show_nat (ndbs s))" and "\<forall>i<ndbs s. ho_open_db H i = Ok (dbs ! i)"
  shows "\<exists>t. storage_open L H = Ok t \<and> row_inv L absm t \<and> ks_view L absm t = ks_view L absm s \<and>
    tb_view L absm t = tb_view L absm s \<and> row_view absm t = committed_view absm s"
proof -
  let ?s = "open_engines H dbs"
  note wfs = storage_wfD [OF assms(1)]
  from wfs(3) have n: "0 < ndbs s" "ndbs s < 2 ^ 64" by (simp_all add: engines_wf_def)
  have db0: "absm (dbs ! 0) = db0 absm s" using assms(4) n by (simp add: db0_def)
  have inv: "row_inv L absm ?s"
  proof (rule open_engines_inv)
    show "rocks_ok L absm" "json_ok L" using assms(1) by (simp_all add: storage_wf_def)
    show "dbs \<noteq> []" "length dbs < 2 ^ 64" using n assms(3) by auto
    show "\<exists>d. js_ks_from_slice L b = Ok d" if "absm (dbs ! 0) (ks_key k) = Some b" for k b
      using wfs(4) that unfolding db0 by (auto simp: meta_wf_def)
    show "\<exists>d. js_tb_from_slice L b = Ok d \<and> (td_keyspace d, td_name d) = kt"
      if "good_table kt" "absm (dbs ! 0) (tb_key (fst kt) (snd kt)) = Some b" for kt b
      using wfs(4) that unfolding db0 by (simp add: meta_wf_def)
  qed
  have nth: "ndbs ?s = ndbs s" "\<forall>i<ndbs s. en_db (st_engines ?s ! i) = dbs ! i"
    using assms(3) by (simp_all add: open_engines_nth)
  have "db0 absm ?s = db0 absm s" using n nth db0 by (simp add: db0_def)
  then have meta: "ks_view L absm ?s = ks_view L absm s" "tb_view L absm ?s = tb_view L absm s"
    by (simp_all add: fun_eq_iff ks_view_def tb_view_def)
  have "row_view absm ?s r = committed_view absm s r" for r
  proof -
    have "addr_engine ?s r = addr_engine s r" using nth(1) by (simp add: addr_engine_def row_engine_def split: prod.split)
    moreover have "addr_engine s r < ndbs s" by (rule addr_engine_less [OF wfs(3)])
    moreover have "quiet (st_engines ?s ! addr_engine s r)" using calculation nth(1) by (simp add: open_engines_def new_engine_def quiet_def)
    ultimately show ?thesis
      using assms(4) nth(2) by (simp add: row_view_def committed_view_def engine_view_def pend_defs quiet_def)
  qed
  then have "row_view absm ?s = committed_view absm s" by auto
  moreover from seed_system_old [OF inv, of H] assms(2) meta(1) obtain t where
    t: "seed_system L H ?s = (t, Ok ())" "row_inv L absm t" "st_engines t = st_engines ?s" by auto
  moreover have "shard_count H = Ok (ndbs s)"
    using n(2) by (simp add: shard_count_def assms(5) trim_show_nat parse_usize_show_nat)
  moreover have "rmap (ho_open_db H) [0..<ndbs s] = Ok dbs" using assms(3,6) by (intro open_dbs) simp_all
  ultimately show ?thesis using view_cong [OF t(3)] meta by (simp add: storage_open_def)
qed

text \<open>
  A restart loses nothing: when a storage whose queues are empty is closed and its databases are opened
  again with the marker file it wrote, whatever the environment and the number of processors are by
  then, every keyspace, table and row is found where it was.
\<close>

lemma committed_view_quiet:
  assumes "quiet (st_engines s ! addr_engine s r)"
  shows "committed_view absm s r = row_view absm s r"
  using assms by (simp add: committed_view_def row_view_def engine_view_def pend_defs quiet_def)

lemma restart_keeps:
  assumes "row_inv L absm s" and "\<forall>k\<in>set SYSTEM_KEYSPACES. ks_view L absm s k \<noteq> None"
    and "ho_marker H = Some (show_nat (ndbs s))" and "\<forall>i<ndbs s. ho_open_db H i = Ok (en_db (st_engines s ! i))"
  shows "\<exists>s'. storage_open L H = Ok s' \<and> row_inv L absm s' \<and> ks_view L absm s' = ks_view L absm s \<and>
    tb_view L absm s' = tb_view L absm s \<and> row_view absm s' = row_view absm s"
proof -
  from assms(1) have wf: "storage_wf L absm s" and q: "storage_quiet s" by (simp_all add: row_inv_def)
  have "committed_view absm s r = row_view absm s r" for r
    by (rule committed_view_quiet [OF quiet_nth [OF q addr_engine_less [OF storage_wfD(3) [OF wf]]]])
  then have "committed_view absm s = row_view absm s" by auto
  with restart_committed [OF wf assms(2), of "map en_db (st_engines s)" H] assms(3,4) show ?thesis by simp
qed

text \<open>A host with finite-map databases.\<close>

definition mem_host :: "string option \<Rightarrow> (nat \<Rightarrow> (bytes, bytes) fmap) \<Rightarrow> (bytes, bytes) fmap host" where
  "mem_host marker dbs =
     \<lparr>ho_env = Map.empty, ho_cpus = Some 8, ho_marker = marker, ho_create_dir = Ok (), ho_write_marker = (\<lambda>_. Ok ()),
      ho_open_db = (\<lambda>i. Ok (dbs i)), ho_host_id = 1, ho_schema_version = 2\<rparr>"

lemma mem_host_shards: "shard_count (mem_host None dbs) = Ok 8"
  by (simp add: shard_count_def mem_host_def new_shard_count_def env_num_def clamp_def)

lemma mem_opened:
  "\<exists>s. storage_open mem_libs (mem_host None (\<lambda>_. fmempty)) = Ok s \<and> row_inv mem_libs fmlookup s \<and>
     (\<forall>k\<in>set SYSTEM_KEYSPACES. ks_view mem_libs fmlookup s k \<noteq> None)"
proof -
  let ?H = "mem_host None (\<lambda>_. fmempty)"
  have d: "\<forall>i<8. ho_open_db ?H i = Ok (replicate 8 fmempty ! i) \<and> fmlookup (replicate 8 fmempty ! i :: (bytes, bytes) fmap) = Map.empty"
    by (simp add: mem_host_def fun_eq_iff)
  have "ho_marker ?H = None" by (simp add: mem_host_def)
  from storage_open_new [OF mem_rocks_ok mem_json_ok this mem_host_shards d] show ?thesis by auto
qed

theorem open_creates_system_witness:
  "\<exists>s. storage_open mem_libs (mem_host None (\<lambda>_. fmempty)) = Ok s \<and>
     snd (get_table mem_libs ''system'' ''local'' s) = Ok (Some sys_local_def) \<and>
     shard_count (mem_host (Some ''8'') (\<lambda>_. fmempty :: (bytes, bytes) fmap)) = Ok 8"
proof -
  have d: "\<forall>i<8. ho_open_db (mem_host None (\<lambda>_. fmempty)) i = Ok (replicate 8 fmempty ! i) \<and> fmlookup (replicate 8 fmempty ! i :: (bytes, bytes) fmap) = Map.empty"
    by (simp add: mem_host_def fun_eq_iff)
  have "ho_marker (mem_host None (\<lambda>_. fmempty)) = None" by (simp add: mem_host_def)
  from open_creates_system [OF mem_rocks_ok mem_json_ok this mem_host_shards d] obtain s where
    s: "storage_open mem_libs (mem_host None (\<lambda>_. fmempty)) = Ok s"
    "\<forall>d\<in>set system_tables. snd (get_table mem_libs (td_keyspace d) (td_name d) s) = Ok (Some d)"
    "\<forall>H' :: (bytes, bytes) fmap host. ho_marker H' = Some (show_nat 8) \<longrightarrow> shard_count H' = Ok 8" by auto
  moreover have "show_nat 8 = ''8''" by (simp add: show_nat.simps digit_char_def char_of_def bit_iff_odd)
  ultimately show ?thesis
    by (auto simp: system_tables_def system_table_ids(1) [simplified] mem_host_def)
qed


lemma seeded_mem:
  "\<exists>s. row_inv mem_libs fmlookup s \<and> (\<forall>k\<in>set SYSTEM_KEYSPACES. ks_view mem_libs fmlookup s k \<noteq> None) \<and>
     (\<forall>d\<in>set system_tables. tb_view mem_libs fmlookup s (table_id d) = Some d) \<and>
     (\<forall>kt. good_table kt \<longrightarrow> kt \<notin> table_id ` set system_tables \<longrightarrow> tb_view mem_libs fmlookup s kt = None)"
proof -
  let ?s = "fresh_storage 4 (fmempty :: (bytes, bytes) fmap) True True"
  have inv: "row_inv mem_libs fmlookup ?s" by (rule mem_fresh) simp_all
  have "db0 fmlookup ?s = Map.empty" by (simp add: db0_def fresh_storage_def new_engine_def fun_eq_iff)
  then have none: "ks_view mem_libs fmlookup ?s k = None" "tb_view mem_libs fmlookup ?s kt = None" for k kt
    by (simp_all add: ks_view_def tb_view_def)
  from seed_system_new [OF inv, of "mem_host None (\<lambda>_. fmempty)"] none show ?thesis
    unfolding seeded_def by auto
qed

section \<open>CREATE KEYSPACE and CREATE TABLE\<close>

lemma get_table_inv:
  assumes "row_inv L absm s" and "good_table (ks, tb)"
  shows "\<exists>s'. get_table L ks tb s = (s', Ok (tb_view L absm s (ks, tb))) \<and> row_inv L absm s' \<and> st_engines s' = st_engines s"
proof -
  from assms(1) have "storage_wf L absm s" and q: "storage_quiet s" by (simp_all add: row_inv_def)
  from get_table_ok [OF this(1) assms(2)] obtain s' where s': "get_table L ks tb s = (s', Ok (tb_view L absm s (ks, tb)))"
    "storage_wf L absm s'" "st_engines s' = st_engines s" "st_row_cache s' = st_row_cache s" by blast
  moreover have "storage_quiet s'" using q s'(3) by (simp add: storage_quiet_def)
  ultimately show ?thesis using row_inv_cong [OF assms(1) s'(2)] view_cong [OF s'(3)] by blast
qed

text \<open>A step that writes rows of one table of the schema keyspace and nothing else.\<close>

definition schema_rows_only :: "'db libs \<Rightarrow> ('db \<Rightarrow> kv) \<Rightarrow> string \<Rightarrow> 'db storage \<Rightarrow> 'db storage \<Rightarrow> bool" where
  "schema_rows_only L absm table s s' \<longleftrightarrow>
     row_inv L absm s' \<and> ks_view L absm s' = ks_view L absm s \<and> tb_view L absm s' = tb_view L absm s \<and>
     (\<forall>r. good_row r \<longrightarrow> (fst r, fst (snd r)) \<noteq> (''system_schema'', table) \<longrightarrow> row_view absm s' r = row_view absm s r)"

lemma put_system_schema_row_ok:
  assumes "row_inv L absm s" and "plain_name table" and "tb_view L absm s (''system_schema'', table) = Some d"
    and "schema_row d cols = Ok row" and "list_all (\<lambda>n. length n < 2 ^ 16) pk"
  shows "\<exists>s'. put_system_schema_row L table pk cols s = (s', Ok ()) \<and> schema_rows_only L absm table s s' \<and>
    row_view absm s' (''system_schema'', table, map str_bytes pk) = Some (encode_row_columns row)"
proof -
  have good: "good_table (''system_schema'', table)" using assms(2) by (simp add: good_table_def plain_name_def)
  have good_row: "good_row (''system_schema'', table, map str_bytes pk)"
    using assms(2,5) by (auto simp: good_row_def plain_name_def short_part_def list_all_iff)
  from get_table_inv [OF assms(1) good] assms(3) obtain s1 where
    s1: "get_table L ''system_schema'' table s = (s1, Ok (Some d))" "row_inv L absm s1" "st_engines s1 = st_engines s" by auto
  from put_row_sync_inv [OF s1(2) good_row, of "encode_row_columns row"] obtain s2 where
    s2: "put_row_sync L ''system_schema'' table (map str_bytes pk) (encode_row_columns row) s1 = (s2, Ok ())" "row_inv L absm s2"
      "ks_view L absm s2 = ks_view L absm s1" "tb_view L absm s2 = tb_view L absm s1"
      "\<forall>r. good_row r \<longrightarrow> row_view absm s2 r =
         (if r = (''system_schema'', table, map str_bytes pk) then Some (encode_row_columns row) else row_view absm s1 r)"
    by blast
  have "put_system_schema_row L table pk cols s = (s2, Ok ())"
    using s1(1) assms(4) s2(1) by (simp add: put_system_schema_row_def)
  moreover have "schema_rows_only L absm table s s2"
    using s2 view_cong [OF s1(3)] by (auto simp: schema_rows_only_def)
  ultimately show ?thesis using s2(5) good_row by auto
qed

lemma schema_row_columns:
  "\<exists>row. schema_row schema_columns_def [(''clustering_order'', a), (''column_name_bytes'', b), (''kind'', c), (''position'', d), (''type'', e)] = Ok row"
  by (simp add: schema_columns_def_def column_index_def col_def)

lemma schema_row_tables: "\<exists>row. schema_row schema_tables_def table_options = Ok row"
  by (simp add: schema_tables_def_def table_options_def column_index_def col_def)

lemma column_kind_ok:
  assumes "keys_consistent d" and "c \<in> set (td_columns d)"
  shows "\<exists>x. column_kind d c = Ok x"
proof -
  have "position (\<lambda>p. p = n) xs \<noteq> None" if "n \<in> set xs" for n and xs :: "string list"
    using that by (induction xs) auto
  with assms show ?thesis by (fastforce simp: column_kind_def keys_consistent_def list_all_iff)
qed

lemma mirror_columns_ok:
  assumes "row_inv L absm s" and "tb_view L absm s (''system_schema'', ''columns'') = Some schema_columns_def"
    and "keys_consistent d" and "set cs \<subseteq> set (td_columns d)"
    and "length (td_keyspace d) < 2 ^ 16" and "length (td_name d) < 2 ^ 16" and "\<forall>c\<in>set cs. length (cd_name c) < 2 ^ 16"
  shows "\<exists>s'. for_each_s (mirror_column L d) cs s = (s', Ok ()) \<and> schema_rows_only L absm ''columns'' s s'"
  using assms(1,2,4,7)
proof (induction cs arbitrary: s)
  case Nil
  then show ?case by (simp add: schema_rows_only_def)
next
  case (Cons c cs)
  obtain kind pos ord where kind: "column_kind d c = Ok (kind, pos, ord)" using column_kind_ok [OF assms(3), of c] Cons.prems(3) by auto
  from schema_row_columns obtain row where
    row: "schema_row schema_columns_def [(''clustering_order'', VText ord), (''column_name_bytes'', VBlob (str_bytes (cd_name c))),
      (''kind'', VText kind), (''position'', VInt pos), (''type'', VText (cql_string (cd_type c)))] = Ok row" by blast
  have "plain_name ''columns''" by (simp add: plain_name_def)
  from put_system_schema_row_ok [OF Cons.prems(1) this Cons.prems(2) row, of "[td_keyspace d, td_name d, cd_name c]"]
    assms(5,6) Cons.prems(4) kind obtain s1 where
    s1: "mirror_column L d c s = (s1, Ok ())" "schema_rows_only L absm ''columns'' s s1"
    by (auto simp: mirror_column_def)
  from Cons.IH [of s1] Cons.prems s1(2) obtain s2 where
    "for_each_s (mirror_column L d) cs s1 = (s2, Ok ())" "schema_rows_only L absm ''columns'' s1 s2"
    by (auto simp: schema_rows_only_def)
  with s1 show ?case by (auto simp: schema_rows_only_def)
qed

lemma schema_row_keyspaces: "\<exists>row. schema_row schema_keyspaces_def [(''durable_writes'', a), (''replication'', b)] = Ok row"
  by (simp add: schema_keyspaces_def_def column_index_def col_def)

text \<open>
  CREATE KEYSPACE on a seeded database: the keyspace is stored under its name and listed in the schema tables, and
  no table and no row outside the schema keyspace has changed.
\<close>

lemma exec_create_keyspace_ok:
  assumes "row_inv L absm s" and "tb_view L absm s (''system_schema'', ''keyspaces'') = Some schema_keyspaces_def"
    and "norm_id (ck_name k) = name" and "ks_view L absm s name = None" and "name \<notin> set SYSTEM_KEYSPACES" and "length name < 2 ^ 16"
  shows "\<exists>s'. exec_create_keyspace L k s = (s', Ok (RSchemaChange ''CREATED'' ''KEYSPACE'' name [])) \<and> row_inv L absm s' \<and>
    ks_view L absm s' = (ks_view L absm s)(name \<mapsto> \<lparr>kd_name = name, kd_replication = ck_replication k\<rparr>) \<and>
    tb_view L absm s' = tb_view L absm s \<and>
    (\<forall>r. good_row r \<longrightarrow> fst r \<noteq> ''system_schema'' \<longrightarrow> row_view absm s' r = row_view absm s r)"
proof -
  let ?d = "\<lparr>kd_name = name, kd_replication = ck_replication k\<rparr>"
  let ?repl = "VMap (map (\<lambda>(k, v). (VText (strip_quotes k), VText (strip_quotes v))) (ck_replication k))"
  from get_keyspace_inv [OF assms(1), of name] assms(4) obtain s1 where
    s1: "get_keyspace L name s = (s1, Ok None)" "row_inv L absm s1" "st_engines s1 = st_engines s" by auto
  note v1 = view_cong [OF s1(3)]
  from put_keyspace_inv [OF s1(2), of ?d] obtain s2 where s2: "put_keyspace L ?d s1 = (s2, Ok ())" "row_inv L absm s2"
    "ks_view L absm s2 = (ks_view L absm s1)(name \<mapsto> ?d)" "tb_view L absm s2 = tb_view L absm s1" "row_view absm s2 = row_view absm s1"
    by auto
  from schema_row_keyspaces obtain row where row: "schema_row schema_keyspaces_def [(''durable_writes'', VBoolean True), (''replication'', ?repl)] = Ok row"
    by blast
  have "plain_name ''keyspaces''" "tb_view L absm s2 (''system_schema'', ''keyspaces'') = Some schema_keyspaces_def"
    using assms(2) s2(4) v1 by (simp_all add: plain_name_def)
  from put_system_schema_row_ok [OF s2(2) this row, of "[name]"] assms(6) obtain s3 where
    s3: "put_system_schema_row L ''keyspaces'' [name] [(''durable_writes'', VBoolean True), (''replication'', ?repl)] s2 = (s3, Ok ())"
      "schema_rows_only L absm ''keyspaces'' s2 s3" by auto
  have "exec_create_keyspace L k s = (s3, Ok (RSchemaChange ''CREATED'' ''KEYSPACE'' name []))"
    using s1(1) s2(1) s3(1) assms(3,5) by (simp add: exec_create_keyspace_def)
  then show ?thesis using s2(3-5) s3(2) v1 by (intro exI [of _ s3]) (auto simp: schema_rows_only_def)
qed

lemma exec_create_table_ok:
  assumes "row_inv L absm s"
    and "tb_view L absm s (''system_schema'', ''tables'') = Some schema_tables_def"
    and "tb_view L absm s (''system_schema'', ''columns'') = Some schema_columns_def"
    and "target_keyspace session_ks (ct_name t) = Ok ks" and "norm_id (fq_name.fq_name (ct_name t)) = tb"
    and "good_table (ks, tb)" and "ks \<notin> set SYSTEM_KEYSPACES" and "tb_view L absm s (ks, tb) = None"
    and "build_table_def ks tb t = Some d" and "td_partition_keys d \<noteq> []" and "keys_consistent d"
    and "length ks < 2 ^ 16" and "length tb < 2 ^ 16" and "\<forall>c\<in>set (td_columns d). length (cd_name c) < 2 ^ 16"
  shows "\<exists>s'. exec_create_table L session_ks t s = (s', Ok (RSchemaChange ''CREATED'' ''TABLE'' ks tb)) \<and> row_inv L absm s' \<and>
    (\<forall>kt. good_table kt \<longrightarrow> tb_view L absm s' kt = (if kt = (ks, tb) then Some d else tb_view L absm s kt)) \<and>
    row_view absm s' (''system_schema'', ''tables'', [str_bytes ks, str_bytes tb]) \<noteq> None \<and>
    (\<forall>r. good_row r \<longrightarrow> fst r \<noteq> ''system_schema'' \<longrightarrow> row_view absm s' r = row_view absm s r)"
proof -
  have names: "td_keyspace d = ks" "td_name d = tb"
    using assms(9) by (auto simp: build_table_def_def Let_def split: option.splits)
  from get_table_inv [OF assms(1,6)] assms(8) obtain s1 where
    s1: "get_table L ks tb s = (s1, Ok None)" "row_inv L absm s1" "st_engines s1 = st_engines s" by auto
  note v1 = view_cong [OF s1(3)]
  from put_table_inv [OF s1(2), of d] assms(6) names obtain s2 where
    s2: "put_table L d s1 = (s2, Ok ())" "row_inv L absm s2"
      "\<forall>kt. good_table kt \<longrightarrow> tb_view L absm s2 kt = (if kt = (ks, tb) then Some d else tb_view L absm s1 kt)"
      "row_view absm s2 = row_view absm s1" by auto
  have sys: "good_table (''system_schema'', ''tables'')" "good_table (''system_schema'', ''columns'')" "ks \<noteq> ''system_schema''"
    using assms(7) by (auto simp: good_table_def plain_name_def SYSTEM_KEYSPACES_def)
  from schema_row_tables obtain row where row: "schema_row schema_tables_def table_options = Ok row" by blast
  have "tb_view L absm s2 (''system_schema'', ''tables'') = Some schema_tables_def" "plain_name ''tables''"
    using s2(3) sys v1 assms(2) by (auto simp: plain_name_def)
  from put_system_schema_row_ok [OF s2(2) this(2,1) row, of "[ks, tb]"] assms(12,13) obtain s3 where
    s3: "put_system_schema_row L ''tables'' [ks, tb] table_options s2 = (s3, Ok ())" "schema_rows_only L absm ''tables'' s2 s3"
      "row_view absm s3 (''system_schema'', ''tables'', [str_bytes ks, str_bytes tb]) = Some (encode_row_columns row)" by auto
  have "tb_view L absm s3 (''system_schema'', ''columns'') = Some schema_columns_def" "row_inv L absm s3"
    using s2(3) s3(2) sys v1 assms(3) by (auto simp: schema_rows_only_def)
  from mirror_columns_ok [OF this(2,1) assms(11) order_refl] assms(12-14) names obtain s4 where
    s4: "for_each_s (mirror_column L d) (td_columns d) s3 = (s4, Ok ())" "schema_rows_only L absm ''columns'' s3 s4" by auto
  have "exec_create_table L session_ks t s = (s4, Ok (RSchemaChange ''CREATED'' ''TABLE'' ks tb))"
    using s1(1) s2(1) s3(1) s4(1) assms(4,5,7,9,10) names
    by (simp add: exec_create_table_def check_writable_def mirror_table_metadata_def)
  moreover have "good_row (''system_schema'', ''tables'', [str_bytes ks, str_bytes tb])"
    using assms(12,13) by (simp add: good_row_def plain_name_def short_part_def)
  ultimately show ?thesis
    using s2(3,4) s3(2,3) s4(2) v1 by (intro exI [of _ s4]) (auto simp: schema_rows_only_def)
qed

text \<open>
  C23. CREATE TABLE: on a database that has been seeded, a definition whose key flags are consistent and whose
  names are plain is accepted; afterwards the catalogue maps the name to exactly the definition built
  from the statement, every other table is as before, the table is listed in the schema tables, and
  no row outside the schema keyspace has changed.
\<close>

theorem create_table_usable:
  assumes "row_inv L absm s"
    and "tb_view L absm s (''system_schema'', ''tables'') = Some schema_tables_def"
    and "tb_view L absm s (''system_schema'', ''columns'') = Some schema_columns_def"
    and "target_keyspace session_ks (ct_name t) = Ok ks" and "norm_id (fq_name.fq_name (ct_name t)) = tb"
    and "good_table (ks, tb)" and "ks \<notin> set SYSTEM_KEYSPACES" and "tb_view L absm s (ks, tb) = None"
    and "build_table_def ks tb t = Some d" and "td_partition_keys d \<noteq> []" and "keys_consistent d"
    and "length ks < 2 ^ 16" and "length tb < 2 ^ 16" and "\<forall>c\<in>set (td_columns d). length (cd_name c) < 2 ^ 16"
  shows "\<exists>s'. exec_create_table L session_ks t s = (s', Ok (RSchemaChange ''CREATED'' ''TABLE'' ks tb)) \<and> row_inv L absm s' \<and>
    (\<forall>kt. good_table kt \<longrightarrow> tb_view L absm s' kt = (if kt = (ks, tb) then Some d else tb_view L absm s kt)) \<and>
    row_view absm s' (''system_schema'', ''tables'', [str_bytes ks, str_bytes tb]) \<noteq> None \<and>
    (\<forall>r. good_row r \<longrightarrow> fst r \<noteq> ''system_schema'' \<longrightarrow> row_view absm s' r = row_view absm s r)"
  by (rule exec_create_table_ok [OF assms])

definition shop_create :: create_table where
  "shop_create = sample_create\<lparr>ct_name := table_name_of ''shop'' ''t''\<rparr>"

theorem create_table_usable_witness:
  "\<exists>s s' d. row_inv mem_libs fmlookup s \<and>
     exec_create_table mem_libs None shop_create s = (s', Ok (RSchemaChange ''CREATED'' ''TABLE'' ''shop'' ''t'')) \<and>
     build_table_def ''shop'' ''t'' shop_create = Some d \<and> tb_view mem_libs fmlookup s' (''shop'', ''t'') = Some d"
proof -
  from seeded_mem obtain s where s: "row_inv mem_libs fmlookup s"
    "\<forall>d\<in>set system_tables. tb_view mem_libs fmlookup s (table_id d) = Some d"
    "\<forall>kt. good_table kt \<longrightarrow> kt \<notin> table_id ` set system_tables \<longrightarrow> tb_view mem_libs fmlookup s kt = None" by blast
  have tabs: "tb_view mem_libs fmlookup s (''system_schema'', ''tables'') = Some schema_tables_def"
    "tb_view mem_libs fmlookup s (''system_schema'', ''columns'') = Some schema_columns_def"
    using s(2) by (simp_all add: system_tables_def sys_schema_defs_def) (simp_all add: system_defs)
  have "(''shop'', ''t'') \<notin> set (map table_id system_tables)"
    by (simp add: system_tables_def sys_schema_defs_def) (simp add: system_defs)
  then have none: "tb_view mem_libs fmlookup s (''shop'', ''t'') = None" and good: "good_table (''shop'', ''t'')"
    using s(3) by (auto simp: good_table_def plain_name_def)
  obtain d where d: "build_table_def ''shop'' ''t'' shop_create = Some d" "td_partition_keys d \<noteq> []" "keys_consistent d"
    "\<forall>c\<in>set (td_columns d). length (cd_name c) < 2 ^ 16"
    by (simp add: build_table_def_def shop_create_def sample_create_def from_data_type_def Let_def keys_consistent_def
        to_lowercase_def lower_char_def)
  have "\<exists>s'. exec_create_table mem_libs None shop_create s = (s', Ok (RSchemaChange ''CREATED'' ''TABLE'' ''shop'' ''t'')) \<and>
      row_inv mem_libs fmlookup s' \<and>
      (\<forall>kt. good_table kt \<longrightarrow> tb_view mem_libs fmlookup s' kt = (if kt = (''shop'', ''t'') then Some d else tb_view mem_libs fmlookup s kt)) \<and>
      row_view fmlookup s' (''system_schema'', ''tables'', [str_bytes ''shop'', str_bytes ''t'']) \<noteq> None \<and>
      (\<forall>r. good_row r \<longrightarrow> fst r \<noteq> ''system_schema'' \<longrightarrow> row_view fmlookup s' r = row_view fmlookup s r)"
    by (rule create_table_usable [OF s(1) tabs])
       (use none good d in \<open>simp_all add: shop_create_def sample_create_def SYSTEM_KEYSPACES_def\<close>)
  with s(1) d(1) good show ?thesis by auto
qed

end
