(* ===== verification/Protocol.thy ===== *)
theory Protocol
  imports QueryExec
begin

text \<open>
  The response frames (\<^verbatim>\<open>src/src/protocol.rs\<close>). The crate \<^verbatim>\<open>scylla-cql\<close>, which reads requests and writes
  the primitive types of the protocol, is the record \<open>frame_libs\<close>; its writers fail when a length
  does not fit, and the code panics then (\<^verbatim>\<open>expect\<close>). \<open>frame_libs_ok\<close> states what it documents of the
  writers.
\<close>

section \<open>The frame library\<close>

text \<open>The opcodes of the frames that the server sends and of those it receives.\<close>

datatype response_opcode = OpcError | OpcReady | OpcSupported | OpcResult

datatype request_opcode =
  ReqStartup | ReqOptions | ReqQuery | ReqPrepare | ReqExecute | ReqRegister | ReqBatch | ReqAuthResponse

text \<open>Their numbers in version 4 of the protocol.\<close>

fun response_opcode_byte :: "response_opcode \<Rightarrow> byte" where
  "response_opcode_byte OpcError = 0x00"
| "response_opcode_byte OpcReady = 0x02"
| "response_opcode_byte OpcSupported = 0x06"
| "response_opcode_byte OpcResult = 0x08"

fun request_opcode_byte :: "request_opcode \<Rightarrow> byte" where
  "request_opcode_byte ReqStartup = 0x01"
| "request_opcode_byte ReqOptions = 0x05"
| "request_opcode_byte ReqQuery = 0x07"
| "request_opcode_byte ReqPrepare = 0x09"
| "request_opcode_byte ReqExecute = 0x0A"
| "request_opcode_byte ReqRegister = 0x0B"
| "request_opcode_byte ReqBatch = 0x0D"
| "request_opcode_byte ReqAuthResponse = 0x0F"

definition request_opcodes :: "request_opcode list" where
  "request_opcodes =
     [ReqStartup, ReqOptions, ReqQuery, ReqPrepare, ReqExecute, ReqRegister, ReqBatch, ReqAuthResponse]"

datatype compression = Lz4 | Snappy

record query_params =
  qp_values :: "raw_value list"
  qp_page_size :: "i32 option"
  qp_paging_state :: "bytes option"
  qp_skip_metadata :: bool

record frame_libs =
  fr_response_opcode :: "response_opcode \<Rightarrow> byte"
  fr_request_opcode :: "request_opcode \<Rightarrow> byte"
  fr_opcode_try_from :: "byte \<Rightarrow> request_opcode option"
  fr_write_string :: "string \<Rightarrow> bytes \<Rightarrow> bytes option"
  fr_write_short_bytes :: "bytes \<Rightarrow> bytes \<Rightarrow> bytes option"
  fr_write_bytes :: "bytes \<Rightarrow> bytes \<Rightarrow> bytes option"
  fr_write_string_multimap :: "(string \<times> string list) list \<Rightarrow> bytes \<Rightarrow> bytes option"
  fr_compress_append :: "bytes \<Rightarrow> compression \<Rightarrow> bytes \<Rightarrow> bytes option"
  fr_decompress :: "bytes \<Rightarrow> compression \<Rightarrow> bytes anyhow"
  fr_startup :: "bytes \<Rightarrow> (string \<rightharpoonup> string) option"
  fr_query :: "bytes \<Rightarrow> (string \<times> query_params) option"
  fr_read_long_string :: "bytes \<Rightarrow> string option"
  fr_read_short_bytes :: "bytes \<Rightarrow> (bytes \<times> bytes) option"
  fr_params :: "bytes \<Rightarrow> query_params option"

definition frame_libs_ok :: "frame_libs \<Rightarrow> bool" where
  "frame_libs_ok P \<longleftrightarrow>
     fr_response_opcode P = response_opcode_byte \<and> fr_request_opcode P = request_opcode_byte \<and>
     (\<forall>b. fr_opcode_try_from P b = find (\<lambda>opc. request_opcode_byte opc = b) request_opcodes) \<and>
     (\<forall>s buf. fr_write_string P s buf =
        (if length s < 2 ^ 16 then Some (buf @ to_be_bytes (word_of_nat (length s) :: u16) @ str_bytes s) else None)) \<and>
     (\<forall>b buf. fr_write_short_bytes P b buf =
        (if length b < 2 ^ 16 then Some (buf @ to_be_bytes (word_of_nat (length b) :: u16) @ b) else None)) \<and>
     (\<forall>b buf. fr_write_bytes P b buf =
        (if length b < 2 ^ 31 then Some (buf @ to_be_bytes (len_i32 (length b)) @ b) else None))"

section \<open>Frames\<close>

definition response_frame ::
  "frame_libs \<Rightarrow> byte \<Rightarrow> i16 \<Rightarrow> response_opcode \<Rightarrow> bytes \<Rightarrow> compression option \<Rightarrow> ('e, bytes) result" where
  "response_frame P version stream opcode body compression =
     rbind (case compression of
              Some alg \<Rightarrow> rbind (unwrap (fr_compress_append P body alg [])) (\<lambda>compressed. Ok (0x01, compressed))
            | None \<Rightarrow> Ok (0, body))
       (\<lambda>(flags, payload).
          Ok ([version OR 0x80, flags] @ to_be_bytes stream @ [fr_response_opcode P opcode]
              @ to_be_bytes (word_of_nat (length payload) :: 32 word) @ payload))"

definition ready :: "frame_libs \<Rightarrow> byte \<Rightarrow> i16 \<Rightarrow> compression option \<Rightarrow> ('e, bytes) result" where
  "ready P version stream compression = response_frame P version stream OpcReady [] compression"

definition supported :: "frame_libs \<Rightarrow> byte \<Rightarrow> i16 \<Rightarrow> compression option \<Rightarrow> ('e, bytes) result" where
  "supported P version stream compression =
     (let options = [(''CQL_VERSION'', [''3.4.5'']), (''COMPRESSION'', [''lz4'', ''snappy'']), (''PROTOCOL_VERSIONS'', [''4''])]
      in rbind (unwrap (fr_write_string_multimap P options []))
           (\<lambda>body. response_frame P version stream OpcSupported body compression))"

definition error_frame ::
  "frame_libs \<Rightarrow> byte \<Rightarrow> i16 \<Rightarrow> i32 \<Rightarrow> string \<Rightarrow> compression option \<Rightarrow> ('e, bytes) result" where
  "error_frame P version stream code message compression =
     rbind (unwrap (fr_write_string P message (to_be_bytes code)))
       (\<lambda>body. response_frame P version stream OpcError body compression)"

definition result_void :: "frame_libs \<Rightarrow> byte \<Rightarrow> i16 \<Rightarrow> compression option \<Rightarrow> ('e, bytes) result" where
  "result_void P version stream compression =
     response_frame P version stream OpcResult (to_be_bytes (0x0001 :: i32)) compression"

definition result_set_keyspace ::
  "frame_libs \<Rightarrow> byte \<Rightarrow> i16 \<Rightarrow> string \<Rightarrow> compression option \<Rightarrow> ('e, bytes) result" where
  "result_set_keyspace P version stream keyspace compression =
     rbind (unwrap (fr_write_string P keyspace (to_be_bytes (0x0003 :: i32))))
       (\<lambda>body. response_frame P version stream OpcResult body compression)"

fun write_strings :: "frame_libs \<Rightarrow> string list \<Rightarrow> bytes \<Rightarrow> ('e, bytes) result" where
  "write_strings P [] body = Ok body"
| "write_strings P (s # ss) body = rbind (unwrap (fr_write_string P s body)) (write_strings P ss)"

definition result_schema_change ::
  "frame_libs \<Rightarrow> byte \<Rightarrow> i16 \<Rightarrow> string \<Rightarrow> string \<Rightarrow> string \<Rightarrow> string \<Rightarrow> compression option \<Rightarrow> ('e, bytes) result" where
  "result_schema_change P version stream change target keyspace table compression =
     rbind (write_strings P [change, target, keyspace, table] (to_be_bytes (0x0005 :: i32)))
       (\<lambda>body. response_frame P version stream OpcResult body compression)"

text \<open>A list of column specifications.\<close>

fun write_cols :: "frame_libs \<Rightarrow> col_spec list \<Rightarrow> bytes \<Rightarrow> ('e, bytes) result" where
  "write_cols P [] body = Ok body"
| "write_cols P ((name, ty) # cols) body =
     rbind (unwrap (fr_write_string P name body)) (\<lambda>body. write_cols P cols (write_wire_type ty body))"

definition result_prepared ::
  "frame_libs \<Rightarrow> byte \<Rightarrow> i16 \<Rightarrow> bytes \<Rightarrow> string \<Rightarrow> string \<Rightarrow> col_spec list \<Rightarrow> u16 list \<Rightarrow> col_spec list \<Rightarrow> compression option
     \<Rightarrow> ('e, bytes) result" where
  "result_prepared P version stream pid keyspace table bind_specs pk_indexes result_cols compression =
     rbind (unwrap (fr_write_short_bytes P pid (to_be_bytes (0x0004 :: i32)))) (\<lambda>body.
     rbind (write_strings P [keyspace, table]
              (body @ to_be_bytes (0x0001 :: i32) @ to_be_bytes (len_i32 (length bind_specs))
               @ to_be_bytes (len_i32 (length pk_indexes)) @ concat (map to_be_bytes pk_indexes))) (\<lambda>body.
     rbind (write_cols P bind_specs body) (\<lambda>body.
     rbind (write_strings P [keyspace, table]
              (body @ to_be_bytes (0x0001 :: i32) @ to_be_bytes (len_i32 (length result_cols)))) (\<lambda>body.
     rbind (write_cols P result_cols body) (\<lambda>body.
       response_frame P version stream OpcResult body compression)))))"

definition write_paging_state :: "frame_libs \<Rightarrow> bytes option \<Rightarrow> bytes \<Rightarrow> ('e, bytes) result" where
  "write_paging_state P paging_state body =
     (case paging_state of Some ps \<Rightarrow> unwrap (fr_write_bytes P ps body) | None \<Rightarrow> Ok body)"

definition rows_metadata ::
  "frame_libs \<Rightarrow> string \<Rightarrow> string \<Rightarrow> col_spec list \<Rightarrow> bool \<Rightarrow> bytes option \<Rightarrow> bytes \<Rightarrow> ('e, bytes) result" where
  "rows_metadata P keyspace table cols skip_metadata paging_state body =
     (let has_more = (paging_state \<noteq> None) in
      if skip_metadata
      then write_paging_state P paging_state
             (body @ to_be_bytes (if has_more then 0x0002 else 0 :: i32) @ to_be_bytes (- 1 :: i32))
      else
        rbind (write_paging_state P paging_state
                 (body @ to_be_bytes (if has_more then 0x0003 else 0x0001 :: i32) @ to_be_bytes (len_i32 (length cols)))) (\<lambda>body.
        rbind (write_strings P [keyspace, table] body) (write_cols P cols)))"

definition write_rows :: "cql_value list list \<Rightarrow> bytes \<Rightarrow> bytes" where
  "write_rows rows body = fold (\<lambda>row body. fold write_wire row body) rows body"

definition result_rows ::
  "frame_libs \<Rightarrow> byte \<Rightarrow> i16 \<Rightarrow> string \<Rightarrow> string \<Rightarrow> col_spec list \<Rightarrow> cql_value list list \<Rightarrow> bool \<Rightarrow> bytes option \<Rightarrow> compression option
     \<Rightarrow> ('e, bytes) result" where
  "result_rows P version stream keyspace table cols rows skip_metadata paging_state compression =
     rbind (rows_metadata P keyspace table cols skip_metadata paging_state (to_be_bytes (0x0002 :: i32))) (\<lambda>body.
       response_frame P version stream OpcResult (write_rows rows (body @ to_be_bytes (len_i32 (length rows)))) compression)"

end
