(* ===== verification/ProtocolSpec.thy ===== *)
theory ProtocolSpec
  imports Protocol
begin

text \<open>
  What a client reads from the frames the server writes: the readers below follow the specification of
  the protocol (version 4, \<^verbatim>\<open>RESULT\<close> frames of kind \<^verbatim>\<open>Rows\<close>) and are the reference against which the
  writers are verified.
\<close>

section \<open>Readers\<close>

definition read_i32 :: "bytes \<Rightarrow> (i32 \<times> bytes) anyhow" where
  "read_i32 bs = (if length bs < 4 then Err ''short read'' else Ok (from_be_bytes (take 4 bs), drop 4 bs))"

definition read_bytes :: "bytes \<Rightarrow> (bytes \<times> bytes) anyhow" where
  "read_bytes bs =
     rbind (read_i32 bs) (\<lambda>(n, bs).
       if sint n < 0 \<or> length bs < as_usize n then Err ''short read'' else Ok (take (as_usize n) bs, drop (as_usize n) bs))"

definition read_string :: "bytes \<Rightarrow> (string \<times> bytes) anyhow" where
  "read_string bs =
     (if length bs < 2 then Err ''short read''
      else (let n = unat (from_be_bytes (take 2 bs) :: u16); bs = drop 2 bs in
            if length bs < n then Err ''short read'' else Ok (bytes_str (take n bs), drop n bs)))"

definition read_col :: "bytes \<Rightarrow> (col_spec \<times> bytes) anyhow" where
  "read_col bs = rbind (read_string bs) (\<lambda>(name, bs). rbind (read_wire_type bs) (\<lambda>(ty, bs). Ok ((name, ty), bs)))"

definition read_value :: "column_type \<Rightarrow> bytes \<Rightarrow> (cql_value \<times> bytes) anyhow" where
  "read_value ct bs =
     rbind (read_i32 bs) (\<lambda>(n, rest).
       if sint n < 0 then Ok (VNull, rest)
       else if length rest < as_usize n then Err ''short read''
       else rbind (from_raw_bytes (take (as_usize n) rest) ct) (\<lambda>v. Ok (v, drop (as_usize n) rest)))"

fun read_n :: "(bytes \<Rightarrow> ('e, 'a \<times> bytes) result) \<Rightarrow> nat \<Rightarrow> bytes \<Rightarrow> ('e, 'a list \<times> bytes) result" where
  "read_n r 0 bs = Ok ([], bs)"
| "read_n r (Suc n) bs = rbind (r bs) (\<lambda>(x, bs). rbind (read_n r n bs) (\<lambda>(xs, bs). Ok (x # xs, bs)))"

fun read_row :: "column_type list \<Rightarrow> bytes \<Rightarrow> (cql_value list \<times> bytes) anyhow" where
  "read_row [] bs = Ok ([], bs)"
| "read_row (ct # cts) bs =
     rbind (read_value ct bs) (\<lambda>(v, bs). rbind (read_row cts bs) (\<lambda>(vs, bs). Ok (v # vs, bs)))"

record rows_result =
  rr_stream :: i16
  rr_keyspace :: string
  rr_table :: string
  rr_cols :: "col_spec list"
  rr_rows :: "cql_value list list"
  rr_paging_state :: "bytes option"

text \<open>An uncompressed frame: version, flags, stream, opcode and the length of the body.\<close>

definition read_frame :: "bytes \<Rightarrow> (i16 \<times> byte \<times> bytes) anyhow" where
  "read_frame f =
     (if length f < 9 then Err ''short frame''
      else if f ! 0 \<noteq> 0x84 \<or> f ! 1 \<noteq> 0 then Err ''bad frame''
      else if unat (from_be_bytes (take 4 (drop 5 f)) :: 32 word) \<noteq> length f - 9 then Err ''bad length''
      else Ok (from_be_bytes (take 2 (drop 2 f)), f ! 4, drop 9 f))"

definition read_rows :: "bytes \<Rightarrow> rows_result anyhow" where
  "read_rows f =
     rbind (read_frame f) (\<lambda>(stream, opcode, bs).
       if opcode \<noteq> 0x08 then Err ''not a result'' else
     rbind (read_i32 bs) (\<lambda>(kind, bs).
       if kind \<noteq> 0x0002 then Err ''not rows'' else
     rbind (read_i32 bs) (\<lambda>(flags, bs).
       if flags AND 0x0001 = 0 then Err ''no table spec'' else
     rbind (read_i32 bs) (\<lambda>(ncols, bs).
     rbind (if flags AND 0x0002 = 0 then Ok (None, bs) else rbind (read_bytes bs) (\<lambda>(ps, bs). Ok (Some ps, bs))) (\<lambda>(ps, bs).
     rbind (read_string bs) (\<lambda>(ks, bs).
     rbind (read_string bs) (\<lambda>(tb, bs).
     rbind (read_n read_col (as_usize ncols) bs) (\<lambda>(cols, bs).
     rbind (read_i32 bs) (\<lambda>(nrows, bs).
     rbind (read_n (read_row (map snd cols)) (as_usize nrows) bs) (\<lambda>(rows, bs).
       if bs \<noteq> [] then Err ''trailing bytes''
       else Ok \<lparr>rr_stream = stream, rr_keyspace = ks, rr_table = tb, rr_cols = cols, rr_rows = rows, rr_paging_state = ps\<rparr>))))))))))"

section \<open>Reading back\<close>

text \<open>A counted sequence of self-delimiting items reads back, whatever follows.\<close>

context stream_code begin

lemma read_n_items: "list_all good xs \<Longrightarrow> read_n dec1 (length xs) (concat (map enc1 xs) @ rest) = Ok (xs, rest)"
  by (induction xs) (auto simp: dec1_enc1)

end

lemma read_i32_be [simp]: "read_i32 (to_be_bytes (w :: i32) @ rest) = Ok (w, rest)"
  by (simp add: read_i32_def)

definition enc_string :: "string \<Rightarrow> bytes" where
  "enc_string s = to_be_bytes (word_of_nat (length s) :: u16) @ str_bytes s"

lemma read_string_enc: "length s < 2 ^ 16 \<Longrightarrow> read_string (enc_string s @ rest) = Ok (s, rest)"
  by (simp add: read_string_def enc_string_def unat_of_nat take_bit_nat_eq_self)

lemma read_bytes_enc: "length b < 2 ^ 31 \<Longrightarrow> read_bytes (to_be_bytes (len_i32 (length b)) @ b @ rest) = Ok (b, rest)"
  by (simp add: read_bytes_def sint_len_i32 as_usize_len_i32)

definition enc_col_spec :: "col_spec \<Rightarrow> bytes" where
  "enc_col_spec c = enc_string (fst c) @ write_wire_type (snd c) []"

definition col_ok :: "col_spec \<Rightarrow> bool" where
  "col_ok c \<longleftrightarrow> length (fst c) < 2 ^ 16 \<and> flat (snd c)"

interpretation col_code: stream_code enc_col_spec read_col col_ok
proof
  show "read_col (enc_col_spec c @ rest) = Ok (c, rest)" if "col_ok c" for c rest
    using that by (cases c) (simp add: read_col_def enc_col_spec_def col_ok_def read_string_enc read_write_wire_type)
  show "enc_col_spec c \<noteq> []" for c by (simp add: enc_col_spec_def write_wire_type_nonempty)
qed

interpretation value_code: stream_code to_wire "read_value ct" "\<lambda>v. conforms ct v \<and> wire_sized v" for ct
proof
  show "read_value ct (to_wire v @ rest) = Ok (v, rest)" if "conforms ct v \<and> wire_sized v" for v rest
  proof (cases "v = VNull")
    case True
    then show ?thesis by (simp add: read_value_def to_wire_Null)
  next
    case False
    with that have "from_raw_bytes (raw_bytes v) ct = Ok v" using raw.dec_enc by (simp add: conforms_def)
    with that False show ?thesis
      by (simp add: read_value_def to_wire_raw wire_sized_def sint_len_i32 as_usize_len_i32)
  qed
  show "to_wire v \<noteq> []" for v
    by (cases "v = VNull") (simp_all add: to_wire_Null to_wire_raw flip: length_0_conv)
qed

lemma read_row_concat:
  "list_all2 (\<lambda>c v. conforms (snd c) v \<and> wire_sized v) cols row \<Longrightarrow>
     read_row (map snd cols) (concat (map to_wire row) @ rest) = Ok (row, rest)"
  by (induction cols row rule: list_all2_induct) (simp_all add: value_code.dec1_enc1)


text \<open>Rows as items: one row is self-delimiting once the column types are known.\<close>

definition row_conforms :: "col_spec list \<Rightarrow> cql_value list \<Rightarrow> bool" where
  "row_conforms cols row \<longleftrightarrow> list_all2 (\<lambda>c v. conforms (snd c) v \<and> wire_sized v) cols row"

lemma read_rows_concat:
  "list_all (row_conforms cols) rows \<Longrightarrow>
     read_n (read_row (map snd cols)) (length rows) (concat (map (\<lambda>row. concat (map to_wire row)) rows) @ rest) = Ok (rows, rest)"
  by (induction rows) (simp_all add: row_conforms_def read_row_concat)

section \<open>What is written\<close>

lemma frame_libs_okD:
  assumes "frame_libs_ok P"
  shows "length s < 2 ^ 16 \<Longrightarrow> fr_write_string P s buf = Some (buf @ enc_string s)"
    and "\<not> length s < 2 ^ 16 \<Longrightarrow> fr_write_string P s buf = None"
    and "length b < 2 ^ 31 \<Longrightarrow> fr_write_bytes P b buf = Some (buf @ to_be_bytes (len_i32 (length b)) @ b)"
  using assms by (simp_all add: frame_libs_ok_def enc_string_def)

lemma write_cols_ok:
  assumes "frame_libs_ok P" and "list_all col_ok cols"
  shows "write_cols P cols body = Ok (body @ concat (map enc_col_spec cols))"
  using assms(2)
proof (induction cols arbitrary: body)
  case (Cons c cols)
  obtain name ty where c: "c = (name, ty)" by (cases c)
  with Cons show ?case
    using frame_libs_okD(1) [OF assms(1), of name body] write_wire_type_append [of ty "body @ enc_string name"]
    by (simp add: col_ok_def enc_col_spec_def)
qed simp

lemma write_rows_concat: "write_rows rows body = body @ concat (map (\<lambda>row. concat (map to_wire row)) rows)"
proof -
  have row: "fold write_wire row body = body @ concat (map to_wire row)" for row body
    by (rule fold_append_cong) (simp add: to_wire_def write_wire_append [symmetric])
  show ?thesis unfolding write_rows_def by (rule fold_append_cong) (rule row)
qed

lemma response_frame_plain:
  assumes "frame_libs_ok P" and "length body < 2 ^ 32"
  shows "\<exists>f. response_frame P 0x04 stream opcode body None = Ok f \<and>
    read_frame f = Ok (stream, response_opcode_byte opcode, body)"
proof -
  let ?f = "[0x84, 0] @ to_be_bytes stream @ [response_opcode_byte opcode] @ to_be_bytes (word_of_nat (length body) :: 32 word) @ body"
  have "?f ! 4 = response_opcode_byte opcode" by (simp add: nth_append)
  moreover have "unat (word_of_nat (length body) :: 32 word) = length body" using assms(2) by (simp add: unat_of_nat take_bit_nat_eq_self)
  ultimately have "read_frame ?f = Ok (stream, response_opcode_byte opcode, body)" by (simp add: read_frame_def)
  moreover have "response_frame P 0x04 stream opcode body None = Ok ?f" using assms(1) by (simp add: response_frame_def frame_libs_ok_def)
  ultimately show ?thesis by blast
qed

definition rows_body :: "string \<Rightarrow> string \<Rightarrow> col_spec list \<Rightarrow> cql_value list list \<Rightarrow> bytes option \<Rightarrow> bytes" where
  "rows_body ks tb cols rows ps =
     to_be_bytes (0x0002 :: i32) @ to_be_bytes (if ps \<noteq> None then 0x0003 else 0x0001 :: i32) @ to_be_bytes (len_i32 (length cols))
     @ (case ps of Some b \<Rightarrow> to_be_bytes (len_i32 (length b)) @ b | None \<Rightarrow> []) @ enc_string ks @ enc_string tb
     @ concat (map enc_col_spec cols) @ to_be_bytes (len_i32 (length rows)) @ concat (map (\<lambda>row. concat (map to_wire row)) rows)"

lemma result_rows_reads_back:
  assumes "frame_libs_ok P" and "length ks < 2 ^ 16" and "length tb < 2 ^ 16" and "list_all col_ok cols"
    and "list_all (row_conforms cols) rows" and "length cols < 2 ^ 31" and "length rows < 2 ^ 31"
    and "\<forall>b. ps = Some b \<longrightarrow> length b < 2 ^ 31" and "length (rows_body ks tb cols rows ps) < 2 ^ 32"
  shows "\<exists>f. (result_rows P 0x04 stream ks tb cols rows False ps None :: ('e, bytes) result) = Ok f \<and>
    read_rows f = Ok \<lparr>rr_stream = stream, rr_keyspace = ks, rr_table = tb, rr_cols = cols, rr_rows = rows, rr_paging_state = ps\<rparr>"
proof -
  have paging: "write_paging_state P ps body = Ok (body @ (case ps of Some b \<Rightarrow> to_be_bytes (len_i32 (length b)) @ b | None \<Rightarrow> []))" for body
    using assms(8) frame_libs_okD(3) [OF assms(1)] by (cases ps) (simp_all add: write_paging_state_def)
  have body: "(result_rows P 0x04 stream ks tb cols rows False ps None :: ('e, bytes) result) = response_frame P 0x04 stream OpcResult (rows_body ks tb cols rows ps) None"
    using assms(2,3) frame_libs_okD(1) [OF assms(1)]
    by (simp add: write_cols_ok [OF assms(1,4)] result_rows_def rows_metadata_def paging write_rows_concat rows_body_def)
  from response_frame_plain [OF assms(1,9), of stream OpcResult] obtain f where
    f: "(response_frame P 0x04 stream OpcResult (rows_body ks tb cols rows ps) None :: ('e, bytes) result) = Ok f"
      "read_frame f = Ok (stream, 0x08, rows_body ks tb cols rows ps)" by auto
  have "read_rows f = Ok \<lparr>rr_stream = stream, rr_keyspace = ks, rr_table = tb, rr_cols = cols, rr_rows = rows, rr_paging_state = ps\<rparr>"
    using assms(2-8) f(2) read_rows_concat [OF assms(5), of "[]"]
    by (cases ps) (simp_all add: read_rows_def rows_body_def read_string_enc read_bytes_enc col_code.read_n_items as_usize_len_i32)
  with f(1) body show ?thesis by metis
qed

text \<open>
  C21. What the client decodes is what the server meant: the frame of a rows result, read by the reader
  the protocol prescribes, gives back the stream id of the request, the keyspace and table, the names
  and types of the columns, every row with every value, and the paging state.
\<close>

theorem rows_frame_roundtrip:
  assumes "frame_libs_ok P" and "length ks < 2 ^ 16" and "length tb < 2 ^ 16" and "list_all col_ok cols"
    and "list_all (row_conforms cols) rows" and "length cols < 2 ^ 31" and "length rows < 2 ^ 31"
    and "\<forall>b. ps = Some b \<longrightarrow> length b < 2 ^ 31" and "length (rows_body ks tb cols rows ps) < 2 ^ 32"
  shows "\<exists>f. (result_rows P 0x04 stream ks tb cols rows False ps None :: bytes anyhow) = Ok f \<and>
    read_rows f = Ok \<lparr>rr_stream = stream, rr_keyspace = ks, rr_table = tb, rr_cols = cols, rr_rows = rows, rr_paging_state = ps\<rparr>"
  using assms by (rule result_rows_reads_back)

text \<open>A frame library as documented; it neither compresses nor reads requests.\<close>

definition plain_frames :: frame_libs where
  "plain_frames =
     \<lparr>fr_response_opcode = response_opcode_byte, fr_request_opcode = request_opcode_byte,
      fr_opcode_try_from = \<lambda>b. find (\<lambda>opc. request_opcode_byte opc = b) request_opcodes,
      fr_write_string = \<lambda>s buf. if length s < 2 ^ 16 then Some (buf @ to_be_bytes (word_of_nat (length s) :: u16) @ str_bytes s) else None,
      fr_write_short_bytes = \<lambda>b buf. if length b < 2 ^ 16 then Some (buf @ to_be_bytes (word_of_nat (length b) :: u16) @ b) else None,
      fr_write_bytes = \<lambda>b buf. if length b < 2 ^ 31 then Some (buf @ to_be_bytes (len_i32 (length b)) @ b) else None,
      fr_write_string_multimap = \<lambda>_ buf. Some buf, fr_compress_append = \<lambda>b _ buf. Some (buf @ b), fr_decompress = \<lambda>b _. Ok b,
      fr_startup = \<lambda>_. Some Map.empty, fr_query = \<lambda>_. None, fr_read_long_string = \<lambda>_. None,
      fr_read_short_bytes = \<lambda>_. None, fr_params = \<lambda>_. None\<rparr>"

lemma plain_frames_ok: "frame_libs_ok plain_frames"
  by (simp add: frame_libs_ok_def plain_frames_def)

theorem rows_frame_roundtrip_witness:
  "\<exists>f. (result_rows plain_frames 0x04 7 ''ks'' ''users'' [(''id'', TInt), (''name'', TText)]
          [[VInt 5, VText ''ada''], [VInt 6, VNull]] False (Some [1, 2]) None :: bytes anyhow) = Ok f \<and>
    read_rows f = Ok \<lparr>rr_stream = 7, rr_keyspace = ''ks'', rr_table = ''users'', rr_cols = [(''id'', TInt), (''name'', TText)],
      rr_rows = [[VInt 5, VText ''ada''], [VInt 6, VNull]], rr_paging_state = Some [1, 2]\<rparr>"
proof -
  let ?cols = "[(''id'', TInt), (''name'', TText)]" and ?rows = "[[VInt 5, VText ''ada''], [VInt 6, VNull]]"
  have "list_all col_ok ?cols" by (simp add: col_ok_def)
  moreover have "list_all (row_conforms ?cols) ?rows"
    by (simp add: row_conforms_def conforms_def wire_sized_def utf8_valid_def utf8_check_def str_bytes_def)
  moreover have "length (rows_body ''ks'' ''users'' ?cols ?rows (Some [1, 2])) < 2 ^ 32"
    by (simp add: rows_body_def enc_string_def enc_col_spec_def to_wire_raw to_wire_Null write_wire_type_def)
  ultimately show ?thesis
    using rows_frame_roundtrip [OF plain_frames_ok, of "''ks''" "''users''" ?cols ?rows "Some [1, 2]" 7] by simp
qed

text \<open>
  An error response carries its code and message: the client reads back the code and the text of
  the error on the stream of the request. A message of 64 KiB or more does not fit the protocol's string,
  and building the frame then panics instead of answering.
\<close>

definition read_error :: "bytes \<Rightarrow> (i16 \<times> i32 \<times> string) anyhow" where
  "read_error f =
     rbind (read_frame f) (\<lambda>(stream, opcode, bs).
       if opcode \<noteq> 0x00 then Err ''not an error'' else
     rbind (read_i32 bs) (\<lambda>(code, bs).
     rbind (read_string bs) (\<lambda>(message, bs).
       if bs \<noteq> [] then Err ''trailing bytes'' else Ok (stream, code, message))))"

theorem error_frame_spec:
  assumes "frame_libs_ok P"
  shows "case error_frame P 0x04 stream code message None :: bytes anyhow of
      Ok f \<Rightarrow> length message < 2 ^ 16 \<and> read_error f = Ok (stream, code, message)
    | Err _ \<Rightarrow> False
    | Halt h \<Rightarrow> h = Panicked \<and> \<not> length message < 2 ^ 16"
proof (cases "length message < 2 ^ 16")
  case True
  let ?body = "to_be_bytes code @ enc_string message"
  from True have "length ?body < 2 ^ 32" by (simp add: enc_string_def)
  then obtain f where f: "(response_frame P 0x04 stream OpcError ?body None :: bytes anyhow) = Ok f"
      "read_frame f = Ok (stream, 0x00, ?body)"
    using response_frame_plain [OF assms, of ?body stream OpcError] by auto
  have "error_frame P 0x04 stream code message None = (Ok f :: bytes anyhow)"
    using True f(1) frame_libs_okD(1) [OF assms True] by (simp add: error_frame_def)
  moreover have "read_error f = Ok (stream, code, message)"
    using f(2) read_string_enc [OF True, of "[]"] by (simp add: read_error_def)
  ultimately show ?thesis using True by simp
next
  case False
  then show ?thesis using frame_libs_okD(2) [OF assms False] by (simp add: error_frame_def)
qed

theorem error_frame_spec_witness:
  "case error_frame plain_frames 0x04 3 0x2200 ''no'' None :: bytes anyhow of
      Ok f \<Rightarrow> length ''no'' < 2 ^ 16 \<and> read_error f = Ok (3, 0x2200, ''no'') | Err _ \<Rightarrow> False | Halt h \<Rightarrow> h = Panicked \<and> \<not> length ''no'' < 2 ^ 16"
  by (rule error_frame_spec [OF plain_frames_ok])

end
