(* ===== verification/Server.thy ===== *)
theory Server
  imports ProtocolSpec
begin

text \<open>
  Requests of one connection (\<^verbatim>\<open>src/src/server.rs\<close>): the state the connection shares between its tasks,
  the decoding of a frame's header and body, and the handling of a request. A request that writes awaits
  the commit of its writes (\<^verbatim>\<open>settle_then\<close>): the handler is cut there, \<open>begin_request\<close> returning either the
  response or the tickets it awaits with the rest of the handler, so that other tasks can run in between.
  Each piece between two awaits is one step of the model. The lock of a map is never held across a call
  that can panic, so no lock is ever poisoned.
\<close>

section \<open>Connection state\<close>

definition MAX_FRAME_LENGTH :: nat where "MAX_FRAME_LENGTH = 64 * 1024 * 1024"

definition PER_CONN_INFLIGHT :: nat where "PER_CONN_INFLIGHT = 512"

definition WRITE_FLUSH_THRESHOLD :: nat where "WRITE_FLUSH_THRESHOLD = 256 * 1024"

record prepared_stmt =
  ps_stmt :: statement
  ps_bind_types :: "column_type list"

record conn_shared =
  cn_compression :: byte
  cn_keyspace :: "string option"
  cn_prepared :: "bytes \<rightharpoonup> prepared_stmt"
  cn_next_prepared_id :: u16

definition COMPRESSION_NONE :: byte where "COMPRESSION_NONE = 0"

definition decode_compression :: "byte \<Rightarrow> compression option" where
  "decode_compression v = (if v = 1 then Some Lz4 else if v = 2 then Some Snappy else None)"

definition conn_new :: conn_shared where
  "conn_new = \<lparr>cn_compression = COMPRESSION_NONE, cn_keyspace = None, cn_prepared = Map.empty, cn_next_prepared_id = 1\<rparr>"

definition conn_compression :: "conn_shared \<Rightarrow> compression option" where
  "conn_compression c = decode_compression (cn_compression c)"

definition set_keyspace :: "string \<Rightarrow> conn_shared \<Rightarrow> conn_shared" where
  "set_keyspace ks c = c\<lparr>cn_keyspace := Some ks\<rparr>"

text \<open>What a request acts on: the storage, shared with all connections, and the state of its own.\<close>

type_synonym 'db session = "'db storage \<times> conn_shared"

type_synonym ('db, 'a) sact = "'db session \<times> 'a qres"

definition in_session :: "conn_shared \<Rightarrow> ('db, 'a) qact \<Rightarrow> ('db, 'a) sact" where
  "in_session c m = ((fst m, c), snd m)"

section \<open>Responses\<close>

definition respond ::
  "frame_libs \<Rightarrow> byte \<Rightarrow> i16 \<Rightarrow> compression option \<Rightarrow> response qres \<Rightarrow> bool \<Rightarrow> bytes qres" where
  "respond P version stream compression r skip_metadata =
     rbind r (\<lambda>resp. case resp of
        RRows keyspace table cols rows paging_state \<Rightarrow>
          result_rows P version stream keyspace table cols rows skip_metadata paging_state compression
      | RVoid \<Rightarrow> result_void P version stream compression
      | RSetKeyspace ks \<Rightarrow> result_set_keyspace P version stream ks compression
      | RSchemaChange change target keyspace table \<Rightarrow>
          result_schema_change P version stream change target keyspace table compression)"

definition or_error_frame :: "frame_libs \<Rightarrow> byte \<Rightarrow> i16 \<Rightarrow> compression option \<Rightarrow> bytes qres \<Rightarrow> bytes qres" where
  "or_error_frame P version stream compression r =
     (case r of
        Err e \<Rightarrow> error_frame P version stream (qe_code e) (qe_message e) compression
      | r \<Rightarrow> r)"

section \<open>Requests\<close>

definition protocol_err :: "string \<Rightarrow> query_error" where
  "protocol_err msg = \<lparr>qe_code = 0x000A, qe_message = msg\<rparr>"

text \<open>The outcome of the part of a handler before its await.\<close>

datatype reply = Reply bytes | Settle "ticket list" "conn_shared \<Rightarrow> conn_shared \<times> bytes qres"

definition settle_then ::
  "(response \<times> ticket list) qres \<Rightarrow> (response \<Rightarrow> conn_shared \<Rightarrow> conn_shared \<times> bytes qres) \<Rightarrow> reply qres" where
  "settle_then result k = rbind result (\<lambda>(resp, gates). Ok (Settle gates (k resp)))"

definition handle_startup :: "frame_libs \<Rightarrow> bytes \<Rightarrow> i16 \<Rightarrow> conn_shared \<Rightarrow> conn_shared \<times> bytes qres" where
  "handle_startup P body stream c =
     (case fr_startup P body of
        None \<Rightarrow> (c, Err (protocol_err ''Malformed STARTUP message''))
      | Some options \<Rightarrow>
          (case map_option to_lowercase (options ''COMPRESSION'') of
             None \<Rightarrow> (c, ready P 0x04 stream (conn_compression c))
           | Some alg \<Rightarrow>
               if alg = ''lz4'' then
                 (let c = c\<lparr>cn_compression := 1\<rparr> in (c, ready P 0x04 stream (conn_compression c)))
               else if alg = ''snappy'' then
                 (let c = c\<lparr>cn_compression := 2\<rparr> in (c, ready P 0x04 stream (conn_compression c)))
               else (c, Err (protocol_err (''Unsupported compression algorithm: '' @ alg)))))"

definition handle_query ::
  "'db libs \<Rightarrow> frame_libs \<Rightarrow> bytes \<Rightarrow> i16 \<Rightarrow> 'db session \<Rightarrow> ('db, reply) sact" where
  "handle_query L P body stream sess =
     (case sess of (s, c) \<Rightarrow>
      let compression = conn_compression c in
      (case fr_query P body of
         None \<Rightarrow> ((s, c), Err (protocol_err ''Malformed QUERY message''))
       | Some (query_text, params) \<Rightarrow>
           (case execute_with_values_paged L (cn_keyspace c) query_text (qp_values params) (qp_page_size params)
                   (qp_paging_state params) s of
              (s, result) \<Rightarrow>
                ((s, c), settle_then result (\<lambda>resp c.
                   (case resp of RSetKeyspace name \<Rightarrow> set_keyspace name c | _ \<Rightarrow> c,
                    or_error_frame P 0x04 stream compression
                      (respond P 0x04 stream compression (Ok resp) (qp_skip_metadata params))))))))"

definition handle_prepare ::
  "'db libs \<Rightarrow> frame_libs \<Rightarrow> bytes \<Rightarrow> i16 \<Rightarrow> 'db session \<Rightarrow> ('db, bytes) sact" where
  "handle_prepare L P body stream sess =
     (case sess of (s, c) \<Rightarrow>
      let compression = conn_compression c in
      (case fr_read_long_string P body of
         None \<Rightarrow> ((s, c), Err (protocol_err ''Malformed PREPARE message''))
       | Some query_text \<Rightarrow>
           and_then (in_session c (with_err (\<lambda>e. e\<lparr>qe_code := 0x2000\<rparr>) (parse_cached L query_text s))) (\<lambda>(s, c) stmt.
           and_then (in_session c (prepared_info L (cn_keyspace c) stmt s)) (\<lambda>(s, c) info.
             let pid = to_be_bytes (cn_next_prepared_id c);
                 c = c\<lparr>cn_next_prepared_id := cn_next_prepared_id c + 1,
                       cn_prepared := (cn_prepared c)
                         (pid \<mapsto> \<lparr>ps_stmt = stmt, ps_bind_types = map snd (pi_bind_specs info)\<rparr>)\<rparr>
             in ((s, c), result_prepared P 0x04 stream pid (pi_keyspace info) (pi_table info) (pi_bind_specs info)
                           (pi_pk_indexes info) (pi_result_cols info) compression)))))"

definition handle_execute ::
  "'db libs \<Rightarrow> frame_libs \<Rightarrow> bytes \<Rightarrow> i16 \<Rightarrow> 'db session \<Rightarrow> ('db, reply) sact" where
  "handle_execute L P body stream sess =
     (case sess of (s, c) \<Rightarrow>
      let compression = conn_compression c in
      (case fr_read_short_bytes P body of
         None \<Rightarrow> ((s, c), Err (protocol_err ''Malformed EXECUTE message''))
       | Some (pid, buf) \<Rightarrow>
           (case cn_prepared c pid of
              None \<Rightarrow> ((s, c), Err (invalid_err ''Prepared statement not found (unprepared)''))
            | Some prepared \<Rightarrow>
                (case fr_params P buf of
                   None \<Rightarrow> ((s, c), Err (protocol_err ''Malformed EXECUTE parameters''))
                 | Some params \<Rightarrow>
                     if length (qp_values params) \<noteq> length (ps_bind_types prepared)
                     then ((s, c), Err (invalid_err ''Invalid amount of bind variables''))
                     else
                       (case execute_prepared_paged L (cn_keyspace c) (ps_stmt prepared) (qp_values params)
                               (qp_page_size params) (qp_paging_state params) s of
                          (s, result) \<Rightarrow>
                            ((s, c), settle_then result (\<lambda>resp c.
                               (c, or_error_frame P 0x04 stream compression
                                     (respond P 0x04 stream compression (Ok resp) (qp_skip_metadata params))))))))))"

definition replying :: "('db, bytes) sact \<Rightarrow> ('db, reply) sact" where
  "replying m = and_then m (\<lambda>sess b. (sess, Ok (Reply b)))"

definition begin_request ::
  "'db libs \<Rightarrow> frame_libs \<Rightarrow> byte \<Rightarrow> bytes \<Rightarrow> i16 \<Rightarrow> 'db session \<Rightarrow> ('db, reply) sact" where
  "begin_request L P opcode body stream sess =
     (let compression = conn_compression (snd sess) in
      case fr_opcode_try_from P opcode of
        None \<Rightarrow> (sess, Err (protocol_err ''Unknown opcode''))
      | Some opc \<Rightarrow>
          (case opc of
             ReqOptions \<Rightarrow> replying (sess, supported P 0x04 stream compression)
           | ReqStartup \<Rightarrow>
               (case handle_startup P body stream (snd sess) of (c, r) \<Rightarrow> replying ((fst sess, c), r))
           | ReqRegister \<Rightarrow> replying (sess, ready P 0x04 stream compression)
           | ReqQuery \<Rightarrow> handle_query L P body stream sess
           | ReqPrepare \<Rightarrow> replying (handle_prepare L P body stream sess)
           | ReqExecute \<Rightarrow> handle_execute L P body stream sess
           | ReqBatch \<Rightarrow> (sess, Err (invalid_err ''Batches are not supported yet''))
           | ReqAuthResponse \<Rightarrow> (sess, Err (protocol_err ''Authentication is not enabled''))))"

text \<open>
  The whole handler; \<open>await\<close> is what happens to the session while the handler awaits its tickets.
\<close>

definition handle_request ::
  "'db libs \<Rightarrow> frame_libs \<Rightarrow> (ticket list \<Rightarrow> 'db session \<Rightarrow> 'db session) \<Rightarrow> byte \<Rightarrow> bytes \<Rightarrow> i16 \<Rightarrow> 'db session \<Rightarrow> ('db, bytes) sact" where
  "handle_request L P await opcode body stream sess =
     and_then (begin_request L P opcode body stream sess) (\<lambda>sess reply.
       case reply of
         Reply b \<Rightarrow> (sess, Ok b)
       | Settle gates k \<Rightarrow>
           (case (if gates \<noteq> [] then await gates sess else sess) of
              (s, c) \<Rightarrow> (case k c of (c, r) \<Rightarrow> ((s, c), r))))"

section \<open>Reading frames\<close>

definition is_session_use :: "bytes \<Rightarrow> bool" where
  "is_session_use body =
     (if length body < 4 then False
      else (let len = unat (from_be_bytes (take 4 body) :: 32 word);
                bytes = take (min len (length body - 4)) (drop 4 body);
                t = (if 16 < length bytes then take 16 bytes else bytes)
            in prefix ''use '' (map lower_char (bytes_str t))))"

text \<open>
  What the reader finds in the bytes a client sends until it closes the connection: the end of the
  stream; a frame it refuses, with the response, after which it closes (\<open>Refuse\<close>) or goes on (\<open>Reject\<close>);
  an error that closes the connection without a response; or a request.
\<close>

datatype incoming =
    Eof
  | Broken
  | Refuse i16 "bytes qres"
  | Reject i16 "bytes qres" bytes
  | Request i16 byte bytes bytes

definition next_frame :: "frame_libs \<Rightarrow> conn_shared \<Rightarrow> bytes \<Rightarrow> incoming" where
  "next_frame P c input =
     (if length input < 9 then Eof
      else
        (let version = input ! 0; flags = input ! 1; stream = from_be_bytes [input ! 2, input ! 3];
             opcode_raw = input ! 4; len = unat (from_be_bytes [input ! 5, input ! 6, input ! 7, input ! 8] :: 32 word);
             rest = drop 9 input in
         if version \<noteq> 0x04 then
           Refuse stream (error_frame P version stream 0x000A ''Unsupported protocol version; this server supports CQL v4'' None)
         else if MAX_FRAME_LENGTH < len then
           Refuse stream (error_frame P version stream 0x000A ''Frame too large'' (conn_compression c))
         else if length rest < len then Broken
         else
           (let body = take len rest; rest = drop len rest in
            if flags AND 0x01 \<noteq> 0 then
              (case conn_compression c of
                 Some alg \<Rightarrow>
                   (case fr_decompress P body alg of
                      Ok decompressed \<Rightarrow> Request stream opcode_raw decompressed rest
                    | _ \<Rightarrow> Broken)
               | None \<Rightarrow>
                   Reject stream
                     (error_frame P version stream 0x000A ''Received compressed frame without negotiated compression'' None) rest)
            else Request stream opcode_raw body rest)))"

definition inline_request :: "frame_libs \<Rightarrow> byte \<Rightarrow> bytes \<Rightarrow> bool" where
  "inline_request P opcode_raw body \<longleftrightarrow>
     (opcode_raw \<noteq> fr_request_opcode P ReqQuery \<and> opcode_raw \<noteq> fr_request_opcode P ReqExecute) \<or> is_session_use body"

end
