(* ===== verification/QueryGuards.thy ===== *)
theory QueryGuards
  imports QueryExec Projection
begin

text \<open>
  Safety of the query handlers whatever the libraries do: the system keyspaces cannot be modified, every
  error carries a code of the protocol, the two ways an UPDATE computes its row agree, and where a
  handler panics.
\<close>

section \<open>Handlers that do not touch the data\<close>

definition same_data :: "'db storage \<Rightarrow> 'db storage \<Rightarrow> bool" where
  "same_data s s' \<longleftrightarrow> st_engines s' = st_engines s \<and> st_row_cache s' = st_row_cache s \<and> st_next_ticket s' = st_next_ticket s"

text \<open>An outcome that changes no data and whose success is the empty response.\<close>

definition no_effect :: "'db storage \<Rightarrow> ('db, response \<times> ticket list) qact \<Rightarrow> bool" where
  "no_effect s m \<longleftrightarrow> same_data s (fst m) \<and> (\<forall>x. snd m = Ok x \<longrightarrow> x = (RVoid, []))"

lemma same_data_refl [simp]: "same_data s s"
  by (simp add: same_data_def)

lemma same_data_trans: "same_data s t \<Longrightarrow> same_data t u \<Longrightarrow> same_data s u"
  by (simp add: same_data_def)

lemma get_keyspace_same [simp]: "same_data s (fst (get_keyspace L n s))"
  by (auto simp: get_keyspace_def reading_def same_data_def split: option.split result.split)

lemma get_table_same [simp]: "same_data s (fst (get_table L ks tb s))"
  by (auto simp: get_table_def reading_def same_data_def split: option.split result.split)

lemma no_effect_simps [simp]:
  "no_effect s (s, Err e)" "no_effect s (s, Halt h)" "no_effect s (s, Ok (RVoid, []))"
  by (simp_all add: no_effect_def)

lemma no_effect_bind:
  assumes "same_data s (fst m)" and "\<And>s' x. m = (s', Ok x) \<Longrightarrow> no_effect s' (f s' x)"
  shows "no_effect s (and_then m f)"
proof (cases "(m, f)" rule: and_then.cases)
  case (1 s' x f')
  with assms(2) [of s' x] assms(1) show ?thesis by (auto simp: no_effect_def intro: same_data_trans)
qed (use assms(1) in \<open>auto simp: no_effect_def\<close>)

lemma fst_and_then_ok_or: "fst (and_then (s, ok_or e x) (\<lambda>s d. (s, g d))) = s"
  by (cases x) simp_all

lemma resolve_table_same [simp]: "same_data s (fst (resolve_table L session_ks name s))"
proof (cases "target_keyspace session_ks name")
  case (Ok ks)
  have "fst (resolve_table L session_ks name s) = fst (get_table L ks (norm_id (fq_name.fq_name name)) s)"
    unfolding resolve_table_def Ok
    by (cases "get_table L ks (norm_id (fq_name.fq_name name)) s"; cases "snd (get_table L ks (norm_id (fq_name.fq_name name)) s)")
       (auto simp: fst_and_then_ok_or)
  then show ?thesis by simp
qed (simp_all add: resolve_table_def)

lemma resolve_table_keyspace:
  "resolve_table L session_ks name s = (s', Ok (ks, t)) \<Longrightarrow> target_keyspace session_ks name = Ok ks"
  by (auto simp: resolve_table_def result_simps Let_def)

lemma check_writable_system: "ks \<in> set SYSTEM_KEYSPACES \<Longrightarrow> \<exists>e. check_writable ks = Err e"
  by (simp add: check_writable_def)

text \<open>The keyspace a statement would modify.\<close>

fun modifies :: "string option \<Rightarrow> statement \<Rightarrow> string \<Rightarrow> bool" where
  "modifies session_ks (SCreateKeyspace k) ks \<longleftrightarrow> norm_id (ck_name k) = ks"
| "modifies session_ks (SCreateTable t) ks \<longleftrightarrow> target_keyspace session_ks (ct_name t) = Ok ks"
| "modifies session_ks (SDropKeyspace d) ks \<longleftrightarrow> norm_id (fq_name.fq_name (dr_name d)) = ks"
| "modifies session_ks (SDropTable d) ks \<longleftrightarrow> target_keyspace session_ks (dr_name d) = Ok ks"
| "modifies session_ks (SInsert i) ks \<longleftrightarrow> target_keyspace session_ks (in_table_name i) = Ok ks"
| "modifies session_ks (SDelete d) ks \<longleftrightarrow> target_keyspace session_ks (de_table_name d) = Ok ks"
| "modifies session_ks (SUpdate u) ks \<longleftrightarrow> target_keyspace session_ks (up_table_name u) = Ok ks"
| "modifies session_ks (STruncate name) ks \<longleftrightarrow> target_keyspace session_ks name = Ok ks"
| "modifies session_ks _ ks \<longleftrightarrow> False"

text \<open>The shape that INSERT, UPDATE, DELETE and TRUNCATE share.\<close>

lemma guarded_no_effect:
  assumes "target_keyspace session_ks name = Ok ks" and "ks \<in> set SYSTEM_KEYSPACES"
  shows "no_effect s (and_then (resolve_table L session_ks name s)
    (\<lambda>s (keyspace, table). and_then (s, check_writable keyspace) (\<lambda>s _. f s keyspace table)))"
proof (rule no_effect_bind)
  fix s' x assume "resolve_table L session_ks name s = (s', Ok x)"
  moreover obtain k t where "x = (k, t)" by (cases x)
  moreover note resolve_table_keyspace [of L session_ks name s s' k t] check_writable_system [OF assms(2)] assms(1)
  ultimately show "no_effect s' (case x of (keyspace, table) \<Rightarrow> and_then (s', check_writable keyspace) (\<lambda>s _. f s keyspace table))"
    by (auto simp: no_effect_def)
qed simp

text \<open>Looking a keyspace or a table up before the guard has no effect either.\<close>

lemma no_effect_lookup:
  assumes "\<And>s' r. no_effect s' (f s' r)"
  shows "no_effect s (and_then (with_err internal_err (get_keyspace L n s)) f)"
  by (rule no_effect_bind) (use assms in auto)

lemma no_effect_table_lookup:
  assumes "\<And>s' r. no_effect s' (f s' r)"
  shows "no_effect s (and_then (with_err internal_err (get_table L k t s)) f)"
  by (rule no_effect_bind) (use assms in auto)

lemmas statement_defs = execute_statement_def ungated_def exec_create_keyspace_def exec_create_table_def exec_drop_keyspace_def
  exec_drop_table_def exec_insert_def exec_delete_def exec_update_def exec_truncate_def Let_def

text \<open>
  C25. The system keyspaces are read-only: whatever the session, the bound values and the state of the
  databases, a statement that would create, drop, truncate or write in one of them changes no engine,
  queues no write and leaves the row cache alone, and it never succeeds with anything but the empty
  response (which IF EXISTS and IF NOT EXISTS give).
\<close>

theorem system_keyspaces_read_only:
  assumes "modifies session_ks stmt ks" and "ks \<in> set SYSTEM_KEYSPACES"
  shows "no_effect s (execute_statement L session_ks stmt b page_size paging_state s)"
proof -
  note sys = check_writable_system [OF assms(2)]
  show ?thesis
  proof (cases stmt)
    case (SCreateKeyspace k)
    with assms show ?thesis unfolding statement_defs by (auto simp: and_then_assoc intro!: no_effect_lookup)
  next
    case (SCreateTable t)
    with assms sys show ?thesis unfolding statement_defs by (auto simp: and_then_assoc intro!: no_effect_table_lookup)
  next
    case (SDropKeyspace d)
    with assms sys show ?thesis unfolding statement_defs by (auto intro!: no_effect_lookup)
  next
    case (SDropTable d)
    with assms sys show ?thesis unfolding statement_defs by (auto intro!: no_effect_table_lookup)
  qed (use assms in \<open>auto simp: statement_defs guarded_no_effect\<close>)
qed

theorem system_keyspaces_read_only_witness:
  "no_effect (fresh_storage 1 (fmempty :: (bytes, bytes) fmap) True True)
     (execute_statement mem_libs None (STruncate \<lparr>fq_keyspace = Some (Quoted ''system''), fq_name = Quoted ''local''\<rparr>) binds_none None None
        (fresh_storage 1 fmempty True True))"
  by (rule system_keyspaces_read_only [of _ _ "''system''"])
     (simp_all add: target_keyspace_def SYSTEM_KEYSPACES_def)

section \<open>The two ways to compute the row of an UPDATE\<close>

lemma regular_indices_length: "length (regular_indices t) = length (filter is_regular (td_columns t))"
proof -
  have "map ((!) (td_columns t)) (regular_indices t) = filter is_regular (map ((!) (td_columns t)) [0..<length (td_columns t)])"
    by (simp add: regular_indices_def filter_map comp_def)
  then show ?thesis by (metis length_map map_nth)
qed

lemma unwrap_not_Err [simp]: "unwrap m \<noteq> Err e"
  by (cases m) simp_all

lemma covering_card:
  assumes "covers_all_regular t new_values"
  shows "distinct (map fst new_values)" and "card (fst ` set new_values) = card (set (regular_indices t))"
    and "map_of (rev new_values) = map_of new_values"
proof -
  show dist: "distinct (map fst new_values)" using assms by (simp add: covers_all_regular_def)
  have "length new_values = length (regular_indices t)" using assms by (simp add: covers_all_regular_def regular_indices_length)
  with dist show "card (fst ` set new_values) = card (set (regular_indices t))"
    by (metis distinct_card distinct_filter distinct_upt length_map regular_indices_def set_map)
  show "map_of (rev new_values) = map_of new_values"
    by (rule map_of_inject_set [THEN iffD2]) (simp_all add: dist rev_map [symmetric])
qed

lemma update_covering_merge:
  assumes "covers_all_regular t new_values" and "length row = length (td_columns t)"
    and "fst ` set new_values \<subseteq> set (regular_indices t)"
  shows "update_covering t new_values = Ok (update_merge t new_values row)"
proof -
  note cov = covering_card [OF assms(1)]
  from assms(3) cov(2) have eq: "fst ` set new_values = set (regular_indices t)" by (simp add: card_subset_eq)
  have "map_of new_values i = Some (fold (\<lambda>(idx, v) row. row[idx := v]) new_values row ! i)" if "i \<in> set (regular_indices t)" for i
  proof -
    from that eq obtain v where v: "(i, v) \<in> set new_values" by fastforce
    moreover have "i < length row" using that assms(2) by (simp add: regular_indices_def)
    ultimately show ?thesis using cov(1) with_keys_at [OF cov(1) v] by (simp add: with_keys_def)
  qed
  then show ?thesis by (simp add: update_covering_def update_merge_def cov(3) rmap_all_Ok)
qed

text \<open>
  C26. When an UPDATE assigns as many distinct columns as the table has regular ones, the row computed
  without reading the stored row is the row the read-modify-write would compute, whatever is stored,
  provided only regular columns are assigned; if one of them is a key column, the handler panics.
\<close>

theorem update_paths_agree:
  assumes "covers_all_regular t new_values" and "length row = length (td_columns t)"
  shows "update_covering t new_values =
    (if fst ` set new_values \<subseteq> set (regular_indices t) then Ok (update_merge t new_values row) else Panic)"
proof (cases "fst ` set new_values \<subseteq> set (regular_indices t)")
  case True
  with update_covering_merge [OF assms] show ?thesis by simp
next
  case False
  note cov = covering_card [OF assms(1)]
  from False have "\<not> set (regular_indices t) \<subseteq> fst ` set new_values"
    using cov(2) by (metis List.finite_set card_subset_eq finite_imageI order_refl)
  then obtain i where "i \<in> set (regular_indices t)" "map_of new_values i = None" by (auto simp: map_of_eq_None_iff)
  then have "update_covering t new_values = Panic"
    unfolding update_covering_def cov(3) by (intro rmap_Panic) (auto simp: result_simps intro!: bexI [of _ i] elim: rbind.elims)
  with False show ?thesis by simp
qed

theorem update_paths_agree_witness:
  "update_covering kv_table [(1, VText ''y'')] = Ok (update_merge kv_table [(1, VText ''y'')] [VInt 1, VText ''x'']) \<and>
   update_covering kv_table [(0, VInt 2)] = Panic"
proof -
  have "covers_all_regular kv_table [(1, VText ''y'')]" "covers_all_regular kv_table [(0, VInt 2)]"
    "length [VInt 1, VText ''x''] = length (td_columns kv_table)" "regular_indices kv_table = [1]"
    by (simp_all add: covers_all_regular_def is_regular_def regular_indices_def kv_table_def upt_rec)
  with update_paths_agree [of kv_table "[(1, VText ''y'')]" "[VInt 1, VText ''x'']"]
    update_paths_agree [of kv_table "[(0, VInt 2)]" "[VInt 1, VText ''x'']"] show ?thesis by simp
qed

section \<open>Error codes\<close>

text \<open>The codes of the protocol that the engine uses: server error, syntax error, invalid query, already exists.\<close>

definition error_codes :: "i32 set" where
  "error_codes = {0x0000, 0x2000, 0x2200, 0x2400}"

definition coded :: "'a qres \<Rightarrow> bool" where
  "coded r \<longleftrightarrow> (\<forall>e. r = Err e \<longrightarrow> qe_code e \<in> error_codes)"

named_theorems coded_intros \<open>results whose errors carry a code of the protocol\<close>

lemma coded_simps [simp]:
  "coded (Ok x)" "coded (Halt h)" "coded (Err (syntax_err m))" "coded (Err (invalid_err m))"
  "coded (Err (already_exists_err k t))" "coded (Err (internal_err m))" "coded (unwrap p)"
  "coded (Err (undefined_column c))" "coded (Err where_err)" "coded (Err parse_error)"
  by (simp_all add: coded_def error_codes_def syntax_err_def invalid_err_def already_exists_err_def internal_err_def
      undefined_column_def where_err_def parse_error_def)

lemma coded_map_err [simp]: "coded (map_err internal_err m)" "coded (map_err invalid_err m)"
  "coded (map_err (\<lambda>e. invalid_err (g e)) m)"
  by (cases m; simp)+

lemma coded_ok_or [coded_intros]: "coded (Err e) \<Longrightarrow> coded (ok_or e m)"
  by (cases m) (auto simp: coded_def)

lemma coded_rbind [coded_intros]: "coded m \<Longrightarrow> (\<And>x. coded (f x)) \<Longrightarrow> coded (rbind m f)"
  by (cases m) (auto simp: coded_def)

lemma coded_and_then [coded_intros]: "coded (snd m) \<Longrightarrow> (\<And>s x. coded (snd (f s x))) \<Longrightarrow> coded (snd (and_then m f))"
  by (cases "(m, f)" rule: and_then.cases) (auto simp: coded_def)

lemma coded_rmap [coded_intros]: "(\<And>x. coded (f x)) \<Longrightarrow> coded (rmap f xs)"
  by (induction xs) (auto intro!: coded_intros)

lemma coded_binds_take [simp]: "coded (snd (binds_take ct b))"
  by (auto simp: binds_take_def split: option.split)

lemma coded_literal_value [simp]: "coded (literal_value L text ct)"
  by (simp add: literal_value_def)

lemma coded_operand_to_value [simp]: "coded (snd (operand_to_value L operand ct b))"
  by (auto simp: operand_to_value_def intro!: coded_intros split: operand.split column_type.split)

lemma coded_select_loop [simp]: "coded (select_loop t elems all_columns selected)"
  by (induction t elems all_columns selected rule: select_loop.induct) (auto intro!: coded_intros)

lemma coded_select_columns [simp]: "coded (select_columns t elems)"
  by (auto simp: select_columns_def intro!: coded_intros)

lemma coded_in_item [simp]: "coded (snd (in_item L ct item b))"
  by (auto simp: in_item_def split: operand.split)

lemma coded_in_items [simp]: "coded (snd (in_items L ct items b))"
  by (induction items arbitrary: b) (auto intro!: coded_intros)

lemma coded_parse_filter [simp]: "coded (snd (parse_filter L t rel b))"
  by (auto simp: parse_filter_def intro!: coded_intros split: operand.split option.split relation_operator.split)

lemma coded_parse_filters [simp]: "coded (snd (parse_filters L t rels b))"
  by (induction rels arbitrary: b) (auto intro!: coded_intros)

lemma coded_key_parts [simp]: "coded (key_parts_from_filters t filters)"
  by (auto simp: key_parts_from_filters_def intro!: coded_intros)

lemma coded_target_keyspace [simp]: "coded (target_keyspace session_ks name)"
  by (auto simp: target_keyspace_def intro!: coded_intros split: option.split)

lemma coded_resolve_table [simp]: "coded (snd (resolve_table L session_ks name s))"
  by (auto simp: resolve_table_def Let_def intro!: coded_intros)

lemma coded_check_writable [simp]: "coded (check_writable ks)"
  by (simp add: check_writable_def)

lemma coded_parse_cached [simp]: "coded (snd (parse_cached L query s))"
  by (auto simp: parse_cached_def Let_def split: option.split list.split bool.split)

lemma coded_resolve_values [simp]: "coded (snd (resolve_values L t cols resolved b))"
  by (induction L t cols resolved b rule: resolve_values.induct) (auto intro!: coded_intros split: option.split)

lemma coded_assign_values [simp]: "coded (snd (assign_values L t as b))"
  by (induction as arbitrary: b) (auto simp: Let_def intro!: coded_intros)

lemma coded_split_filters [simp]: "coded (split_filters t filters)"
  by (induction t filters rule: split_filters.induct) (auto intro!: coded_intros)

lemma coded_ungated [simp]: "coded (snd m) \<Longrightarrow> coded (snd (ungated m))"
  by (auto simp: ungated_def intro!: coded_intros)

lemma coded_select_point [simp]: "coded (snd (select_point L ks t sel eqs ins kidx parts s))"
  by (auto simp: select_point_def intro!: coded_intros split: option.split)

lemma coded_select_scan [simp]: "coded (select_scan L ks t sel eqs ins kidx filters pl paging s)"
  by (auto simp: select_scan_def Let_def intro!: coded_intros split: option.split)

lemma coded_select_rows [simp]: "coded (snd (select_rows L ks t sel eqs ins kidx filters ps eff paging s))"
  by (auto simp: select_rows_def Let_def intro!: coded_intros split: option.split)

lemma coded_exec_select [simp]: "coded (snd (exec_select L session_ks sel b ps paging s))"
  by (auto simp: exec_select_def virtual_stub_def select_table_def finish_select_def column_idxs_def Let_def
      intro!: coded_intros split: option.split)

lemma coded_schema_statements [simp]:
  "coded (snd (exec_use L i s))" "coded (snd (exec_create_keyspace L k s))" "coded (snd (exec_create_table L session_ks t s))"
  "coded (snd (exec_drop_keyspace L d s))" "coded (snd (exec_drop_table L session_ks d s))"
  "coded (snd (exec_truncate L session_ks name s))"
  by (auto simp: exec_use_def exec_create_keyspace_def exec_create_table_def exec_drop_keyspace_def exec_drop_table_def
      exec_truncate_def Let_def intro!: coded_intros)

lemma coded_insert_key_part [simp]: "coded (insert_key_part t resolved pk)"
  by (auto simp: insert_key_part_def intro!: coded_intros)

lemma coded_exec_insert [simp]: "coded (snd (exec_insert L session_ks i b s))"
  by (auto simp: exec_insert_def intro!: coded_intros split: insert_values.split)

lemma coded_exec_delete [simp]: "coded (snd (exec_delete L session_ks d b s))"
  by (auto simp: exec_delete_def intro!: coded_intros)

lemma coded_assign [coded_intros]:
  "(\<And>b s x. coded (snd (f b s x))) \<Longrightarrow> coded (snd (case assign_values L t as b of (b, r) \<Rightarrow> and_then (s, r) (f b)))"
  using coded_assign_values [of L t as b] by (cases "assign_values L t as b") (auto intro!: coded_intros)

lemma coded_exec_update [simp]: "coded (snd (exec_update L session_ks u b s))"
  by (auto simp: exec_update_def update_covering_def intro!: coded_intros split: option.split)

text \<open>
  Whatever the query text, the bound values, the parser and the databases do, an error response of
  the query engine carries one of the four error codes the protocol defines for it, for plain and for
  prepared statements.
\<close>

theorem query_error_codes:
  "(snd (execute_with_values_paged L ks query values page_size paging s) = Err e \<longrightarrow> qe_code e \<in> error_codes) \<and>
   (snd (execute_prepared_paged L ks stmt values page_size paging s) = Err e \<longrightarrow> qe_code e \<in> error_codes)"
proof -
  have "coded (snd (execute_statement L ks stmt b page_size paging s))" for stmt b and s :: "'a storage"
    by (cases stmt) (auto simp: execute_statement_def)
  then have "coded (snd (execute_with_values_paged L ks query values page_size paging s))"
    "coded (snd (execute_prepared_paged L ks stmt values page_size paging s))"
    by (auto simp: execute_with_values_paged_def execute_prepared_paged_def intro!: coded_intros)
  then show ?thesis by (simp add: coded_def)
qed

theorem query_error_codes_witness:
  "snd (execute_with_values_paged mem_libs None ''SELEC'' [] None None (fresh_storage 1 (fmempty :: (bytes, bytes) fmap) True True)) = Err parse_error \<and>
   qe_code parse_error \<in> error_codes"
proof -
  have "snd (execute_with_values_paged mem_libs None ''SELEC'' [] None None (fresh_storage 1 (fmempty :: (bytes, bytes) fmap) True True)) = Err parse_error"
    by (simp add: execute_with_values_paged_def parse_cached_def ast_cache_get_def fresh_storage_def mem_libs_def)
  with query_error_codes show ?thesis by blast
qed

section \<open>Panics\<close>

lemma column_idxs_panic:
  "\<exists>n\<in>set names. column_index t n = None \<Longrightarrow> column_idxs t names = Panic"
  unfolding column_idxs_def by (intro rmap_Panic) (auto simp: result_simps)

text \<open>
  A SELECT that gives a column an alias which is not itself a column name of the table panics the
  request handler: the indexes are looked up by the name under which a column is returned.
\<close>

theorem select_alias_panics:
  assumes "virtual_stub L session_ks sel s = (s0, Ok None)"
    and "resolve_table L session_ks (sl_table_name sel) s0 = (s1, Ok (ks, t))"
    and "sl_columns sel = [SelColumn \<lparr>nc_name = col, nc_alias_or_name = alias\<rparr>]" and "column t (norm_id col) = Some c"
    and "column_index t (norm_id alias) = None" and "sl_where sel = []"
  shows "exec_select L session_ks sel b page_size paging_state s = (s1, Panic)"
proof -
  have "column_idxs t [norm_id alias] = Panic" using assms(5) by (intro column_idxs_panic) simp
  with assms(1-4,6) show ?thesis by (simp add: exec_select_def select_table_def select_columns_def)
qed

theorem select_alias_panics_witness:
  "snd (exec_select mem_libs None
      \<lparr>sl_table_name = \<lparr>fq_keyspace = Some (Quoted ''shop''), fq_name = Quoted ''kv''\<rparr>,
       sl_columns = [SelColumn \<lparr>nc_name = Quoted ''v'', nc_alias_or_name = Quoted ''w''\<rparr>], sl_where = [], sl_limit = None\<rparr>
      binds_none None None ((fresh_storage 1 (fmempty :: (bytes, bytes) fmap) True True)\<lparr>st_tables := [(''shop'', ''kv'') \<mapsto> kv_table]\<rparr>))
   = Panic"
proof -
  let ?s = "(fresh_storage 1 (fmempty :: (bytes, bytes) fmap) True True)\<lparr>st_tables := [(''shop'', ''kv'') \<mapsto> kv_table]\<rparr>"
  let ?name = "\<lparr>fq_keyspace = Some (Quoted ''shop''), fq_name = Quoted ''kv''\<rparr>"
  let ?sel = "\<lparr>sl_table_name = ?name, sl_columns = [SelColumn \<lparr>nc_name = Quoted ''v'', nc_alias_or_name = Quoted ''w''\<rparr>],
      sl_where = [], sl_limit = None\<rparr>"
  have "virtual_stub mem_libs None ?sel ?s = (?s, Ok None)" by (simp add: virtual_stub_def)
  moreover have "resolve_table mem_libs None (sl_table_name ?sel) ?s = (?s, Ok (''shop'', kv_table))"
    by (simp add: resolve_table_def target_keyspace_def get_table_def)
  moreover have "column kv_table (norm_id (Quoted ''v'')) = Some (td_columns kv_table ! 1)"
    "column_index kv_table (norm_id (Quoted ''w'')) = None"
    by (simp_all add: column_def column_index_def kv_table_def)
  ultimately show ?thesis
    using select_alias_panics [of mem_libs None ?sel ?s ?s ?s "''shop''" kv_table "Quoted ''v''" "Quoted ''w''"] by simp
qed

end
