(* ===== verification/ServerSpec.thy ===== *)
theory ServerSpec
  imports Server QueryGuards QuerySpec
begin

text \<open>
  What a client can rely on over the requests of a connection: a prepared statement executes like the
  query it was prepared from, the ids of prepared statements, and the negotiation of compression.
\<close>

declare split_paired_All [simp del] split_paired_Ex [simp del]

section \<open>Only USE sets the keyspace\<close>

definition no_keyspace :: "('s \<times> (response \<times> ticket list) qres) \<Rightarrow> bool" where
  "no_keyspace m \<longleftrightarrow> (\<forall>r ts. snd m = Ok (r, ts) \<longrightarrow> (\<forall>ks. r \<noteq> RSetKeyspace ks))"

lemma no_keyspace_bind: "(\<And>s x. no_keyspace (f s x)) \<Longrightarrow> no_keyspace (and_then m f)"
  by (cases "(m, f)" rule: and_then.cases) (auto simp: no_keyspace_def)

lemma no_keyspace_simps [simp]:
  "no_keyspace (s, Err e)" "no_keyspace (s, Halt h)" "no_keyspace (s, Ok (RVoid, ts))"
  "no_keyspace (s, Ok (RRows ks tb cols rows ps, ts))" "no_keyspace (s, Ok (RSchemaChange a b c d, ts))"
  by (simp_all add: no_keyspace_def)

text \<open>The statements that can be prepared.\<close>

fun preparable :: "statement \<Rightarrow> bool" where
  "preparable (SInsert _) = True"
| "preparable (SUpdate _) = True"
| "preparable (SSelect _) = True"
| "preparable (SDelete _) = True"
| "preparable _ = False"

lemma prepared_info_preparable: "prepared_info L ks stmt s = (s', Ok info) \<Longrightarrow> preparable stmt"
  by (cases stmt) (auto simp: prepared_info_def)

lemma exec_select_rows:
  assumes "snd (exec_select L session_ks sel b page_size paging_state s) = Ok r"
  obtains ks tb cols rows ps where "r = RRows ks tb cols rows ps"
  using assms
  by (auto simp: exec_select_def virtual_stub_def select_table_def finish_select_def Let_def result_simps
      split: option.splits if_splits prod.splits)

lemma execute_statement_no_keyspace:
  assumes "preparable stmt"
  shows "no_keyspace (execute_statement L session_ks stmt b page_size paging_state s)"
proof (cases stmt)
  case (SInsert i)
  then show ?thesis
    by (auto simp: execute_statement_def exec_insert_def intro!: no_keyspace_bind split: insert_values.split)
next
  case (SSelect sel)
  then show ?thesis
    by (auto simp: execute_statement_def ungated_def no_keyspace_def result_simps elim: exec_select_rows)
next
  case (SDelete d)
  then show ?thesis by (auto simp: execute_statement_def exec_delete_def intro!: no_keyspace_bind)
next
  case (SUpdate u)
  then show ?thesis by (auto simp: execute_statement_def exec_update_def intro!: no_keyspace_bind split: prod.split)
qed (use assms in simp_all)

section \<open>The statement cache while preparing\<close>

lemma parse_cached_hit: "ast_cache_get q s = Some stmt \<Longrightarrow> parse_cached L q s = (s, Ok stmt)"
  by (simp add: parse_cached_def)

lemma ast_cache_get_put: "ast_cache_get q (ast_cache_put q stmt s) = Some stmt"
  by (simp add: ast_cache_get_def ast_cache_put_def Let_def update_conv)

lemma parse_cached_stores:
  assumes "parse_cached L q s = (s', Ok stmt)"
  shows "ast_cache_get q s' = Some stmt"
proof (cases "ast_cache_get q s")
  case None
  then have miss: "parse_cached L q s = (if ast_has_error (cql_parse L q) then (s, Err parse_error)
      else (case ast_statements (cql_parse L q) of (False, stmt) # _ \<Rightarrow> (ast_cache_put q stmt s, Ok stmt) | _ \<Rightarrow> (s, Err parse_error)))"
    by (simp add: parse_cached_def Let_def)
  show ?thesis using assms unfolding miss
    by (cases "ast_statements (cql_parse L q)"; cases "fst (hd (ast_statements (cql_parse L q)))")
       (auto simp: ast_cache_get_put split: if_splits prod.splits)
qed (use assms in \<open>simp add: parse_cached_def\<close>)

lemma get_table_ast: "st_ast_cache (fst (get_table L ks tb s)) = st_ast_cache s"
  by (auto simp: get_table_def reading_def split: option.split result.split)

definition keeps_ast :: "'db storage \<Rightarrow> 'db storage \<times> 'a \<Rightarrow> bool" where
  "keeps_ast s m \<longleftrightarrow> st_ast_cache (fst m) = st_ast_cache s"

lemma keeps_ast_bind: "keeps_ast s m \<Longrightarrow> (\<And>s' x. keeps_ast s' (f s' x)) \<Longrightarrow> keeps_ast s (and_then m f)"
  by (cases "(m, f)" rule: and_then.cases) (auto simp: keeps_ast_def)

lemma keeps_ast_pair [simp]: "keeps_ast s (s, x)"
  by (simp add: keeps_ast_def)

lemma keeps_ast_get_table: "keeps_ast s (with_err g (get_table L ks tb s))"
  by (simp add: keeps_ast_def get_table_ast)

lemma resolve_table_ast: "keeps_ast s (resolve_table L session_ks name s)"
  by (auto simp: resolve_table_def Let_def intro!: keeps_ast_bind keeps_ast_get_table)

lemma prepared_info_ast: "keeps_ast s (prepared_info L session_ks stmt s)"
  by (auto simp: prepared_info_def intro!: keeps_ast_bind resolve_table_ast split: statement.split)

section \<open>Preparing\<close>

lemma prepared_info_no_ast: "prepared_info L ks stmt s = (s', r) \<Longrightarrow> ast_cache_get q s' = ast_cache_get q s"
  using prepared_info_ast [of s L ks stmt] by (simp add: keeps_ast_def ast_cache_get_def)

text \<open>What a successful PREPARE leaves behind.\<close>

lemma handle_prepare_ok:
  assumes "handle_prepare L P body stream (s, c) = ((s', c'), Ok f)"
  obtains query p where "fr_read_long_string P body = Some query"
    and "c' = c\<lparr>cn_next_prepared_id := cn_next_prepared_id c + 1,
      cn_prepared := (cn_prepared c)(to_be_bytes (cn_next_prepared_id c) \<mapsto> p)\<rparr>"
    and "ast_cache_get query s' = Some (ps_stmt p)" and "preparable (ps_stmt p)"
proof -
  from assms obtain query s1 stmt info where q: "fr_read_long_string P body = Some query"
    and parsed: "parse_cached L query s = (s1, Ok stmt)" and info: "prepared_info L (cn_keyspace c) stmt s1 = (s', Ok info)"
    and c': "c' = c\<lparr>cn_next_prepared_id := cn_next_prepared_id c + 1,
      cn_prepared := (cn_prepared c)(to_be_bytes (cn_next_prepared_id c) \<mapsto>
        \<lparr>ps_stmt = stmt, ps_bind_types = map snd (pi_bind_specs info)\<rparr>)\<rparr>"
    by (auto simp: handle_prepare_def in_session_def Let_def result_simps prod_eq_iff split: option.splits prod.splits)
  show ?thesis
    by (rule that [OF q c']) (use parse_cached_stores [OF parsed] prepared_info_no_ast [OF info] prepared_info_preparable [OF info] in auto)
qed

text \<open>A sequence of successful PREPARE requests.\<close>

fun prepares :: "'db libs \<Rightarrow> frame_libs \<Rightarrow> (bytes \<times> i16) list \<Rightarrow> 'db session \<Rightarrow> ('db, bytes list) sact" where
  "prepares L P [] sess = (sess, Ok [])"
| "prepares L P ((body, stream) # reqs) sess =
     and_then (handle_prepare L P body stream sess) (\<lambda>sess f.
     and_then (prepares L P reqs sess) (\<lambda>sess fs. (sess, Ok (f # fs))))"

lemma prepares_next:
  "prepares L P reqs (s, c) = ((s', c'), Ok fs) \<Longrightarrow> cn_next_prepared_id c' = cn_next_prepared_id c + word_of_nat (length reqs)"
proof (induction reqs arbitrary: s c fs)
  case (Cons req reqs)
  obtain body stream where "req = (body, stream)" by (cases req)
  with Cons.prems obtain s1 c1 f fs' where
    "handle_prepare L P body stream (s, c) = ((s1, c1), Ok f)" "prepares L P reqs (s1, c1) = ((s', c'), Ok fs')"
    by (auto simp: result_simps)
  with Cons.IH [OF this(2)] show ?case by (auto elim!: handle_prepare_ok)
qed simp

lemma prepares_keep:
  "prepares L P reqs (s, c) = ((s', c'), Ok fs) \<Longrightarrow> (\<And>i. i < length reqs \<Longrightarrow> w \<noteq> cn_next_prepared_id c + word_of_nat i) \<Longrightarrow>
     cn_prepared c' (to_be_bytes w) = cn_prepared c (to_be_bytes w)"
proof (induction reqs arbitrary: s c fs)
  case (Cons req reqs)
  obtain body stream where "req = (body, stream)" by (cases req)
  with Cons.prems(1) obtain s1 c1 f fs' where
    prep: "handle_prepare L P body stream (s, c) = ((s1, c1), Ok f)" and run: "prepares L P reqs (s1, c1) = ((s', c'), Ok fs')"
    by (auto simp: result_simps)
  from prep obtain p where c1: "c1 = c\<lparr>cn_next_prepared_id := cn_next_prepared_id c + 1,
      cn_prepared := (cn_prepared c)(to_be_bytes (cn_next_prepared_id c) \<mapsto> p)\<rparr>" by (rule handle_prepare_ok)
  have "w \<noteq> cn_next_prepared_id c1 + word_of_nat i" if "i < length reqs" for i
    using Cons.prems(2) [of "Suc i"] that by (simp add: c1 ac_simps)
  from Cons.IH [OF run this] have "cn_prepared c' (to_be_bytes w) = cn_prepared c1 (to_be_bytes w)" .
  moreover have "w \<noteq> cn_next_prepared_id c" using Cons.prems(2) [of 0] by simp
  then have "to_be_bytes w \<noteq> to_be_bytes (cn_next_prepared_id c)" by (metis from_to_be_bytes_widths(1))
  ultimately show ?case by (simp add: c1)
qed simp

text \<open>
  C19. EXECUTE means what the prepared query says: after a successful PREPARE, EXECUTE with the id it
  returned does exactly what QUERY with the same text and the same values does, to the storage, to the
  connection and in the response, provided as many values are bound as the statement was prepared with.
\<close>

theorem execute_equals_query:
  assumes "handle_prepare L P body stream (s, c) = ((s1, c1), Ok frame)" and "fr_read_long_string P body = Some query"
    and "fr_query P query_body = Some (query, params)"
    and "fr_read_short_bytes P execute_body = Some (to_be_bytes (cn_next_prepared_id c), buf)" and "fr_params P buf = Some params"
    and "\<forall>p. cn_prepared c1 (to_be_bytes (cn_next_prepared_id c)) = Some p \<longrightarrow> length (qp_values params) = length (ps_bind_types p)"
  shows "handle_execute L P execute_body stream' (s1, c1) = handle_query L P query_body stream' (s1, c1)"
proof -
  from assms(1) obtain p where c1: "cn_prepared c1 (to_be_bytes (cn_next_prepared_id c)) = Some p"
    and cached: "ast_cache_get query s1 = Some (ps_stmt p)" and prep: "preparable (ps_stmt p)"
    using assms(2) by (elim handle_prepare_ok) auto
  obtain s2 r where run: "execute_statement L (cn_keyspace c1) (ps_stmt p) (binds_new (qp_values params)) (qp_page_size params)
      (qp_paging_state params) s1 = (s2, r)" by (metis surj_pair)
  have noks: "resp \<noteq> RSetKeyspace ks" if "r = Ok (resp, ts)" for resp ts ks
    using execute_statement_no_keyspace [OF prep, of L "cn_keyspace c1" "binds_new (qp_values params)" "qp_page_size params"
      "qp_paging_state params" s1] that by (simp add: run no_keyspace_def)
  have "settle_then r (\<lambda>resp c. (case resp of RSetKeyspace name \<Rightarrow> set_keyspace name c | _ \<Rightarrow> c, g resp)) =
      settle_then r (\<lambda>resp c. (c, g resp))" for g :: "response \<Rightarrow> bytes qres"
    using noks by (cases r) (auto simp: settle_then_def fun_eq_iff split: response.split)
  with assms c1 cached show ?thesis
    by (simp add: handle_execute_def handle_query_def execute_prepared_paged_def execute_with_values_paged_def parse_cached_hit run)
qed

text \<open>A prepared INSERT into the sample table.\<close>

definition kv_params :: query_params where
  "kv_params = \<lparr>qp_values = [bound (VInt 5), bound (VText ''x'')], qp_page_size = None, qp_paging_state = None, qp_skip_metadata = False\<rparr>"

definition kv_frames :: frame_libs where
  "kv_frames = plain_frames\<lparr>fr_read_long_string := \<lambda>_. Some ''q'', fr_query := \<lambda>_. Some (''q'', kv_params),
     fr_read_short_bytes := \<lambda>_. Some (to_be_bytes (1 :: u16), []), fr_params := \<lambda>_. Some kv_params\<rparr>"

definition kv_state :: "(bytes, bytes) fmap storage" where
  "kv_state = (fresh_storage 1 fmempty True True)
     \<lparr>st_tables := [(''shop'', ''kv'') \<mapsto> kv_table], st_ast_cache := [(''q'', SInsert (insert_full ''shop'' ''kv'' kv_table))]\<rparr>"

definition kv_next :: "conn_shared \<Rightarrow> conn_shared" where
  "kv_next c = c\<lparr>cn_next_prepared_id := cn_next_prepared_id c + 1,
     cn_prepared := (cn_prepared c)(to_be_bytes (cn_next_prepared_id c) \<mapsto>
       \<lparr>ps_stmt = SInsert (insert_full ''shop'' ''kv'' kv_table), ps_bind_types = [TInt, TText]\<rparr>)\<rparr>"

lemma kv_prepare: "\<exists>f. handle_prepare mem_libs kv_frames [] stream (kv_state, c) = ((kv_state, kv_next c), Ok f)"
proof -
  have "parse_cached mem_libs ''q'' kv_state = (kv_state, Ok (SInsert (insert_full ''shop'' ''kv'' kv_table)))"
    by (rule parse_cached_hit) (simp add: kv_state_def ast_cache_get_def)
  moreover have "resolve_table mem_libs ks (table_name_of ''shop'' ''kv'') kv_state = (kv_state, Ok (''shop'', kv_table))" for ks
    by (simp add: resolve_table_def get_table_def kv_state_def Let_def)
  then have "\<exists>pks. prepared_info mem_libs ks (SInsert (insert_full ''shop'' ''kv'' kv_table)) kv_state = (kv_state,
      Ok \<lparr>pi_keyspace = ''shop'', pi_table = ''kv'', pi_bind_specs = [(''k'', TInt), (''v'', TText)], pi_pk_indexes = pks, pi_result_cols = []\<rparr>)" for ks
    by (simp add: prepared_info_def insert_full_def) (simp add: kv_table_def column_def)
  then obtain pks where "\<And>ks. prepared_info mem_libs ks (SInsert (insert_full ''shop'' ''kv'' kv_table)) kv_state = (kv_state,
      Ok \<lparr>pi_keyspace = ''shop'', pi_table = ''kv'', pi_bind_specs = [(''k'', TInt), (''v'', TText)], pi_pk_indexes = pks ks, pi_result_cols = []\<rparr>)"
    by metis
  ultimately show ?thesis
    by (auto simp: handle_prepare_def kv_frames_def plain_frames_def in_session_def Let_def result_prepared_def response_frame_def kv_next_def
        split: option.split)
qed

theorem execute_equals_query_witness:
  "handle_execute mem_libs kv_frames [] 7 (kv_state, kv_next conn_new) = handle_query mem_libs kv_frames [] 7 (kv_state, kv_next conn_new)"
proof -
  obtain f where prep: "handle_prepare mem_libs kv_frames [] 3 (kv_state, conn_new) = ((kv_state, kv_next conn_new), Ok f)"
    using kv_prepare by blast
  show ?thesis
    using execute_equals_query [OF prep, of "''q''" "[]" kv_params "[]" "[]" 7]
    by (simp add: kv_frames_def plain_frames_def conn_new_def kv_params_def kv_next_def)
qed

text \<open>
  How long a prepared id lives: it denotes its statement through the next 65535 PREPARE requests of
  the connection. The ids are 16 bits wide, so the PREPARE after those is given the same id, and
  requests that still use it execute the other statement.
\<close>

theorem prepared_id_lifetime:
  assumes "handle_prepare L P body stream (s, c) = ((s1, c1), Ok frame)"
    and "prepares L P reqs (s1, c1) = ((s2, c2), Ok frames)"
    and "handle_prepare L P body' stream' (s2, c2) = ((s3, c3), Ok frame')"
  shows "(length reqs < 2 ^ 16 \<longrightarrow>
      cn_prepared c2 (to_be_bytes (cn_next_prepared_id c)) = cn_prepared c1 (to_be_bytes (cn_next_prepared_id c))) \<and>
    (Suc (length reqs) = 2 ^ 16 \<longrightarrow>
      (\<exists>query p. fr_read_long_string P body' = Some query \<and> ast_cache_get query s3 = Some (ps_stmt p) \<and>
         cn_prepared c3 (to_be_bytes (cn_next_prepared_id c)) = Some p))"
proof (intro conjI impI)
  from assms(1) have c1: "cn_next_prepared_id c1 = cn_next_prepared_id c + 1" by (elim handle_prepare_ok) simp
  assume "length reqs < 2 ^ 16"
  then have "cn_next_prepared_id c \<noteq> cn_next_prepared_id c1 + word_of_nat i" if "i < length reqs" for i
  proof -
    have "unat (word_of_nat (Suc i) :: u16) = Suc i" if "i < 2 ^ 16 - 1"
      using that by (simp add: unat_of_nat take_bit_nat_eq_self del: of_nat_Suc)
    then have "(1 :: u16) + word_of_nat i \<noteq> 0" if "i < 2 ^ 16 - 1"
      using that by (metis Suc_neq_Zero of_nat_Suc unat_0)
    with that \<open>length reqs < 2 ^ 16\<close> show ?thesis by (simp add: c1 add.assoc)
  qed
  then show "cn_prepared c2 (to_be_bytes (cn_next_prepared_id c)) = cn_prepared c1 (to_be_bytes (cn_next_prepared_id c))"
    by (rule prepares_keep [OF assms(2)])
next
  assume "Suc (length reqs) = 2 ^ 16"
  moreover have "cn_next_prepared_id c1 = cn_next_prepared_id c + 1" using assms(1) by (elim handle_prepare_ok) simp
  moreover have "cn_next_prepared_id c2 = cn_next_prepared_id c1 + word_of_nat (length reqs)" by (rule prepares_next [OF assms(2)])
  ultimately have "cn_next_prepared_id c2 = cn_next_prepared_id c + word_of_nat (2 ^ 16)" by (simp flip: of_nat_Suc add: add.assoc)
  then have "cn_next_prepared_id c2 = cn_next_prepared_id c" by simp
  with assms(3) show "\<exists>query p. fr_read_long_string P body' = Some query \<and> ast_cache_get query s3 = Some (ps_stmt p) \<and>
      cn_prepared c3 (to_be_bytes (cn_next_prepared_id c)) = Some p"
    by (elim handle_prepare_ok) auto
qed

theorem prepared_id_lifetime_witness:
  "cn_prepared (kv_next (kv_next conn_new)) (to_be_bytes (1 :: u16)) = cn_prepared (kv_next conn_new) (to_be_bytes (1 :: u16)) \<and>
   cn_prepared (kv_next conn_new) (to_be_bytes (1 :: u16)) \<noteq> None"
proof -
  have prep: "\<exists>f. handle_prepare mem_libs kv_frames [] 3 (kv_state, c) = ((kv_state, kv_next c), Ok f)" for c by (rule kv_prepare)
  obtain f1 where p1: "handle_prepare mem_libs kv_frames [] 3 (kv_state, conn_new) = ((kv_state, kv_next conn_new), Ok f1)"
    using prep by blast
  obtain f2 where "handle_prepare mem_libs kv_frames [] 3 (kv_state, kv_next conn_new) = ((kv_state, kv_next (kv_next conn_new)), Ok f2)"
    using prep by blast
  then have p2: "prepares mem_libs kv_frames [([], 3)] (kv_state, kv_next conn_new) = ((kv_state, kv_next (kv_next conn_new)), Ok [f2])"
    by simp
  obtain f3 where p3: "handle_prepare mem_libs kv_frames [] 3 (kv_state, kv_next (kv_next conn_new)) =
      ((kv_state, kv_next (kv_next (kv_next conn_new))), Ok f3)" using prep by blast
  have "cn_next_prepared_id conn_new = 1" by (simp add: conn_new_def)
  with prepared_id_lifetime [OF p1 p2 p3] have
    "cn_prepared (kv_next (kv_next conn_new)) (to_be_bytes (1 :: u16)) = cn_prepared (kv_next conn_new) (to_be_bytes (1 :: u16))" by simp
  then show ?thesis by (simp add: kv_next_def conn_new_def)
qed

end
