(* ===== verification/StatementSpec.thy ===== *)
theory StatementSpec
  imports QuerySpec QueryGuards
begin

text \<open>
  DELETE and UPDATE by the full key, over the views of the storage: what a SELECT by that key returns once
  the statement is acknowledged.
\<close>

declare split_paired_All [simp del] split_paired_Ex [simp del]

section \<open>Reading by key\<close>

text \<open>The binding of the key columns in WHERE.\<close>

abbreviation key_where :: "table_def \<Rightarrow> relation_element list" where
  "key_where t \<equiv> map (\<lambda>n. \<lparr>re_obj = OpColumn (Quoted n), re_oper = RelEqual, re_value = OpParam ''?''\<rparr>) (key_names t)"

abbreviation key_binds :: "table_def \<Rightarrow> cql_value list \<Rightarrow> raw_value list" where
  "key_binds t vals \<equiv> map (\<lambda>n. bound (key_value t vals n)) (key_names t)"

lemma key_parts_full:
  assumes "table_ok t" and "row_ok t vals"
  shows "key_parts_from_filters t (map (\<lambda>n. FEq n (key_value t vals n)) (key_names t)) = Ok (row_parts t vals)"
  unfolding key_parts_from_filters_def row_parts_def
  by (rule rmap_all_Ok) (use row_okD(3) [OF assms(2)] in \<open>simp add: eq_value_key value_eq_VNull\<close>)

lemma good_row_parts: "good_table (ks, tb) \<Longrightarrow> row_ok t vals \<Longrightarrow> good_row (ks, tb, row_parts t vals)"
  using row_okD(3) by (auto simp: good_row_def good_table_def row_parts_def list_all_iff)

lemma exec_select_missing:
  assumes "storage_wf L absm s" and "coherent absm s" and "good_table (ks, tb)" and "tb_view L absm s (ks, tb) = Some t"
    and "ks \<notin> set SYSTEM_KEYSPACES" and "table_ok t" and "row_ok t vals"
    and "row_view absm s (ks, tb, row_parts t vals) = None"
    and "quiet (st_engines s ! addr_engine s (ks, tb, row_parts t vals))"
  shows "snd (exec_select L session_ks (select_by_key ks tb t) (binds_new (key_binds t vals)) page_size paging_state s)
    = Ok (RRows ks tb (map (\<lambda>c. (cd_name c, cd_type c)) (td_columns t)) [] None)"
proof -
  let ?sel = "select_by_key ks tb t"
  obtain s' where s': "resolve_table L session_ks (table_name_of ks tb) s = (s', Ok (ks, t))" "storage_wf L absm s'"
      "st_engines s' = st_engines s" "st_row_cache s' = st_row_cache s"
    using resolve_table_ok [OF assms(1) target_keyspace_of assms(3,4)] by blast
  have name: "td_name t = tb" using tb_view_name [OF storage_wfD(4) [OF assms(1)] assms(3,4)] by simp
  have stub: "virtual_stub L session_ks ?sel s = (s, Ok None)"
    using assms(5) by (auto simp: virtual_stub_def select_by_key_def table_name_of_def SYSTEM_KEYSPACES_def)
  have sel: "select_columns t (sl_columns ?sel) = Ok (map (\<lambda>c. (cd_name c, cd_type c)) (td_columns t))"
    by (simp add: select_columns_def select_by_key_def)
  have filters: "snd (parse_filters L t (sl_where ?sel) (binds_new (key_binds t vals)))
      = Ok (map (\<lambda>n. FEq n (key_value t vals n)) (key_names t))"
    using parse_key_filters [OF assms(6,7), of "[]" "key_names t" L] by (simp add: select_by_key_def binds_new_def)
  have point: "point_key_of (map (\<lambda>n. FEq n (key_value t vals n)) (key_names t)) (key_names t) = Some (row_parts t vals)"
    using point_key [of "key_names t" "key_names t" "key_value t vals"] row_okD(3) [OF assms(7)] by (simp add: row_parts_def)
  have s'v: "row_view absm s' = row_view absm s" "addr_engine s' = addr_engine s" using view_cong [OF s'(3)] by simp_all
  obtain s'' where s'': "get_row L ks tb (row_parts t vals) s' = (s'', Ok None)"
    using get_row_ok [OF s'(2) good_row_parts [OF assms(3,7)] coherent_same [OF assms(2) s'(3,4)]] assms(8,9) s'(3) s'v by auto
  have "snd (select_point L ks t [0..<length (td_columns t)] (map (\<lambda>n. (key_idx t n, key_value t vals n)) (key_names t)) []
      (map (key_idx t) (key_names t)) (row_parts t vals) s') = Ok []"
    by (simp add: select_point_def name s'')
  moreover have "column_idxs t (map fst (map (\<lambda>c. (cd_name c, cd_type c)) (td_columns t))) = Ok [0..<length (td_columns t)]"
    using column_idxs_all [of t] assms(6) by (simp add: table_ok_def comp_def)
  moreover have "sl_table_name ?sel = table_name_of ks tb" by (simp add: select_by_key_def)
  ultimately show ?thesis
    using s'(1) stub sel filters point split_key_filters [OF assms(6), of "key_names t"] column_idxs_keys [OF assms(6)]
    by (simp add: exec_select_def select_table_def select_rows_def snd_and_then finish_select_def name del: map_map)
qed

section \<open>DELETE\<close>

definition delete_by_key :: "string \<Rightarrow> string \<Rightarrow> table_def \<Rightarrow> delete_ast" where
  "delete_by_key ks tb t = \<lparr>de_table_name = table_name_of ks tb, de_has_columns = False, de_where = key_where t\<rparr>"

lemma exec_delete_full:
  assumes "storage_wf L absm s" and "good_table (ks, tb)" and "tb_view L absm s (ks, tb) = Some t"
    and "ks \<notin> set SYSTEM_KEYSPACES" and "table_ok t" and "row_ok t vals"
  shows "\<exists>s'. storage_wf L absm s' \<and> st_engines s' = st_engines s \<and> st_row_cache s' = st_row_cache s \<and>
    exec_delete L session_ks (delete_by_key ks tb t) (binds_new (key_binds t vals)) s =
      and_then (with_err internal_err (delete_row ks tb (row_parts t vals) s')) (\<lambda>s ticket. (s, Ok (RVoid, [ticket])))"
proof -
  obtain s' where s': "resolve_table L session_ks (table_name_of ks tb) s = (s', Ok (ks, t))" "storage_wf L absm s'"
      "st_engines s' = st_engines s" "st_row_cache s' = st_row_cache s"
    using resolve_table_ok [OF assms(1) target_keyspace_of assms(2,3)] by blast
  have name: "td_name t = tb" using tb_view_name [OF storage_wfD(4) [OF assms(1)] assms(2,3)] by simp
  have "snd (parse_filters L t (key_where t) (binds_new (key_binds t vals))) = Ok (map (\<lambda>n. FEq n (key_value t vals n)) (key_names t))"
    using parse_key_filters [OF assms(5,6), of "[]" "key_names t" L] by (simp add: binds_new_def)
  then show ?thesis
    using s' assms(4) key_parts_full [OF assms(5,6)]
    by (intro exI [of _ s']) (simp add: exec_delete_def check_writable_def delete_by_key_def name)
qed

text \<open>
  C10. A deleted row is gone: a prepared DELETE by the full key is accepted, its write completes, and once it is
  acknowledged, under every schedule of the writer threads, a SELECT by that key returns no row, whether
  there was one before or not.
\<close>

theorem delete_then_select:
  assumes "storage_wf L absm s" and "coherent absm s" and "good_table (ks, tb)" and "tb_view L absm s (ks, tb) = Some t"
    and "ks \<notin> set SYSTEM_KEYSPACES" and "table_ok t" and "row_ok t vals"
  shows "\<exists>s1 ticket.
    execute_prepared L session_ks (SDelete (delete_by_key ks tb t)) (key_binds t vals) s = (s1, Ok (RVoid, [ticket])) \<and>
    settles L [ticket] s1 (settle L s1) \<and>
    (\<forall>s2. settles L [ticket] s1 s2 \<longrightarrow>
       snd (execute_prepared L session_ks' (SSelect (select_by_key ks tb t)) (key_binds t vals) s2)
       = Ok (RRows ks tb (map (\<lambda>c. (cd_name c, cd_type c)) (td_columns t)) [] None, []))"
proof -
  let ?parts = "row_parts t vals"
  obtain s' where s': "storage_wf L absm s'" "st_engines s' = st_engines s" "st_row_cache s' = st_row_cache s"
    "exec_delete L session_ks (delete_by_key ks tb t) (binds_new (key_binds t vals)) s =
      and_then (with_err internal_err (delete_row ks tb ?parts s')) (\<lambda>s ticket. (s, Ok (RVoid, [ticket])))"
    using exec_delete_full [OF assms(1,3-7)] by blast
  note good = good_row_parts [OF assms(3,7)]
  have coh: "coherent absm s'" by (rule coherent_same [OF assms(2) s'(2,3)])
  from delete_row_ok [OF s'(1) good] obtain s1 ticket where del: "delete_row ks tb ?parts s' = (s1, Ok ticket)"
    and s1: "storage_wf L absm s1" by (auto simp: row_update_def)
  have "settles L [ticket] s1 (settle L s1)"
    using settle_completes [OF s1, of "[ticket]"] queued_ticket [OF s'(1) del [unfolded put_row_queued]] by simp
  moreover have tb': "tb_view L absm s' (ks, tb) = Some t" using view_cong [OF s'(2)] assms(4) by simp
  moreover have "snd (execute_prepared L session_ks' (SSelect (select_by_key ks tb t)) (key_binds t vals) s2)
       = Ok (RRows ks tb (map (\<lambda>c. (cd_name c, cd_type c)) (td_columns t)) [] None, [])"
    if "settles L [ticket] s1 s2" for s2
    using delete_row_settled [OF s'(1) coh good del that] exec_select_missing [OF _ _ assms(3) _ assms(5-7), of L absm s2] tb'
    by (simp add: execute_prepared_def execute_statement_def ungated_def snd_and_then)
  ultimately show ?thesis
    using s'(4) del by (intro exI [of _ s1] exI [of _ ticket]) (simp add: execute_prepared_def execute_statement_def)
qed

theorem delete_then_select_witness:
  "\<exists>s s1 ticket. execute_prepared mem_libs None (SDelete (delete_by_key ''shop'' ''kv'' kv_table)) [bound (VInt 5)] s = (s1, Ok (RVoid, [ticket])) \<and>
     snd (execute_prepared mem_libs None (SSelect (select_by_key ''shop'' ''kv'' kv_table)) [bound (VInt 5)] (settle mem_libs s1))
     = Ok (RRows ''shop'' ''kv'' [(''k'', TInt), (''v'', TText)] [] None, [])"
proof -
  obtain s where s: "storage_wf mem_libs fmlookup s" "coherent fmlookup s" "tb_view mem_libs fmlookup s (''shop'', ''kv'') = Some kv_table"
    using kv_storage by (auto simp: row_inv_def)
  have good: "good_table (''shop'', ''kv'')" by (simp add: good_table_def plain_name_def)
  have user: "''shop'' \<notin> set SYSTEM_KEYSPACES" by (simp add: SYSTEM_KEYSPACES_def)
  have binds: "key_binds kv_table [VInt 5, VText ''x''] = [bound (VInt 5)]"
    by (simp add: key_names_def kv_table_def key_value_def key_idx_def column_index_def)
  have cols: "map (\<lambda>c. (cd_name c, cd_type c)) (td_columns kv_table) = [(''k'', TInt), (''v'', TText)]" by (simp add: kv_table_def)
  from delete_then_select [OF s(1,2) good s(3) user kv_table_ok kv_row_ok, of None None]
  show ?thesis unfolding binds cols by blast
qed

section \<open>UPDATE\<close>

definition update_by_key :: "string \<Rightarrow> string \<Rightarrow> table_def \<Rightarrow> nat list \<Rightarrow> update_ast" where
  "update_by_key ks tb t is =
     \<lparr>up_table_name = table_name_of ks tb,
      up_assignments = map (\<lambda>i. \<lparr>as_column = Quoted (cd_name (td_columns t ! i)), as_has_operator = False, as_value = OpParam ''?''\<rparr>) is,
      up_where = key_where t\<rparr>"

text \<open>The values of an UPDATE fit the regular columns they are assigned to.\<close>

definition assigns_ok :: "table_def \<Rightarrow> nat list \<Rightarrow> cql_value list \<Rightarrow> bool" where
  "assigns_ok t is ws \<longleftrightarrow> distinct is \<and> set is \<subseteq> set (regular_indices t) \<and>
     list_all2 (\<lambda>i w. conforms (cd_type (td_columns t ! i)) w \<and> wire_sized w) is ws"

lemma assigns_okD:
  assumes "assigns_ok t is ws"
  shows "length ws = length is" and "map fst (zip is ws) = is" and "distinct (map fst (zip is ws))"
    and "fst ` set (zip is ws) \<subseteq> set (regular_indices t)"
proof -
  show len: "length ws = length is" using assms by (auto simp: assigns_ok_def dest: list_all2_lengthD)
  then show fst: "map fst (zip is ws) = is" by simp
  show "distinct (map fst (zip is ws))" using assms unfolding fst by (simp add: assigns_ok_def)
  show "fst ` set (zip is ws) \<subseteq> set (regular_indices t)" using assms fst by (metis assigns_ok_def list.set_map)
qed

lemma assign_values_at:
  assumes "table_ok t" and "list_all2 (\<lambda>i w. conforms (cd_type (td_columns t ! i)) w \<and> wire_sized w) is ws"
    and "set is \<subseteq> set (regular_indices t)"
  shows "assign_values L t (map (\<lambda>i. \<lparr>as_column = Quoted (cd_name (td_columns t ! i)), as_has_operator = False, as_value = OpParam ''?''\<rparr>) is)
      \<lparr>bi_values = pre @ map bound ws @ post, bi_next = length pre\<rparr>
    = (\<lparr>bi_values = pre @ map bound ws @ post, bi_next = length pre + length ws\<rparr>, Ok (zip is ws))"
  using assms(2,3)
proof (induction arbitrary: pre rule: list_all2_induct)
  case (Cons i "is" w ws)
  let ?b = "\<lparr>bi_values = pre @ map bound (w # ws) @ post, bi_next = length pre\<rparr>"
  let ?c = "td_columns t ! i"
  from Cons have i: "i < length (td_columns t)" by (simp add: regular_indices_def)
  have "column t (cd_name ?c) = Some ?c" "column_index t (cd_name ?c) = Some i"
    using find_name(1) [of "td_columns t" i] position_name(1) [of "td_columns t" i] i assms(1)
    by (simp_all add: column_def column_index_def table_ok_def)
  moreover have "binds_take (cd_type ?c) ?b = (?b\<lparr>bi_next := length pre + 1\<rparr>, Ok w)"
    using binds_take_bound [of ?b w "cd_type ?c"] Cons(1) by simp
  moreover note Cons.IH [of "pre @ [bound w]"]
  ultimately show ?case using Cons.prems by (simp add: Let_def operand_to_value_def)
qed simp

lemma with_keys_conforms:
  assumes "row_ok t vals" and "assigns_ok t is ws" and "table_ok t"
  shows "row_ok t (with_keys (zip is ws) vals)" and "row_parts t (with_keys (zip is ws) vals) = row_parts t vals"
    and "n \<in> set (key_names t) \<Longrightarrow> key_value t (with_keys (zip is ws) vals) n = key_value t vals n"
proof -
  note new = assigns_okD [OF assms(2)]
  have other: "key_value t (with_keys (zip is ws) vals) n = key_value t vals n" if "n \<in> set (key_names t)" for n
    unfolding key_value_def
    by (rule with_keys_other) (use new(4) key_idx_ok(1) [OF assms(3) that] regular_or_key [OF assms(3), of "key_idx t n"] that in auto)
  then show "n \<in> set (key_names t) \<Longrightarrow> key_value t (with_keys (zip is ws) vals) n = key_value t vals n" .
  show "row_parts t (with_keys (zip is ws) vals) = row_parts t vals" using other by (simp add: row_parts_def)
  have "conforms (cd_type (td_columns t ! i)) (with_keys (zip is ws) vals ! i) \<and> wire_sized (with_keys (zip is ws) vals ! i)"
    if i: "i < length (td_columns t)" for i
  proof (cases "i \<in> set is")
    case True
    then obtain j where j: "j < length is" "is ! j = i" by (auto simp: in_set_conv_nth)
    then have "(i, ws ! j) \<in> set (zip is ws)" using new(1) by (auto simp: set_zip)
    then have "with_keys (zip is ws) vals ! i = ws ! j"
      using i row_okD(1) [OF assms(1)] by (intro with_keys_at new(3)) simp_all
    with j assms(2) show ?thesis by (auto simp: assigns_ok_def list_all2_conv_all_nth)
  next
    case False
    then have "with_keys (zip is ws) vals ! i = vals ! i" by (intro with_keys_other) (auto dest: set_zip_leftD)
    with row_okD(2) [OF assms(1) i] show ?thesis by simp
  qed
  then show "row_ok t (with_keys (zip is ws) vals)"
    using assms(1) other by (simp add: row_ok_def list_all2_conv_all_nth list_all_iff)
qed

lemma with_keys_cong:
  "i < length row \<Longrightarrow> i < length row' \<Longrightarrow> row ! i = row' ! i \<Longrightarrow> with_keys kvs row ! i = with_keys kvs row' ! i"
proof (induction kvs arbitrary: row row')
  case (Cons kv kvs)
  obtain j w where "kv = (j, w)" by (cases kv)
  moreover have "row[j := w] ! i = row'[j := w] ! i" using Cons.prems by (cases "j = i") simp_all
  ultimately show ?case using Cons.IH [of "row[j := w]" "row'[j := w]"] Cons.prems by simp
qed simp

lemma update_merge_row:
  assumes "length row = length (td_columns t)" and "length vals = length (td_columns t)"
    and "\<And>i. i \<in> set (regular_indices t) \<Longrightarrow> row ! i = vals ! i"
  shows "update_merge t kvs row = row_columns t (with_keys kvs vals)"
proof -
  have "with_keys kvs row ! i = with_keys kvs vals ! i" if "i \<in> set (regular_indices t)" for i
    using assms that by (intro with_keys_cong) (simp_all add: regular_indices_def)
  then show ?thesis by (simp add: update_merge_def row_columns_def with_keys_def)
qed

text \<open>What the database holds of a row with these values; no row at all counts as one of nulls.\<close>

definition holds_row :: "('db \<Rightarrow> kv) \<Rightarrow> 'db storage \<Rightarrow> string \<Rightarrow> string \<Rightarrow> table_def \<Rightarrow> cql_value list \<Rightarrow> bool" where
  "holds_row absm s ks tb t vals \<longleftrightarrow>
     row_view absm s (ks, tb, row_parts t vals) = Some (encode_row_columns (row_columns t vals)) \<or>
     row_view absm s (ks, tb, row_parts t vals) = None \<and> (\<forall>i\<in>set (regular_indices t). vals ! i = VNull)"

text \<open>What a read of the row finds, whether or not writes to it are pending.\<close>

definition reads_row :: "'db libs \<Rightarrow> ('db \<Rightarrow> kv) \<Rightarrow> 'db storage \<Rightarrow> string \<Rightarrow> string \<Rightarrow> table_def \<Rightarrow> cql_value list \<Rightarrow> bool" where
  "reads_row L absm s ks tb t vals \<longleftrightarrow>
     (\<exists>s' d. get_row L ks tb (row_parts t vals) s = (s', Ok d) \<and> storage_wf L absm s' \<and> coherent absm s' \<and> st_engines s' = st_engines s \<and>
        (st_row_cache s = None \<longrightarrow> st_row_cache s' = None) \<and> (d = Some (encode_row_columns (row_columns t vals)) \<or> d = None \<and> (\<forall>i\<in>set (regular_indices t). vals ! i = VNull)))"

lemma get_row_uncached: "get_row L ks tb parts s = (s', r) \<Longrightarrow> st_row_cache s = None \<Longrightarrow> st_row_cache s' = None"
  by (auto simp: get_row_def Let_def cache_lookup_def cache_set_def reading_def split: option.splits result.splits)

lemma reads_row_quiet:
  assumes "storage_wf L absm s" and "coherent absm s" and "good_table (ks, tb)" and "row_ok t vals"
    and "holds_row absm s ks tb t vals" and "quiet (st_engines s ! addr_engine s (ks, tb, row_parts t vals))"
  shows "reads_row L absm s ks tb t vals"
  using get_row_ok [OF assms(1) good_row_parts [OF assms(3,4)] assms(2)] assms(5,6) get_row_uncached unfolding reads_row_def holds_row_def by blast

text \<open>Without a row cache a read finds what is committed.\<close>

lemma reads_row_uncached:
  assumes "storage_wf L absm s" and "coherent absm s" and "st_row_cache s = None"
    and "absm (en_db (st_engines s ! addr_engine s (ks, tb, row_parts t vals))) (addr_key (ks, tb, row_parts t vals)) = d"
    and "d = Some (encode_row_columns (row_columns t vals)) \<or> d = None \<and> (\<forall>i\<in>set (regular_indices t). vals ! i = VNull)"
  shows "reads_row L absm s ks tb t vals"
proof -
  let ?r = "(ks, tb, row_parts t vals)"
  note wf = storage_wfD [OF assms(1)]
  have less: "row_engine s ks tb (row_parts t vals) < ndbs s" using addr_engine_less [OF wf(3), of ?r] by (simp add: addr_engine_def)
  have "cache_lookup ks key s = None" "cache_set ks key v s = s" for key v
    using assms(3) by (simp_all add: cache_lookup_def cache_set_def)
  then have "get_row L ks tb (row_parts t vals) s = (s, Ok d)"
    using less assms(4) wf(1)
    by (auto simp: get_row_def on_db_def rocks_okD(1) reading_def addr_key_def addr_engine_def split: option.split)
  with assms(1,2,5) show ?thesis unfolding reads_row_def by blast
qed

text \<open>The same of a statement, which resolves its table first and so may fill the cache of table definitions.\<close>

definition finds_row :: "'db libs \<Rightarrow> ('db \<Rightarrow> kv) \<Rightarrow> 'db storage \<Rightarrow> string \<Rightarrow> string \<Rightarrow> table_def \<Rightarrow> cql_value list \<Rightarrow> bool" where
  "finds_row L absm s ks tb t vals \<longleftrightarrow>
     (\<forall>s1. storage_wf L absm s1 \<longrightarrow> coherent absm s1 \<longrightarrow> st_engines s1 = st_engines s \<longrightarrow> st_row_cache s1 = st_row_cache s \<longrightarrow>
        reads_row L absm s1 ks tb t vals)"

lemma finds_row_quiet:
  assumes "good_table (ks, tb)" and "row_ok t vals" and "holds_row absm s ks tb t vals"
    and "quiet (st_engines s ! addr_engine s (ks, tb, row_parts t vals))"
  shows "finds_row L absm s ks tb t vals"
  unfolding finds_row_def
proof (intro allI impI)
  fix s1 :: "'a storage" assume s1: "storage_wf L absm s1" "coherent absm s1" "st_engines s1 = st_engines s"
  then show "reads_row L absm s1 ks tb t vals"
    using assms(3,4) view_cong [OF s1(3)] by (intro reads_row_quiet [OF s1(1,2) assms(1,2)]) (simp_all add: holds_row_def s1(3))
qed

lemma finds_row_uncached:
  assumes "st_row_cache s = None"
    and "absm (en_db (st_engines s ! addr_engine s (ks, tb, row_parts t vals))) (addr_key (ks, tb, row_parts t vals)) = d"
    and "d = Some (encode_row_columns (row_columns t vals)) \<or> d = None \<and> (\<forall>i\<in>set (regular_indices t). vals ! i = VNull)"
  shows "finds_row L absm s ks tb t vals"
  unfolding finds_row_def
proof (intro allI impI)
  fix s1 :: "'a storage" assume s1: "storage_wf L absm s1" "coherent absm s1" "st_engines s1 = st_engines s" "st_row_cache s1 = st_row_cache s"
  then show "reads_row L absm s1 ks tb t vals"
    using assms view_cong [OF s1(3)] by (intro reads_row_uncached [OF s1(1,2)]) (simp_all add: s1(3,4))
qed

text \<open>The row an UPDATE writes, whether it reads the old one or covers all columns.\<close>

lemma updated_row:
  assumes "storage_wf L absm s" and "coherent absm s" and "table_ok t" and "row_ok t vals" and "assigns_ok t is ws"
    and "reads_row L absm s ks tb t vals"
  shows "\<exists>s'. storage_wf L absm s' \<and> coherent absm s' \<and> st_engines s' = st_engines s \<and> (st_row_cache s = None \<longrightarrow> st_row_cache s' = None) \<and>
    (if covers_all_regular t (zip is ws) then (s, update_covering t (zip is ws))
     else and_then (with_err internal_err (get_row L ks tb (row_parts t vals) s)) (\<lambda>s existing.
          and_then (s, case existing of
                         Some data \<Rightarrow> map_err internal_err (decode_row_columns data t)
                       | None \<Rightarrow> Ok (replicate (length (td_columns t)) VNull)) (\<lambda>s row.
            (s, Ok (update_merge t (zip is ws) row)))))
    = (s', Ok (row_columns t (with_keys (zip is ws) vals)))"
proof (cases "covers_all_regular t (zip is ws)")
  case True
  note len = row_okD(1) [OF assms(4)]
  have "update_covering t (zip is ws) = Ok (row_columns t (with_keys (zip is ws) vals))"
    using update_covering_merge [OF True len assigns_okD(4) [OF assms(5)]] update_merge_row [OF len len] by simp
  with True assms(1,2) show ?thesis by auto
next
  case False
  note len = row_okD(1) [OF assms(4)]
  from assms(6) obtain s' d where s': "get_row L ks tb (row_parts t vals) s = (s', Ok d)"
    "storage_wf L absm s'" "st_engines s' = st_engines s" "coherent absm s'" "st_row_cache s = None \<longrightarrow> st_row_cache s' = None"
    and d: "d = Some (encode_row_columns (row_columns t vals)) \<or> d = None \<and> (\<forall>i\<in>set (regular_indices t). vals ! i = VNull)"
    unfolding reads_row_def by (elim exE conjE) (rule that)
  have "(case d of
      Some data \<Rightarrow> map_err internal_err (decode_row_columns data t) | None \<Rightarrow> Ok (replicate (length (td_columns t)) VNull))
    = Ok (if d = None then replicate (length (td_columns t)) VNull else stored_row t (row_columns t vals))" (is "_ = Ok ?row")
    using d decode_stored_row [OF row_columns_fit(1,2) [OF assms(3,4)]] by auto
  moreover have "update_merge t (zip is ws) ?row = row_columns t (with_keys (zip is ws) vals)"
  proof (rule update_merge_row [OF _ len])
    show "length ?row = length (td_columns t)" by (simp add: stored_row_def)
    fix i assume i: "i \<in> set (regular_indices t)"
    then have "i < length (td_columns t)" by (simp add: regular_indices_def)
    with d i show "?row ! i = vals ! i"
      using row_columns_fit(3) [OF assms(3,4) i] by (auto simp: stored_row_def)
  qed
  ultimately show ?thesis using False s' by auto
qed

lemma exec_update_full:
  assumes "storage_wf L absm s" and "coherent absm s" and "good_table (ks, tb)" and "tb_view L absm s (ks, tb) = Some t"
    and "ks \<notin> set SYSTEM_KEYSPACES" and "table_ok t" and "row_ok t vals" and "assigns_ok t is ws"
    and "finds_row L absm s ks tb t vals"
  shows "\<exists>s'. storage_wf L absm s' \<and> coherent absm s' \<and> st_engines s' = st_engines s \<and> (st_row_cache s = None \<longrightarrow> st_row_cache s' = None) \<and>
    exec_update L session_ks (update_by_key ks tb t is) (binds_new (map bound ws @ key_binds t vals)) s =
      and_then (with_err internal_err (put_row ks tb (row_parts t vals) (encode_row_columns (row_columns t (with_keys (zip is ws) vals))) s'))
        (\<lambda>s ticket. (s, Ok (RVoid, [ticket])))"
proof -
  obtain s1 where s1: "resolve_table L session_ks (table_name_of ks tb) s = (s1, Ok (ks, t))" "storage_wf L absm s1"
      "st_engines s1 = st_engines s" "st_row_cache s1 = st_row_cache s"
    using resolve_table_ok [OF assms(1) target_keyspace_of assms(3,4)] by blast
  have name: "td_name t = tb" using tb_view_name [OF storage_wfD(4) [OF assms(1)] assms(3,4)] by simp
  note coh = coherent_same [OF assms(2) s1(3,4)]
  from updated_row [OF s1(2) coh assms(6-8) assms(9) [unfolded finds_row_def, rule_format, OF s1(2) coh s1(3,4)]] obtain s' where
    s': "storage_wf L absm s'" "coherent absm s'" "st_engines s' = st_engines s1" "st_row_cache s1 = None \<longrightarrow> st_row_cache s' = None" and
    row: "(if covers_all_regular t (zip is ws) then (s1, update_covering t (zip is ws))
     else and_then (with_err internal_err (get_row L ks tb (row_parts t vals) s1)) (\<lambda>s existing.
          and_then (s, case existing of
                         Some data \<Rightarrow> map_err internal_err (decode_row_columns data t)
                       | None \<Rightarrow> Ok (replicate (length (td_columns t)) VNull)) (\<lambda>s row.
            (s, Ok (update_merge t (zip is ws) row)))))
    = (s', Ok (row_columns t (with_keys (zip is ws) vals)))" by (elim exE conjE) (rule that)
  let ?b = "\<lparr>bi_values = map bound ws @ key_binds t vals, bi_next = length ws\<rparr>"
  have assign: "assign_values L t (up_assignments (update_by_key ks tb t is)) (binds_new (map bound ws @ key_binds t vals)) = (?b, Ok (zip is ws))"
    using assign_values_at [OF assms(6), of "is" ws L "[]" "key_binds t vals"] assms(8) by (simp add: update_by_key_def binds_new_def assigns_ok_def)
  have filters: "snd (parse_filters L t (up_where (update_by_key ks tb t is)) ?b) = Ok (map (\<lambda>n. FEq n (key_value t vals n)) (key_names t))"
    using parse_key_filters_at [OF assms(6,7), of "[]" "key_names t" L "map bound ws"] by (simp add: update_by_key_def)
  have writable: "check_writable ks = Ok ()" using assms(5) by (simp add: check_writable_def)
  have "exec_update L session_ks (update_by_key ks tb t is) (binds_new (map bound ws @ key_binds t vals)) s =
      and_then (s', Ok (row_columns t (with_keys (zip is ws) vals))) (\<lambda>s row_encoded.
        and_then (with_err internal_err (put_row ks tb (row_parts t vals) (encode_row_columns row_encoded) s)) (\<lambda>s ticket. (s, Ok (RVoid, [ticket]))))"
    unfolding exec_update_def row [symmetric]
    using s1(1) assign filters key_parts_full [OF assms(6,7)] writable by (simp add: update_by_key_def name)
  with s' s1(3,4) show ?thesis by (intro exI [of _ s']) simp
qed

text \<open>An UPDATE that finds the row \<^verbatim>\<open>vals\<close> queues the changed row; once that is acknowledged, a SELECT returns it.\<close>

lemma exec_update_queued:
  assumes "storage_wf L absm s" and "coherent absm s" and "good_table (ks, tb)" and "tb_view L absm s (ks, tb) = Some t"
    and "ks \<notin> set SYSTEM_KEYSPACES" and "table_ok t" and "row_ok t vals" and "assigns_ok t is ws"
    and "finds_row L absm s ks tb t vals"
  obtains s' s1 ticket where "storage_wf L absm s'" and "coherent absm s'" and "st_engines s' = st_engines s"
    and "st_row_cache s = None \<Longrightarrow> st_row_cache s' = None" and "storage_wf L absm s1"
    and "put_row ks tb (row_parts t vals) (encode_row_columns (row_columns t (with_keys (zip is ws) vals))) s' = (s1, Ok ticket)"
    and "execute_prepared L session_ks (SUpdate (update_by_key ks tb t is)) (map bound ws @ key_binds t vals) s
      = (s1, Ok (RVoid, [ticket]))"
    and "issued s1 ticket"
proof -
  let ?data = "encode_row_columns (row_columns t (with_keys (zip is ws) vals))"
  obtain s' where s': "storage_wf L absm s'" "coherent absm s'" "st_engines s' = st_engines s"
    "st_row_cache s = None \<Longrightarrow> st_row_cache s' = None"
    and exec: "exec_update L session_ks (update_by_key ks tb t is) (binds_new (map bound ws @ key_binds t vals)) s =
      and_then (with_err internal_err (put_row ks tb (row_parts t vals) ?data s')) (\<lambda>s ticket. (s, Ok (RVoid, [ticket])))"
    using exec_update_full [OF assms, of session_ks] by (elim exE conjE) (rule that; (assumption | erule (1) mp))
  from put_row_ok [OF s'(1) good_row_parts [OF assms(3,7)], of ?data] obtain s1 ticket
    where put: "put_row ks tb (row_parts t vals) ?data s' = (s1, Ok ticket)" and s1: "storage_wf L absm s1" by (auto simp: row_update_def)
  have "issued s1 ticket" using queued_ticket [OF s'(1) put [unfolded put_row_queued]] by simp
  moreover have "execute_prepared L session_ks (SUpdate (update_by_key ks tb t is)) (map bound ws @ key_binds t vals) s = (s1, Ok (RVoid, [ticket]))"
    using exec put by (simp add: execute_prepared_def execute_statement_def)
  ultimately show thesis by (intro that [OF s' s1 put])
qed

lemma update_settled:
  assumes "storage_wf L absm s'" and "coherent absm s'" and "good_table (ks, tb)" and "tb_view L absm s' (ks, tb) = Some t"
    and "ks \<notin> set SYSTEM_KEYSPACES" and "table_ok t" and "row_ok t vals" and "assigns_ok t is ws"
    and "put_row ks tb (row_parts t vals) (encode_row_columns (row_columns t (with_keys (zip is ws) vals))) s' = (s1, Ok ticket)"
    and "settles L [ticket] s1 s2"
  shows "snd (execute_prepared L session_ks (SSelect (select_by_key ks tb t)) (key_binds t vals) s2)
    = Ok (RRows ks tb (map (\<lambda>c. (cd_name c, cd_type c)) (td_columns t)) [with_keys (zip is ws) vals] None, [])"
proof -
  let ?new = "with_keys (zip is ws) vals"
  note new = with_keys_conforms [OF assms(7,8,6)]
  have binds: "key_binds t ?new = key_binds t vals" using new(3) by simp
  show ?thesis
    using put_row_settled [OF assms(1,2) good_row_parts [OF assms(3,7)] assms(9,10)] assms(4)
      exec_select_row [OF _ _ assms(3) _ assms(5,6) new(1), of L absm s2, unfolded binds]
    by (simp add: new(2) execute_prepared_def execute_statement_def ungated_def snd_and_then)
qed

text \<open>
  C11. An UPDATE changes the columns it assigns and no others: a prepared UPDATE of some regular columns of a
  row, given by its full key, is accepted, its write completes, and once it is acknowledged, under every
  schedule of the writer threads, a SELECT by that key returns the old row with exactly those columns
  replaced. Where there was no row, the other columns are null. The engine of the row must have no
  writes pending when the UPDATE starts, since the code reads the old row without awaiting them.
\<close>

theorem update_then_select:
  assumes "storage_wf L absm s" and "coherent absm s" and "good_table (ks, tb)" and "tb_view L absm s (ks, tb) = Some t"
    and "ks \<notin> set SYSTEM_KEYSPACES" and "table_ok t" and "row_ok t vals" and "assigns_ok t is ws"
    and "holds_row absm s ks tb t vals" and "quiet (st_engines s ! addr_engine s (ks, tb, row_parts t vals))"
  shows "\<exists>s1 ticket.
    execute_prepared L session_ks (SUpdate (update_by_key ks tb t is)) (map bound ws @ key_binds t vals) s = (s1, Ok (RVoid, [ticket])) \<and>
    settles L [ticket] s1 (settle L s1) \<and>
    (\<forall>s2. settles L [ticket] s1 s2 \<longrightarrow>
       snd (execute_prepared L session_ks' (SSelect (select_by_key ks tb t)) (key_binds t vals) s2)
       = Ok (RRows ks tb (map (\<lambda>c. (cd_name c, cd_type c)) (td_columns t)) [with_keys (zip is ws) vals] None, []))"
proof -
  note reads = finds_row_quiet [OF assms(3,7,9,10), of L]
  obtain s' s1 ticket where s': "storage_wf L absm s'" "coherent absm s'" "st_engines s' = st_engines s"
    "st_row_cache s = None \<Longrightarrow> st_row_cache s' = None" and s1: "storage_wf L absm s1"
    and put: "put_row ks tb (row_parts t vals) (encode_row_columns (row_columns t (with_keys (zip is ws) vals))) s' = (s1, Ok ticket)"
    and exec: "execute_prepared L session_ks (SUpdate (update_by_key ks tb t is)) (map bound ws @ key_binds t vals) s = (s1, Ok (RVoid, [ticket]))"
    and ticket: "issued s1 ticket"
    using that by (rule exec_update_queued [OF assms(1-8) reads])
  have "tb_view L absm s' (ks, tb) = Some t" using view_cong [OF s'(3)] assms(4) by simp
  note after = update_settled [OF s'(1,2) assms(3) this assms(5-8) put]
  have "settles L [ticket] s1 (settle L s1)" using settle_completes [OF s1, of "[ticket]"] ticket by simp
  with exec after show ?thesis by (intro exI [of _ s1] exI [of _ ticket]) simp
qed

theorem update_then_select_witness:
  "\<exists>s s1 ticket.
    execute_prepared mem_libs None (SUpdate (update_by_key ''shop'' ''kv'' kv_table [1])) [bound (VText ''y''), bound (VInt 5)] s
      = (s1, Ok (RVoid, [ticket])) \<and>
    snd (execute_prepared mem_libs None (SSelect (select_by_key ''shop'' ''kv'' kv_table)) [bound (VInt 5)] (settle mem_libs s1))
      = Ok (RRows ''shop'' ''kv'' [(''k'', TInt), (''v'', TText)] [[VInt 5, VText ''y'']] None, [])"
proof -
  obtain s where s: "storage_wf mem_libs fmlookup s" "coherent fmlookup s" "tb_view mem_libs fmlookup s (''shop'', ''kv'') = Some kv_table"
    "storage_quiet s" "\<And>r. row_view fmlookup s r = None" using kv_storage by (auto simp: row_inv_def)
  have good: "good_table (''shop'', ''kv'')" by (simp add: good_table_def plain_name_def)
  have user: "''shop'' \<notin> set SYSTEM_KEYSPACES" by (simp add: SYSTEM_KEYSPACES_def)
  let ?row = "[VInt 5, VNull]"
  have regular: "regular_indices kv_table = [1]" by (simp add: regular_indices_def is_regular_def kv_table_def upt_rec)
  have row: "row_ok kv_table ?row"
    by (simp add: row_ok_def key_names_def key_value_def key_idx_def column_index_def conforms_def wire_sized_def kv_table_def
        to_be_bytes_def short_part_def)
  have assigns: "assigns_ok kv_table [1] [VText ''y'']"
    by (simp add: assigns_ok_def regular)
      (simp add: kv_table_def conforms_def wire_sized_def utf8_valid_def utf8_check_def str_bytes_def)
  have "holds_row fmlookup s ''shop'' ''kv'' kv_table ?row" by (simp add: holds_row_def s(5) regular)
  moreover have "quiet (st_engines s ! addr_engine s (''shop'', ''kv'', row_parts kv_table ?row))"
    by (rule quiet_nth [OF s(4) addr_engine_less [OF storage_wfD(3) [OF s(1)]]])
  moreover have "key_binds kv_table ?row = [bound (VInt 5)]"
    by (simp add: key_names_def kv_table_def key_value_def key_idx_def column_index_def)
  moreover have "map (\<lambda>c. (cd_name c, cd_type c)) (td_columns kv_table) = [(''k'', TInt), (''v'', TText)]" by (simp add: kv_table_def)
  ultimately show ?thesis
    using update_then_select [OF s(1,2) good s(3) user kv_table_ok row assigns, of None None] by auto
qed

section \<open>Concurrent updates\<close>

lemma quiet_row_view:
  "quiet (st_engines s ! addr_engine s r) \<Longrightarrow> row_view absm s r = absm (en_db (st_engines s ! addr_engine s r)) (addr_key r)"
  by (simp add: row_view_def engine_view_def quiet_def pend_defs)

text \<open>
  C34. Without the row cache (\<^verbatim>\<open>RHYDADB_ROW_CACHE_ENTRIES=0\<close>) an UPDATE can undo another one to different columns.
  \<^verbatim>\<open>exec_update\<close> reads the old row from RocksDB and writes back a whole row, and does not see writes that are
  still on their way to the database. Of two UPDATEs of one row that are accepted one after the other
  before the first is committed, only the second one is kept: both are acknowledged, and then a SELECT returns
  the original row with the second UPDATE applied to it; the columns only the first one assigned are as
  they were before both.
\<close>

theorem lost_update:
  assumes "storage_wf L absm s" and "coherent absm s" and "good_table (ks, tb)" and "tb_view L absm s (ks, tb) = Some t"
    and "ks \<notin> set SYSTEM_KEYSPACES" and "table_ok t" and "row_ok t vals" and "assigns_ok t is ws" and "assigns_ok t js us"
    and "holds_row absm s ks tb t vals" and "quiet (st_engines s ! addr_engine s (ks, tb, row_parts t vals))"
    and "st_row_cache s = None"
  shows "\<exists>s1 s2 ticket1 ticket2.
    execute_prepared L session_ks (SUpdate (update_by_key ks tb t is)) (map bound ws @ key_binds t vals) s = (s1, Ok (RVoid, [ticket1])) \<and>
    execute_prepared L session_ks' (SUpdate (update_by_key ks tb t js)) (map bound us @ key_binds t vals) s1 = (s2, Ok (RVoid, [ticket2])) \<and>
    settles L [ticket1, ticket2] s2 (settle L s2) \<and>
    (\<forall>s3. settles L [ticket1, ticket2] s2 s3 \<longrightarrow>
       snd (execute_prepared L session_ks'' (SSelect (select_by_key ks tb t)) (key_binds t vals) s3)
       = Ok (RRows ks tb (map (\<lambda>c. (cd_name c, cd_type c)) (td_columns t)) [with_keys (zip js us) vals] None, []))"
proof -
  let ?r = "(ks, tb, row_parts t vals)"
  obtain sa s1 ticket1 where sa: "storage_wf L absm sa" "coherent absm sa" "st_engines sa = st_engines s"
    "st_row_cache s = None \<Longrightarrow> st_row_cache sa = None" and s1: "storage_wf L absm s1"
    and put1: "put_row ks tb (row_parts t vals) (encode_row_columns (row_columns t (with_keys (zip is ws) vals))) sa = (s1, Ok ticket1)"
    and exec1: "execute_prepared L session_ks (SUpdate (update_by_key ks tb t is)) (map bound ws @ key_binds t vals) s = (s1, Ok (RVoid, [ticket1]))"
    and ticket1: "issued s1 ticket1"
    using that by (rule exec_update_queued [OF assms(1-8) finds_row_quiet [OF assms(3,7,10,11)]])
  note queued = put1 [unfolded put_row_queued]
  note shape = queued_shape [OF sa(1) queued]
  have eng: "addr_engine s1 ?r = addr_engine s ?r" "addr_engine sa ?r = addr_engine s ?r"
    using shape(2) sa(3) by (simp_all add: addr_engine_def row_engine_def)
  obtain s1' where "put_row ks tb (row_parts t vals) (encode_row_columns (row_columns t (with_keys (zip is ws) vals))) sa = (s1', Ok (st_next_ticket sa))"
    "tb_view L absm s1' = tb_view L absm sa" "coherent absm s1'"
    using put_row_ok [OF sa(1) good_row_parts [OF assms(3,7)]] sa(2) unfolding row_update_def by blast
  then have coh1: "coherent absm s1" and tb1: "tb_view L absm s1 (ks, tb) = Some t" using put1 assms(4) view_cong [OF sa(3)] by simp_all
  have cache1: "st_row_cache s1 = None" using sa(4) [OF assms(12)] shape(3) by (simp add: cache_set_def)
  have "absm (en_db (st_engines s1 ! addr_engine s1 ?r)) (addr_key ?r) = row_view absm s ?r"
    using shape(4) assms(11) by (simp add: eng sa(3) quiet_row_view)
  then have finds: "finds_row L absm s1 ks tb t vals"
    using assms(10) by (intro finds_row_uncached [OF cache1 refl]) (simp add: holds_row_def)
  obtain sb s2 ticket2 where sb: "storage_wf L absm sb" "coherent absm sb" "st_engines sb = st_engines s1"
    "st_row_cache s1 = None \<Longrightarrow> st_row_cache sb = None" and s2: "storage_wf L absm s2"
    and put2: "put_row ks tb (row_parts t vals) (encode_row_columns (row_columns t (with_keys (zip js us) vals))) sb = (s2, Ok ticket2)"
    and exec2: "execute_prepared L session_ks' (SUpdate (update_by_key ks tb t js)) (map bound us @ key_binds t vals) s1 = (s2, Ok (RVoid, [ticket2]))"
    and ticket2: "issued s2 ticket2"
    using that by (rule exec_update_queued [OF s1 coh1 assms(3) tb1 assms(5-7,9) finds])
  have "tb_view L absm sb (ks, tb) = Some t" using view_cong [OF sb(3)] tb1 by simp
  note after = update_settled [OF sb(1,2) assms(3) this assms(5-7,9) put2]
  note shape2 = queued_shape [OF sb(1) put2 [unfolded put_row_queued]]
  have eng2: "addr_engine sb ?r = addr_engine s ?r" using eng(1) view_cong [OF sb(3)] by simp
  have "addr_engine s ?r < ndbs s2" using shape2(2) addr_engine_less [OF storage_wfD(3) [OF sb(1)], of ?r] by (simp add: eng2)
  moreover have "ticket1 \<in> set (tickets_of (pend_tickets (st_engines s2 ! addr_engine s ?r)))"
    using shape(4) shape2(4) by (simp add: eng eng2 sb(3) pend_send)
  ultimately have "issued s2 ticket1" unfolding issued_def by (metis Un_iff nth_mem set_append)
  then have "settles L [ticket1, ticket2] s2 (settle L s2)" using settle_completes [OF s2, of "[ticket1, ticket2]"] ticket2 by simp
  moreover have "settles L [ticket2] s2 s3" if "settles L [ticket1, ticket2] s2 s3" for s3 using that by (simp add: settles_def)
  ultimately show ?thesis using exec1 exec2 after by (intro exI [of _ s1] exI [of _ s2] exI [of _ ticket1] exI [of _ ticket2]) simp
qed

definition pair_table :: table_def where
  "pair_table =
     \<lparr>td_keyspace = ''shop'', td_name = ''pair'',
      td_columns = [\<lparr>cd_name = ''k'', cd_type = TInt, cd_is_partition_key = True, cd_is_clustering = False\<rparr>,
                    \<lparr>cd_name = ''a'', cd_type = TInt, cd_is_partition_key = False, cd_is_clustering = False\<rparr>,
                    \<lparr>cd_name = ''b'', cd_type = TInt, cd_is_partition_key = False, cd_is_clustering = False\<rparr>],
      td_partition_keys = [''k''], td_clustering_keys = []\<rparr>"

theorem lost_update_witness:
  "\<exists>s s1 s2 t1 t2.
    execute_prepared mem_libs None (SUpdate (update_by_key ''shop'' ''pair'' pair_table [1])) [bound (VInt 7), bound (VInt 5)] s
      = (s1, Ok (RVoid, [t1])) \<and>
    execute_prepared mem_libs None (SUpdate (update_by_key ''shop'' ''pair'' pair_table [2])) [bound (VInt 8), bound (VInt 5)] s1
      = (s2, Ok (RVoid, [t2])) \<and>
    snd (execute_prepared mem_libs None (SSelect (select_by_key ''shop'' ''pair'' pair_table)) [bound (VInt 5)] (settle mem_libs s2))
      = Ok (RRows ''shop'' ''pair'' [(''k'', TInt), (''a'', TInt), (''b'', TInt)] [[VInt 5, VNull, VInt 8]] None, [])"
proof -
  let ?row = "[VInt 5, VNull, VNull]"
  obtain s where s: "storage_wf mem_libs fmlookup s" "coherent fmlookup s" "tb_view mem_libs fmlookup s (''shop'', ''pair'') = Some pair_table"
    "storage_quiet s" "\<And>r. row_view fmlookup s r = None" "st_row_cache s = None"
    using table_storage [of pair_table "''shop''" "''pair''" False] by (auto simp: row_inv_def pair_table_def good_table_def plain_name_def)
  have good: "good_table (''shop'', ''pair'')" by (simp add: good_table_def plain_name_def)
  have user: "''shop'' \<notin> set SYSTEM_KEYSPACES" by (simp add: SYSTEM_KEYSPACES_def)
  have regular: "regular_indices pair_table = [1, 2]" by (simp add: regular_indices_def is_regular_def pair_table_def upt_rec)
  have table: "table_ok pair_table" by (simp add: table_ok_def pair_table_def key_names_def is_regular_def)
  have row: "row_ok pair_table ?row"
    by (simp add: row_ok_def key_names_def key_value_def key_idx_def column_index_def conforms_def wire_sized_def pair_table_def
        to_be_bytes_def short_part_def)
  have assigns: "assigns_ok pair_table [1] [VInt 7]" "assigns_ok pair_table [2] [VInt 8]"
    by (simp_all add: assigns_ok_def regular) (simp_all add: pair_table_def conforms_def wire_sized_def)
  have "holds_row fmlookup s ''shop'' ''pair'' pair_table ?row" by (simp add: holds_row_def s(5) regular)
  moreover have "quiet (st_engines s ! addr_engine s (''shop'', ''pair'', row_parts pair_table ?row))"
    by (rule quiet_nth [OF s(4) addr_engine_less [OF storage_wfD(3) [OF s(1)]]])
  moreover have "key_binds pair_table ?row = [bound (VInt 5)]"
    by (simp add: key_names_def pair_table_def key_value_def key_idx_def column_index_def)
  moreover have "map (\<lambda>c. (cd_name c, cd_type c)) (td_columns pair_table) = [(''k'', TInt), (''a'', TInt), (''b'', TInt)]"
    by (simp add: pair_table_def)
  ultimately show ?thesis
    using lost_update [OF s(1,2) good s(3) user table row assigns _ _ s(6), of None None None] by auto
qed

end
