(* ===== verification/Connection.thy ===== *)
theory Connection
  imports Server "HOL-Library.Multiset"
begin

text \<open>
  A connection (\<^verbatim>\<open>handle_connection\<close> of \<^verbatim>\<open>src/src/server.rs\<close>) as a state machine: the reader task, the tasks it
  spawns for requests, at most \<open>PER_CONN_INFLIGHT\<close> at a time, and the writer task, which takes responses
  from a bounded channel and writes them in batches. The storage is shared with the threads of the
  storage and with other connections.
\<close>

text \<open>The stream id in a frame's header.\<close>

definition frame_stream :: "bytes \<Rightarrow> i16" where
  "frame_stream f = from_be_bytes (take 2 (drop 2 f))"

section \<open>Tasks\<close>

text \<open>
  A request being served on a stream: not started, awaiting its tickets with the rest of its handler,
  with a response to send, or in a loop of its handler that never ends.
\<close>

datatype task =
    Fresh i16 byte bytes
  | Waiting i16 "ticket list" "conn_shared \<Rightarrow> conn_shared \<times> bytes qres"
  | Sending i16 bytes
  | Hung i16

fun sending :: "i16 \<Rightarrow> bytes qres \<Rightarrow> task option" where
  "sending stream (Ok b) = Some (Sending stream b)"
| "sending stream Hang = Some (Hung stream)"
| "sending stream _ = None"

text \<open>The next piece of a task; no task is left when it panics, and one that hangs stays.\<close>

fun run_task :: "'db libs \<Rightarrow> frame_libs \<Rightarrow> task \<Rightarrow> 'db session \<Rightarrow> 'db session \<times> task option" where
  "run_task L P (Fresh stream opcode body) sess =
     (case begin_request L P opcode body stream sess of
        (sess, Ok (Reply b)) \<Rightarrow> (sess, Some (Sending stream b))
      | (sess, Ok (Settle gates k)) \<Rightarrow> (sess, Some (Waiting stream gates k))
      | (sess, Err e) \<Rightarrow> (sess, sending stream (or_error_frame P 0x04 stream (conn_compression (snd sess)) (Err e)))
      | (sess, Halt h) \<Rightarrow> (sess, sending stream (Halt h)))"
| "run_task L P (Waiting stream gates k) (s, c) =
     (case k c of (c, r) \<Rightarrow> ((s, c), sending stream (or_error_frame P 0x04 stream (conn_compression c) r)))"
| "run_task L P (Sending stream b) sess = (sess, Some (Sending stream b))"
| "run_task L P (Hung stream) sess = (sess, Some (Hung stream))"

fun runnable :: "'db storage \<Rightarrow> task \<Rightarrow> bool" where
  "runnable s (Fresh _ _ _) = True"
| "runnable s (Waiting _ gates _) = list_all (completed s) gates"
| "runnable s (Sending _ _) = False"
| "runnable s (Hung _) = False"

section \<open>State\<close>

text \<open>The reader serves requests of its own in line; after a frame it refuses it closes.\<close>

datatype reader = Reading | Busy task bool | Closed

text \<open>
  \<open>cx_input\<close> are the bytes the client sends from here until it closes; \<open>cx_out\<close> those it has received.
  The last three components record the history: the streams of the frames read, the responses given to
  the socket, and the streams of the requests that get no response, because their task panicked or the
  writer is gone.
\<close>

record 'db connection =
  cx_session :: "'db session"
  cx_input :: bytes
  cx_reader :: reader
  cx_tasks :: "task list"
  cx_channel :: "bytes list"
  cx_writer_gone :: bool
  cx_out :: bytes
  cx_read :: "i16 list"
  cx_handed :: "bytes list"
  cx_lost :: "i16 list"

definition connect :: "'db storage \<Rightarrow> bytes \<Rightarrow> 'db connection" where
  "connect s input =
     \<lparr>cx_session = (s, conn_new), cx_input = input, cx_reader = Reading, cx_tasks = [], cx_channel = [],
      cx_writer_gone = False, cx_out = [], cx_read = [], cx_handed = [], cx_lost = []\<rparr>"

definition RESPONSE_CAPACITY :: nat where "RESPONSE_CAPACITY = PER_CONN_INFLIGHT * 2"

section \<open>Steps\<close>

text \<open>Sending to the channel waits for room, and is void once the writer is gone.\<close>

definition can_send :: "'db connection \<Rightarrow> bool" where
  "can_send x \<longleftrightarrow> cx_writer_gone x \<or> length (cx_channel x) < RESPONSE_CAPACITY"

definition send_response :: "i16 \<Rightarrow> bytes \<Rightarrow> 'db connection \<Rightarrow> 'db connection" where
  "send_response stream b x =
     (if cx_writer_gone x then x\<lparr>cx_lost := cx_lost x @ [stream]\<rparr>
      else x\<lparr>cx_channel := cx_channel x @ [b]\<rparr>)"

text \<open>The reader takes up a task for the frame it read, or gives up.\<close>

definition take_up :: "i16 \<Rightarrow> task option \<Rightarrow> bool \<Rightarrow> 'db connection \<Rightarrow> 'db connection" where
  "take_up stream t closing x =
     (case t of
        Some t \<Rightarrow> x\<lparr>cx_reader := Busy t closing\<rparr>
      | None \<Rightarrow> x\<lparr>cx_reader := Closed, cx_lost := cx_lost x @ [stream]\<rparr>)"

definition log_read :: "i16 \<Rightarrow> bytes \<Rightarrow> 'db connection \<Rightarrow> 'db connection" where
  "log_read stream rest x = x\<lparr>cx_input := rest, cx_read := cx_read x @ [stream]\<rparr>"

fun task_stream :: "task \<Rightarrow> i16" where
  "task_stream (Fresh stream _ _) = stream"
| "task_stream (Waiting stream _ _) = stream"
| "task_stream (Sending stream _) = stream"
| "task_stream (Hung stream) = stream"

definition drop_task :: "nat \<Rightarrow> task list \<Rightarrow> task list" where
  "drop_task i ts = take i ts @ drop (Suc i) ts"

text \<open>The writer takes a response and then more, while any is ready and the batch is small.\<close>

fun coalesce :: "nat \<Rightarrow> bytes list \<Rightarrow> bytes list \<times> bytes list" where
  "coalesce queued_bytes [] = ([], [])"
| "coalesce queued_bytes (r # rs) =
     (if queued_bytes < WRITE_FLUSH_THRESHOLD
      then (case coalesce (queued_bytes + length r) rs of (pending, rest) \<Rightarrow> (r # pending, rest))
      else ([], r # rs))"


fun deliver_all :: "bytes list \<Rightarrow> bytes" where
  "deliver_all [] = []"
| "deliver_all (chunk # pending) = chunk @ deliver_all pending"

text \<open>
  The steps of the connection itself; \<open>deliver\<close> is one of the two ways to write. The io_uring server has failures
  of its own, which \<^verbatim>\<open>UringConnection\<close> adds.
\<close>

inductive own_step ::
  "'db libs \<Rightarrow> frame_libs \<Rightarrow> (bytes list \<Rightarrow> bytes) \<Rightarrow> 'db connection \<Rightarrow> 'db connection \<Rightarrow> bool" for L P deliver where
  read_end:
    "cx_reader x = Reading \<Longrightarrow> next_frame P (snd (cx_session x)) (cx_input x) \<in> {Eof, Broken} \<Longrightarrow>
       own_step L P deliver x (x\<lparr>cx_reader := Closed\<rparr>)"
| read_refuse:
    "cx_reader x = Reading \<Longrightarrow> next_frame P (snd (cx_session x)) (cx_input x) = Refuse stream r \<Longrightarrow>
       own_step L P deliver x (take_up stream (sending stream r) True (log_read stream (cx_input x) x))"
| read_reject:
    "cx_reader x = Reading \<Longrightarrow> next_frame P (snd (cx_session x)) (cx_input x) = Reject stream r rest \<Longrightarrow>
       own_step L P deliver x (take_up stream (sending stream r) False (log_read stream rest x))"
| read_inline:
    "cx_reader x = Reading \<Longrightarrow> next_frame P (snd (cx_session x)) (cx_input x) = Request stream opcode body rest \<Longrightarrow>
       inline_request P opcode body \<Longrightarrow>
       own_step L P deliver x (take_up stream (Some (Fresh stream opcode body)) False (log_read stream rest x))"
| read_spawn:
    "cx_reader x = Reading \<Longrightarrow> next_frame P (snd (cx_session x)) (cx_input x) = Request stream opcode body rest \<Longrightarrow>
       \<not> inline_request P opcode body \<Longrightarrow> length (cx_tasks x) < PER_CONN_INFLIGHT \<Longrightarrow>
       own_step L P deliver x ((log_read stream rest x)\<lparr>cx_tasks := cx_tasks x @ [Fresh stream opcode body]\<rparr>)"
| reader_run:
    "cx_reader x = Busy t closing \<Longrightarrow> runnable (fst (cx_session x)) t \<Longrightarrow> run_task L P t (cx_session x) = (sess, t') \<Longrightarrow>
       own_step L P deliver x (take_up (task_stream t) t' closing (x\<lparr>cx_session := sess\<rparr>))"
| reader_send:
    "cx_reader x = Busy (Sending stream b) closing \<Longrightarrow> can_send x \<Longrightarrow>
       own_step L P deliver x ((send_response stream b x)\<lparr>cx_reader := (if closing then Closed else Reading)\<rparr>)"
| task_run:
    "i < length (cx_tasks x) \<Longrightarrow> runnable (fst (cx_session x)) (cx_tasks x ! i) \<Longrightarrow>
       run_task L P (cx_tasks x ! i) (cx_session x) = (sess, Some t') \<Longrightarrow>
       own_step L P deliver x (x\<lparr>cx_session := sess, cx_tasks := (cx_tasks x)[i := t']\<rparr>)"
| task_panic:
    "i < length (cx_tasks x) \<Longrightarrow> runnable (fst (cx_session x)) (cx_tasks x ! i) \<Longrightarrow>
       run_task L P (cx_tasks x ! i) (cx_session x) = (sess, None) \<Longrightarrow>
       own_step L P deliver x
         (x\<lparr>cx_session := sess, cx_tasks := drop_task i (cx_tasks x), cx_lost := cx_lost x @ [task_stream (cx_tasks x ! i)]\<rparr>)"
| task_send:
    "i < length (cx_tasks x) \<Longrightarrow> cx_tasks x ! i = Sending stream b \<Longrightarrow> can_send x \<Longrightarrow>
       own_step L P deliver x ((send_response stream b x)\<lparr>cx_tasks := drop_task i (cx_tasks x)\<rparr>)"
| flush:
    "cx_channel x = r # rs \<Longrightarrow> coalesce (length r) rs = (pending, rest) \<Longrightarrow>
       own_step L P deliver x
         (x\<lparr>cx_channel := rest, cx_handed := cx_handed x @ r # pending,
            cx_out := cx_out x @ deliver (r # pending)\<rparr>)"

text \<open>
  Meanwhile the threads of the storage run, other connections execute requests on the shared storage, and
  the peer may go away, which ends the writer.
\<close>

inductive env_step :: "'db libs \<Rightarrow> frame_libs \<Rightarrow> 'db connection \<Rightarrow> 'db connection \<Rightarrow> bool" for L P where
  threads:
    "cx_session x = (s, c) \<Longrightarrow> storage_step L s s' \<Longrightarrow> env_step L P x (x\<lparr>cx_session := (s', c)\<rparr>)"
| other_request:
    "cx_session x = (s, c) \<Longrightarrow> begin_request L P opcode body stream (s, c') = ((s', c''), r) \<Longrightarrow>
       env_step L P x (x\<lparr>cx_session := (s', c)\<rparr>)"
| write_fails:
    "\<not> cx_writer_gone x \<Longrightarrow> cx_channel x \<noteq> [] \<Longrightarrow>
       env_step L P x (x\<lparr>cx_writer_gone := True, cx_channel := [], cx_lost := cx_lost x @ map frame_stream (cx_channel x)\<rparr>)"

inductive conn_reach ::
  "'db libs \<Rightarrow> frame_libs \<Rightarrow> (bytes list \<Rightarrow> bytes) \<Rightarrow> 'db connection \<Rightarrow> bool" for L P deliver where
  reach_connect: "conn_reach L P deliver (connect s input)"
| reach_own: "conn_reach L P deliver x \<Longrightarrow> own_step L P deliver x y \<Longrightarrow> conn_reach L P deliver y"
| reach_env: "conn_reach L P deliver x \<Longrightarrow> env_step L P x y \<Longrightarrow> conn_reach L P deliver y"

inductive_cases own_stepE: "own_step L P deliver x y"

inductive_cases env_stepE: "env_step L P x y"

section \<open>Responses carry their stream\<close>

definition carries :: "bytes \<Rightarrow> i16 \<Rightarrow> bool" where
  "carries f stream \<longleftrightarrow> 9 \<le> length f \<and> frame_stream f = stream"

definition tagged :: "i16 \<Rightarrow> ('e, bytes) result \<Rightarrow> bool" where
  "tagged stream r \<longleftrightarrow> (\<forall>f. r = Ok f \<longrightarrow> carries f stream)"


named_theorems tagged_intros

lemma tagged_rbind [tagged_intros]: "(\<And>x. tagged stream (f x)) \<Longrightarrow> tagged stream (rbind r f)"
  by (cases r) (simp_all add: tagged_def)

lemma tagged_response_frame [tagged_intros]: "tagged stream (response_frame P version stream opcode body compression)"
  by (auto simp: tagged_def response_frame_def result_simps frame_stream_def carries_def split: prod.splits)

lemma tagged_frames [tagged_intros]:
  "tagged stream (ready P version stream compression)"
  "tagged stream (supported P version stream compression)"
  "tagged stream (error_frame P version stream code msg compression)"
  "tagged stream (result_void P version stream compression)"
  "tagged stream (result_set_keyspace P version stream ks compression)"
  "tagged stream (result_schema_change P version stream change target ks tb compression)"
  "tagged stream (result_prepared P version stream pid ks tb specs pks cols compression)"
  "tagged stream (result_rows P version stream ks tb cols rows skip ps compression)"
  unfolding ready_def supported_def error_frame_def result_void_def result_set_keyspace_def result_schema_change_def
    result_prepared_def result_rows_def Let_def
  by (intro tagged_intros)+

lemma tagged_respond [tagged_intros]: "tagged stream (respond P version stream compression r skip)"
  unfolding respond_def by (intro tagged_intros) (auto split: response.split intro: tagged_intros)

lemma tagged_or_error [tagged_intros]: "tagged stream r \<Longrightarrow> tagged stream (or_error_frame P version stream compression r)"
  by (auto simp: or_error_frame_def split: result.split intro: tagged_intros)

fun reply_tagged :: "i16 \<Rightarrow> reply \<Rightarrow> bool" where
  "reply_tagged stream (Reply b) \<longleftrightarrow> carries b stream"
| "reply_tagged stream (Settle gates k) \<longleftrightarrow> (\<forall>c. tagged stream (snd (k c)))"

lemma settle_then_tagged:
  "settle_then result k = Ok reply \<Longrightarrow> (\<And>resp c. tagged stream (snd (k resp c))) \<Longrightarrow> reply_tagged stream reply"
  by (auto simp: settle_then_def result_simps)

lemma replying_tagged: "replying m = (sess', Ok reply) \<Longrightarrow> tagged stream (snd m) \<Longrightarrow> reply_tagged stream reply"
  by (cases "snd m") (auto simp: replying_def tagged_def result_simps)

lemma handle_startup_tagged: "tagged stream (snd (handle_startup P body stream c))"
  by (auto simp: handle_startup_def Let_def tagged_def split: option.split
      intro: tagged_intros [unfolded tagged_def, rule_format])

lemma tagged_and_then [tagged_intros]: "(\<And>s x. tagged stream (snd (f s x))) \<Longrightarrow> tagged stream (snd (and_then m f))"
  by (cases "(m, f)" rule: and_then.cases) (auto simp: tagged_def)

lemma handle_prepare_tagged: "tagged stream (snd (handle_prepare L P body stream sess))"
  by (auto simp: handle_prepare_def Let_def split: prod.split option.split intro!: tagged_intros)
     (simp_all add: tagged_def)

lemma handle_query_tagged: "handle_query L P body stream sess = (sess', Ok reply) \<Longrightarrow> reply_tagged stream reply"
  by (auto simp: handle_query_def Let_def split: prod.splits option.splits intro!: tagged_or_error tagged_respond
      elim!: settle_then_tagged)

lemma handle_execute_tagged: "handle_execute L P body stream sess = (sess', Ok reply) \<Longrightarrow> reply_tagged stream reply"
  by (auto simp: handle_execute_def Let_def split: prod.splits option.splits if_splits intro!: tagged_or_error tagged_respond
      elim!: settle_then_tagged)

lemma begin_request_tagged:
  assumes "begin_request L P opcode body stream sess = (sess', Ok reply)"
  shows "reply_tagged stream reply"
proof (cases "fr_opcode_try_from P opcode")
  case None
  then show ?thesis using assms by (simp add: begin_request_def)
next
  case (Some opc)
  have startup: "replying (case handle_startup P body stream (snd sess) of (c, r) \<Rightarrow> ((fst sess, c), r)) =
      (case handle_startup P body stream (snd sess) of (c, r) \<Rightarrow> replying ((fst sess, c), r))"
    by (simp split: prod.split)
  show ?thesis
    using assms Some handle_startup_tagged [of stream P body "snd sess"]
    by (cases opc)
       (auto simp: begin_request_def startup [symmetric] split: prod.splits
         elim!: handle_query_tagged handle_execute_tagged replying_tagged
         intro: tagged_frames handle_prepare_tagged)
qed

section \<open>The invariant\<close>

fun task_ok :: "task \<Rightarrow> bool" where
  "task_ok (Fresh _ _ _) \<longleftrightarrow> True"
| "task_ok (Waiting stream _ k) \<longleftrightarrow> (\<forall>c. tagged stream (snd (k c)))"
| "task_ok (Sending stream b) \<longleftrightarrow> carries b stream"
| "task_ok (Hung _) \<longleftrightarrow> True"

fun reader_tasks :: "reader \<Rightarrow> task list" where
  "reader_tasks (Busy t _) = [t]"
| "reader_tasks _ = []"

text \<open>Every frame read is with the reader, with a task, answered or lost.\<close>

definition accounted :: "'db connection \<Rightarrow> i16 multiset" where
  "accounted x =
     image_mset task_stream (mset (reader_tasks (cx_reader x)) + mset (cx_tasks x))
     + image_mset frame_stream (mset (cx_channel x) + mset (cx_handed x)) + mset (cx_lost x)"

definition conn_ok :: "'db connection \<Rightarrow> bool" where
  "conn_ok x \<longleftrightarrow>
     list_all task_ok (reader_tasks (cx_reader x)) \<and> list_all task_ok (cx_tasks x) \<and> mset (cx_read x) = accounted x \<and>
     length (cx_tasks x) \<le> PER_CONN_INFLIGHT \<and> length (cx_channel x) \<le> RESPONSE_CAPACITY \<and>
     (cx_writer_gone x \<longrightarrow> cx_channel x = []) \<and> list_all (\<lambda>f. f \<noteq> []) (cx_channel x @ cx_handed x)"

lemma sending_ok: "tagged stream r \<Longrightarrow> sending stream r = Some t \<Longrightarrow> task_ok t \<and> task_stream t = stream"
  by (cases "(stream, r)" rule: sending.cases) (auto simp: tagged_def)

lemma tagged_halt: "tagged stream (Halt h)"
  by (simp add: tagged_def)

lemma tagged_error: "tagged stream (or_error_frame P version stream compression (Err e))"
  by (rule tagged_or_error) (simp add: tagged_def)

lemma run_task_ok:
  assumes "task_ok t" and "run_task L P t sess = (sess', Some t')"
  shows "task_ok t' \<and> task_stream t' = task_stream t"
proof (cases t)
  case (Fresh stream opcode body)
  from assms(2) show ?thesis unfolding Fresh
    by (auto split: prod.splits result.splits reply.splits dest!: begin_request_tagged sending_ok [OF tagged_error] sending_ok [OF tagged_halt])
next
  case (Waiting stream gates k)
  obtain s c where sess: "sess = (s, c)" by (cases sess)
  obtain c' r where k: "k c = (c', r)" by (cases "k c")
  with assms(1) have "tagged stream r" unfolding Waiting by (metis snd_conv task_ok.simps(2))
  from sending_ok [OF tagged_or_error [OF this]] assms(2) show ?thesis unfolding Waiting sess by (auto simp: k)
next
  case (Sending stream b)
  with assms show ?thesis by auto
next
  case (Hung stream)
  with assms show ?thesis by auto
qed

lemma next_frame_tagged:
  "next_frame P c input = Refuse stream r \<Longrightarrow> tagged stream r"
  "next_frame P c input = Reject stream r rest \<Longrightarrow> tagged stream r"
  by (auto simp: next_frame_def Let_def intro!: tagged_frames split: if_splits option.splits result.splits)

lemma mset_drop_task: "i < length ts \<Longrightarrow> mset ts = add_mset (ts ! i) (mset (drop_task i ts))"
  by (metis drop_task_def id_take_nth_drop mset.simps(2) mset_append union_mset_add_mset_right)

lemma mset_set_task: "i < length ts \<Longrightarrow> mset ts = add_mset (ts ! i) M \<Longrightarrow> mset (ts[i := t]) = add_mset t M"
  by (simp add: mset_update)

lemma length_drop_task: "i < length ts \<Longrightarrow> length (drop_task i ts) = length ts - 1"
  by (simp add: drop_task_def)

lemma list_all_drop_task: "list_all p ts \<Longrightarrow> list_all p (drop_task i ts)"
  by (auto simp: drop_task_def list_all_iff dest: in_set_takeD in_set_dropD)

lemma coalesce_append: "coalesce q rs = (pending, rest) \<Longrightarrow> rs = pending @ rest"
  by (induction q rs arbitrary: pending rule: coalesce.induct) (auto split: if_splits prod.splits)

lemma take_up_ok:
  assumes "mset (cx_read x) = accounted (x\<lparr>cx_reader := Busy (Sending stream []) False\<rparr>)"
    and "\<forall>t'. t = Some t' \<longrightarrow> task_ok t' \<and> task_stream t' = stream"
    and "list_all task_ok (cx_tasks x)" "length (cx_tasks x) \<le> PER_CONN_INFLIGHT" "length (cx_channel x) \<le> RESPONSE_CAPACITY"
    and "cx_writer_gone x \<longrightarrow> cx_channel x = []" "list_all (\<lambda>f. f \<noteq> []) (cx_channel x @ cx_handed x)"
  shows "conn_ok (take_up stream t closing x)"
  using assms by (cases t) (auto simp: take_up_def conn_ok_def accounted_def)

lemma connect_ok: "conn_ok (connect s input)"
  by (simp add: conn_ok_def connect_def accounted_def)

lemma send_response_ok:
  assumes "conn_ok x" and "can_send x" and "carries b stream"
  shows "length (cx_channel (send_response stream b x)) \<le> RESPONSE_CAPACITY"
    and "image_mset frame_stream (mset (cx_channel (send_response stream b x))) + mset (cx_lost (send_response stream b x)) =
      add_mset stream (image_mset frame_stream (mset (cx_channel x)) + mset (cx_lost x))"
    and "cx_writer_gone (send_response stream b x) \<longrightarrow> cx_channel (send_response stream b x) = []"
    and "list_all (\<lambda>f. f \<noteq> []) (cx_channel (send_response stream b x) @ cx_handed x)"
  using assms by (auto simp: send_response_def can_send_def conn_ok_def carries_def)

lemma send_response_fields [simp]:
  "cx_session (send_response stream b x) = cx_session x" "cx_tasks (send_response stream b x) = cx_tasks x"
  "cx_reader (send_response stream b x) = cx_reader x" "cx_read (send_response stream b x) = cx_read x"
  "cx_handed (send_response stream b x) = cx_handed x" "cx_input (send_response stream b x) = cx_input x"
  "cx_writer_gone (send_response stream b x) = cx_writer_gone x" "cx_out (send_response stream b x) = cx_out x"
  by (simp_all add: send_response_def)

lemma log_read_fields [simp]:
  "cx_session (log_read stream rest x) = cx_session x" "cx_tasks (log_read stream rest x) = cx_tasks x"
  "cx_reader (log_read stream rest x) = cx_reader x" "cx_read (log_read stream rest x) = cx_read x @ [stream]"
  "cx_handed (log_read stream rest x) = cx_handed x" "cx_channel (log_read stream rest x) = cx_channel x"
  "cx_writer_gone (log_read stream rest x) = cx_writer_gone x" "cx_out (log_read stream rest x) = cx_out x"
  "cx_lost (log_read stream rest x) = cx_lost x" "cx_input (log_read stream rest x) = rest"
  by (simp_all add: log_read_def)

lemma read_ok:
  assumes "conn_ok x" and "cx_reader x = Reading" and "\<And>t'. t = Some t' \<Longrightarrow> task_ok t' \<and> task_stream t' = stream"
  shows "conn_ok (take_up stream t closing (log_read stream rest x))"
  using assms by (intro take_up_ok) (auto simp: conn_ok_def accounted_def)

lemma task_ok_nth: "conn_ok x \<Longrightarrow> i < length (cx_tasks x) \<Longrightarrow> task_ok (cx_tasks x ! i)"
  by (simp add: conn_ok_def list_all_length)

lemma own_step_ok:
  assumes "own_step L P deliver x y" and "conn_ok x"
  shows "conn_ok y"
  using assms
proof (cases rule: own_step.cases)
  case read_end
  with assms(2) show ?thesis by (simp add: conn_ok_def accounted_def)
next
  case (read_refuse stream r)
  with assms(2) show ?thesis by (auto intro!: read_ok dest: next_frame_tagged sending_ok)
next
  case (read_reject stream r rest)
  with assms(2) show ?thesis by (auto intro!: read_ok dest: next_frame_tagged sending_ok)
next
  case (read_inline stream opcode body rest)
  with assms(2) show ?thesis by (auto intro!: read_ok)
next
  case (read_spawn stream opcode body rest)
  with assms(2) show ?thesis by (simp add: conn_ok_def accounted_def)
next
  case (reader_run t closing sess t')
  with assms(2) have "task_ok t" by (simp add: conn_ok_def)
  with reader_run(4) have "\<forall>t''. t' = Some t'' \<longrightarrow> task_ok t'' \<and> task_stream t'' = task_stream t" by (auto dest: run_task_ok)
  then show ?thesis unfolding reader_run(1)
    using reader_run(2) assms(2) by (intro take_up_ok) (simp_all add: conn_ok_def accounted_def)
next
  case (reader_send stream b closing)
  with assms(2) have "carries b stream" by (simp add: conn_ok_def)
  note sent = send_response_ok [OF assms(2) reader_send(3) this]
  from reader_send assms(2) sent show ?thesis by (auto simp: conn_ok_def accounted_def ac_simps)
next
  case (task_run i sess t')
  note ok = run_task_ok [OF task_ok_nth [OF assms(2) task_run(2)] task_run(4)]
  then have "list_all task_ok ((cx_tasks x)[i := t'])"
    using assms(2) by (auto simp: conn_ok_def intro: list_all_update)
  moreover have "image_mset task_stream (mset ((cx_tasks x)[i := t'])) = image_mset task_stream (mset (cx_tasks x))"
    using mset_drop_task [OF task_run(2)] mset_set_task [OF task_run(2)] ok by simp
  ultimately show ?thesis using assms(2) task_run by (simp add: conn_ok_def accounted_def)
next
  case (task_panic i sess)
  with assms(2) mset_drop_task [OF task_panic(2)] show ?thesis
    by (auto simp: conn_ok_def accounted_def list_all_drop_task length_drop_task)
next
  case (task_send i stream b)
  with task_ok_nth [OF assms(2) task_send(2)] have "carries b stream" by simp
  note sent = send_response_ok [OF assms(2) task_send(4) this]
  from task_send assms(2) sent mset_drop_task [OF task_send(2)] show ?thesis
    by (auto simp: conn_ok_def accounted_def ac_simps list_all_drop_task length_drop_task)
next
  case (flush r rs pending rest)
  with coalesce_append [OF flush(3)] assms(2) show ?thesis by (auto simp: conn_ok_def accounted_def ac_simps)
qed

lemma env_step_ok: "env_step L P x y \<Longrightarrow> conn_ok x \<Longrightarrow> conn_ok y"
  by (erule env_stepE) (auto simp: conn_ok_def accounted_def)

lemma conn_reach_ok: "conn_reach L P deliver x \<Longrightarrow> conn_ok x"
  by (induction rule: conn_reach.induct) (auto intro: connect_ok own_step_ok env_step_ok)

section \<open>Progress\<close>

fun task_weight :: "task \<Rightarrow> nat" where
  "task_weight (Fresh _ _ _) = 4"
| "task_weight (Waiting _ _ _) = 3"
| "task_weight (Sending _ _) = 2"
| "task_weight (Hung _) = 1"

fun reader_weight :: "reader \<Rightarrow> nat" where
  "reader_weight Reading = 5"
| "reader_weight (Busy t closing) = (if closing then 0 else 5) + task_weight t"
| "reader_weight Closed = 0"

definition conn_weight :: "'db connection \<Rightarrow> nat" where
  "conn_weight x =
     length (cx_input x) + reader_weight (cx_reader x) + sum_list (map task_weight (cx_tasks x)) + length (cx_channel x)"

lemma next_frame_shorter:
  "next_frame P c input = Reject stream r rest \<Longrightarrow> length rest + 9 \<le> length input"
  "next_frame P c input = Request stream opcode body rest \<Longrightarrow> length rest + 9 \<le> length input"
  by (auto simp: next_frame_def Let_def split: if_splits option.splits result.splits)

lemma sending_weight: "sending stream r = Some t \<Longrightarrow> task_weight t \<le> 2"
  by (cases "(stream, r)" rule: sending.cases) auto

lemma run_task_weight: "run_task L P t sess = (sess', Some t') \<Longrightarrow> runnable s t \<Longrightarrow> task_weight t' < task_weight t"
  by (cases t; cases sess) (auto split: prod.splits result.splits reply.splits dest!: sending_weight)

lemma sum_tasks: "sum_list (map task_weight ts) = sum_mset (image_mset task_weight (mset ts))"
  by (simp flip: sum_mset_sum_list)

lemma sum_drop_task:
  "i < length ts \<Longrightarrow> sum_list (map task_weight ts) = task_weight (ts ! i) + sum_list (map task_weight (drop_task i ts))"
  using mset_drop_task [of i ts] by (simp add: sum_tasks)

lemma sum_set_task:
  assumes "i < length ts"
  shows "sum_list (map task_weight (ts[i := t])) + task_weight (ts ! i) = task_weight t + sum_list (map task_weight ts)"
  using mset_drop_task [OF assms] mset_set_task [OF assms mset_drop_task [OF assms], of t] by (simp add: sum_tasks del: mset_update)

lemma send_response_weight: "length (cx_channel (send_response stream b x)) \<le> Suc (length (cx_channel x))"
  by (simp add: send_response_def)

lemma own_step_weight:
  assumes "own_step L P deliver x y"
  shows "conn_weight y < conn_weight x"
  using assms
proof (cases rule: own_step.cases)
  case read_end
  then show ?thesis by (simp add: conn_weight_def)
next
  case (read_refuse stream r)
  then show ?thesis by (cases "sending stream r") (auto simp: conn_weight_def take_up_def dest: sending_weight)
next
  case (read_reject stream r rest)
  with next_frame_shorter(1) [OF read_reject(3)] show ?thesis
    by (cases "sending stream r") (auto simp: conn_weight_def take_up_def dest: sending_weight)
next
  case (read_inline stream opcode body rest)
  with next_frame_shorter(2) [OF read_inline(3)] show ?thesis by (simp add: conn_weight_def take_up_def)
next
  case (read_spawn stream opcode body rest)
  with next_frame_shorter(2) [OF read_spawn(3)] show ?thesis by (simp add: conn_weight_def)
next
  case (reader_run t closing sess t')
  have "task_weight t > 0" by (cases t) simp_all
  with reader_run(1,2,4) run_task_weight [of L P t "cx_session x" sess, OF _ reader_run(3)] show ?thesis
    by (cases t') (auto simp: conn_weight_def take_up_def)
next
  case (reader_send stream b closing)
  with send_response_weight [of stream b x] show ?thesis by (simp add: conn_weight_def)
next
  case (task_run i sess t')
  with run_task_weight [OF task_run(4,3)] sum_set_task [OF task_run(2), of t'] show ?thesis by (simp add: conn_weight_def)
next
  case (task_panic i sess)
  have "task_weight (cx_tasks x ! i) > 0" by (cases "cx_tasks x ! i") simp_all
  with task_panic sum_drop_task [OF task_panic(2)] show ?thesis by (simp add: conn_weight_def)
next
  case (task_send i stream b)
  with sum_drop_task [OF task_send(2)] send_response_weight [of stream b x] show ?thesis by (simp add: conn_weight_def)
next
  case (flush r rs pending rest)
  with coalesce_append [OF flush(3)] show ?thesis by (simp add: conn_weight_def)
qed

text \<open>A task that awaits writes the storage has not committed yet.\<close>

fun blocked :: "'db storage \<Rightarrow> task \<Rightarrow> bool" where
  "blocked s (Waiting _ gates _) \<longleftrightarrow> \<not> list_all (completed s) gates"
| "blocked s _ \<longleftrightarrow> False"

fun hung :: "task \<Rightarrow> bool" where
  "hung (Hung _) \<longleftrightarrow> True"
| "hung _ \<longleftrightarrow> False"

text \<open>
  The connection waits for nothing but commits of the storage, unless requests of it never return. In the
  model a request that does not return keeps its slot and lets the other tasks go on: the runtime has a
  thread left for them.
\<close>

definition awaits_commits_only :: "'db connection \<Rightarrow> bool" where
  "awaits_commits_only x \<longleftrightarrow>
     (let s = fst (cx_session x) in
      cx_channel x = [] \<and> list_all (\<lambda>t. blocked s t \<or> hung t) (cx_tasks x) \<and>
      (case cx_reader x of
         Closed \<Rightarrow> True
       | Busy t _ \<Rightarrow> blocked s t \<or> hung t
       | Reading \<Rightarrow> length (cx_tasks x) = PER_CONN_INFLIGHT))"

lemma not_blocked_cases:
  assumes "\<not> (blocked s t \<or> hung t)"
  obtains "runnable s t" | stream b where "t = Sending stream b"
  using assms by (cases t) auto

lemma task_progress:
  assumes "i < length (cx_tasks x)" and "\<not> (blocked (fst (cx_session x)) (cx_tasks x ! i) \<or> hung (cx_tasks x ! i))" and "can_send x"
  shows "\<exists>y. own_step L P deliver x y"
  using assms(2)
proof (cases rule: not_blocked_cases)
  case 1
  obtain sess t where "run_task L P (cx_tasks x ! i) (cx_session x) = (sess, t)" by (cases "run_task L P (cx_tasks x ! i) (cx_session x)")
  with 1 assms(1) show ?thesis by (cases t) (blast intro: task_run task_panic)+
next
  case 2
  with assms(1,3) show ?thesis by (blast intro: task_send)
qed

lemma reader_progress:
  assumes "cx_reader x = Busy t closing" and "\<not> (blocked (fst (cx_session x)) t \<or> hung t)" and "can_send x"
  shows "\<exists>y. own_step L P deliver x y"
  using assms(2)
proof (cases rule: not_blocked_cases)
  case 1
  obtain sess t' where "run_task L P t (cx_session x) = (sess, t')" by (cases "run_task L P t (cx_session x)")
  with 1 assms(1) show ?thesis by (blast intro: reader_run)
next
  case 2
  with assms(1,3) show ?thesis by (blast intro: reader_send)
qed

lemma reading_progress:
  assumes "cx_reader x = Reading" and "length (cx_tasks x) < PER_CONN_INFLIGHT"
  shows "\<exists>y. own_step L P deliver x y"
proof (cases "next_frame P (snd (cx_session x)) (cx_input x)")
  case (Request stream opcode body rest)
  with assms show ?thesis by (cases "inline_request P opcode body") (blast intro: read_inline read_spawn)+
next
  case (Reject stream r rest)
  with assms(1) show ?thesis by (blast intro: read_reject)
next
  case (Refuse stream r)
  with assms(1) show ?thesis by (blast intro: read_refuse)
qed (use assms(1) in \<open>auto intro: read_end\<close>)

lemma stuck_awaits:
  assumes "conn_ok x" and stuck: "\<nexists>y. own_step L P deliver x y"
  shows "awaits_commits_only x"
proof -
  have channel: "cx_channel x = []"
  proof (cases "cx_channel x")
    case (Cons r rs)
    obtain pending rest where "coalesce (length r) rs = (pending, rest)" by (cases "coalesce (length r) rs")
    with Cons stuck show ?thesis by (blast intro: flush)
  qed
  then have send: "can_send x" by (simp add: can_send_def RESPONSE_CAPACITY_def PER_CONN_INFLIGHT_def)
  have "list_all (\<lambda>t. blocked (fst (cx_session x)) t \<or> hung t) (cx_tasks x)"
    using task_progress [OF _ _ send, of _ L P deliver] stuck by (auto simp: list_all_length)
  moreover have "cx_reader x = Reading \<Longrightarrow> length (cx_tasks x) = PER_CONN_INFLIGHT"
    using reading_progress [of x L P deliver] stuck assms(1) by (force simp: conn_ok_def)
  moreover have "cx_reader x = Busy t closing \<Longrightarrow> blocked (fst (cx_session x)) t \<or> hung t" for t closing
    using reader_progress [OF _ _ send, of t closing L P deliver] stuck by blast
  ultimately show ?thesis using channel by (auto simp: awaits_commits_only_def Let_def split: reader.split)
qed

lemma own_steps_end:
  "conn_ok x \<Longrightarrow> \<exists>y. (own_step L P deliver)\<^sup>*\<^sup>* x y \<and> conn_ok y \<and> awaits_commits_only y"
proof (induction "conn_weight x" arbitrary: x rule: less_induct)
  case less
  show ?case
  proof (cases "\<exists>y. own_step L P deliver x y")
    case True
    then obtain y where step: "own_step L P deliver x y" ..
    from less(1) [OF own_step_weight [OF step] own_step_ok [OF step less(2)]] step show ?thesis
      by (meson converse_rtranclp_into_rtranclp)
  next
    case False
    with stuck_awaits [OF less(2)] less(2) show ?thesis by blast
  qed
qed

section \<open>Sample run\<close>

text \<open>An OPTIONS request on stream 5, its answer, and the run that serves it.\<close>

definition options_request :: bytes where
  "options_request = [0x04, 0, 0, 5, 0x05, 0, 0, 0, 0]"

definition options_response :: bytes where
  "options_response = [0x84, 0, 0, 5, 0x06, 0, 0, 0, 0]"

lemma options_frame: "next_frame plain_frames conn_new options_request = Request 5 0x05 [] []"
  by (simp add: next_frame_def options_request_def from_be_bytes_def MAX_FRAME_LENGTH_def Let_def be_nat_def)

lemma options_served:
  "begin_request L plain_frames 0x05 [] 5 (s, conn_new) = ((s, conn_new), Ok (Reply options_response))"
  by (simp add: begin_request_def plain_frames_def request_opcodes_def replying_def supported_def response_frame_def
      conn_compression_def decode_compression_def conn_new_def COMPRESSION_NONE_def options_response_def to_be_bytes_def)

lemma options_run:
  "conn_reach L plain_frames deliver
     ((connect s options_request)\<lparr>cx_input := [], cx_read := [5], cx_handed := [options_response],
        cx_out := deliver [options_response]\<rparr>)"
proof -
  let ?x = "connect s options_request"
  let ?read = "?x\<lparr>cx_input := [], cx_read := [5], cx_reader := Busy (Fresh 5 0x05 []) False\<rparr>"
  have "conn_reach L plain_frames deliver ?read"
    using reach_own [OF reach_connect read_inline [where x = ?x]] options_frame
    by (simp add: connect_def take_up_def log_read_def inline_request_def plain_frames_def)
  from reach_own [OF this reader_run [where x = ?read and t = "Fresh 5 0x05 []" and closing = False and sess = "(s, conn_new)"
      and t' = "Some (Sending 5 options_response)"]] have
    "conn_reach L plain_frames deliver (?read\<lparr>cx_reader := Busy (Sending 5 options_response) False\<rparr>)"
    by (simp add: connect_def take_up_def options_served)
  from reach_own [OF this reader_send [where closing = False]] have
    "conn_reach L plain_frames deliver (?read\<lparr>cx_reader := Reading, cx_channel := [options_response]\<rparr>)"
    by (simp add: connect_def can_send_def send_response_def RESPONSE_CAPACITY_def PER_CONN_INFLIGHT_def)
  from reach_own [OF this flush] show ?thesis by (simp add: connect_def)
qed

section \<open>Properties\<close>

text \<open>
  C6. Every request is answered at most once and on its own stream: at any moment the streams of the
  frames read are, with multiplicities, those of the requests being served, of the responses queued or
  written, and of the requests lost with a panic or a dead peer. A response is never sent twice, never
  on a stream nobody asked on, and none disappears in the server.
\<close>

theorem responses_match_requests:
  assumes "conn_reach L P deliver x"
  shows "mset (cx_read x) =
    image_mset task_stream (mset (reader_tasks (cx_reader x)) + mset (cx_tasks x))
    + image_mset frame_stream (mset (cx_channel x) + mset (cx_handed x)) + mset (cx_lost x)"
  using conn_reach_ok [OF assms] by (simp add: conn_ok_def accounted_def)

theorem responses_match_requests_witness:
  "mset [5] = image_mset frame_stream (mset [options_response])"
  using responses_match_requests [OF options_run [of mem_libs deliver_all "fresh_storage 1 fmempty False False"]]
  by (simp add: connect_def)

text \<open>
  A connection uses bounded resources: never more than 512 requests of it are served at a time
  and never more than 1024 responses wait for the writer, whatever the client sends.
\<close>

theorem connection_bounded:
  assumes "conn_reach L P deliver x"
  shows "length (cx_tasks x) \<le> 512 \<and> length (cx_channel x) \<le> 1024"
  using conn_reach_ok [OF assms] by (simp add: conn_ok_def PER_CONN_INFLIGHT_def RESPONSE_CAPACITY_def)

theorem connection_bounded_witness:
  "length (cx_tasks (connect (fresh_storage 1 (fmempty :: (bytes, bytes) fmap) False False) options_request)) \<le> 512"
  using connection_bounded [OF reach_connect [of mem_libs plain_frames deliver_all "fresh_storage 1 fmempty False False" options_request]]
  by simp

text \<open>
  A connection never deadlocks and never spins: its own steps cannot go on for ever, and from any
  state they lead to one in which every response has been given to the socket and all that is
  outstanding are requests awaiting commits of the storage or never returning, the reader being closed,
  in such a request itself, or out of permits.
\<close>

theorem connection_progress:
  assumes "conn_reach L P deliver x"
  shows "wfP (own_step L P deliver)\<inverse>\<inverse> \<and>
    (\<exists>y. (own_step L P deliver)\<^sup>*\<^sup>* x y \<and> conn_reach L P deliver y \<and> awaits_commits_only y)"
proof
  have "(own_step L P deliver)\<inverse>\<inverse> \<le> (\<lambda>y x. conn_weight y < conn_weight x)"
    by (auto intro: own_step_weight)
  then show "wfP (own_step L P deliver)\<inverse>\<inverse>"
    by (rule wfp_subset [rotated]) (auto simp: wfp_if_convertible_to_nat)
  have "(own_step L P deliver)\<^sup>*\<^sup>* x y \<Longrightarrow> conn_reach L P deliver y" for y
    by (induction rule: rtranclp_induct) (use assms in \<open>auto intro: reach_own\<close>)
  with own_steps_end [OF conn_reach_ok [OF assms]]
  show "\<exists>y. (own_step L P deliver)\<^sup>*\<^sup>* x y \<and> conn_reach L P deliver y \<and> awaits_commits_only y" by blast
qed

theorem connection_progress_witness:
  "\<exists>y. (own_step mem_libs plain_frames deliver_all)\<^sup>*\<^sup>* (connect (fresh_storage 1 fmempty False False) options_request) y \<and>
     conn_reach mem_libs plain_frames deliver_all y \<and> awaits_commits_only y"
  using connection_progress [OF reach_connect] by blast




lemma deliver_all_concat: "deliver_all frames = concat frames"
  by (induction frames) simp_all




end
