(* ===== verification/Effects.thy ===== *)
theory Effects
  imports Connection SystemTables StorageSpec "HOL-Library.Multiset"
begin

text \<open>
  What a statement can do to the storage. Every operation of \<^verbatim>\<open>storage.rs\<close> and with it every statement of
  \<^verbatim>\<open>query.rs\<close> changes the storage by three kinds of primitive steps only: a change of the caches, a direct write
  to the database of an engine, and handing an operation with a new ticket to the writer of an engine. The
  locale \<open>storage_effects\<close> states the laws of a preorder that admits these steps, and proves once that it
  admits every operation and every statement, whatever the libraries answer. Its interpretations give
  invariants of the whole program: tickets are never reused, and, in \<open>Durability\<close>, every change of a
  database is in the history of its writes.
\<close>

declare split_paired_All [simp del] split_paired_Ex [simp del]

named_theorems effects \<open>operations whose effect a preorder on storages admits\<close>

text \<open>The three ways in which the code writes to a database, with the operations written.\<close>

inductive db_write :: "'db libs \<Rightarrow> 'db \<Rightarrow> wb_op list \<Rightarrow> 'db \<Rightarrow> bool" for L where
  db_put: "rk_put L db k v = Ok db' \<Longrightarrow> db_write L db [WbPut k v] db'"
| db_delete: "rk_delete L db k = Ok db' \<Longrightarrow> db_write L db [WbDelete k] db'"
| db_batch: "rk_write L db ops = Ok db' \<Longrightarrow> db_write L db ops db'"

lemma db_write_apply: "db_write L db ops db' \<Longrightarrow> rocks_ok L absm \<Longrightarrow> absm db' = apply_ops ops (absm db)"
proof (induction rule: db_write.induct)
  case (db_put db k v db')
  with rocks_okD(2) [of L absm db k v] show ?case by auto
next
  case (db_delete db k db')
  with rocks_okD(3) [of L absm db k] show ?case by auto
next
  case (db_batch db ops db')
  with rocks_okD(4) [of L absm db ops] show ?case by auto
qed

abbreviation sent :: "nat \<Rightarrow> write_op \<Rightarrow> 'db storage \<Rightarrow> 'db storage" where
  "sent i op s \<equiv> upd_engine i (send_op op) (s\<lparr>st_next_ticket := Suc (st_next_ticket s)\<rparr>)"

abbreviation written :: "nat \<Rightarrow> 'db \<Rightarrow> 'db storage \<Rightarrow> 'db storage" where
  "written i db s \<equiv> upd_engine i (\<lambda>e. e\<lparr>en_db := db\<rparr>) s"

lemma scan_loop_keeps:
  assumes "\<And>k v acc acc' cont. P acc \<Longrightarrow> f k v acc = Ok (acc', cont) \<Longrightarrow> P acc'" and "P acc"
  shows "P (fst (scan_loop pfx f items acc))"
  using assms(2)
proof (induction items arbitrary: acc)
  case (Cons item items)
  then show ?case using assms(1) [of acc] by (auto split: result.split)
qed simp

locale storage_effects =
  fixes L :: "'db libs" and R :: "'db storage \<Rightarrow> 'db storage \<Rightarrow> bool"
  assumes R_trans: "R s t \<Longrightarrow> R t u \<Longrightarrow> R s u"
    and R_cached: "st_engines s' = st_engines s \<Longrightarrow> st_write_sync s' = st_write_sync s \<Longrightarrow> st_next_ticket s \<le> st_next_ticket s' \<Longrightarrow>
      st_ast_cache s' = st_ast_cache s \<Longrightarrow> R s s'"
    and R_written: "i < ndbs s \<Longrightarrow> db_write L (en_db (st_engines s ! i)) ops db \<Longrightarrow> R s (written i db s)"
    and R_sent: "i < ndbs s \<Longrightarrow> \<not> en_gone (st_engines s ! i) \<Longrightarrow> ticket_of op = Some (st_next_ticket s) \<Longrightarrow> R s (sent i op s)"
begin

subsection \<open>Sequencing\<close>

lemma R_refl [effects]: "R s s"
  by (rule R_cached) simp_all

lemma ret [effects]: "R s (fst (s, r))"
  by (simp add: R_refl)

lemma bind [effects]: "R s (fst m) \<Longrightarrow> (\<And>s' x. R s' (fst (f s' x))) \<Longrightarrow> R s (fst (and_then m f))"
  by (cases "(m, f)" rule: and_then.cases) (auto intro: R_trans)

lemma mapped [effects]: "R s (fst m) \<Longrightarrow> R s (fst (with_err g m))"
  by simp

lemma branches [effects]:
  "R s (fst m) \<Longrightarrow> R s (fst m') \<Longrightarrow> R s (fst (if b then m else m'))"
  "R s (fst n) \<Longrightarrow> (\<And>x. R s (fst (g x))) \<Longrightarrow> R s (fst (case opt of None \<Rightarrow> n | Some x \<Rightarrow> g x))"
  "(\<And>x y. R s (fst (h x y))) \<Longrightarrow> R s (fst (case p of (x, y) \<Rightarrow> h x y))"
  "(\<And>x y. R s (fst (k x y s))) \<Longrightarrow> R s (fst ((case p of (x, y) \<Rightarrow> k x y) s))"
  by (cases b; cases opt; cases p; simp)+

lemma read [effects]: "(\<And>x. R s (fst (f x))) \<Longrightarrow> R s (fst (reading r f s))"
  by (cases r) (simp_all add: reading_def R_refl)

lemma each [effects]: "(\<And>x s. R s (fst (f x s))) \<Longrightarrow> R s (fst (for_each_s f xs s))"
  by (induction xs arbitrary: s) (auto intro: effects)

lemma cached [effects]:
  "st_engines s' = st_engines s \<Longrightarrow> st_write_sync s' = st_write_sync s \<Longrightarrow> st_next_ticket s' = st_next_ticket s \<Longrightarrow>
     st_ast_cache s' = st_ast_cache s \<Longrightarrow> R s (fst (s', r))"
  by (simp add: R_cached)

subsection \<open>Storage operations\<close>

lemma write_db_R [effects]:
  assumes "\<And>db db'. f db = Ok db' \<Longrightarrow> \<exists>ops. db_write L db ops db'"
  shows "R s (fst (write_db i f msg s))"
  using assms by (auto simp: write_db_def on_db_def R_refl split: result.split intro: R_written)

lemma send_ticketed_R [effects]:
  assumes "\<And>t. ticket_of (mk (Some t)) = Some t"
  shows "R s (fst (send_ticketed i mk s))"
  using R_sent [of i s "mk (Some (st_next_ticket s))"] assms
  by (auto simp: send_ticketed_def Let_def R_refl intro: R_cached)

lemma storage_put_R [effects]: "R s (fst (storage_put L k v s))"
  unfolding storage_put_def by (rule write_db_R) (auto intro: db_write.intros)

lemma storage_delete_R [effects]: "R s (fst (storage_delete L k s))"
  unfolding storage_delete_def by (rule write_db_R) (auto intro: db_write.intros)

lemma delete_prefix_R [effects]: "R s (fst (delete_prefix L pfx s))"
  unfolding delete_prefix_def
  by (auto split: option.split result.split prod.split intro!: effects intro: db_write.intros)

lemma send_ranges_R [effects]: "R s (fst (send_ranges st en is ts s))"
  by (induction st en "is" ts s rule: send_ranges.induct) (auto intro!: effects)

lemma send_deletes_R [effects]: "R s (fst (send_deletes L pfx is ts s))"
proof (induction "is" arbitrary: ts s)
  case (Cons i "is")
  have "R s (fst acc')" if "R s (fst acc)" "send_delete_of i k v acc = Ok (acc', cont)" for k v acc acc' cont
  proof -
    have "R (fst acc) (fst (send_ticketed i (WDelete k) (fst acc)))" by (rule send_ticketed_R) simp
    with that show ?thesis
      by (cases acc) (auto simp: send_delete_of_def split: prod.splits result.splits intro: R_trans)
  qed
  from scan_loop_keeps [of "\<lambda>acc. R s (fst acc)", OF this, where acc = "(s, ts)"]
  have "R s (fst (fst (for_each_on_engine L s i pfx (send_delete_of i) (s, ts))))"
    by (simp add: for_each_on_engine_def R_refl)
  then show ?case
    by (auto split: prod.splits result.splits intro: R_trans Cons.IH)
qed (simp add: R_refl)

lemma delete_data_prefix_R [effects]: "R s (fst (delete_data_prefix L pfx s))"
  unfolding delete_data_prefix_def clear_row_cache_def by (intro effects) simp_all

lemma put_keyspace_R [effects]: "R s (fst (put_keyspace L ks s))"
  unfolding put_keyspace_def by (intro effects) simp_all

lemma get_keyspace_R [effects]: "R s (fst (get_keyspace L n s))"
  unfolding get_keyspace_def by (intro effects) simp_all

lemma delete_keyspace_R [effects]: "R s (fst (delete_keyspace L n s))"
  unfolding delete_keyspace_def by (intro effects) simp_all

lemma put_table_R [effects]: "R s (fst (put_table L d s))"
  unfolding put_table_def by (intro effects) simp_all

lemma get_table_R [effects]: "R s (fst (get_table L ks tb s))"
  unfolding get_table_def by (intro effects) simp_all

lemma delete_table_R [effects]: "R s (fst (delete_table L ks tb s))"
  unfolding delete_table_def by (intro effects) simp_all

lemma truncate_table_R [effects]: "R s (fst (truncate_table L ks tb s))"
  unfolding truncate_table_def by (rule effects)

lemma get_row_R [effects]: "R s (fst (get_row L ks tb parts s))"
  unfolding get_row_def Let_def cache_set_def by (intro effects) (simp_all split: option.split)

lemma put_row_sync_R [effects]: "R s (fst (put_row_sync L ks tb parts v s))"
  unfolding put_row_sync_def Let_def cache_set_def by (intro effects) (auto intro: db_write.intros)

lemma delete_row_sync_R [effects]: "R s (fst (delete_row_sync L ks tb parts s))"
  unfolding delete_row_sync_def Let_def cache_set_def by (intro effects) (auto intro: db_write.intros)

lemma put_row_R [effects]: "R s (fst (put_row ks tb parts v s))"
  unfolding put_row_def Let_def write_data_op_def
  by (rule R_trans [of _ "cache_set ks (row_key ks tb parts) (Some v) s"]) (auto simp: cache_set_def intro: R_cached send_ticketed_R R_refl)

lemma delete_row_R [effects]: "R s (fst (delete_row ks tb parts s))"
  unfolding delete_row_def Let_def write_data_op_def
  by (rule R_trans [of _ "cache_set ks (row_key ks tb parts) None s"]) (auto simp: cache_set_def intro: R_cached send_ticketed_R R_refl)

subsection \<open>Opening\<close>

lemma seed_system_R [effects]: "R s (fst (seed_system L H s))"
  unfolding seed_system_def seed_keyspace_def seed_local_def by (intro effects)

subsection \<open>Statements\<close>

lemma put_system_schema_row_R [effects]: "R s (fst (put_system_schema_row L table pk cols s))"
  unfolding put_system_schema_row_def by (intro effects)

lemma delete_system_schema_partition_R [effects]: "R s (fst (delete_system_schema_partition L table pk s))"
  unfolding delete_system_schema_partition_def by (intro effects)

lemma resolve_table_R [effects]: "R s (fst (resolve_table L ks n s))"
  unfolding resolve_table_def Let_def by (intro effects)

lemma mirror_column_R [effects]: "R s (fst (mirror_column L d c s))"
  unfolding mirror_column_def by (intro effects)

lemma mirror_table_metadata_R [effects]: "R s (fst (mirror_table_metadata L d s))"
  unfolding mirror_table_metadata_def by (intro effects)

lemma unmirror_table_metadata_R [effects]: "R s (fst (unmirror_table_metadata L ks tb s))"
  unfolding unmirror_table_metadata_def by (intro effects)

lemma ddl_R [effects]:
  "R s (fst (exec_use L i s))" "R s (fst (exec_create_keyspace L ck s))" "R s (fst (exec_create_table L ks ct s))"
  "R s (fst (exec_drop_keyspace L d s))" "R s (fst (exec_drop_table L ks d s))" "R s (fst (exec_truncate L ks n s))"
  unfolding exec_use_def exec_create_keyspace_def exec_create_table_def exec_drop_keyspace_def exec_drop_table_def exec_truncate_def Let_def
  by (intro effects)+

lemma dml_R [effects]:
  "R s (fst (exec_insert L ks ins b s))" "R s (fst (exec_delete L ks del b s))" "R s (fst (exec_update L ks upd b s))"
  unfolding exec_insert_def exec_delete_def exec_update_def
  by (intro effects | auto split: insert_values.split)+

lemma exec_select_R [effects]: "R s (fst (exec_select L ks sel b page_size paging_state s))"
  unfolding exec_select_def virtual_stub_def select_table_def select_rows_def select_point_def Let_def
  by (intro effects)

lemma execute_statement_R [effects]: "R s (fst (execute_statement L ks stmt b page_size paging_state s))"
  by (cases stmt) (auto simp: execute_statement_def ungated_def intro!: effects)

lemma prepared_info_R [effects]: "R s (fst (prepared_info L ks stmt s))"
  by (cases stmt) (auto simp: prepared_info_def intro!: effects)

end

text \<open>Parsing also changes the cache of statements, which no statement touches when it is executed.\<close>

locale query_effects = storage_effects L R for L :: "'db libs" and R :: "'db storage \<Rightarrow> 'db storage \<Rightarrow> bool" +
  assumes R_parsed: "R s (ast_cache_put query stmt s)"
begin

lemma parse_cached_R [effects]: "R s (fst (parse_cached L query s))"
  unfolding parse_cached_def Let_def by (auto split: option.split list.split bool.split intro!: effects R_parsed)

lemma entry_points_R [effects]:
  "R s (fst (execute L ks query s))" "R s (fst (execute_with_values L ks query vals s))"
  "R s (fst (execute_with_values_paged L ks query vals page_size paging_state s))"
  "R s (fst (execute_prepared L ks stmt vals s))" "R s (fst (execute_prepared_paged L ks stmt vals page_size paging_state s))"
  unfolding execute_def execute_with_values_def execute_with_values_paged_def execute_prepared_def execute_prepared_paged_def
  by (intro effects)+

end


section \<open>Requests and connections\<close>

text \<open>
  What the connections add: the steps of the writer threads between those of the requests. All
  connections of a server share the storage, so a run of one connection with its environment is a run of
  the server.
\<close>

locale server_effects = query_effects L R for L :: "'db libs" and R :: "'db storage \<Rightarrow> 'db storage \<Rightarrow> bool" +
  assumes R_thread: "storage_step L s s' \<Longrightarrow> R s s'"
begin

lemma threads_R: "(storage_step L)\<^sup>*\<^sup>* s s' \<Longrightarrow> R s s'"
  by (induction rule: rtranclp_induct) (auto intro: R_refl R_thread R_trans)

lemma session_bind:
  "R s (fst (fst m)) \<Longrightarrow> (\<And>s' c x. R s' (fst (fst (f (s', c) x)))) \<Longrightarrow> R s (fst (fst (and_then m f)))"
  by (cases "(m, f)" rule: and_then.cases; cases "fst m") (auto intro: R_trans)

lemma in_session_R: "R s (fst m) \<Longrightarrow> R s (fst (fst (in_session c m)))"
  by (simp add: in_session_def)

lemma handle_query_R: "R s (fst (fst (handle_query L P body stream (s, c))))"
  using entry_points_R(3) [of s]
  by (auto simp: handle_query_def Let_def R_refl split: option.split prod.splits) (metis fst_conv)

lemma handle_execute_R: "R s (fst (fst (handle_execute L P body stream (s, c))))"
  using entry_points_R(5) [of s]
  by (auto simp: handle_execute_def Let_def R_refl split: option.split prod.splits) (metis fst_conv)

lemma handle_prepare_R: "R s (fst (fst (handle_prepare L P body stream (s, c))))"
  unfolding handle_prepare_def Let_def
  by (auto simp: R_refl split: option.split intro!: session_bind in_session_R effects)

lemma replying_R: "R s (fst (fst m)) \<Longrightarrow> R s (fst (fst (replying m)))"
  unfolding replying_def by (rule session_bind) (simp_all add: R_refl)

lemma begin_request_R: "R s (fst (fst (begin_request L P opcode body stream (s, c))))"
  by (auto simp: begin_request_def Let_def R_refl handle_query_R handle_execute_R handle_prepare_R
      split: option.split request_opcode.split prod.split intro!: replying_R)

lemma run_task_R: "R s (fst (fst (run_task L P t (s, c))))"
proof (cases t)
  case (Fresh stream opcode body)
  then show ?thesis
    using begin_request_R [of s P opcode body stream c]
    by (auto split: prod.splits result.splits reply.splits)
qed (auto simp: R_refl split: prod.split)

lemma run_task_session: "run_task L P t sess = (sess', t') \<Longrightarrow> R (fst sess) (fst sess')"
  using run_task_R [of "fst sess" P t "snd sess"] by simp

lemma own_step_R: "own_step L P deliver x y \<Longrightarrow> R (fst (cx_session x)) (fst (cx_session y))"
  by (induction rule: own_step.induct)
     (auto simp: take_up_def log_read_def send_response_def R_refl run_task_session split: option.splits dest: run_task_session)

lemma env_step_R: "env_step L P x y \<Longrightarrow> R (fst (cx_session x)) (fst (cx_session y))"
proof (induction rule: env_step.induct)
  case (other_request x s c opcode body stream c' s' c'' r)
  then show ?case using begin_request_R [of s P opcode body stream c'] by simp
qed (simp_all add: R_refl R_thread)

end

definition server_step :: "'db libs \<Rightarrow> frame_libs \<Rightarrow> (bytes list \<Rightarrow> bytes) \<Rightarrow> 'db connection \<Rightarrow> 'db connection \<Rightarrow> bool" where
  "server_step L P deliver x y \<longleftrightarrow> own_step L P deliver x y \<or> env_step L P x y"

context server_effects
begin

lemma server_run_R:
  "(server_step L P deliver)\<^sup>*\<^sup>* x y \<Longrightarrow> R (fst (cx_session x)) (fst (cx_session y))"
  by (induction rule: rtranclp_induct)
     (auto simp: server_step_def intro: R_refl R_trans own_step_R env_step_R)

end

interpretation ast_kept: storage_effects L "\<lambda>s s'. st_ast_cache s' = st_ast_cache s"
  by unfold_locales (simp_all add: upd_engine_def)

section \<open>Tickets\<close>

definition engine_tickets :: "'db engine \<Rightarrow> ticket list" where
  "engine_tickets e = en_done e @ tickets_of (pend_tickets e)"

text \<open>
  The state of the pipelines, whatever the data: batches in flight are within the limit and carry one
  completion slot per operation, no writer is gone, and every ticket was handed out once.
\<close>

definition pipelines_wf :: "'db storage \<Rightarrow> bool" where
  "pipelines_wf s \<longleftrightarrow>
     (\<forall>e\<in>set (st_engines s). engine_wf e \<and> \<not> en_gone e) \<and>
     distinct (concat (map engine_tickets (st_engines s))) \<and>
     (\<forall>t\<in>set (concat (map engine_tickets (st_engines s))). t < st_next_ticket s)"

lemma engine_step_tickets:
  assumes "engine_step L sync e e'"
  shows "engine_tickets e' = engine_tickets e \<and> en_gone e' = en_gone e"
  using assms by (cases rule: engine_step.cases)
    (auto simp: engine_tickets_def pend_defs batch_apply_eq commit_batch_def Let_def split: option.splits)

lemma mset_concat_update:
  "i < length xs \<Longrightarrow> mset (concat (xs[i := xs ! i @ [y]])) = add_mset y (mset (concat xs))"
proof -
  assume i: "i < length xs"
  from id_take_nth_drop [OF i] have "concat xs = concat (take i xs) @ xs ! i @ concat (drop (Suc i) xs)"
    by (metis concat.simps(2) concat_append)
  moreover have "concat (xs[i := xs ! i @ [y]]) = concat (take i xs) @ (xs ! i @ [y]) @ concat (drop (Suc i) xs)"
    using upd_conv_take_nth_drop [OF i] by simp
  ultimately show ?thesis by (simp only: mset_append union_assoc) simp
qed

lemma pipelines_wf_sent:
  assumes "pipelines_wf s" and "i < ndbs s" and "ticket_of op = Some (st_next_ticket s)"
  shows "pipelines_wf (sent i op s)"
proof -
  let ?tss = "map engine_tickets (st_engines s)"
  have "map engine_tickets (st_engines (sent i op s)) = ?tss[i := ?tss ! i @ [st_next_ticket s]]"
    using assms(2,3) by (simp add: upd_engine_def map_update engine_tickets_def pend_send)
  with mset_concat_update [of i ?tss "st_next_ticket s"] assms(2)
  have m: "mset (concat (map engine_tickets (st_engines (sent i op s)))) = add_mset (st_next_ticket s) (mset (concat ?tss))" by simp
  then have set: "set (concat (map engine_tickets (st_engines (sent i op s)))) = insert (st_next_ticket s) (set (concat ?tss))"
    by (metis set_mset_add_mset_insert set_mset_mset)
  from assms(1) have below: "st_next_ticket s \<notin> set (concat ?tss)" "distinct (concat ?tss)" by (auto simp: pipelines_wf_def)
  then have "distinct (st_next_ticket s # concat ?tss)" by simp
  then have "distinct (concat (map engine_tickets (st_engines (sent i op s))))"
    using m mset_eq_imp_distinct_iff [of _ "st_next_ticket s # concat ?tss"] by simp
  moreover have "engine_wf (send_op op (st_engines s ! i))" "\<not> en_gone (send_op op (st_engines s ! i))"
    using assms(1,2) by (simp_all add: pipelines_wf_def engine_wf_send)
  then have "engine_wf e \<and> \<not> en_gone e" if "e \<in> set (st_engines (sent i op s))" for e
    using that assms(1) set_update_subset_insert [of "st_engines s" i "send_op op (st_engines s ! i)"]
    by (auto simp: pipelines_wf_def upd_engine_def)
  ultimately show ?thesis using assms(1) set by (auto simp: pipelines_wf_def less_Suc_eq)
qed

lemma pipelines_wf_upd:
  assumes "pipelines_wf s" and "engine_tickets e' = engine_tickets (st_engines s ! i)" and "engine_wf e'" and "\<not> en_gone e'"
  shows "pipelines_wf (upd_engine i (\<lambda>_. e') s)"
proof (cases "i < ndbs s")
  case True
  then have "map engine_tickets (st_engines (upd_engine i (\<lambda>_. e') s)) = map engine_tickets (st_engines s)"
    using assms(2) list_update_id [of "map engine_tickets (st_engines s)" i] by (simp add: upd_engine_def map_update)
  then show ?thesis
    using assms(1,3,4) set_update_subset_insert [of "st_engines s" i e'] by (auto simp: pipelines_wf_def) (auto simp: upd_engine_def)
qed (use assms in \<open>simp add: upd_engine_def list_update_beyond\<close>)

lemma pipelines_wf_written:
  assumes "pipelines_wf s" and "i < ndbs s"
  shows "pipelines_wf (written i db s)"
proof -
  let ?e = "(st_engines s ! i)\<lparr>en_db := db\<rparr>"
  from assms have "engine_wf ?e" "\<not> en_gone ?e" "engine_tickets ?e = engine_tickets (st_engines s ! i)"
    by (simp_all add: pipelines_wf_def engine_tickets_def)
  from pipelines_wf_upd [OF assms(1) this(3,1,2)] show ?thesis by (simp add: upd_engine_def)
qed

interpretation pipelines: server_effects L "\<lambda>s s'. pipelines_wf s \<longrightarrow> pipelines_wf s'"
proof unfold_locales
  fix s s' :: "'a storage"
  assume "st_engines s' = st_engines s" "st_next_ticket s \<le> st_next_ticket s'"
  then show "pipelines_wf s \<longrightarrow> pipelines_wf s'" by (auto simp: pipelines_wf_def intro: order.strict_trans2)
next
  fix query stmt and s :: "'a storage"
  show "pipelines_wf s \<longrightarrow> pipelines_wf (ast_cache_put query stmt s)" by (simp add: pipelines_wf_def ast_cache_put_def Let_def)
next
  fix s s' :: "'a storage"
  assume "storage_step L s s'"
  then show "pipelines_wf s \<longrightarrow> pipelines_wf s'"
  proof (cases rule: storage_step.cases)
    case (1 i e')
    have "pipelines_wf s'" if wf: "pipelines_wf s"
      unfolding 1(1)
    proof (rule pipelines_wf_upd [OF wf])
      from wf 1(2) have e: "engine_wf (st_engines s ! i)" "\<not> en_gone (st_engines s ! i)" by (simp_all add: pipelines_wf_def)
      show "engine_wf e'" by (rule engine_step_wf [OF 1(3) e(1)])
      show "engine_tickets e' = engine_tickets (st_engines s ! i)" "\<not> en_gone e'"
        using engine_step_tickets [OF 1(3)] e(2) by simp_all
    qed
    then show ?thesis ..
  qed
qed (auto simp: pipelines_wf_sent pipelines_wf_written)

lemma issued_tickets: "issued s t \<longleftrightarrow> t \<in> set (concat (map engine_tickets (st_engines s)))"
  by (simp add: issued_def engine_tickets_def)

lemma issued_upd_engine:
  assumes "set (engine_tickets (st_engines s ! i)) \<subseteq> set (engine_tickets (f (st_engines s ! i)))" and "issued s t"
  shows "issued (upd_engine i f s) t"
proof (cases "i < ndbs s")
  case True
  from assms(2) obtain j where j: "j < ndbs s" "t \<in> set (engine_tickets (st_engines s ! j))"
    by (auto simp: issued_def engine_tickets_def in_set_conv_nth [of _ "st_engines s"])
  have "t \<in> set (engine_tickets (st_engines (upd_engine i f s) ! j))"
    using j assms(1) by (cases "i = j") (auto simp: upd_engine_def)
  moreover have "st_engines (upd_engine i f s) ! j \<in> set (st_engines (upd_engine i f s))"
    using j(1) by (simp add: upd_engine_def)
  ultimately show ?thesis unfolding issued_tickets by auto
qed (use assms(2) in \<open>simp add: upd_engine_def issued_def list_update_beyond\<close>)

text \<open>A ticket that was handed out stays pending or completed.\<close>

definition keeps_issued :: "'db storage \<Rightarrow> 'db storage \<Rightarrow> bool" where
  "keeps_issued s s' \<longleftrightarrow> (\<forall>t. issued s t \<longrightarrow> issued s' t)"

interpretation issuing: server_effects L keeps_issued
proof unfold_locales
  fix s s' :: "'a storage"
  assume "st_engines s' = st_engines s"
  then show "keeps_issued s s'" using issued_cong [of s' s] by (simp add: keeps_issued_def)
next
  fix query stmt and s :: "'a storage"
  show "keeps_issued s (ast_cache_put query stmt s)" by (simp add: keeps_issued_def issued_def ast_cache_put_def Let_def)
next
  fix i op and s :: "'a storage"
  have "issued (s\<lparr>st_next_ticket := t\<rparr>) = issued s" for t by (rule issued_cong) simp
  then show "keeps_issued s (sent i op s)"
    by (auto intro!: issued_upd_engine simp: keeps_issued_def engine_tickets_def pend_send)
next
  fix i db and s :: "'a storage"
  show "keeps_issued s (written i db s)"
    by (auto intro!: issued_upd_engine simp: keeps_issued_def engine_tickets_def)
next
  fix s s' :: "'a storage"
  assume "storage_step L s s'"
  then show "keeps_issued s s'"
  proof (cases rule: storage_step.cases)
    case (1 i e')
    then show ?thesis using engine_step_tickets [OF 1(3)] by (auto simp: keeps_issued_def intro: issued_upd_engine)
  qed
qed (simp add: keeps_issued_def)


end
