(* ===== verification/Liveness.thy ===== *)
theory Liveness
  imports Effects
begin

text \<open>
  Every request that returns is answered: the tickets a request awaits were issued by the storage, nothing that
  happens later takes an issued ticket back, and the threads of the storage complete all of them. So
  the steps of a connection together with those of the threads always come to an end, and they end
  only when every frame read has its response, is lost with a panic or a dead peer, or is served by a
  handler that never returns.
\<close>

declare split_paired_All [simp del] split_paired_Ex [simp del]

section \<open>Tickets that come with a result\<close>

named_theorems issued_intros

lemma send_ticketed_issues:
  assumes "send_ticketed i mk s = (s', Ok t)" and "\<And>t. ticket_of (mk t) = t"
  shows "issued s' t"
proof -
  from assms have "st_engines s' ! i \<in> set (st_engines s')" "t \<in> set (tickets_of (pend_tickets (st_engines s' ! i)))"
    by (auto simp: send_ticketed_def Let_def upd_engine_def pend_send set_update_memI split: if_splits)
  then show ?thesis unfolding issued_def by (metis Un_iff set_append)
qed

definition gives_issued :: "('a \<Rightarrow> ticket list) \<Rightarrow> 'db storage \<times> ('e, 'a) result \<Rightarrow> bool" where
  "gives_issued ts m \<longleftrightarrow> (\<forall>x. snd m = Ok x \<longrightarrow> list_all (issued (fst m)) (ts x))"

lemma gives_issuedD: "gives_issued ts m \<Longrightarrow> m = (s, Ok x) \<Longrightarrow> list_all (issued s) (ts x)"
  by (simp add: gives_issued_def)

lemma issued_later: "list_all (issued s) ts \<Longrightarrow> keeps_issued s s' \<Longrightarrow> list_all (issued s') ts"
  by (auto simp: keeps_issued_def list_all_iff)

lemma gives_issued_bind [issued_intros]:
  "(\<And>s x. m = (s, Ok x) \<Longrightarrow> gives_issued ts (f s x)) \<Longrightarrow> gives_issued ts (and_then m f)"
  by (cases "(m, f)" rule: and_then.cases) (auto simp: gives_issued_def)

lemma gives_issued_pair [issued_intros]:
  "(\<And>x. r = Ok x \<Longrightarrow> list_all (issued s) (ts x)) \<Longrightarrow> gives_issued ts (s, r)"
  by (simp add: gives_issued_def)

lemma send_ranges_issues:
  "list_all (issued s) ts \<Longrightarrow> gives_issued (\<lambda>ts. ts) (send_ranges st en is ts s)"
proof (induction "is" arbitrary: ts s)
  case (Cons i "is")
  have "list_all (issued s') (ts @ [t])" if "send_ticketed i (WDeleteRange st en) s = (s', Ok t)" for s' t
    using issued_later [OF Cons.prems, of s'] issuing.send_ticketed_R [of "WDeleteRange st en" s i] send_ticketed_issues [OF that] that
    by simp
  then show ?case by (auto intro!: issued_intros Cons.IH)
qed (auto intro!: issued_intros)

lemma delete_data_prefix_issues:
  assumes "prefix_upper_bound pfx \<noteq> None"
  shows "gives_issued (\<lambda>ts. ts) (delete_data_prefix L pfx s)"
proof -
  from assms obtain e where e: "prefix_upper_bound pfx = Some e" by blast
  have "issued (clear_row_cache s') = issued s'" for s' :: "'a storage"
    by (rule issued_cong) (simp add: clear_row_cache_def)
  then show ?thesis
    using send_ranges_issues [of s "[]" pfx e "[0..<ndbs s]"]
    by (auto simp: delete_data_prefix_def e intro!: issued_intros dest: gives_issuedD)
qed

lemma upper_bounds:
  "prefix_upper_bound (data_prefix ks tb) \<noteq> None" "prefix_upper_bound (DT_PREFIX @ str_bytes ks @ bang) \<noteq> None"
  by (rule prefix_upper_bound_data [OF last_data_prefix(1,2)], rule prefix_upper_bound_data [OF last_data_prefix(3,4)])

lemma drops_issue:
  "gives_issued (\<lambda>ts. ts) (delete_keyspace L name s)" "gives_issued (\<lambda>ts. ts) (delete_table L kn tn s)"
  "gives_issued (\<lambda>ts. ts) (truncate_table L kn tn s)"
proof -
  have cached: "issued (s'\<lparr>st_keyspaces := K, st_tables := T\<rparr>) = issued s'" "issued (s'\<lparr>st_tables := T\<rparr>) = issued s'"
    "issued (s'\<lparr>st_keyspaces := K\<rparr>) = issued s'" for s' :: "'a storage" and K T by (rule issued_cong, simp)+
  note ddp = upper_bounds [THEN delete_data_prefix_issues, THEN gives_issuedD]
  show "gives_issued (\<lambda>ts. ts) (delete_keyspace L name s)" "gives_issued (\<lambda>ts. ts) (delete_table L kn tn s)"
    unfolding delete_keyspace_def delete_table_def
    by (auto simp: cached dest: ddp intro!: gives_issued_bind gives_issued_pair)
  show "gives_issued (\<lambda>ts. ts) (truncate_table L kn tn s)"
    unfolding truncate_table_def by (rule delete_data_prefix_issues [OF upper_bounds(1)])
qed

lemma row_writes_issue:
  "gives_issued (\<lambda>t. [t]) (put_row kn tn parts v s)" "gives_issued (\<lambda>t. [t]) (delete_row kn tn parts s)"
  by (auto simp: put_row_def delete_row_def write_data_op_def Let_def gives_issued_def
      intro!: send_ticketed_issues [OF prod_eqI])

section \<open>Statements\<close>

lemma with_err_Ok: "with_err g m = (s, Ok x) \<Longrightarrow> m = (s, Ok x)"
  by (simp add: result_simps)

lemma execute_statement_gives: "gives_issued snd (execute_statement L session_ks stmt b page_size paging_state s)"
proof -
  have dropped: "list_all (issued s') ts" if "with_err g (delete_keyspace L name s0) = (s1, Ok ts)"
      "with_err g' (for_each_s (\<lambda>table. delete_system_schema_partition L table part) xs s1) = (s', Ok u)" for g name s0 s1 ts g' part xs s' u
    using issued_later [OF gives_issuedD [OF drops_issue(1) with_err_Ok [OF that(1)]], of s'] that(2)
      issuing.each [of "\<lambda>table. delete_system_schema_partition L table part" s1 xs] issuing.delete_system_schema_partition_R by (auto simp: result_simps)
  have tables: "list_all (issued s') ts" if "with_err g (delete_table L kn tn s0) = (s1, Ok ts)"
      "with_err g' (unmirror_table_metadata L kn tn s1) = (s', Ok u)" for g kn tn s0 s1 ts g' s' u
    using issued_later [OF gives_issuedD [OF drops_issue(2) with_err_Ok [OF that(1)]], of s'] that(2)
      issuing.unmirror_table_metadata_R [of s1 L kn tn] by (simp add: result_simps)
  have truncated: "list_all (issued s') ts" if "with_err g (truncate_table L kn tn s0) = (s', Ok ts)" for g kn tn s0 s' ts
    using gives_issuedD [OF drops_issue(3) with_err_Ok [OF that]] .
  have rows: "with_err g (put_row kn tn parts v s0) = (s', Ok t) \<Longrightarrow> issued s' t"
    "with_err g (delete_row kn tn parts s0) = (s', Ok t) \<Longrightarrow> issued s' t" for g kn tn parts v s0 s' t
    using gives_issuedD [OF row_writes_issue(1) with_err_Ok] gives_issuedD [OF row_writes_issue(2) with_err_Ok] by fastforce+
  note rules = gives_issued_bind gives_issued_pair
  have "gives_issued snd (exec_drop_keyspace L d s)" for d s
    unfolding exec_drop_keyspace_def Let_def
    by (auto simp del: for_each_s.simps intro!: rules split: if_splits) (erule (1) dropped)+
  moreover have "gives_issued snd (exec_drop_table L session_ks d s)" for d s
    unfolding exec_drop_table_def Let_def by (auto intro!: rules split: if_splits) (erule (1) tables)+
  moreover have "gives_issued snd (exec_truncate L session_ks name s)" for name s
    unfolding exec_truncate_def by (auto intro!: rules split: prod.split) (erule truncated)+
  moreover have "gives_issued snd (exec_insert L session_ks i b s)" for i s
    unfolding exec_insert_def by (auto intro!: rules split: prod.split insert_values.split) (erule rows)+
  moreover have "gives_issued snd (exec_delete L session_ks d b s)" for d s
    unfolding exec_delete_def by (auto intro!: rules split: prod.split) (erule rows)+
  moreover have "gives_issued snd (exec_update L session_ks u b s)" for u s
    unfolding exec_update_def by (auto intro!: rules split: prod.split) (erule rows)+
  ultimately show ?thesis
    by (auto simp: execute_statement_def ungated_def intro!: rules split: statement.split)
qed

section \<open>Requests\<close>

lemma paged_issues:
  "execute_with_values_paged L ks q vs ps st s = (s', Ok (resp, ts)) \<Longrightarrow> list_all (issued s') ts"
  "execute_prepared_paged L ks p vs ps st s = (s', Ok (resp, ts)) \<Longrightarrow> list_all (issued s') ts"
proof -
  have "gives_issued snd (execute_with_values_paged L ks q vs ps st s)" "gives_issued snd (execute_prepared_paged L ks p vs ps st s)"
    unfolding execute_with_values_paged_def execute_prepared_paged_def
    by (auto intro!: issued_intros execute_statement_gives)
  then show "execute_with_values_paged L ks q vs ps st s = (s', Ok (resp, ts)) \<Longrightarrow> list_all (issued s') ts"
    "execute_prepared_paged L ks p vs ps st s = (s', Ok (resp, ts)) \<Longrightarrow> list_all (issued s') ts"
    by (auto dest: gives_issuedD)
qed

lemma settle_then_Settle: "settle_then result k = Ok (Settle gates k') \<Longrightarrow> \<exists>resp. result = Ok (resp, gates)"
  by (auto simp: settle_then_def result_simps)

lemma replying_Settle: "replying m \<noteq> (sess, Ok (Settle gates k))"
  by (cases "snd m") (auto simp: replying_def prod_eq_iff result_simps)

lemma begin_request_gives:
  assumes "begin_request L P opcode body stream (s, c) = ((s', c'), Ok (Settle gates k))"
  shows "list_all (issued s') gates"
  using assms
  by (auto simp: begin_request_def replying_Settle handle_query_def handle_execute_def Let_def
      split: option.splits request_opcode.splits prod.splits if_splits dest!: settle_then_Settle dest: paged_issues)

section \<open>Runs\<close>

text \<open>The steps of a connection and of the threads of the storage.\<close>

inductive run_step :: "'db libs \<Rightarrow> frame_libs \<Rightarrow> (bytes list \<Rightarrow> bytes) \<Rightarrow> 'db connection \<Rightarrow> 'db connection \<Rightarrow> bool" for L P deliver where
  own: "own_step L P deliver x y \<Longrightarrow> run_step L P deliver x y"
| thread: "cx_session x = (s, c) \<Longrightarrow> storage_step L s s' \<Longrightarrow> run_step L P deliver x (x\<lparr>cx_session := (s', c)\<rparr>)"

inductive_cases run_stepE: "run_step L P deliver x y"

definition gates_issued :: "'db connection \<Rightarrow> bool" where
  "gates_issued x \<longleftrightarrow>
     (\<forall>stream gates k. Waiting stream gates k \<in> set (reader_tasks (cx_reader x) @ cx_tasks x) \<longrightarrow>
        list_all (issued (fst (cx_session x))) gates)"

lemma run_task_issues:
  assumes "run_task L P t (s, c) = ((s', c'), Some (Waiting stream gates k))"
  shows "list_all (issued s') gates"
proof -
  have no: "sending st r \<noteq> Some (Waiting stream gates k)" for st r by (cases "(st, r)" rule: sending.cases) auto
  with assms show ?thesis
    by (cases t) (auto split: prod.splits result.splits reply.splits dest: begin_request_gives)
qed

lemma gates_later:
  assumes "gates_issued x" and "keeps_issued (fst (cx_session x)) s'" and "fst (cx_session y) = s'"
    and "\<And>stream gates k. Waiting stream gates k \<in> set (reader_tasks (cx_reader y) @ cx_tasks y) \<Longrightarrow>
      Waiting stream gates k \<in> set (reader_tasks (cx_reader x) @ cx_tasks x) \<or> list_all (issued s') gates"
  shows "gates_issued y"
  using assms unfolding gates_issued_def by (meson issued_later)

lemma reader_tasks_take_up:
  "set (reader_tasks (cx_reader (take_up stream t closing x))) = set_option t" "cx_tasks (take_up stream t closing x) = cx_tasks x"
  "cx_session (take_up stream t closing x) = cx_session x"
  by (simp_all add: take_up_def split: option.split)

lemma sending_not_waiting: "sending st r = Some t \<Longrightarrow> t \<noteq> Waiting stream gates k"
  by (cases "(st, r)" rule: sending.cases) auto

lemma set_drop_task: "t \<in> set (drop_task i ts) \<Longrightarrow> t \<in> set ts"
  by (auto simp: drop_task_def dest: in_set_takeD in_set_dropD)

lemma own_step_gates:
  assumes "own_step L P deliver x y" and "gates_issued x"
  shows "gates_issued y"
proof (rule gates_later [OF assms(2) issuing.own_step_R [OF assms(1)] refl])
  fix stream gates k
  assume waits: "Waiting stream gates k \<in> set (reader_tasks (cx_reader y) @ cx_tasks y)"
  from assms(1) show "Waiting stream gates k \<in> set (reader_tasks (cx_reader x) @ cx_tasks x) \<or> list_all (issued (fst (cx_session y))) gates"
  proof (cases rule: own_step.cases)
    case (reader_run t closing sess t')
    with waits run_task_issues [of L P t _ _ "fst sess" "snd sess" stream gates k] show ?thesis
      by (auto simp: reader_tasks_take_up) (metis surj_pair)
  next
    case (task_run i sess t')
    with waits run_task_issues [of L P "cx_tasks x ! i" _ _ "fst sess" "snd sess" stream gates k] show ?thesis
      by (auto dest!: set_update_subset_insert [THEN subsetD]) (metis surj_pair)
  qed (use waits in \<open>auto simp: reader_tasks_take_up dest: set_drop_task sending_not_waiting split: if_splits\<close>)
qed

lemma conn_reach_gates: "conn_reach L P deliver x \<Longrightarrow> gates_issued x"
proof (induction rule: conn_reach.induct)
  case (reach_env x y)
  then show ?case
    by (intro gates_later [OF reach_env(3) issuing.env_step_R [OF reach_env(2)] refl]) (auto elim!: env_stepE)
qed (simp add: gates_issued_def connect_def, rule own_step_gates)

section \<open>Every run ends with every request answered\<close>

definition storage_work :: "'db storage \<Rightarrow> nat" where
  "storage_work s = sum_list (map work (st_engines s))"

lemma storage_step_work: "storage_step L s s' \<Longrightarrow> storage_work s' < storage_work s"
proof (induction rule: storage_step.induct)
  case (1 i s e')
  note less = engine_step_work [OF 1(2)]
  have "work (st_engines s ! i) \<le> storage_work s"
    unfolding storage_work_def using 1(1) by (intro member_le_sum_list) auto
  with less 1(1) show ?case
    by (simp add: storage_work_def upd_engine_def map_update sum_list_update)
qed

lemma run_step_wf: "wfP (run_step L P deliver)\<inverse>\<inverse>"
proof -
  have "(run_step L P deliver)\<inverse>\<inverse> \<le> (\<lambda>y x. (y, x) \<in> measures [conn_weight, \<lambda>x. storage_work (fst (cx_session x))])"
    by (auto elim!: run_stepE dest: own_step_weight storage_step_work simp: conn_weight_def)
  then show ?thesis by (rule wfp_subset [rotated]) (simp only: wfp_wf_eq wf_measures)
qed

lemma all_quiet_completed:
  assumes "\<And>s'. \<not> storage_step L s s'" and "issued s t"
  shows "completed s t"
proof -
  from assms(2) obtain i where i: "i < ndbs s" "t \<in> set (engine_tickets (st_engines s ! i))"
    unfolding issued_def engine_tickets_def by (metis in_set_conv_nth)
  have "quiet (st_engines s ! i)"
    using engine_step_enabled [of "st_engines s ! i" L "st_write_sync s"] assms(1) i(1) storage_step.intros by blast
  with i show ?thesis by (auto simp: completed_def engine_tickets_def pend_defs quiet_def intro!: bexI [of _ "st_engines s ! i"])
qed

lemma run_end:
  assumes "conn_ok x" and "gates_issued x" and "\<nexists>y. run_step L P deliver x y"
  shows "list_all hung (reader_tasks (cx_reader x) @ cx_tasks x)" and "cx_channel x = []"
    and "cx_reader x = Reading \<Longrightarrow> length (cx_tasks x) = PER_CONN_INFLIGHT"
proof -
  obtain s c where sess: "cx_session x = (s, c)" by (cases "cx_session x")
  have "awaits_commits_only x" using stuck_awaits [OF assms(1)] assms(3) own by blast
  moreover have "\<not> blocked s t" if "t \<in> set (reader_tasks (cx_reader x) @ cx_tasks x)" for t
    using all_quiet_completed [of L s] assms(2,3) that thread [OF sess] sess
    by (cases t) (fastforce simp: gates_issued_def list_all_iff)+
  ultimately show "list_all hung (reader_tasks (cx_reader x) @ cx_tasks x)" "cx_channel x = []"
    "cx_reader x = Reading \<Longrightarrow> length (cx_tasks x) = PER_CONN_INFLIGHT"
    by (auto simp: awaits_commits_only_def sess Let_def list_all_iff split: reader.splits)
qed

lemma run_steps_inv:
  assumes "(run_step L P deliver)\<^sup>*\<^sup>* x y" and "conn_reach L P deliver x"
  shows "conn_reach L P deliver y"
  using assms
proof (induction rule: rtranclp_induct)
  case (step y z)
  from step(2) show ?case by cases (use step in \<open>blast intro: reach_own reach_env threads\<close>)+
qed simp

lemma wf_reaches_end:
  assumes "wfP r\<inverse>\<inverse>"
  shows "\<exists>y. r\<^sup>*\<^sup>* x y \<and> (\<nexists>z. r y z)"
  using assms
proof (induction x rule: wfp_induct_rule)
  case (less x)
  then show ?case by (cases "\<exists>z. r x z") (blast intro: converse_rtranclp_into_rtranclp)+
qed

section \<open>Properties\<close>

text \<open>
  C8. Every request that returns is answered, whatever it is and however the tasks of the connection and the
  threads of the storage interleave: their steps cannot go on for ever, and where they come to rest no
  response is waiting and every frame read was answered on its stream, lost with a panic or a dead peer, or
  belongs to a request whose handler is in a loop that never ends. If there is no such request, the reader
  has closed and no request is being served; in particular every ticket that a request ever awaits is
  completed. If there is one, what is left are requests of that kind, and the reader waits on if
  they hold all 512 slots. A hung request keeps a thread of the runtime; the steps of the others assume
  that the runtime has one left for them.
\<close>

theorem every_request_answered:
  assumes "conn_reach L P deliver x"
  shows "wfP (run_step L P deliver)\<inverse>\<inverse> \<and>
    (\<forall>y. (run_step L P deliver)\<^sup>*\<^sup>* x y \<and> (\<nexists>z. run_step L P deliver y z) \<longrightarrow>
      (let left = reader_tasks (cx_reader y) @ cx_tasks y in
        cx_channel y = [] \<and> list_all hung left \<and>
        mset (cx_read y) = image_mset frame_stream (mset (cx_handed y)) + mset (cx_lost y) + image_mset task_stream (mset left) \<and>
        (left = [] \<longrightarrow> cx_reader y = Closed) \<and> (cx_reader y = Reading \<longrightarrow> length (cx_tasks y) = 512)))"
proof (intro conjI allI impI run_step_wf)
  fix y
  assume y: "(run_step L P deliver)\<^sup>*\<^sup>* x y \<and> (\<nexists>z. run_step L P deliver y z)"
  then have reach: "conn_reach L P deliver y" using run_steps_inv assms by blast
  note rest = run_end [OF conn_reach_ok [OF reach] conn_reach_gates [OF reach] conjunct2 [OF y]]
  from rest(3) have "cx_reader y = Reading \<Longrightarrow> length (cx_tasks y) = 512" by (simp add: PER_CONN_INFLIGHT_def)
  with rest(1,2) conn_reach_ok [OF reach]
  show "let left = reader_tasks (cx_reader y) @ cx_tasks y in
        cx_channel y = [] \<and> list_all hung left \<and>
        mset (cx_read y) = image_mset frame_stream (mset (cx_handed y)) + mset (cx_lost y) + image_mset task_stream (mset left) \<and>
        (left = [] \<longrightarrow> cx_reader y = Closed) \<and> (cx_reader y = Reading \<longrightarrow> length (cx_tasks y) = 512)"
    by (cases "cx_reader y") (auto simp: conn_ok_def accounted_def)
qed

theorem every_request_answered_witness:
  "\<exists>y. (run_step mem_libs plain_frames deliver_all)\<^sup>*\<^sup>* (connect (fresh_storage 2 fmempty False False) options_request) y \<and>
     list_all hung (reader_tasks (cx_reader y) @ cx_tasks y) \<and>
     mset (cx_read y) = image_mset frame_stream (mset (cx_handed y)) + mset (cx_lost y) + image_mset task_stream (mset (reader_tasks (cx_reader y) @ cx_tasks y))"
proof -
  note answered = every_request_answered [OF reach_connect [of mem_libs plain_frames deliver_all "fresh_storage 2 fmempty False False" options_request]]
  from wf_reaches_end [OF conjunct1 [OF answered]] obtain y where
    "(run_step mem_libs plain_frames deliver_all)\<^sup>*\<^sup>* (connect (fresh_storage 2 fmempty False False) options_request) y"
    "\<nexists>z. run_step mem_libs plain_frames deliver_all y z" by blast
  with answered show ?thesis by (auto simp: Let_def)
qed

end
