(* ===== verification/Uring.thy ===== *)
theory Uring
  imports Server
begin

text \<open>
  Requests as the io_uring server serves them (\<^verbatim>\<open>src/src/server_monoio.rs\<close>). The file repeats the request
  handling of \<^verbatim>\<open>src/src/server.rs\<close> for another runtime; it is translated here on its own, over the same state
  of a connection, to show that the two servers have not drifted apart: a client is answered alike by
  either. Its connections are in \<^verbatim>\<open>UringConnection\<close>.
\<close>

section \<open>Reading frames\<close>

definition uring_is_session_use :: "bytes \<Rightarrow> bool" where
  "uring_is_session_use body =
     (if length body < 4 then False
      else (let len = unat (from_be_bytes (take 4 body) :: 32 word);
                bytes = take (min len (length body - 4)) (drop 4 body);
                t = (if 16 < length bytes then take 16 bytes else bytes)
            in prefix ''use '' (map lower_char (bytes_str t))))"

definition uring_next_frame :: "frame_libs \<Rightarrow> conn_shared \<Rightarrow> bytes \<Rightarrow> incoming" where
  "uring_next_frame P c input =
     (if length input < 9 then Eof
      else
        (let version = input ! 0; flags = input ! 1; stream = from_be_bytes [input ! 2, input ! 3];
             opcode_raw = input ! 4; len = unat (from_be_bytes [input ! 5, input ! 6, input ! 7, input ! 8] :: 32 word);
             rest = drop 9 input in
         if version \<noteq> 0x04 then
           Refuse stream (error_frame P version stream 0x000A ''Unsupported protocol version; this server supports CQL v4'' None)
         else if MAX_FRAME_LENGTH < len then
           Refuse stream (error_frame P version stream 0x000A ''Frame too large'' (conn_compression c))
         else if length rest < len then Broken
         else
           (let body = take len rest; rest = drop len rest in
            if flags AND 0x01 \<noteq> 0 then
              (case conn_compression c of
                 Some alg \<Rightarrow>
                   (case fr_decompress P body alg of
                      Ok decompressed \<Rightarrow> Request stream opcode_raw decompressed rest
                    | _ \<Rightarrow> Broken)
               | None \<Rightarrow>
                   Reject stream
                     (error_frame P version stream 0x000A ''Received compressed frame without negotiated compression'' None) rest)
            else Request stream opcode_raw body rest)))"

definition uring_inline_request :: "frame_libs \<Rightarrow> byte \<Rightarrow> bytes \<Rightarrow> bool" where
  "uring_inline_request P opcode_raw body \<longleftrightarrow>
     (opcode_raw \<noteq> fr_request_opcode P ReqQuery \<and> opcode_raw \<noteq> fr_request_opcode P ReqExecute) \<or> uring_is_session_use body"

section \<open>Responses\<close>

definition uring_respond ::
  "frame_libs \<Rightarrow> byte \<Rightarrow> i16 \<Rightarrow> compression option \<Rightarrow> response qres \<Rightarrow> bool \<Rightarrow> bytes qres" where
  "uring_respond P version stream compression r skip_metadata =
     rbind r (\<lambda>resp. case resp of
        RRows keyspace table cols rows paging_state \<Rightarrow>
          result_rows P version stream keyspace table cols rows skip_metadata paging_state compression
      | RVoid \<Rightarrow> result_void P version stream compression
      | RSetKeyspace ks \<Rightarrow> result_set_keyspace P version stream ks compression
      | RSchemaChange change target keyspace table \<Rightarrow>
          result_schema_change P version stream change target keyspace table compression)"

section \<open>Requests\<close>

definition uring_settle_then ::
  "(response \<times> ticket list) qres \<Rightarrow> (response \<Rightarrow> conn_shared \<Rightarrow> conn_shared \<times> bytes qres) \<Rightarrow> reply qres" where
  "uring_settle_then result k = rbind result (\<lambda>(resp, gates). Ok (Settle gates (k resp)))"

definition uring_handle_startup :: "frame_libs \<Rightarrow> bytes \<Rightarrow> i16 \<Rightarrow> conn_shared \<Rightarrow> conn_shared \<times> bytes qres" where
  "uring_handle_startup P body stream c =
     (case fr_startup P body of
        None \<Rightarrow> (c, Err (protocol_err ''Malformed STARTUP message''))
      | Some options \<Rightarrow>
          (case map_option to_lowercase (options ''COMPRESSION'') of
             None \<Rightarrow> (c, ready P 0x04 stream (conn_compression c))
           | Some alg \<Rightarrow>
               if alg = ''lz4'' then
                 (let c = c\<lparr>cn_compression := 1\<rparr> in (c, ready P 0x04 stream (conn_compression c)))
               else if alg = ''snappy'' then
                 (let c = c\<lparr>cn_compression := 2\<rparr> in (c, ready P 0x04 stream (conn_compression c)))
               else (c, Err (protocol_err (''Unsupported compression algorithm: '' @ alg)))))"

definition uring_handle_query ::
  "'db libs \<Rightarrow> frame_libs \<Rightarrow> bytes \<Rightarrow> i16 \<Rightarrow> 'db session \<Rightarrow> ('db, reply) sact" where
  "uring_handle_query L P body stream sess =
     (case sess of (s, c) \<Rightarrow>
      let compression = conn_compression c in
      (case fr_query P body of
         None \<Rightarrow> ((s, c), Err (protocol_err ''Malformed QUERY message''))
       | Some (query_text, params) \<Rightarrow>
           (case execute_with_values_paged L (cn_keyspace c) query_text (qp_values params) (qp_page_size params)
                   (qp_paging_state params) s of
              (s, result) \<Rightarrow>
                ((s, c), uring_settle_then result (\<lambda>resp c.
                   (case resp of RSetKeyspace name \<Rightarrow> set_keyspace name c | _ \<Rightarrow> c,
                    or_error_frame P 0x04 stream compression
                      (uring_respond P 0x04 stream compression (Ok resp) (qp_skip_metadata params))))))))"

definition uring_handle_prepare ::
  "'db libs \<Rightarrow> frame_libs \<Rightarrow> bytes \<Rightarrow> i16 \<Rightarrow> 'db session \<Rightarrow> ('db, bytes) sact" where
  "uring_handle_prepare L P body stream sess =
     (case sess of (s, c) \<Rightarrow>
      let compression = conn_compression c in
      (case fr_read_long_string P body of
         None \<Rightarrow> ((s, c), Err (protocol_err ''Malformed PREPARE message''))
       | Some query_text \<Rightarrow>
           and_then (in_session c (with_err (\<lambda>e. e\<lparr>qe_code := 0x2000\<rparr>) (parse_cached L query_text s))) (\<lambda>(s, c) stmt.
           and_then (in_session c (prepared_info L (cn_keyspace c) stmt s)) (\<lambda>(s, c) info.
             let pid = to_be_bytes (cn_next_prepared_id c);
                 c = c\<lparr>cn_next_prepared_id := cn_next_prepared_id c + 1,
                       cn_prepared := (cn_prepared c)
                         (pid \<mapsto> \<lparr>ps_stmt = stmt, ps_bind_types = map snd (pi_bind_specs info)\<rparr>)\<rparr>
             in ((s, c), result_prepared P 0x04 stream pid (pi_keyspace info) (pi_table info) (pi_bind_specs info)
                           (pi_pk_indexes info) (pi_result_cols info) compression)))))"

definition uring_handle_execute ::
  "'db libs \<Rightarrow> frame_libs \<Rightarrow> bytes \<Rightarrow> i16 \<Rightarrow> 'db session \<Rightarrow> ('db, reply) sact" where
  "uring_handle_execute L P body stream sess =
     (case sess of (s, c) \<Rightarrow>
      let compression = conn_compression c in
      (case fr_read_short_bytes P body of
         None \<Rightarrow> ((s, c), Err (protocol_err ''Malformed EXECUTE message''))
       | Some (pid, buf) \<Rightarrow>
           (case cn_prepared c pid of
              None \<Rightarrow> ((s, c), Err (invalid_err ''Prepared statement not found (unprepared)''))
            | Some prepared \<Rightarrow>
                (case fr_params P buf of
                   None \<Rightarrow> ((s, c), Err (protocol_err ''Malformed EXECUTE parameters''))
                 | Some params \<Rightarrow>
                     if length (qp_values params) \<noteq> length (ps_bind_types prepared)
                     then ((s, c), Err (invalid_err ''Invalid amount of bind variables''))
                     else
                       (case execute_prepared_paged L (cn_keyspace c) (ps_stmt prepared) (qp_values params)
                               (qp_page_size params) (qp_paging_state params) s of
                          (s, result) \<Rightarrow>
                            ((s, c), uring_settle_then result (\<lambda>resp c.
                               (c, or_error_frame P 0x04 stream compression
                                     (uring_respond P 0x04 stream compression (Ok resp) (qp_skip_metadata params))))))))))"

definition uring_begin_request ::
  "'db libs \<Rightarrow> frame_libs \<Rightarrow> byte \<Rightarrow> bytes \<Rightarrow> i16 \<Rightarrow> 'db session \<Rightarrow> ('db, reply) sact" where
  "uring_begin_request L P opcode body stream sess =
     (let compression = conn_compression (snd sess) in
      case fr_opcode_try_from P opcode of
        None \<Rightarrow> (sess, Err (protocol_err ''Unknown opcode''))
      | Some opc \<Rightarrow>
          (case opc of
             ReqOptions \<Rightarrow> replying (sess, supported P 0x04 stream compression)
           | ReqStartup \<Rightarrow>
               (case uring_handle_startup P body stream (snd sess) of (c, r) \<Rightarrow> replying ((fst sess, c), r))
           | ReqRegister \<Rightarrow> replying (sess, ready P 0x04 stream compression)
           | ReqQuery \<Rightarrow> uring_handle_query L P body stream sess
           | ReqPrepare \<Rightarrow> replying (uring_handle_prepare L P body stream sess)
           | ReqExecute \<Rightarrow> uring_handle_execute L P body stream sess
           | ReqBatch \<Rightarrow> (sess, Err (invalid_err ''Batches are not supported yet''))
           | ReqAuthResponse \<Rightarrow> (sess, Err (protocol_err ''Authentication is not enabled''))))"

section \<open>Agreement\<close>

lemma uring_parts: "uring_respond = respond" "uring_settle_then = settle_then"
  by (simp_all only: fun_eq_iff uring_respond_def respond_def uring_settle_then_def settle_then_def simp_thms)

lemma uring_handlers:
  "uring_handle_startup = handle_startup" "uring_handle_query = handle_query" "uring_handle_prepare = handle_prepare"
  "uring_handle_execute = handle_execute"
  by (simp_all only: fun_eq_iff uring_parts uring_handle_startup_def handle_startup_def uring_handle_query_def handle_query_def
      uring_handle_prepare_def handle_prepare_def uring_handle_execute_def handle_execute_def simp_thms)

lemma uring_agrees: "uring_next_frame = next_frame" "uring_inline_request = inline_request" "uring_begin_request = begin_request"
  by (simp_all only: fun_eq_iff uring_next_frame_def next_frame_def uring_inline_request_def inline_request_def uring_is_session_use_def
      is_session_use_def uring_begin_request_def begin_request_def uring_handlers simp_thms)

text \<open>
  The two servers answer alike: they find the same frames in the bytes a client sends, serve the same
  requests in line, and a request has the same effect on the storage and on the connection and the same
  response, errors and panics included.
\<close>

theorem servers_answer_alike:
  "uring_next_frame P c input = next_frame P c input \<and>
   uring_inline_request P opcode body = inline_request P opcode body \<and>
   uring_begin_request L P opcode body stream sess = begin_request L P opcode body stream sess"
  by (simp add: uring_agrees)

end
