(* ===== verification/UringConnection.thy ===== *)
theory UringConnection
  imports Uring Connection
begin

text \<open>
  A connection of the io_uring server (\<^verbatim>\<open>handle_connection\<close> of \<^verbatim>\<open>src/src/server_monoio.rs\<close>), as a state machine over
  the state that \<^verbatim>\<open>Connection\<close> has for the other server. It differs in its writer, which writes one response after
  the other and stops in the middle of a batch when the peer is gone, and in what a panic may do: the
  runtime of the core either drops the task or goes down with all its connections.
\<close>

section \<open>Tasks\<close>

fun uring_run_task :: "'db libs \<Rightarrow> frame_libs \<Rightarrow> task \<Rightarrow> 'db session \<Rightarrow> 'db session \<times> task option" where
  "uring_run_task L P (Fresh stream opcode body) sess =
     (case uring_begin_request L P opcode body stream sess of
        (sess, Ok (Reply b)) \<Rightarrow> (sess, Some (Sending stream b))
      | (sess, Ok (Settle gates k)) \<Rightarrow> (sess, Some (Waiting stream gates k))
      | (sess, Err e) \<Rightarrow> (sess, sending stream (error_frame P 0x04 stream (qe_code e) (qe_message e) (conn_compression (snd sess))))
      | (sess, Halt h) \<Rightarrow> (sess, sending stream (Halt h)))"
| "uring_run_task L P (Waiting stream gates k) (s, c) =
     (case k c of
        (c, Err e) \<Rightarrow> ((s, c), sending stream (error_frame P 0x04 stream (qe_code e) (qe_message e) (conn_compression c)))
      | (c, r) \<Rightarrow> ((s, c), sending stream r))"
| "uring_run_task L P (Sending stream b) sess = (sess, Some (Sending stream b))"
| "uring_run_task L P (Hung stream) sess = (sess, Some (Hung stream))"


section \<open>Steps\<close>

text \<open>The writer fails at response \<open>n\<close> of its batch, of which \<open>m\<close> bytes have been taken; it ends, and what it had is lost.\<close>

definition fail_write :: "nat \<Rightarrow> nat \<Rightarrow> bytes list \<Rightarrow> bytes list \<Rightarrow> 'db connection \<Rightarrow> 'db connection" where
  "fail_write n m batch rest x =
     x\<lparr>cx_channel := [], cx_writer_gone := True, cx_handed := cx_handed x @ take n batch,
       cx_out := cx_out x @ deliver_all (take n batch) @ take m (batch ! n),
       cx_lost := cx_lost x @ map frame_stream (drop n batch @ rest)\<rparr>"

text \<open>The thread of the core ends: all that is being served on the connection is lost.\<close>

definition abort :: "'db session \<Rightarrow> 'db connection \<Rightarrow> 'db connection" where
  "abort sess x =
     x\<lparr>cx_session := sess, cx_reader := Closed, cx_tasks := [], cx_channel := [], cx_writer_gone := True,
       cx_lost := cx_lost x @ map task_stream (reader_tasks (cx_reader x) @ cx_tasks x) @ map frame_stream (cx_channel x)\<rparr>"

inductive uring_step :: "'db libs \<Rightarrow> frame_libs \<Rightarrow> 'db connection \<Rightarrow> 'db connection \<Rightarrow> bool" for L P where
  uring_end:
    "cx_reader x = Reading \<Longrightarrow> uring_next_frame P (snd (cx_session x)) (cx_input x) \<in> {Eof, Broken} \<Longrightarrow>
       uring_step L P x (x\<lparr>cx_reader := Closed\<rparr>)"
| uring_refuse:
    "cx_reader x = Reading \<Longrightarrow> uring_next_frame P (snd (cx_session x)) (cx_input x) = Refuse stream r \<Longrightarrow>
       uring_step L P x (take_up stream (sending stream r) True (log_read stream (cx_input x) x))"
| uring_reject:
    "cx_reader x = Reading \<Longrightarrow> uring_next_frame P (snd (cx_session x)) (cx_input x) = Reject stream r rest \<Longrightarrow>
       uring_step L P x (take_up stream (sending stream r) False (log_read stream rest x))"
| uring_inline:
    "cx_reader x = Reading \<Longrightarrow> uring_next_frame P (snd (cx_session x)) (cx_input x) = Request stream opcode body rest \<Longrightarrow>
       uring_inline_request P opcode body \<Longrightarrow>
       uring_step L P x (take_up stream (Some (Fresh stream opcode body)) False (log_read stream rest x))"
| uring_spawn:
    "cx_reader x = Reading \<Longrightarrow> uring_next_frame P (snd (cx_session x)) (cx_input x) = Request stream opcode body rest \<Longrightarrow>
       \<not> uring_inline_request P opcode body \<Longrightarrow> length (cx_tasks x) < PER_CONN_INFLIGHT \<Longrightarrow>
       uring_step L P x ((log_read stream rest x)\<lparr>cx_tasks := cx_tasks x @ [Fresh stream opcode body]\<rparr>)"
| uring_reader_run:
    "cx_reader x = Busy t closing \<Longrightarrow> runnable (fst (cx_session x)) t \<Longrightarrow> uring_run_task L P t (cx_session x) = (sess, t') \<Longrightarrow>
       uring_step L P x (take_up (task_stream t) t' closing (x\<lparr>cx_session := sess\<rparr>))"
| uring_reader_send:
    "cx_reader x = Busy (Sending stream b) closing \<Longrightarrow> can_send x \<Longrightarrow>
       uring_step L P x ((send_response stream b x)\<lparr>cx_reader := (if closing then Closed else Reading)\<rparr>)"
| uring_task_run:
    "i < length (cx_tasks x) \<Longrightarrow> runnable (fst (cx_session x)) (cx_tasks x ! i) \<Longrightarrow>
       uring_run_task L P (cx_tasks x ! i) (cx_session x) = (sess, Some t') \<Longrightarrow>
       uring_step L P x (x\<lparr>cx_session := sess, cx_tasks := (cx_tasks x)[i := t']\<rparr>)"
| uring_task_panic:
    "i < length (cx_tasks x) \<Longrightarrow> runnable (fst (cx_session x)) (cx_tasks x ! i) \<Longrightarrow>
       uring_run_task L P (cx_tasks x ! i) (cx_session x) = (sess, None) \<Longrightarrow>
       uring_step L P x
         (x\<lparr>cx_session := sess, cx_tasks := drop_task i (cx_tasks x), cx_lost := cx_lost x @ [task_stream (cx_tasks x ! i)]\<rparr>)"
| uring_task_send:
    "i < length (cx_tasks x) \<Longrightarrow> cx_tasks x ! i = Sending stream b \<Longrightarrow> can_send x \<Longrightarrow>
       uring_step L P x ((send_response stream b x)\<lparr>cx_tasks := drop_task i (cx_tasks x)\<rparr>)"
| uring_flush:
    "cx_channel x = r # rs \<Longrightarrow> coalesce (length r) rs = (pending, rest) \<Longrightarrow>
       uring_step L P x
         (x\<lparr>cx_channel := rest, cx_handed := cx_handed x @ r # pending, cx_out := cx_out x @ deliver_all (r # pending)\<rparr>)"
| uring_flush_fails:
    "cx_channel x = r # rs \<Longrightarrow> coalesce (length r) rs = (pending, rest) \<Longrightarrow> n \<le> length pending \<Longrightarrow> m < length ((r # pending) ! n) \<Longrightarrow>
       uring_step L P x (fail_write n m (r # pending) rest x)"
| uring_core_down:
    "t \<in> set (reader_tasks (cx_reader x) @ cx_tasks x) \<Longrightarrow> runnable (fst (cx_session x)) t \<Longrightarrow>
       uring_run_task L P t (cx_session x) = (sess, None) \<Longrightarrow> uring_step L P x (abort sess x)"

inductive_cases uring_stepE: "uring_step L P x y"


section \<open>The invariant\<close>



















end
