(* ===== verification/Health.thy ===== *)
theory Health
  imports RustStd
begin

text \<open>
  The HTTP endpoint for probes (\<^verbatim>\<open>src/src/health.rs\<close>): the answer to the bytes of a request. The text of a
  request is read byte by byte: the lossy UTF-8 conversion of the code changes only bytes outside ASCII,
  which neither end a line nor match any path.
\<close>

definition crlf :: string where "crlf = [CHR 0x0D, CHR 0x0A]"

definition newline :: string where "newline = [CHR 0x0A]"

text \<open>The first line; a carriage return is dropped with its line feed only.\<close>

definition first_line :: "string \<Rightarrow> string" where
  "first_line req =
     (let line = takeWhile (\<lambda>c. c \<noteq> CHR 0x0A) req in
      if length line < length req \<and> line \<noteq> [] \<and> last line = CHR 0x0D then butlast line else line)"

definition route :: "nat \<Rightarrow> string \<Rightarrow> nat \<times> string \<times> string" where
  \<open>route uptime line =
     (if prefix ''GET /health'' line \<or> prefix ''GET /ready'' line
      then (200, ''{"status":"ok","uptime_sec":'' @ show_nat uptime @ ''}'', ''application/json'')
      else if prefix ''GET /metrics'' line
      then (200,
        ''# HELP rhydadb_up Whether the server is up'' @ newline @ ''# TYPE rhydadb_up gauge'' @ newline @ ''rhydadb_up 1'' @ newline @
        ''# HELP rhydadb_uptime_seconds Uptime'' @ newline @ ''# TYPE rhydadb_uptime_seconds counter'' @ newline @
        ''rhydadb_uptime_seconds '' @ show_nat uptime @ newline,
        ''text/plain; version=0.0.4'')
      else if prefix ''GET /'' line then (404, ''{"status":"not_found"}'', ''application/json'')
      else (400, ''{"status":"bad_request"}'', ''application/json''))\<close>

definition health_response :: "nat \<Rightarrow> string \<Rightarrow> string" where
  "health_response uptime req =
     (case route uptime (first_line req) of
        (status, body, ctype) \<Rightarrow>
          ''HTTP/1.1 '' @ show_nat status @ '' '' @
          (if status = 200 then ''OK'' else if status = 404 then ''Not Found'' else ''Bad Request'') @ crlf @
          ''Content-Type: '' @ ctype @ crlf @ ''Content-Length: '' @ show_nat (length body) @ crlf @
          ''Connection: close'' @ crlf @ crlf @ body)"

text \<open>
  The endpoint over the outcomes of \<^verbatim>\<open>bind\<close> and of \<^verbatim>\<open>accept\<close>: a connection comes with the uptime at that moment and the
  outcome of its one read, of at most 4096 bytes. One that cannot be read from is dropped (\<open>None\<close>); an
  error of \<^verbatim>\<open>accept\<close> is passed over.
\<close>

definition health_conn :: "nat \<Rightarrow> string anyhow \<Rightarrow> string option" where
  "health_conn uptime sent = (case sent of Ok req \<Rightarrow> Some (health_response uptime (take 4096 req)) | _ \<Rightarrow> None)"

fun health_loop :: "(nat \<times> string anyhow) anyhow list \<Rightarrow> string option list" where
  "health_loop [] = []"
| "health_loop (Ok (uptime, sent) # accepts) = health_conn uptime sent # health_loop accepts"
| "health_loop (_ # accepts) = health_loop accepts"

definition health_run :: "unit anyhow \<Rightarrow> (nat \<times> string anyhow) anyhow list \<Rightarrow> string option list" where
  "health_run bind accepts = (case bind of Ok _ \<Rightarrow> health_loop accepts | _ \<Rightarrow> [])"

text \<open>
  The answer is a well-formed HTTP response: its header ends at the first empty line, and what follows is
  as long as the header says.
\<close>

fun split_header :: "string \<Rightarrow> string \<times> string" where
  "split_header [] = ([], [])"
| "split_header (c # cs) =
     (if prefix (crlf @ crlf) (c # cs) then ([], drop 4 (c # cs)) else (case split_header cs of (h, b) \<Rightarrow> (c # h, b)))"

lemma split_header_plain:
  "CHR 0x0D \<notin> set l \<Longrightarrow> split_header (l @ r) = (case split_header r of (h, b) \<Rightarrow> (l @ h, b))"
  by (induction l) (auto simp: crlf_def split: prod.split)

lemma split_header_crlf:
  "\<not> prefix crlf r \<Longrightarrow> split_header (crlf @ r) = (case split_header r of (h, b) \<Rightarrow> (crlf @ h, b))"
  by (auto simp: crlf_def split: prod.split)

lemma split_header_end: "split_header (crlf @ crlf @ b) = ([], b)"
  by (simp add: crlf_def)

lemma show_nat_no_cr: "CHR 0x0D \<notin> set (show_nat n)"
proof (induction n rule: show_nat.induct)
  case (1 n)
  have "digit_char d \<noteq> CHR 0x0D" if "d < 10" for d
  proof
    assume "digit_char d = CHR 0x0D"
    then have "(of_char (digit_char d) :: nat) = 13" by simp
    with that show False by simp
  qed
  from this [of n] this [of "n mod 10"] 1 show ?case by (subst show_nat.simps) auto
qed

lemma header_line:
  "CHR 0x0D \<notin> set l \<Longrightarrow> \<not> prefix crlf r \<Longrightarrow> split_header r = (h, b) \<Longrightarrow> split_header (l @ crlf @ r) = (l @ crlf @ h, b)"
  by (simp add: split_header_plain split_header_crlf)

lemma health_response_wellformed:
  assumes "route uptime (first_line req) = (status, body, ctype)"
  shows "\<exists>h. split_header (health_response uptime req)
    = (h @ ''Content-Length: '' @ show_nat (length body) @ crlf @ ''Connection: close'', body)"
proof -
  define reason where "reason = (if status = 200 then ''OK'' else if status = 404 then ''Not Found'' else ''Bad Request'')"
  define line ct len cl where "line = ''HTTP/1.1 '' @ show_nat status @ '' '' @ reason" and "ct = ''Content-Type: '' @ ctype"
    and "len = ''Content-Length: '' @ show_nat (length body)" and "cl = ''Connection: close''"
  note defs = line_def ct_def len_def cl_def
  have cr: "CHR 0x0D \<notin> set line" "CHR 0x0D \<notin> set ct" "CHR 0x0D \<notin> set len" "CHR 0x0D \<notin> set cl"
    using assms show_nat_no_cr by (auto simp: defs reason_def route_def split: if_splits)
  have begins: "\<not> prefix crlf (cl @ r)" "\<not> prefix crlf (len @ r)" "\<not> prefix crlf (ct @ r)" for r
    by (simp_all add: crlf_def defs)
  have "split_header (cl @ crlf @ crlf @ body) = (cl, body)"
    by (simp add: split_header_plain [OF cr(4)] split_header_end)
  then have "split_header (line @ crlf @ ct @ crlf @ len @ crlf @ cl @ crlf @ crlf @ body) = (line @ crlf @ ct @ crlf @ len @ crlf @ cl, body)"
    by (intro header_line cr begins)
  moreover have "health_response uptime req = line @ crlf @ ct @ crlf @ len @ crlf @ cl @ crlf @ crlf @ body"
    using assms by (simp add: health_response_def reason_def defs)
  ultimately show ?thesis by (intro exI [of _ "line @ crlf @ ct @ crlf"]) (simp add: defs)
qed

text \<open>A probe that sends a request is answered by it alone, whatever other connections and accepts did before.\<close>

lemma health_answers:
  "health_run (Ok ()) (before @ Ok (uptime, Ok req) # after)
     = health_run (Ok ()) before @ Some (health_response uptime (take 4096 req)) # health_run (Ok ()) after"
  by (induction before rule: health_loop.induct) (simp_all add: health_run_def health_conn_def)

end
