(* ===== verification/Startup.thy ===== *)
theory Startup
  imports SystemSpec
begin

text \<open>
  The process around the server (\<^verbatim>\<open>src/src/main.rs\<close>, \<^verbatim>\<open>run\<close> of \<^verbatim>\<open>src/src/server.rs\<close>, \<^verbatim>\<open>run_blocking\<close> and
  \<^verbatim>\<open>per_core_listener\<close> of \<^verbatim>\<open>src/src/server_monoio.rs\<close>, \<^verbatim>\<open>Drop for Storage\<close> of \<^verbatim>\<open>src/src/storage.rs\<close>): what the environment selects, in which order things are started and
  which failures end the process, and what is left in the databases when the storage is dropped. The
  result is the life of the data across a shutdown: every accepted write, committed or still queued, is
  there when the process is started again.
\<close>

declare split_paired_All [simp del] split_paired_Ex [simp del]

section \<open>Shutdown\<close>

text \<open>
  Dropping the storage closes the channels of the writers and joins their threads, so the threads run,
  under any schedule, until nothing is pending; then the databases are closed. \<^verbatim>\<open>storage_drop\<close> is the
  schedule of \<^verbatim>\<open>drain\<close>. The thread that flushes the WAL is joined first and changes no contents.
\<close>

definition dropped :: "'db libs \<Rightarrow> 'db storage \<Rightarrow> 'db list \<Rightarrow> bool" where
  "dropped L s dbs \<longleftrightarrow> (\<exists>s'. (storage_step L)\<^sup>*\<^sup>* s s' \<and> storage_quiet s' \<and> dbs = map en_db (st_engines s'))"

definition storage_drop :: "'db libs \<Rightarrow> 'db storage \<Rightarrow> 'db list" where
  "storage_drop L s = map (\<lambda>e. en_db (drain L e)) (st_engines s)"

lemma storage_drop_dropped: "dropped L s (storage_drop L s)"
  using settle_steps [of L s] drain_steps [of L True]
  by (auto simp: dropped_def storage_drop_def settle_def storage_quiet_def list_all_iff intro!: exI [of _ "settle L s"])

section \<open>Starting\<close>

datatype server_kind = Tokio | Monoio

record 'db launch =
  la_server :: server_kind
  la_listen :: string
  la_health :: string
  la_storage :: "'db storage"

definition env_or :: "(string \<Rightarrow> string option) \<Rightarrow> string \<Rightarrow> string \<Rightarrow> string" where
  "env_or env name dflt = (case env name of Some v \<Rightarrow> v | None \<Rightarrow> dflt)"

definition data_dir :: "(string \<Rightarrow> string option) \<Rightarrow> string" where
  "data_dir env = env_or env ''RHYDADB_DATA'' ''data''"

definition listen_addr :: "(string \<Rightarrow> string option) \<Rightarrow> string" where
  "listen_addr env = env_or env ''RHYDADB_LISTEN'' ''127.0.0.1:9042''"

definition health_listen :: "(string \<Rightarrow> string option) \<Rightarrow> string" where
  "health_listen env =
     env_or env ''RHYDADB_HEALTH_LISTEN'' (if env ''RHYDADB_URING'' \<noteq> None then ''0.0.0.0:8080'' else ''127.0.0.1:8080'')"

text \<open>
  \<^verbatim>\<open>main\<close> up to the call of the server: the host that \<^verbatim>\<open>Storage::open\<close> finds at a path, whether the build has
  the io_uring server, the outcome of building the tokio runtime and of binding the listener are
  parameters. The io_uring server binds in its own threads.
\<close>

definition main ::
  "'db libs \<Rightarrow> bool \<Rightarrow> (string \<Rightarrow> string option) \<Rightarrow> (string \<Rightarrow> 'db host) \<Rightarrow> unit anyhow \<Rightarrow> (string \<Rightarrow> unit anyhow) \<Rightarrow> 'db launch anyhow" where
  "main L uring env hosts runtime bind =
     (let listen = listen_addr env in
      rbind (storage_open L (hosts (data_dir env))) (\<lambda>s.
        let start = (\<lambda>k. \<lparr>la_server = k, la_listen = listen, la_health = health_listen env, la_storage = s\<rparr>) in
        if env ''RHYDADB_URING'' \<noteq> None \<and> uring then Ok (start Monoio)
        else rbind runtime (\<lambda>_. rbind (bind listen) (\<lambda>_. Ok (start Tokio)))))"

text \<open>
  The accept loop of either server, over the outcomes of \<^verbatim>\<open>accept\<close>: every connection is served by a task of
  its own, and the first error ends the loop. \<open>None\<close> is a loop that goes on to wait.
\<close>

fun server_run :: "'c anyhow list \<Rightarrow> 'c list \<times> unit anyhow option" where
  "server_run [] = ([], None)"
| "server_run (Ok c # accepts) = (case server_run accepts of (cs, r) \<Rightarrow> (c # cs, r))"
| "server_run (Err e # accepts) = ([], Some (Err e))"
| "server_run (Halt h # accepts) = ([], Some (Halt h))"

text \<open>
  A listener of the io_uring server. The socket is a record of the calls; \<open>so_addr\<close> parses the address and
  tells whether it is of version 4.
\<close>

record 'c socket =
  so_addr :: "string \<Rightarrow> bool anyhow"
  so_new :: "bool \<Rightarrow> unit anyhow"
  so_reuse_address :: "unit anyhow"
  so_reuse_port :: "unit anyhow"
  so_nonblocking :: "unit anyhow"
  so_bind :: "unit anyhow"
  so_listen :: "nat \<Rightarrow> unit anyhow"
  so_from_std :: "unit anyhow"
  so_accepts :: "'c anyhow list"

definition per_core_listener :: "'c socket \<Rightarrow> string \<Rightarrow> 'c list \<times> unit anyhow option" where
  "per_core_listener S listen =
     (case rbind (so_addr S listen) (\<lambda>is_ipv4.
           rbind (so_new S is_ipv4) (\<lambda>_.
           rbind (so_reuse_address S) (\<lambda>_.
           rbind (so_reuse_port S) (\<lambda>_.
           rbind (so_nonblocking S) (\<lambda>_.
           rbind (so_bind S) (\<lambda>_.
           rbind (so_listen S 4096) (\<lambda>_. so_from_std S))))))) of
        Ok _ \<Rightarrow> server_run (so_accepts S)
      | Err e \<Rightarrow> ([], Some (Err e))
      | Halt h \<Rightarrow> ([], Some (Halt h)))"

text \<open>
  \<^verbatim>\<open>run_blocking\<close>: one thread per core, each with a listener of its own. A thread that cannot be spawned ends
  the process with an error; the outcome of a listener is logged and otherwise dropped. The value lists
  the connections each thread serves; it is given once all threads have ended.
\<close>

definition uring_threads :: "(string \<Rightarrow> string option) \<Rightarrow> nat option \<Rightarrow> nat" where
  "uring_threads env cpus =
     (case Option.bind (env ''RHYDADB_URING_THREADS'') parse_usize of
        Some n \<Rightarrow> n
      | None \<Rightarrow> (case cpus of Some n \<Rightarrow> n | None \<Rightarrow> 4))"

definition run_blocking ::
  "(string \<Rightarrow> string option) \<Rightarrow> nat option \<Rightarrow> (nat \<Rightarrow> unit anyhow) \<Rightarrow> (nat \<Rightarrow> 'c socket) \<Rightarrow> string \<Rightarrow> 'c list list anyhow" where
  "run_blocking env cpus spawn sockets listen =
     rbind (rmap spawn [0..<uring_threads env cpus]) (\<lambda>handles.
       Ok (map (\<lambda>tid. fst (per_core_listener (sockets tid) listen)) [0..<length handles]))"

lemma main_opened:
  assumes "storage_open L (hosts (data_dir env)) = Ok s" and "runtime = Ok ()" and "bind (listen_addr env) = Ok ()"
  shows "\<exists>l. main L uring env hosts runtime bind = Ok l \<and> la_storage l = s \<and> la_listen l = listen_addr env \<and>
    (la_server l = Monoio \<longleftrightarrow> uring \<and> env ''RHYDADB_URING'' \<noteq> None)"
  using assms by (auto simp: main_def Let_def)

text \<open>
  C16. A shutdown loses nothing, not even what is still queued: when a well-formed storage that has its
  system keyspaces is dropped, with writes accepted and not yet committed and whatever its row cache
  holds, stale rows included, and the process is started again on the same data directory, whatever the
  schedule of the writer threads during the drop, whatever the environment, the number of processors and
  the kind of server by then, it comes up with every keyspace, every table and every row as all accepted
  writes left them, with nothing pending and with a cache that agrees with the rows.
\<close>

theorem shutdown_loses_nothing:
  assumes "storage_wf L absm s" and "\<forall>k\<in>set SYSTEM_KEYSPACES. ks_view L absm s k \<noteq> None"
    and "dropped L s dbs" and "ho_marker (hosts (data_dir env)) = Some (show_nat (ndbs s))"
    and "\<forall>i<ndbs s. ho_open_db (hosts (data_dir env)) i = Ok (dbs ! i)"
    and "runtime = Ok ()" and "bind (listen_addr env) = Ok ()"
  shows "\<exists>l. main L uring env hosts runtime bind = Ok l \<and> row_inv L absm (la_storage l) \<and>
    ks_view L absm (la_storage l) = ks_view L absm s \<and> tb_view L absm (la_storage l) = tb_view L absm s \<and>
    row_view absm (la_storage l) = row_view absm s"
proof -
  from assms(3) obtain s' where s': "(storage_step L)\<^sup>*\<^sup>* s s'" "storage_quiet s'" "dbs = map en_db (st_engines s')"
    by (auto simp: dropped_def)
  note same = storage_steps_ok [OF s'(1) assms(1)]
  then have wf: "storage_wf L absm s'" by simp
  have n: "ndbs s' = ndbs s" using storage_steps_engine [OF s'(1)] by simp
  have "committed_view absm s' r = row_view absm s' r" for r
    by (rule committed_view_quiet [OF quiet_nth [OF s'(2) addr_engine_less [OF storage_wfD(3) [OF wf]]]])
  then have "committed_view absm s' = row_view absm s" using same by auto
  with restart_committed [OF wf, of dbs "hosts (data_dir env)"] assms(2,4,5) same n s'(3) obtain t where
    "storage_open L (hosts (data_dir env)) = Ok t" "row_inv L absm t" "ks_view L absm t = ks_view L absm s"
    "tb_view L absm t = tb_view L absm s" "row_view absm t = row_view absm s" by auto
  with main_opened [of L hosts env t runtime bind uring] assms(6,7) show ?thesis by auto
qed

theorem shutdown_loses_nothing_witness:
  "\<exists>s s1 t l. put_row ''shop'' ''kv'' [[1]] [2] s = (s1, Ok t) \<and> \<not> storage_quiet s1 \<and>
     main mem_libs False Map.empty (\<lambda>_. mem_host (Some (show_nat (ndbs s1))) (\<lambda>i. storage_drop mem_libs s1 ! i)) (Ok ()) (\<lambda>_. Ok ()) = Ok l \<and>
     row_view fmlookup (la_storage l) (''shop'', ''kv'', [[1]]) = Some [2]"
proof -
  from seeded_mem obtain s where s: "row_inv mem_libs fmlookup s" "\<forall>k\<in>set SYSTEM_KEYSPACES. ks_view mem_libs fmlookup s k \<noteq> None" by blast
  then have wf: "storage_wf mem_libs fmlookup s" "coherent fmlookup s" by (simp_all add: row_inv_def)
  have good: "good_row (''shop'', ''kv'', [[1]])" by (simp add: good_row_def plain_name_def short_part_def)
  from put_row_ok [OF wf(1) good, of "[2]"] wf(2) obtain s1 where put: "put_row ''shop'' ''kv'' [[1]] [2] s = (s1, Ok (st_next_ticket s))"
    and s1: "storage_wf mem_libs fmlookup s1" "coherent fmlookup s1" "ks_view mem_libs fmlookup s1 = ks_view mem_libs fmlookup s"
      "row_view fmlookup s1 (''shop'', ''kv'', [[1]]) = Some [2]"
    using good unfolding row_update_def by auto
  let ?i = "addr_engine s (''shop'', ''kv'', [[1]])"
  note shape = queued_shape [OF wf(1) put [unfolded put_row_queued]]
  have "\<not> quiet (st_engines s1 ! ?i)" using shape(4) by (simp add: quiet_def send_op_def)
  moreover have "?i < ndbs s1" using shape(2) addr_engine_less [OF storage_wfD(3) [OF wf(1)]] by simp
  ultimately have "\<not> storage_quiet s1" using quiet_nth by blast
  moreover let ?H = "mem_host (Some (show_nat (ndbs s1))) (\<lambda>i. storage_drop mem_libs s1 ! i)"
  have "ho_marker ?H = Some (show_nat (ndbs s1))" "\<forall>i<ndbs s1. ho_open_db ?H i = Ok (storage_drop mem_libs s1 ! i)"
    by (simp_all add: mem_host_def)
  with shutdown_loses_nothing [OF s1(1) _ storage_drop_dropped, of "\<lambda>_. ?H" Map.empty "Ok ()" "\<lambda>_. Ok ()" False] s(2) s1(3,4)
  obtain l where "main mem_libs False Map.empty (\<lambda>_. ?H) (Ok ()) (\<lambda>_. Ok ()) = Ok l"
    "row_view fmlookup (la_storage l) (''shop'', ''kv'', [[1]]) = Some [2]" by auto
  ultimately show ?thesis using put by blast
qed

text \<open>
  The io_uring server reports success when it serves nobody. If no listener can bind, because the
  address is taken, the process ends with exit code 0 after logging, whatever the number of threads, where
  the tokio server ends with the error. With \<^verbatim>\<open>RHYDADB_URING_THREADS=0\<close> it does so without having tried.
\<close>

theorem uring_bind_failure_is_success:
  assumes "\<And>tid. tid < uring_threads env cpus \<Longrightarrow> spawn tid = Ok ()"
    and "\<And>tid. tid < uring_threads env cpus \<Longrightarrow> so_bind (sockets tid) = Err e \<and> so_addr (sockets tid) listen \<noteq> Panic \<and>
      so_new (sockets tid) = (\<lambda>_. Ok ()) \<and> so_reuse_address (sockets tid) = Ok () \<and> so_reuse_port (sockets tid) = Ok () \<and> so_nonblocking (sockets tid) = Ok ()"
    and "storage_open L (hosts (data_dir env)) = Ok s" and "bind (listen_addr env) = Err e" and "env ''RHYDADB_URING'' \<noteq> None"
  shows "run_blocking env cpus spawn sockets listen = Ok (replicate (uring_threads env cpus) []) \<and>
    main L False env hosts (Ok ()) bind = Err e"
proof
  let ?n = "uring_threads env cpus"
  have "fst (per_core_listener (sockets tid) listen) = []" if "tid < ?n" for tid
    using assms(2) [OF that] by (cases "so_addr (sockets tid) listen") (auto simp: per_core_listener_def)
  moreover have "rmap spawn [0..<?n] = Ok (replicate ?n ())" using assms(1) by (intro open_dbs) simp_all
  ultimately show "run_blocking env cpus spawn sockets listen = Ok (replicate ?n [])"
    by (simp add: run_blocking_def) (rule nth_equalityI, simp_all)
  show "main L False env hosts (Ok ()) bind = Err e" using assms(3,4) by (simp add: main_def Let_def)
qed

end
