(* ===== verification/Durability.thy ===== *)
theory Durability
  imports Effects Startup
begin

text \<open>
  What survives a crash (\<^verbatim>\<open>src/src/storage.rs\<close>: the write options of the committer and of \<^verbatim>\<open>meta_write_opts\<close>, the options
  of the databases, the thread that flushes the write-ahead log). Every write to a database goes into the
  history of its engine with the options it was made with; a crash leaves of every engine a prefix of its history that
  holds every synchronous write, which is what RocksDB documents (\<open>recovers\<close>). In the durable mode a crash at any
  moment loses nothing that was committed, and so nothing that was acknowledged. In the default mode nothing is promised,
  for metadata as little as for rows.
\<close>

declare split_paired_All [simp del] split_paired_Ex [simp del]

section \<open>Options\<close>

record write_opts =
  wo_sync :: bool
  wo_disable_wal :: bool

definition default_write_opts :: write_opts where
  "default_write_opts = \<lparr>wo_sync = False, wo_disable_wal = False\<rparr>"

definition committer_opts :: "bool \<Rightarrow> write_opts" where
  "committer_opts write_sync =
     (if write_sync then default_write_opts\<lparr>wo_sync := True\<rparr> else default_write_opts\<lparr>wo_disable_wal := True\<rparr>)"

definition meta_write_opts :: "'db storage \<Rightarrow> write_opts" where
  "meta_write_opts s =
     (if st_write_sync s then default_write_opts\<lparr>wo_sync := True\<rparr> else default_write_opts\<lparr>wo_disable_wal := True\<rparr>)"

text \<open>The databases of all engines are opened with the same options; a bloom filter has its bits per key and whether it is block based.\<close>

record db_options =
  do_create_if_missing :: bool
  do_compression_lz4 :: bool
  do_parallelism :: i32
  do_max_background_jobs :: i32
  do_compaction_budget :: nat
  do_write_buffer_size :: nat
  do_max_write_buffer_number :: nat
  do_min_write_buffer_number_to_merge :: nat
  do_allow_concurrent_memtable_write :: bool
  do_write_thread_adaptive_yield :: bool
  do_enable_pipelined_write :: bool
  do_block_cache :: nat
  do_block_size :: nat
  do_bloom_filter :: "(nat \<times> bool) option"
  do_cache_index_and_filter_blocks :: bool
  do_pin_l0_filter_and_index_blocks :: bool
  do_manual_wal_flush :: bool

definition host_cpus :: "'db host \<Rightarrow> nat" where
  "host_cpus H = (case ho_cpus H of Some n \<Rightarrow> n | None \<Rightarrow> 4)"

definition cache_mb :: "'db host \<Rightarrow> nat" where
  "cache_mb H = env_num (ho_env H) ''RHYDADB_CACHE_MB'' 1024 8 (2 ^ 20)"

definition memtable_mb :: "'db host \<Rightarrow> nat" where
  "memtable_mb H = env_num (ho_env H) ''RHYDADB_MEMTABLE_MB'' 128 8 4096"

definition manual_wal :: "'db host \<Rightarrow> bool" where
  "manual_wal H \<longleftrightarrow> ho_env H ''RHYDADB_MANUAL_WAL'' \<noteq> None \<and> \<not> ho_env H ''RHYDADB_SYNC'' \<noteq> None"

definition open_options :: "'db host \<Rightarrow> nat \<Rightarrow> db_options" where
  "open_options H shards =
     \<lparr>do_create_if_missing = True,
      do_compression_lz4 = True,
      do_parallelism = word_of_nat (host_cpus H),
      do_max_background_jobs = word_of_nat (clamp 2 8 (host_cpus H div max shards 1)),
      do_compaction_budget = memtable_mb H * 1024 * 1024 * 2,
      do_write_buffer_size = memtable_mb H * 1024 * 1024,
      do_max_write_buffer_number = 6,
      do_min_write_buffer_number_to_merge = 2,
      do_allow_concurrent_memtable_write = True,
      do_write_thread_adaptive_yield = True,
      do_enable_pipelined_write = True,
      do_block_cache = cache_mb H * 1024 * 1024,
      do_block_size = 16 * 1024,
      do_bloom_filter = Some (10, True),
      do_cache_index_and_filter_blocks = True,
      do_pin_l0_filter_and_index_blocks = True,
      do_manual_wal_flush = manual_wal H\<rparr>"

lemma env_num_bounds: "lo \<le> hi \<Longrightarrow> lo \<le> env_num env name dflt lo hi \<and> env_num env name dflt lo hi \<le> hi"
  by (simp add: env_num_def clamp_def)

text \<open>No size of the options overflows a \<^verbatim>\<open>usize\<close>, and every engine gets between two and eight background jobs.\<close>

lemma open_options_in_range:
  "do_compaction_budget (open_options H n) < 2 ^ 64" "do_write_buffer_size (open_options H n) < 2 ^ 64"
  "do_block_cache (open_options H n) < 2 ^ 64"
  "2 \<le> sint (do_max_background_jobs (open_options H n)) \<and> sint (do_max_background_jobs (open_options H n)) \<le> 8"
proof -
  have "memtable_mb H \<le> 4096" "cache_mb H \<le> 2 ^ 20"
    using env_num_bounds [of 8 4096] env_num_bounds [of 8 "2 ^ 20"] by (simp_all add: memtable_mb_def cache_mb_def)
  then show "do_compaction_budget (open_options H n) < 2 ^ 64" "do_write_buffer_size (open_options H n) < 2 ^ 64"
    "do_block_cache (open_options H n) < 2 ^ 64" by (simp_all add: open_options_def)
  let ?j = "clamp 2 8 (host_cpus H div max n 1)"
  have j: "2 \<le> ?j" "?j \<le> 8" by (simp_all add: clamp_def)
  then have "sint (word_of_nat ?j :: i32) = int ?j"
    by (simp add: signed_of_nat signed_take_bit_int_eq_self)
  with j show "2 \<le> sint (do_max_background_jobs (open_options H n)) \<and> sint (do_max_background_jobs (open_options H n)) \<le> 8"
    by (simp add: open_options_def)
qed

section \<open>Histories of writes\<close>

type_synonym history = "(write_opts \<times> wb_op list) list"

definition history_ops :: "history \<Rightarrow> wb_op list" where
  "history_ops h = concat (map snd h)"

text \<open>What the step of a thread writes to the database: the batch at the head of the commit channel, if it was taken and the write succeeded.\<close>

definition step_writes :: "'db libs \<Rightarrow> bool \<Rightarrow> 'db engine \<Rightarrow> 'db engine \<Rightarrow> history" where
  "step_writes L sync e e' =
     (if length (en_commits e') < length (en_commits e)
      then (case rk_write L (en_db e) (fst (hd (en_commits e))) of
              Ok _ \<Rightarrow> [(committer_opts sync, fst (hd (en_commits e)))]
            | _ \<Rightarrow> [])
      else [])"

text \<open>
  The life of a storage with the histories of its engines: the threads and the primitive steps of which
  the requests consist.
\<close>

inductive logged :: "'db libs \<Rightarrow> 'db storage \<Rightarrow> (nat \<Rightarrow> history) \<Rightarrow> 'db storage \<Rightarrow> bool" for L s0 where
  lg_start: "logged L s0 (\<lambda>_. []) s0"
| lg_cached:
    "logged L s0 h s \<Longrightarrow> st_engines s' = st_engines s \<Longrightarrow> st_write_sync s' = st_write_sync s \<Longrightarrow> logged L s0 h s'"
| lg_sent: "logged L s0 h s \<Longrightarrow> i < ndbs s \<Longrightarrow> logged L s0 h (sent i op s)"
| lg_written:
    "logged L s0 h s \<Longrightarrow> i < ndbs s \<Longrightarrow> db_write L (en_db (st_engines s ! i)) ops db \<Longrightarrow>
       logged L s0 (h(i := h i @ [(meta_write_opts s, ops)])) (written i db s)"
| lg_thread:
    "logged L s0 h s \<Longrightarrow> i < ndbs s \<Longrightarrow> engine_step L (st_write_sync s) (st_engines s ! i) e' \<Longrightarrow>
       logged L s0 (h(i := h i @ step_writes L (st_write_sync s) (st_engines s ! i) e')) (upd_engine i (\<lambda>_. e') s)"

lemma logged_trans: "logged L t h' u \<Longrightarrow> logged L s h t \<Longrightarrow> logged L s (\<lambda>i. h i @ h' i) u"
proof (induction rule: logged.induct)
  case (lg_written h' u i ops db)
  then have "logged L s ((\<lambda>i. h i @ h' i)(i := (h i @ h' i) @ [(meta_write_opts u, ops)])) (written i db u)"
    by (intro logged.lg_written) simp_all
  moreover have "(\<lambda>i. h i @ h' i)(i := (h i @ h' i) @ w) = (\<lambda>j. h j @ (h'(i := h' i @ w)) j)" for w by auto
  ultimately show ?case by simp
next
  case (lg_thread h' u i e')
  then have "logged L s ((\<lambda>i. h i @ h' i)(i := (h i @ h' i) @ step_writes L (st_write_sync u) (st_engines u ! i) e')) (upd_engine i (\<lambda>_. e') u)"
    by (intro logged.lg_thread) simp_all
  moreover have "(\<lambda>i. h i @ h' i)(i := (h i @ h' i) @ w) = (\<lambda>j. h j @ (h'(i := h' i @ w)) j)" for w by auto
  ultimately show ?case by simp
qed (auto intro: logged.intros)

text \<open>Every statement, every request and every run of the server has a history.\<close>

interpretation logging: server_effects L "\<lambda>s s'. \<exists>h. logged L s h s'"
proof unfold_locales
  fix s t u :: "'a storage"
  assume "\<exists>h. logged L s h t" "\<exists>h. logged L t h u"
  then show "\<exists>h. logged L s h u" using logged_trans by blast
next
  fix query stmt and s :: "'a storage"
  show "\<exists>h. logged L s h (ast_cache_put query stmt s)"
    by (rule exI, rule lg_cached [OF lg_start]) (simp_all add: ast_cache_put_def Let_def)
next
  fix s s' :: "'a storage"
  assume "storage_step L s s'"
  then show "\<exists>h. logged L s h s'"
    by (cases rule: storage_step.cases) (blast intro: logged.intros)
qed (blast intro: logged.intros)+

text \<open>The history accounts for the contents, and all its writes have the options of the mode.\<close>

lemma step_writes_contents:
  assumes "engine_step L sync e e'" and "rocks_ok L absm"
  shows "absm (en_db e') = apply_ops (history_ops (step_writes L sync e e')) (absm (en_db e))"
  using assms(1)
proof (cases rule: engine_step.cases)
  case (commit bd cs)
  from rocks_okD(4) [OF assms(2), of "en_db e" "fst bd"] obtain db' where
    "rk_write L (en_db e) (fst bd) = Ok db'" "absm db' = apply_ops (fst bd) (absm (en_db e))" by blast
  with commit show ?thesis by (simp add: step_writes_def commit_batch_def history_ops_def)
qed (simp_all add: step_writes_def history_ops_def)

lemma step_writes_opts: "list_all (\<lambda>w. fst w = committer_opts sync) (step_writes L sync e e')"
  by (cases "rk_write L (en_db e) (fst (hd (en_commits e)))") (simp_all add: step_writes_def)

lemma mode_opts: "meta_write_opts s = committer_opts (st_write_sync s)"
  by (simp add: meta_write_opts_def committer_opts_def)

lemma history_ops_append [simp]: "history_ops (h @ h') = history_ops h @ history_ops h'"
  by (simp add: history_ops_def)

definition accounts :: "('db \<Rightarrow> kv) \<Rightarrow> 'db storage \<Rightarrow> (nat \<Rightarrow> history) \<Rightarrow> 'db storage \<Rightarrow> bool" where
  "accounts absm s0 h s \<longleftrightarrow>
     ndbs s = ndbs s0 \<and> st_write_sync s = st_write_sync s0 \<and>
     (\<forall>i<ndbs s0. absm (en_db (st_engines s ! i)) = apply_ops (history_ops (h i)) (absm (en_db (st_engines s0 ! i))) \<and>
        list_all (\<lambda>w. fst w = committer_opts (st_write_sync s0)) (h i))"

lemma accounts_upd:
  assumes "accounts absm s0 h s" and "i < ndbs s" and "absm (en_db e') = apply_ops (history_ops w) (absm (en_db (st_engines s ! i)))"
    and "list_all (\<lambda>w. fst w = committer_opts (st_write_sync s0)) w"
  shows "accounts absm s0 (h(i := h i @ w)) (upd_engine i (\<lambda>_. e') s)"
  using assms by (auto simp: accounts_def)

lemma logged_accounts: "logged L s0 h s \<Longrightarrow> rocks_ok L absm \<Longrightarrow> accounts absm s0 h s"
proof (induction rule: logged.induct)
  case (lg_written h s i ops db)
  then have "st_write_sync s = st_write_sync s0" by (simp add: accounts_def)
  with lg_written db_write_apply [of L "en_db (st_engines s ! i)" ops db absm]
    accounts_upd [of absm s0 h s i "(st_engines s ! i)\<lparr>en_db := db\<rparr>" "[(meta_write_opts s, ops)]"]
  show ?case by (simp add: upd_engine_def mode_opts history_ops_def fun_upd_def)
next
  case (lg_thread h s i e')
  then have "st_write_sync s = st_write_sync s0" by (simp add: accounts_def)
  with lg_thread step_writes_contents [OF lg_thread(3)] step_writes_opts [of "st_write_sync s" L "st_engines s ! i" e']
    accounts_upd [of absm s0 h s i e' "step_writes L (st_write_sync s) (st_engines s ! i) e'"]
  show ?case by (simp add: fun_upd_def)
next
  case (lg_sent h s i op)
  then show ?case by (auto simp: accounts_def nth_list_update upd_engine_def send_op_def)
qed (simp_all add: accounts_def history_ops_def)


section \<open>The thread that flushes the log\<close>

text \<open>
  \<^verbatim>\<open>flush_wal(true)\<close> makes durable what was written to the write-ahead log. With \<^verbatim>\<open>RHYDADB_MANUAL_WAL\<close> a thread calls it for every
  database whenever its wait on the control channel times out, until it is told to stop or the channel is closed.
\<close>

datatype wal_event = WalStop | WalTimeout | WalDisconnected

definition flush_wal :: "history \<Rightarrow> history" where
  "flush_wal h = map (\<lambda>(w, ops). (if wo_disable_wal w then w else w\<lparr>wo_sync := True\<rparr>, ops)) h"

fun wal_thread :: "wal_event list \<Rightarrow> history \<Rightarrow> history" where
  "wal_thread [] h = h"
| "wal_thread (WalTimeout # evs) h = wal_thread evs (flush_wal h)"
| "wal_thread (WalStop # evs) h = h"
| "wal_thread (WalDisconnected # evs) h = h"

lemma flush_wal_unlogged: "list_all (\<lambda>w. wo_disable_wal (fst w)) h \<Longrightarrow> flush_wal h = h"
  unfolding flush_wal_def by (rule map_idI) (auto simp: list_all_iff)

lemma wal_thread_unlogged: "list_all (\<lambda>w. wo_disable_wal (fst w)) h \<Longrightarrow> wal_thread evs h = h"
  by (induction evs h rule: wal_thread.induct) (simp_all add: flush_wal_unlogged)

section \<open>Crashes\<close>

definition durable_opts :: "write_opts \<Rightarrow> bool" where
  "durable_opts w \<longleftrightarrow> wo_sync w \<and> \<not> wo_disable_wal w"

text \<open>
  What RocksDB documents about opening a database after a crash, for writes that all use the same options: its
  contents are those after a prefix of the writes since it was opened, and every synchronous write to the write-ahead log is in the prefix.
\<close>

definition recovers :: "('db \<Rightarrow> kv) \<Rightarrow> 'db \<Rightarrow> history \<Rightarrow> 'db \<Rightarrow> bool" where
  "recovers absm db h db' \<longleftrightarrow>
     (\<exists>k\<le>length h. absm db' = apply_ops (history_ops (take k h)) (absm db) \<and>
        (\<forall>i<length h. durable_opts (fst (h ! i)) \<longrightarrow> i < k))"

text \<open>
  The databases \<open>dbs\<close> that may be found after a crash in state \<open>s\<close> of a process that opened its databases on the host \<open>H\<close>.
\<close>

definition crash_leaves :: "'db libs \<Rightarrow> ('db \<Rightarrow> kv) \<Rightarrow> 'db host \<Rightarrow> 'db storage \<Rightarrow> 'db list \<Rightarrow> bool" where
  "crash_leaves L absm H s dbs \<longleftrightarrow>
     (\<exists>n opened h. shard_count H = Ok n \<and> rmap (ho_open_db H) [0..<n] = Ok opened \<and> logged L (open_engines H opened) h s \<and>
        length dbs = n \<and> (\<forall>i<n. recovers absm (opened ! i) (h i) (dbs ! i)))"

lemma recovers_durable:
  assumes "recovers absm db h db'" and "list_all (\<lambda>w. durable_opts (fst w)) h"
  shows "absm db' = apply_ops (history_ops h) (absm db)"
proof -
  from assms(1) obtain k where k: "k \<le> length h" "absm db' = apply_ops (history_ops (take k h)) (absm db)"
    "\<forall>i<length h. durable_opts (fst (h ! i)) \<longrightarrow> i < k" by (auto simp: recovers_def)
  have "k = length h"
  proof (rule ccontr)
    assume "k \<noteq> length h"
    with k(1) have "k < length h" by simp
    with k(3) assms(2) have "k < k" by (auto simp: list_all_length)
    then show False by simp
  qed
  with k(2) show ?thesis by simp
qed

lemma rmap_length: "rmap f xs = Ok ys \<Longrightarrow> length ys = length xs"
  by (induction xs arbitrary: ys) (auto simp: result_simps)

text \<open>In the durable mode a crash leaves exactly what was committed.\<close>

lemma durable_crash_exact:
  assumes "rocks_ok L absm" and "ho_env H ''RHYDADB_SYNC'' \<noteq> None" and "crash_leaves L absm H s dbs"
  shows "length dbs = ndbs s \<and> (\<forall>i<ndbs s. absm (dbs ! i) = absm (en_db (st_engines s ! i)))"
proof -
  from assms(3) obtain n opened h where c: "rmap (ho_open_db H) [0..<n] = Ok opened" "logged L (open_engines H opened) h s"
    "length dbs = n" "\<forall>i<n. recovers absm (opened ! i) (h i) (dbs ! i)" by (auto simp: crash_leaves_def)
  from rmap_length [OF c(1)] have n: "length opened = n" by simp
  from logged_accounts [OF c(2) assms(1)] n have acc: "ndbs s = n"
    "\<And>i. i < n \<Longrightarrow> absm (en_db (st_engines s ! i)) = apply_ops (history_ops (h i)) (absm (opened ! i)) \<and> list_all (\<lambda>w. fst w = committer_opts True) (h i)"
    using assms(2) by (simp_all add: accounts_def open_engines_nth)
  have "absm (dbs ! i) = absm (en_db (st_engines s ! i))" if "i < n" for i
    using recovers_durable [of absm "opened ! i" "h i" "dbs ! i"] acc(2) [OF that] c(4) that
    by (simp add: durable_opts_def committer_opts_def default_write_opts_def list_all_length)
  with acc(1) c(3) show ?thesis by simp
qed


section \<open>Histories of the whole program\<close>

text \<open>
  A crash can strike at any state of a server: the history of the run exists, and what is on disk is at best
  everything that was committed.
\<close>

lemma crash_possible:
  assumes "storage_open L H = Ok s" and "\<exists>h. logged L s h t" and "rocks_ok L absm"
  shows "crash_leaves L absm H t (map en_db (st_engines t))"
proof -
  from assms(1) obtain n opened where o: "shard_count H = Ok n" "rmap (ho_open_db H) [0..<n] = Ok opened"
    "seed_system L H (open_engines H opened) = (s, Ok ())" by (rule storage_openD)
  from logging.seed_system_R [of L "open_engines H opened" H] o(3) have "\<exists>h. logged L (open_engines H opened) h s" by simp
  with assms(2) obtain h where h: "logged L (open_engines H opened) h t" using logging.R_trans by blast
  note acc = logged_accounts [OF h assms(3)]
  have n: "length opened = n" using rmap_length [OF o(2)] by simp
  have "recovers absm (opened ! i) (h i) (map en_db (st_engines t) ! i)" if "i < n" for i
    unfolding recovers_def using acc that n by (intro exI [of _ "length (h i)"]) (simp add: accounts_def open_engines_nth)
  then show ?thesis
    unfolding crash_leaves_def using o(1,2) h acc n by (intro exI [of _ n] exI [of _ opened] exI [of _ h]) (simp add: accounts_def open_engines_nth)
qed

section \<open>Properties\<close>

text \<open>
  C4. In the durable mode (\<^verbatim>\<open>RHYDADB_SYNC\<close>) a crash loses nothing that was committed. Whatever requests and threads have done
  since the databases were opened, and whatever is queued at the moment of the crash, the process that is started
  again on what the crash left comes up with every keyspace and every table, and with every row as the
  committed writes left it, and with nothing pending.
\<close>

theorem durable_crash_keeps_committed:
  assumes "ho_env H ''RHYDADB_SYNC'' \<noteq> None" and "storage_wf L absm s" and "\<forall>k\<in>set SYSTEM_KEYSPACES. ks_view L absm s k \<noteq> None"
    and "crash_leaves L absm H s dbs" and "ho_marker (hosts (data_dir env)) = Some (show_nat (ndbs s))"
    and "\<forall>i<ndbs s. ho_open_db (hosts (data_dir env)) i = Ok (dbs ! i)"
    and "runtime = Ok ()" and "bind (listen_addr env) = Ok ()"
  shows "\<exists>l. main L uring env hosts runtime bind = Ok l \<and> row_inv L absm (la_storage l) \<and>
    ks_view L absm (la_storage l) = ks_view L absm s \<and> tb_view L absm (la_storage l) = tb_view L absm s \<and>
    row_view absm (la_storage l) = committed_view absm s"
proof -
  note exact = durable_crash_exact [OF storage_wfD(1) [OF assms(2)] assms(1,4)]
  from restart_committed [OF assms(2,3), of dbs "hosts (data_dir env)"] exact assms(5,6) obtain t where
    "storage_open L (hosts (data_dir env)) = Ok t" "row_inv L absm t" "ks_view L absm t = ks_view L absm s"
    "tb_view L absm t = tb_view L absm s" "row_view absm t = committed_view absm s" by auto
  with main_opened [of L hosts env t runtime bind uring] assms(7,8) show ?thesis by auto
qed

text \<open>A host in the durable mode, and a storage that was opened on it and has a table.\<close>

definition sync_host :: "(bytes, bytes) fmap host" where
  "sync_host = (mem_host None (\<lambda>_. fmempty))\<lparr>ho_env := [''RHYDADB_SYNC'' \<mapsto> ''1'']\<rparr>"

lemma sync_host_env: "ho_env sync_host ''RHYDADB_SYNC'' \<noteq> None"
  by (simp add: sync_host_def)

lemma sync_kv:
  "\<exists>s0 s. storage_open mem_libs sync_host = Ok s0 \<and> (\<exists>h. logged mem_libs s0 h s) \<and> row_inv mem_libs fmlookup s \<and>
     (\<forall>k\<in>set SYSTEM_KEYSPACES. ks_view mem_libs fmlookup s k \<noteq> None) \<and> tb_view mem_libs fmlookup s (''shop'', ''kv'') = Some kv_table"
proof -
  have d: "\<forall>i<8. ho_open_db sync_host i = Ok (replicate 8 fmempty ! i) \<and> fmlookup (replicate 8 fmempty ! i :: (bytes, bytes) fmap) = Map.empty"
    and m: "ho_marker sync_host = None" and n: "shard_count sync_host = Ok 8"
    by (simp_all add: sync_host_def mem_host_def fun_eq_iff shard_count_def new_shard_count_def env_num_def clamp_def)
  from storage_open_new [OF mem_rocks_ok mem_json_ok m n d] obtain s0 where
    s0: "storage_open mem_libs sync_host = Ok s0" "row_inv mem_libs fmlookup s0" "\<forall>k\<in>set SYSTEM_KEYSPACES. ks_view mem_libs fmlookup s0 k \<noteq> None" by auto
  have kv: "(td_keyspace kv_table, td_name kv_table) = (''shop'', ''kv'')" "good_table (''shop'', ''kv'')"
    by (simp_all add: kv_table_def good_table_def plain_name_def)
  from put_table_inv [OF s0(2), of kv_table] kv obtain s where s: "put_table mem_libs kv_table s0 = (s, Ok ())" "row_inv mem_libs fmlookup s"
    "tb_view mem_libs fmlookup s (''shop'', ''kv'') = Some kv_table" "ks_view mem_libs fmlookup s = ks_view mem_libs fmlookup s0" by auto
  with logging.put_table_R [of mem_libs s0 kv_table] s0 show ?thesis by (intro exI [of _ s0] exI [of _ s]) simp
qed

theorem durable_crash_keeps_committed_witness:
  "\<exists>s dbs l. crash_leaves mem_libs fmlookup sync_host s dbs \<and>
     main mem_libs False Map.empty (\<lambda>_. mem_host (Some (show_nat (ndbs s))) (\<lambda>i. dbs ! i)) (Ok ()) (\<lambda>_. Ok ()) = Ok l \<and>
     tb_view mem_libs fmlookup (la_storage l) (''shop'', ''kv'') = Some kv_table"
proof -
  from sync_kv obtain s0 s where s: "storage_open mem_libs sync_host = Ok s0" "\<exists>h. logged mem_libs s0 h s" "row_inv mem_libs fmlookup s"
    "\<forall>k\<in>set SYSTEM_KEYSPACES. ks_view mem_libs fmlookup s k \<noteq> None" "tb_view mem_libs fmlookup s (''shop'', ''kv'') = Some kv_table" by blast
  let ?dbs = "map en_db (st_engines s)" let ?H = "mem_host (Some (show_nat (ndbs s))) (\<lambda>i. ?dbs ! i)"
  note crash = crash_possible [OF s(1,2) mem_rocks_ok]
  have "storage_wf mem_libs fmlookup s" using s(3) by (simp add: row_inv_def)
  from durable_crash_keeps_committed [OF sync_host_env this s(4) crash, of "\<lambda>_. ?H" Map.empty "Ok ()" "\<lambda>_. Ok ()" False] s(5)
  obtain l where "main mem_libs False Map.empty (\<lambda>_. ?H) (Ok ()) (\<lambda>_. Ok ()) = Ok l" "tb_view mem_libs fmlookup (la_storage l) (''shop'', ''kv'') = Some kv_table"
    by (auto simp: mem_host_def)
  with crash show ?thesis by blast
qed

text \<open>
  C3. An acknowledged INSERT survives a crash in the durable mode: once its ticket is completed, under whatever
  schedule and with whatever else queued, a crash at that moment and a new start, with either server, the client's SELECT by
  the key returns the row it had inserted.
\<close>

theorem durable_insert_survives_crash:
  assumes "ho_env H ''RHYDADB_SYNC'' \<noteq> None" and "storage_wf L absm s" and "coherent absm s"
    and "\<forall>k\<in>set SYSTEM_KEYSPACES. ks_view L absm s k \<noteq> None"
    and "good_table (ks, tb)" and "tb_view L absm s (ks, tb) = Some t"
    and "ks \<notin> set SYSTEM_KEYSPACES" and "table_ok t" and "row_ok t vals"
  shows "\<exists>s1 ticket.
    execute_prepared L session_ks (SInsert (insert_full ks tb t)) (map bound vals) s = (s1, Ok (RVoid, [ticket])) \<and>
    settles L [ticket] s1 (settle L s1) \<and>
    (\<forall>s2 dbs hosts env uring bind. settles L [ticket] s1 s2 \<and> crash_leaves L absm H s2 dbs \<and>
       ho_marker (hosts (data_dir env)) = Some (show_nat (ndbs s2)) \<and>
       (\<forall>i<ndbs s2. ho_open_db (hosts (data_dir env)) i = Ok (dbs ! i)) \<and> bind (listen_addr env) = Ok () \<longrightarrow>
       (\<exists>l. main L uring env hosts (Ok ()) bind = Ok l \<and>
          snd (execute_prepared L session_ks' (SSelect (select_by_key ks tb t))
            (map (\<lambda>n. bound (key_value t vals n)) (key_names t)) (la_storage l))
          = Ok (RRows ks tb (map (\<lambda>c. (cd_name c, cd_type c)) (td_columns t)) [vals] None, [])))"
proof -
  from statement_insert_row [OF assms(2,3,5-9), of session_ks None None] obtain s1 ticket where
    ins: "execute_prepared L session_ks (SInsert (insert_full ks tb t)) (map bound vals) s = (s1, Ok (RVoid, [ticket]))"
      "settles L [ticket] s1 (settle L s1)" and
    after: "\<And>s2. settles L [ticket] s1 s2 \<Longrightarrow> storage_wf L absm s2 \<and> tb_view L absm s2 = tb_view L absm s \<and>
       ks_view L absm s2 = ks_view L absm s \<and>
       row_view absm s2 (ks, tb, row_parts t vals) = Some (encode_row_columns (row_columns t vals)) \<and>
       quiet (st_engines s2 ! addr_engine s2 (ks, tb, row_parts t vals))"
    unfolding execute_prepared_def by (elim exE conjE) simp
  have "\<exists>l. main L uring env hosts (Ok ()) bind = Ok l \<and>
          snd (execute_prepared L session_ks' (SSelect (select_by_key ks tb t))
            (map (\<lambda>n. bound (key_value t vals n)) (key_names t)) (la_storage l))
          = Ok (RRows ks tb (map (\<lambda>c. (cd_name c, cd_type c)) (td_columns t)) [vals] None, [])"
    if s2: "settles L [ticket] s1 s2" and crash: "crash_leaves L absm H s2 dbs"
      "ho_marker (hosts (data_dir env)) = Some (show_nat (ndbs s2))"
      "\<forall>i<ndbs s2. ho_open_db (hosts (data_dir env)) i = Ok (dbs ! i)" "bind (listen_addr env) = Ok ()"
    for s2 dbs hosts env uring bind
  proof -
    note a = after [OF s2]
    from a assms(4) have wf: "storage_wf L absm s2" and sys: "\<forall>k\<in>set SYSTEM_KEYSPACES. ks_view L absm s2 k \<noteq> None" by simp_all
    note exact = durable_crash_exact [OF storage_wfD(1) [OF wf] assms(1) crash(1)]
    from restart_committed [OF wf sys, of dbs "hosts (data_dir env)"] exact crash(2,3) obtain u where
      u: "storage_open L (hosts (data_dir env)) = Ok u" "row_inv L absm u" "tb_view L absm u = tb_view L absm s2"
        "row_view absm u = committed_view absm s2" by auto
    from u(2) have q: "quiet (st_engines u ! addr_engine u r)" for r
      using quiet_nth addr_engine_less storage_wfD(3) by (metis row_inv_def)
    have "snd (execute_prepared L session_ks' (SSelect (select_by_key ks tb t))
            (map (\<lambda>n. bound (key_value t vals n)) (key_names t)) u)
          = Ok (RRows ks tb (map (\<lambda>c. (cd_name c, cd_type c)) (td_columns t)) [vals] None, [])"
      unfolding execute_prepared_def
      using u a assms(6) q committed_view_quiet [of s2 _ absm]
      by (intro statement_select_row [where absm = absm, OF _ _ assms(5) _ assms(7-9)]) (simp_all add: row_inv_def)
    with main_opened [of L hosts env u "Ok ()" bind uring] u(1) crash(4) show ?thesis by auto
  qed
  with ins show ?thesis by blast
qed


theorem durable_insert_survives_crash_witness:
  "\<exists>s s1 ticket l. let s2 = settle mem_libs s1; dbs = map en_db (st_engines s2) in
     execute_prepared mem_libs None (SInsert (insert_full ''shop'' ''kv'' kv_table)) [bound (VInt 5), bound (VText ''x'')] s
       = (s1, Ok (RVoid, [ticket])) \<and>
     crash_leaves mem_libs fmlookup sync_host s2 dbs \<and>
     main mem_libs False Map.empty (\<lambda>_. mem_host (Some (show_nat (ndbs s2))) (\<lambda>i. dbs ! i)) (Ok ()) (\<lambda>_. Ok ()) = Ok l \<and>
     snd (execute_prepared mem_libs None (SSelect (select_by_key ''shop'' ''kv'' kv_table)) [bound (VInt 5)] (la_storage l))
       = Ok (RRows ''shop'' ''kv'' [(''k'', TInt), (''v'', TText)] [[VInt 5, VText ''x'']] None, [])"
proof -
  from sync_kv obtain s0 s where s: "storage_open mem_libs sync_host = Ok s0" "\<exists>h. logged mem_libs s0 h s" "row_inv mem_libs fmlookup s"
    "\<forall>k\<in>set SYSTEM_KEYSPACES. ks_view mem_libs fmlookup s k \<noteq> None" "tb_view mem_libs fmlookup s (''shop'', ''kv'') = Some kv_table" by blast
  have wf: "storage_wf mem_libs fmlookup s" "coherent fmlookup s" using s(3) by (simp_all add: row_inv_def)
  have g: "good_table (''shop'', ''kv'')" "''shop'' \<notin> set SYSTEM_KEYSPACES" by (simp_all add: good_table_def plain_name_def SYSTEM_KEYSPACES_def)
  from durable_insert_survives_crash [OF sync_host_env wf s(4) g(1) s(5) g(2) kv_table_ok kv_row_ok, of None None]
  obtain s1 ticket where
    ins: "execute_prepared mem_libs None (SInsert (insert_full ''shop'' ''kv'' kv_table)) (map bound [VInt 5, VText ''x'']) s = (s1, Ok (RVoid, [ticket]))"
      "settles mem_libs [ticket] s1 (settle mem_libs s1)" and
    survives: "\<And>s2 dbs hosts env uring bind. settles mem_libs [ticket] s1 s2 \<and> crash_leaves mem_libs fmlookup sync_host s2 dbs \<and>
       ho_marker (hosts (data_dir env)) = Some (show_nat (ndbs s2)) \<and>
       (\<forall>i<ndbs s2. ho_open_db (hosts (data_dir env)) i = Ok (dbs ! i)) \<and> bind (listen_addr env) = Ok () \<longrightarrow>
       (\<exists>l. main mem_libs uring env hosts (Ok ()) bind = Ok l \<and>
          snd (execute_prepared mem_libs None (SSelect (select_by_key ''shop'' ''kv'' kv_table))
            (map (\<lambda>n. bound (key_value kv_table [VInt 5, VText ''x''] n)) (key_names kv_table)) (la_storage l))
          = Ok (RRows ''shop'' ''kv'' (map (\<lambda>c. (cd_name c, cd_type c)) (td_columns kv_table)) [[VInt 5, VText ''x'']] None, []))"
    by (elim exE conjE) blast
  let ?s2 = "settle mem_libs s1"
  let ?dbs = "map en_db (st_engines ?s2)"
  let ?H = "mem_host (Some (show_nat (ndbs ?s2))) (\<lambda>i. ?dbs ! i)"
  have "\<exists>h. logged mem_libs s h s1" using logging.entry_points_R(4) [of mem_libs s None] ins(1) by (metis fst_conv)
  moreover have "\<exists>h. logged mem_libs s1 h ?s2" by (rule logging.threads_R [OF settle_steps])
  ultimately have "\<exists>h. logged mem_libs s0 h ?s2" using s(2) logged_trans by meson
  note crash = crash_possible [OF s(1) this mem_rocks_ok]
  from survives [of ?s2 ?dbs "\<lambda>_. ?H" Map.empty "\<lambda>_. Ok ()" False] ins(2) crash
  obtain l where "main mem_libs False Map.empty (\<lambda>_. ?H) (Ok ()) (\<lambda>_. Ok ()) = Ok l"
    "snd (execute_prepared mem_libs None (SSelect (select_by_key ''shop'' ''kv'' kv_table))
        (map (\<lambda>n. bound (key_value kv_table [VInt 5, VText ''x''] n)) (key_names kv_table)) (la_storage l))
      = Ok (RRows ''shop'' ''kv'' (map (\<lambda>c. (cd_name c, cd_type c)) (td_columns kv_table)) [[VInt 5, VText ''x'']] None, [])"
    by (auto simp: mem_host_def)
  with ins(1) crash show ?thesis
    unfolding Let_def
    by (intro exI [of _ s] exI [of _ s1] exI [of _ ticket] exI [of _ l]) (simp add: kv_table_def key_names_def key_value_def key_idx_def column_index_def)
qed

text \<open>
  C17. The default mode promises nothing. Whatever a server has done since its databases were opened, statements that create
  keyspaces and tables and acknowledged writes included, a crash may leave every database as it was when it was opened, and the thread
  that \<^verbatim>\<open>RHYDADB_MANUAL_WAL\<close> starts changes nothing about it, however often it flushes, because in this mode no
  write goes to the log.
\<close>

theorem default_mode_promises_nothing:
  assumes "ho_env H ''RHYDADB_SYNC'' = None" and "storage_open L H = Ok s" and "rocks_ok L absm"
    and "(server_step L P deliver)\<^sup>*\<^sup>* (connect s input) x"
    and "shard_count H = Ok n" and "rmap (ho_open_db H) [0..<n] = Ok opened"
  shows "crash_leaves L absm H (fst (cx_session x)) opened \<and>
    (\<forall>h i evs. logged L (open_engines H opened) h (fst (cx_session x)) \<and> i < n \<longrightarrow> wal_thread evs (h i) = h i)"
proof -
  let ?s0 = "open_engines H opened"
  have len: "length opened = n" using rmap_length [OF assms(6)] by simp
  have unlogged: "list_all (\<lambda>w. wo_disable_wal (fst w) \<and> \<not> durable_opts (fst w)) (h i)" if "logged L ?s0 h t" "i < n" for h t i
    using logged_accounts [OF that(1) assms(3)] that(2) len assms(1)
    by (simp add: accounts_def open_engines_nth committer_opts_def default_write_opts_def durable_opts_def list_all_length)
  from assms(2) obtain m dbs where "shard_count H = Ok m" "rmap (ho_open_db H) [0..<m] = Ok dbs" "seed_system L H (open_engines H dbs) = (s, Ok ())"
    by (rule storage_openD)
  with assms(5,6) logging.seed_system_R [of L ?s0 H] have "\<exists>h. logged L ?s0 h s" by simp
  moreover have "\<exists>h. logged L s h (fst (cx_session x))" using logging.server_run_R [OF assms(4)] by (simp add: connect_def)
  ultimately obtain h where h: "logged L ?s0 h (fst (cx_session x))" using logged_trans by blast
  have "recovers absm (opened ! i) (h i) (opened ! i)" if "i < n" for i
    unfolding recovers_def using unlogged [OF h that] by (intro exI [of _ 0]) (simp add: history_ops_def list_all_length)
  with h assms(5,6) len have "crash_leaves L absm H (fst (cx_session x)) opened" by (auto simp: crash_leaves_def)
  moreover have "wal_thread evs (h' i) = h' i" if "logged L ?s0 h' (fst (cx_session x))" "i < n" for h' i evs
    using unlogged [OF that] by (intro wal_thread_unlogged) (simp add: list_all_length)
  ultimately show ?thesis by blast
qed

theorem default_mode_promises_nothing_witness:
  "\<exists>s. storage_open mem_libs (mem_host None (\<lambda>_. fmempty)) = Ok s \<and> ks_view mem_libs fmlookup s ''system'' \<noteq> None \<and>
     crash_leaves mem_libs fmlookup (mem_host None (\<lambda>_. fmempty)) s (replicate 8 fmempty)"
proof -
  let ?H = "mem_host None (\<lambda>_. fmempty :: (bytes, bytes) fmap)"
  from mem_opened obtain s where s: "storage_open mem_libs ?H = Ok s" "ks_view mem_libs fmlookup s ''system'' \<noteq> None"
    by (auto simp: SYSTEM_KEYSPACES_def)
  have "ho_env ?H ''RHYDADB_SYNC'' = None" "rmap (ho_open_db ?H) [0..<8] = Ok (replicate 8 fmempty)"
    by (simp_all add: mem_host_def open_dbs)
  from default_mode_promises_nothing [OF this(1) s(1) mem_rocks_ok rtranclp.rtrancl_refl mem_host_shards this(2)] s
  show ?thesis by (auto simp: connect_def)
qed

text \<open>
  C14. The pipelines stay well-formed for the whole life of a server, from the opening of any databases on,
  whatever statements its connections execute, well-formed or not, whatever the libraries answer and
  however requests and threads interleave: every batch in flight holds between one and \<^verbatim>\<open>MAX_BATCH_OPS\<close>
  operations with one completion slot each, no writer is gone, and every ticket is in one place only,
  pending or completed, so that a completion wakes exactly the request that waits for it.
\<close>

theorem pipelines_stay_wf:
  assumes "storage_open L H = Ok s" and "(server_step L P deliver)\<^sup>*\<^sup>* (connect s input) x"
  shows "pipelines_wf (fst (cx_session x))"
proof -
  from assms(1) obtain n opened where seed: "seed_system L H (open_engines H opened) = (s, Ok ())" by (rule storage_openD)
  have none: "concat (map engine_tickets (map new_engine opened)) = []"
    by (simp add: engine_tickets_def new_engine_def pend_defs)
  have "pipelines_wf (open_engines H opened)"
    unfolding pipelines_wf_def by (simp only: open_engines_def storage.simps none) (auto simp: engine_wf_new, simp add: new_engine_def)
  then have "pipelines_wf s" using seed pipelines.seed_system_R [of "open_engines H opened" L H] by simp
  with pipelines.server_run_R [OF assms(2)] show ?thesis by (simp add: connect_def)
qed

theorem pipelines_stay_wf_witness:
  "\<exists>s x. storage_open mem_libs (mem_host None (\<lambda>_. fmempty)) = Ok s \<and>
     (server_step mem_libs plain_frames deliver_all)\<^sup>*\<^sup>* (connect s []) x \<and> cx_reader x = Closed \<and> pipelines_wf (fst (cx_session x))"
proof -
  from mem_opened obtain s where s: "storage_open mem_libs (mem_host None (\<lambda>_. fmempty)) = Ok s" by blast
  let ?x = "(connect s [])\<lparr>cx_reader := Closed\<rparr>"
  have "own_step mem_libs plain_frames deliver_all (connect s []) ?x"
    by (rule read_end) (simp_all add: connect_def next_frame_def)
  then have "(server_step mem_libs plain_frames deliver_all)\<^sup>*\<^sup>* (connect s []) ?x" by (auto simp: server_step_def)
  with pipelines_stay_wf [OF s this] s show ?thesis by (intro exI [of _ s] exI [of _ ?x]) simp
qed

end
