(* ===== verification/Bench.thy ===== *)
theory Bench
  imports Server
begin

text \<open>
  The benchmark client \<^verbatim>\<open>src/src/bin/bench.rs\<close>: its arguments, the request frames it builds, its
  connection, the pseudo-random workload, the fill of the table and a worker. The socket is the
  record \<open>net\<close> of the operations of the standard library that the client calls on it, acting on a
  state of the network and of the server behind it. Threads share the counters of \<open>totals\<close>.
\<close>

unbundle bit_operations_syntax

section \<open>Sockets\<close>

text \<open>
  \<^verbatim>\<open>TcpStream::connect\<close> with \<^verbatim>\<open>set_nodelay\<close>; \<^verbatim>\<open>write_all\<close>, on a handle cloned for the call;
  \<^verbatim>\<open>read_exact\<close>, which returns as many bytes as it is asked for or fails.
\<close>

record 'w net =
  nt_connect :: "string \<Rightarrow> 'w \<Rightarrow> 'w \<times> unit anyhow"
  nt_write :: "bytes \<Rightarrow> 'w \<Rightarrow> 'w \<times> unit anyhow"
  nt_read :: "nat \<Rightarrow> 'w \<Rightarrow> 'w \<times> bytes anyhow"

section \<open>Standard library\<close>

lemma utf8_check_at_error: "utf8_check_at i bs = Some (n, Some l) \<Longrightarrow> bs \<noteq> [] \<and> 0 < l"
proof (induction i bs rule: utf8_check_at.induct)
  case (2 i b bs)
  from 2(5) show ?case
    by (subst (asm) utf8_check_at.simps(2)) (auto simp del: utf8_check_at.simps dest: 2(1-4) split: if_splits list.splits)
qed simp

text \<open>\<^verbatim>\<open>String::from_utf8_lossy\<close>: each bad sequence becomes U+FFFD.\<close>

definition replacement_char :: bytes where
  "replacement_char = [0xEF, 0xBF, 0xBD]"

function utf8_lossy :: "bytes \<Rightarrow> bytes" where
  "utf8_lossy bs =
     (case utf8_check bs of
        None \<Rightarrow> bs
      | Some (n, None) \<Rightarrow> take n bs @ replacement_char
      | Some (n, Some l) \<Rightarrow> take n bs @ replacement_char @ utf8_lossy (drop (n + l) bs))"
  by auto
termination
  by (relation "measure length") (auto simp: utf8_check_def dest: utf8_check_at_error)

declare utf8_lossy.simps [simp del]

definition from_utf8_lossy :: "bytes \<Rightarrow> string" where
  "from_utf8_lossy bs = bytes_str (utf8_lossy bs)"

text \<open>\<^verbatim>\<open>&xs[i..j]\<close>, and the remainder and product of \<^verbatim>\<open>u64\<close>: \<open>checks\<close> is the profile's \<^verbatim>\<open>overflow-checks\<close>.\<close>

definition index_range :: "'a list \<Rightarrow> nat \<Rightarrow> nat \<Rightarrow> ('e, 'a list) result" where
  "index_range xs i j = (if i \<le> j \<and> j \<le> length xs then Ok (take (j - i) (drop i xs)) else Panic)"

definition rem_u64 :: "u64 \<Rightarrow> u64 \<Rightarrow> ('e, u64) result" where
  "rem_u64 a b = (if b = 0 then Panic else Ok (a mod b))"

definition mul_u64 :: "bool \<Rightarrow> u64 \<Rightarrow> u64 \<Rightarrow> ('e, u64) result" where
  "mul_u64 checks a b = (if checks \<and> 2 ^ 64 \<le> unat a * unat b then Panic else Ok (a * b))"

definition parse_u64 :: "string \<Rightarrow> u64 option" where
  "parse_u64 s = map_option word_of_nat (parse_usize s)"

section \<open>Arguments\<close>

datatype mode = ModeRead | ModeWrite | ModeMixed

record bench_args =
  ba_addr :: string
  ba_conns :: nat
  ba_pipeline :: nat
  ba_seconds :: u64
  ba_mode :: mode
  ba_keys :: u64
  ba_fill_keys :: u64
  ba_value_len :: nat

definition default_args :: bench_args where
  "default_args =
     \<lparr>ba_addr = ''127.0.0.1:9042'', ba_conns = 8, ba_pipeline = 128, ba_seconds = 10, ba_mode = ModeRead,
      ba_keys = 1000000, ba_fill_keys = 200000, ba_value_len = 64\<rparr>"

definition set_arg :: "bench_args \<Rightarrow> string \<Rightarrow> string \<Rightarrow> bench_args anyhow" where
  "set_arg a k v =
     (if k = ''--addr'' then Ok (a\<lparr>ba_addr := v\<rparr>)
      else if k = ''--conns'' then rbind (unwrap (parse_usize v)) (\<lambda>n. Ok (a\<lparr>ba_conns := n\<rparr>))
      else if k = ''--pipeline'' then rbind (unwrap (parse_usize v)) (\<lambda>n. Ok (a\<lparr>ba_pipeline := n\<rparr>))
      else if k = ''--seconds'' then rbind (unwrap (parse_u64 v)) (\<lambda>n. Ok (a\<lparr>ba_seconds := n\<rparr>))
      else if k = ''--mode'' then
        (if v = ''read'' then Ok (a\<lparr>ba_mode := ModeRead\<rparr>)
         else if v = ''write'' then Ok (a\<lparr>ba_mode := ModeWrite\<rparr>)
         else if v = ''mixed'' then Ok (a\<lparr>ba_mode := ModeMixed\<rparr>)
         else Panic)
      else if k = ''--keys'' then rbind (unwrap (parse_u64 v)) (\<lambda>n. Ok (a\<lparr>ba_keys := n\<rparr>))
      else if k = ''--fill-keys'' then rbind (unwrap (parse_u64 v)) (\<lambda>n. Ok (a\<lparr>ba_fill_keys := n\<rparr>))
      else if k = ''--value-len'' then rbind (unwrap (parse_usize v)) (\<lambda>n. Ok (a\<lparr>ba_value_len := n\<rparr>))
      else Panic)"

fun set_args :: "bench_args \<Rightarrow> string list \<Rightarrow> bench_args anyhow" where
  "set_args a [] = Ok a"
| "set_args a [k] = Panic"
| "set_args a (k # v # it) = rbind (set_arg a k v) (\<lambda>a. set_args a it)"

text \<open>\<open>argv\<close> is the command line without the name of the program.\<close>

definition parse_args :: "string list \<Rightarrow> bench_args anyhow" where
  "parse_args argv = set_args default_args argv"

section \<open>Request frames\<close>

text \<open>Each function appends to the buffer it is given.\<close>

definition client_frame :: "i16 \<Rightarrow> byte \<Rightarrow> bytes \<Rightarrow> bytes \<Rightarrow> bytes" where
  "client_frame stream opcode body out =
     out @ [0x04] @ [0] @ to_be_bytes stream @ [opcode] @ to_be_bytes (word_of_nat (length body) :: 32 word) @ body"

definition long_string :: "string \<Rightarrow> bytes \<Rightarrow> bytes" where
  "long_string s out = out @ to_be_bytes (len_i32 (length s)) @ str_bytes s"

definition startup_body :: "bytes \<Rightarrow> bytes" where
  "startup_body out =
     out @ to_be_bytes (1 :: u16) @ to_be_bytes (11 :: u16) @ str_bytes ''CQL_VERSION''
         @ to_be_bytes (5 :: u16) @ str_bytes ''3.0.0''"

definition query_params_with_values :: "bytes list \<Rightarrow> bool \<Rightarrow> bytes \<Rightarrow> bytes" where
  "query_params_with_values values skip_meta out =
     (let flags = (0x01 :: byte); flags = (if skip_meta then flags OR 0x02 else flags) in
      fold (\<lambda>v out. out @ to_be_bytes (len_i32 (length v)) @ v) values
        (out @ to_be_bytes (0x0001 :: u16) @ [flags] @ to_be_bytes (word_of_nat (length values) :: u16)))"

section \<open>Connection\<close>

definition OPCODE_ERROR :: byte where "OPCODE_ERROR = 0x00"

definition OPCODE_READY :: byte where "OPCODE_READY = 0x02"

record 'w bench_conn =
  bc_sock :: 'w
  bc_write_buf :: bytes
  bc_next_stream :: i16

definition on_sock :: "('w \<Rightarrow> 'w \<times> 'a anyhow) \<Rightarrow> 'w bench_conn \<Rightarrow> 'w bench_conn \<times> 'a anyhow" where
  "on_sock f c = (case f (bc_sock c) of (w, r) \<Rightarrow> (c\<lparr>bc_sock := w\<rparr>, r))"

definition read_response :: "'w net \<Rightarrow> 'w bench_conn \<Rightarrow> 'w bench_conn \<times> (byte \<times> bytes) anyhow" where
  "read_response N c =
     and_then (on_sock (nt_read N 9) c) (\<lambda>c hdr.
       let opcode = hdr ! 4; len = unat (from_be_bytes [hdr ! 5, hdr ! 6, hdr ! 7, hdr ! 8] :: 32 word) in
       and_then (on_sock (nt_read N len) c) (\<lambda>c body. (c, Ok (opcode, body))))"

definition bench_connect :: "'w net \<Rightarrow> string \<Rightarrow> 'w \<Rightarrow> 'w \<times> 'w bench_conn anyhow" where
  "bench_connect N addr w =
     and_then (nt_connect N addr w) (\<lambda>w _.
       let c = \<lparr>bc_sock = w, bc_write_buf = [], bc_next_stream = 0\<rparr>;
           body = startup_body [];
           c = c\<lparr>bc_write_buf := client_frame 0 0x01 body (bc_write_buf c)\<rparr> in
       case and_then (on_sock (nt_write N (bc_write_buf c)) c) (\<lambda>c _.
              let c = c\<lparr>bc_write_buf := []\<rparr> in
              and_then (read_response N c) (\<lambda>c (op, _). (c, if op = OPCODE_READY then Ok () else Panic))) of
         (c, r) \<Rightarrow> (bc_sock c, rbind r (\<lambda>_. Ok c)))"

text \<open>A request on the next stream, and the response to it.\<close>

definition roundtrip :: "'w net \<Rightarrow> byte \<Rightarrow> bytes \<Rightarrow> string \<Rightarrow> 'w bench_conn \<Rightarrow> 'w bench_conn \<times> bytes anyhow" where
  "roundtrip N opcode body what c =
     (let buf = client_frame (bc_next_stream c) opcode body [];
          c = c\<lparr>bc_next_stream := bc_next_stream c + 1\<rparr> in
      and_then (on_sock (nt_write N buf) c) (\<lambda>c _.
      and_then (read_response N c) (\<lambda>c (op, payload).
        (c, if op = OPCODE_ERROR then Err (what @ from_utf8_lossy payload) else Ok payload))))"

definition roundtrip_query :: "'w net \<Rightarrow> string \<Rightarrow> 'w bench_conn \<Rightarrow> 'w bench_conn \<times> bytes anyhow" where
  "roundtrip_query N cql c =
     (let body = long_string cql []; body = body @ to_be_bytes (0x0001 :: u16); body = body @ [0x00] in
      roundtrip N 0x07 body ''query error: '' c)"

text \<open>The id in the body of a PREPARED result.\<close>

definition prepared_id :: "bytes \<Rightarrow> bytes anyhow" where
  "prepared_id payload =
     rbind (index_range payload 0 4) (\<lambda>k.
       let kind = from_be_bytes k :: i32 in
       if kind \<noteq> 4 then Panic
       else rbind (index_range payload 4 6) (\<lambda>l.
              let idlen = unat (from_be_bytes l :: u16) in index_range payload 6 (6 + idlen)))"

definition bench_prepare :: "'w net \<Rightarrow> string \<Rightarrow> 'w bench_conn \<Rightarrow> 'w bench_conn \<times> bytes anyhow" where
  "bench_prepare N cql c =
     (let body = long_string cql [] in
      and_then (roundtrip N 0x09 body ''prepare error: '' c) (\<lambda>c payload. (c, prepared_id payload)))"

section \<open>Workload\<close>

record workload =
  wl_insert_id :: bytes
  wl_select_id :: bytes
  wl_rng :: u64
  wl_value :: bytes
  wl_mode :: mode
  wl_keys :: u64
  wl_filled :: u64

definition bench_rand :: "workload \<Rightarrow> workload \<times> u64" where
  "bench_rand wl =
     (let x = wl_rng wl; x = x XOR push_bit 13 x; x = x XOR drop_bit 7 x; x = x XOR push_bit 17 x
      in (wl\<lparr>wl_rng := x\<rparr>, x))"

definition bench_key :: "workload \<Rightarrow> workload \<times> u64 anyhow" where
  "bench_key wl =
     (case wl_mode wl of
        ModeWrite \<Rightarrow> (case bench_rand wl of (wl, x) \<Rightarrow> (wl, rbind (rem_u64 x (wl_keys wl)) (\<lambda>r. Ok (1 + r))))
      | _ \<Rightarrow> (case bench_rand wl of (wl, x) \<Rightarrow> (wl, rbind (rem_u64 x (max (wl_filled wl) 1)) (\<lambda>r. Ok (1 + r)))))"

definition execute_frame :: "workload \<Rightarrow> bool \<Rightarrow> bytes \<Rightarrow> i16 \<Rightarrow> workload \<times> bytes anyhow" where
  "execute_frame wl is_insert out stream =
     and_then (bench_key wl) (\<lambda>wl k.
       let kbe = to_be_bytes k;
           pid = (if is_insert then wl_insert_id wl else wl_select_id wl);
           body = [] @ to_be_bytes (word_of_nat (length pid) :: u16);
           body = body @ pid;
           body = (if is_insert then query_params_with_values [kbe, wl_value wl] False body
                   else query_params_with_values [kbe] True body)
       in (wl, Ok (client_frame stream 0x0A body out)))"

section \<open>Setup and fill\<close>

definition INSERT_CQL :: string where "INSERT_CQL = ''INSERT INTO bench.kv (id, val) VALUES (?, ?)''"

definition SELECT_CQL :: string where "SELECT_CQL = ''SELECT * FROM bench.kv WHERE id = ?''"

text \<open>The error of a DROP is ignored: there may be nothing to drop.\<close>

definition bench_setup :: "'w net \<Rightarrow> bench_args \<Rightarrow> 'w \<Rightarrow> 'w \<times> 'w bench_conn anyhow" where
  "bench_setup N args w =
     and_then (bench_connect N (ba_addr args) w) (\<lambda>w c.
       case (case roundtrip_query N ''DROP KEYSPACE bench'' c of
               (c, Halt h) \<Rightarrow> (c, Halt h)
             | (c, _) \<Rightarrow>
                 and_then (roundtrip_query N
                   ''CREATE KEYSPACE bench WITH replication = {'class': 'SimpleStrategy', 'replication_factor': 1}'' c) (\<lambda>c _.
                 and_then (roundtrip_query N ''CREATE TABLE bench.kv (id bigint PRIMARY KEY, val text)'' c) (\<lambda>c _. (c, Ok ())))) of
         (c, r) \<Rightarrow> (bc_sock c, rbind r (\<lambda>_. Ok c)))"

text \<open>Reading the responses of a batch; the first error ends the fill.\<close>

fun read_acks :: "'w net \<Rightarrow> nat \<Rightarrow> 'w bench_conn \<Rightarrow> 'w bench_conn \<times> unit anyhow" where
  "read_acks N 0 c = (c, Ok ())"
| "read_acks N (Suc n) c =
     and_then (read_response N c) (\<lambda>c (op, payload).
       if op = OPCODE_ERROR then (c, Err (''fill error: '' @ from_utf8_lossy payload)) else read_acks N n c)"

record fill_state =
  fs_wl :: workload
  fs_out :: bytes
  fs_pending :: nat
  fs_key :: u64
  fs_next_stream :: i16

function fill_batch :: "bench_args \<Rightarrow> fill_state \<Rightarrow> fill_state anyhow" where
  "fill_batch args f =
     (if fs_pending f < ba_pipeline args \<and> fs_key f \<le> ba_fill_keys args then
        (case execute_frame (fs_wl f) True (fs_out f) (fs_next_stream f) of
           (wl, r) \<Rightarrow> rbind r (\<lambda>out.
             fill_batch args \<lparr>fs_wl = wl, fs_out = out, fs_pending = fs_pending f + 1, fs_key = fs_key f + 1,
                              fs_next_stream = (fs_next_stream f + 1) AND 0x7FFF\<rparr>))
      else Ok f)"
  by auto
termination by (relation "measure (\<lambda>(args, f). ba_pipeline args - fs_pending f)") auto

declare fill_batch.simps [simp del]

text \<open>The outer loop may run for ever, which is \<open>None\<close>.\<close>

partial_function (option) fill_loop ::
  "'w net \<Rightarrow> bench_args \<Rightarrow> fill_state \<Rightarrow> 'w bench_conn \<Rightarrow> ('w bench_conn \<times> unit anyhow) option" where
  "fill_loop N args f c =
     (if fs_key f \<le> ba_fill_keys args then
        (case fill_batch args f of
           Ok f \<Rightarrow>
             (case and_then (on_sock (nt_write N (fs_out f)) c) (\<lambda>c _. read_acks N (fs_pending f) c) of
                (c, Ok _) \<Rightarrow> fill_loop N args (f\<lparr>fs_out := [], fs_pending := 0\<rparr>) c
              | (c, Err e) \<Rightarrow> Some (c, Err e)
              | (c, Halt h) \<Rightarrow> Some (c, Halt h))
         | Err e \<Rightarrow> Some (c, Err e)
         | Halt h \<Rightarrow> Some (c, Halt h))
      else Some (c, Ok ()))"

definition fill_start :: "bench_args \<Rightarrow> bytes \<Rightarrow> fill_state" where
  "fill_start args ins_id =
     (let value = replicate (ba_value_len args) (0x78 :: byte) in
      \<lparr>fs_wl = \<lparr>wl_insert_id = ins_id, wl_select_id = [], wl_rng = 0x9E3779B97F4A7C15, wl_value = value,
                wl_mode = ModeWrite, wl_keys = max (ba_fill_keys args) 1, wl_filled = 0\<rparr>,
       fs_out = [], fs_pending = 0, fs_key = 1, fs_next_stream = 0\<rparr>)"

definition bench_fill :: "'w net \<Rightarrow> bench_args \<Rightarrow> 'w bench_conn \<Rightarrow> ('w bench_conn \<times> unit anyhow) option" where
  "bench_fill N args c =
     (if ba_mode args \<noteq> ModeWrite \<and> 0 < ba_fill_keys args then
        (case bench_prepare N INSERT_CQL c of
           (c, Ok ins_id) \<Rightarrow> fill_loop N args (fill_start args ins_id) c
         | (c, Err e) \<Rightarrow> Some (c, Err e)
         | (c, Halt h) \<Rightarrow> Some (c, Halt h))
      else Some (c, Ok ()))"

section \<open>Workers\<close>

record totals =
  tt_ops :: u64
  tt_err :: u64
  tt_first_err :: "string option"

text \<open>What a worker of connection \<open>cid\<close> does before the barrier.\<close>

definition worker_seed :: "bool \<Rightarrow> nat \<Rightarrow> u64 anyhow" where
  "worker_seed checks cid =
     rbind (mul_u64 checks (word_of_nat cid + 1) 0x9E3779B97F4A7C15) (\<lambda>p. Ok (0x2545F4914F6CDD1D XOR p))"

definition worker_start :: "bool \<Rightarrow> 'w net \<Rightarrow> bench_args \<Rightarrow> nat \<Rightarrow> 'w \<Rightarrow> 'w \<times> ('w bench_conn \<times> workload) anyhow" where
  "worker_start checks N args cid w =
     and_then (bench_connect N (ba_addr args) w) (\<lambda>w c.
       case and_then (bench_prepare N INSERT_CQL c) (\<lambda>c ins_id.
            and_then (bench_prepare N SELECT_CQL c) (\<lambda>c sel_id.
              (c, rbind (worker_seed checks cid) (\<lambda>rng.
                 Ok \<lparr>wl_insert_id = ins_id, wl_select_id = sel_id, wl_rng = rng,
                     wl_value = replicate (ba_value_len args) (0x76 :: byte), wl_mode = ba_mode args,
                     wl_keys = ba_keys args, wl_filled = min (ba_fill_keys args) (ba_keys args)\<rparr>)))) of
         (c, r) \<Rightarrow> (bc_sock c, rbind r (\<lambda>wl. Ok (c, wl))))"

definition is_ins :: "mode \<Rightarrow> nat \<Rightarrow> bool" where
  "is_ins m i = (case m of ModeWrite \<Rightarrow> True | ModeRead \<Rightarrow> False | ModeMixed \<Rightarrow> i mod 2 = 0)"

text \<open>The frames of one batch: \<open>i\<close> counts up to \<open>n\<close>.\<close>

fun batch_frames :: "mode \<Rightarrow> nat list \<Rightarrow> i16 \<Rightarrow> workload \<Rightarrow> bytes \<Rightarrow> (i16 \<times> workload) \<times> bytes anyhow" where
  "batch_frames m [] next_stream wl out = ((next_stream, wl), Ok out)"
| "batch_frames m (i # is) next_stream wl out =
     (case execute_frame wl (is_ins m i) out next_stream of
        (wl, Ok out) \<Rightarrow> batch_frames m is (next_stream + 1) wl out
      | (wl, Err e) \<Rightarrow> ((next_stream + 1, wl), Err e)
      | (wl, Halt h) \<Rightarrow> ((next_stream + 1, wl), Halt h))"

definition count_response :: "byte \<Rightarrow> bytes \<Rightarrow> totals \<Rightarrow> totals" where
  "count_response op payload tt =
     (if op = OPCODE_ERROR then
        tt\<lparr>tt_err := tt_err tt + 1,
           tt_first_err := (case tt_first_err tt of None \<Rightarrow> Some (from_utf8_lossy payload) | Some e \<Rightarrow> Some e)\<rparr>
      else tt)"

fun read_results :: "'w net \<Rightarrow> nat \<Rightarrow> 'w bench_conn \<times> totals \<Rightarrow> ('w bench_conn \<times> totals) \<times> unit anyhow" where
  "read_results N 0 ct = (ct, Ok ())"
| "read_results N (Suc n) (c, tt) =
     (case read_response N c of
        (c, Ok (op, payload)) \<Rightarrow> read_results N n (c, count_response op payload tt)
      | (c, Err e) \<Rightarrow> ((c, tt), Err e)
      | (c, Halt h) \<Rightarrow> ((c, tt), Halt h))"

text \<open>One turn of the loop of a worker; the other workers may change the totals between two turns.\<close>

definition worker_batch ::
  "'w net \<Rightarrow> bench_args \<Rightarrow> 'w bench_conn \<times> workload \<times> totals \<Rightarrow> ('w bench_conn \<times> workload \<times> totals) \<times> unit anyhow" where
  "worker_batch N args st =
     (case st of (c, wl, tt) \<Rightarrow>
      let n = ba_pipeline args in
      (case batch_frames (ba_mode args) [0..<n] (bc_next_stream c) wl [] of
         ((next_stream, wl), built) \<Rightarrow>
           let c = c\<lparr>bc_next_stream := next_stream\<rparr> in
           (case built of
              Ok out \<Rightarrow>
                (case on_sock (nt_write N out) c of
                   (c, Ok _) \<Rightarrow>
                     (case read_results N n (c, tt) of
                        ((c, tt), Ok _) \<Rightarrow> ((c, wl, tt\<lparr>tt_ops := tt_ops tt + word_of_nat n\<rparr>), Ok ())
                      | ((c, tt), r) \<Rightarrow> ((c, wl, tt), r))
                 | (c, r) \<Rightarrow> ((c, wl, tt), r))
            | Err e \<Rightarrow> ((c, wl, tt), Err e)
            | Halt h \<Rightarrow> ((c, wl, tt), Halt h))))"

end
