(* ===== verification/BenchAsync.thy ===== *)
theory BenchAsync
  imports Bench
begin

text \<open>
  The asynchronous benchmark client \<^verbatim>\<open>src/src/bin/bench_async.rs\<close>, over the same sockets as the classic one
  (theory \<open>Bench\<close>). It keeps its own copies of the functions that build and read frames; its workload
  builds the request of an operation in one go and carries the stream id. A task of a connection runs
  between two awaits of its own socket, so each connection is sequential.
\<close>

section \<open>Arguments\<close>

definition async_default_args :: bench_args where
  "async_default_args =
     \<lparr>ba_addr = ''127.0.0.1:9042'', ba_conns = 128, ba_pipeline = 256, ba_seconds = 10, ba_mode = ModeRead,
      ba_keys = 1000000, ba_fill_keys = 200000, ba_value_len = 64\<rparr>"

fun async_set_args :: "bench_args \<Rightarrow> string list \<Rightarrow> bench_args anyhow" where
  "async_set_args a [] = Ok a"
| "async_set_args a [k] = Panic"
| "async_set_args a (k # v # it) =
     rbind
       (if k = ''--addr'' then Ok (a\<lparr>ba_addr := v\<rparr>)
        else if k = ''--conns'' then rbind (unwrap (parse_usize v)) (\<lambda>n. Ok (a\<lparr>ba_conns := n\<rparr>))
        else if k = ''--pipeline'' then rbind (unwrap (parse_usize v)) (\<lambda>n. Ok (a\<lparr>ba_pipeline := n\<rparr>))
        else if k = ''--seconds'' then rbind (unwrap (parse_u64 v)) (\<lambda>n. Ok (a\<lparr>ba_seconds := n\<rparr>))
        else if k = ''--mode'' then
          (if v = ''read'' then Ok (a\<lparr>ba_mode := ModeRead\<rparr>)
           else if v = ''write'' then Ok (a\<lparr>ba_mode := ModeWrite\<rparr>)
           else if v = ''mixed'' then Ok (a\<lparr>ba_mode := ModeMixed\<rparr>)
           else Panic)
        else if k = ''--keys'' then rbind (unwrap (parse_u64 v)) (\<lambda>n. Ok (a\<lparr>ba_keys := n\<rparr>))
        else if k = ''--fill-keys'' then rbind (unwrap (parse_u64 v)) (\<lambda>n. Ok (a\<lparr>ba_fill_keys := n\<rparr>))
        else if k = ''--value-len'' then rbind (unwrap (parse_usize v)) (\<lambda>n. Ok (a\<lparr>ba_value_len := n\<rparr>))
        else Panic)
       (\<lambda>a. async_set_args a it)"

definition async_parse_args :: "string list \<Rightarrow> bench_args anyhow" where
  "async_parse_args argv = async_set_args async_default_args argv"

section \<open>Frames and connection\<close>

definition async_frame :: "i16 \<Rightarrow> byte \<Rightarrow> bytes \<Rightarrow> bytes \<Rightarrow> bytes" where
  "async_frame stream opcode body out =
     out @ [0x04, 0] @ to_be_bytes stream @ [opcode] @ to_be_bytes (word_of_nat (length body) :: 32 word) @ body"

definition async_long_string :: "string \<Rightarrow> bytes \<Rightarrow> bytes" where
  "async_long_string s out = out @ to_be_bytes (len_i32 (length s)) @ str_bytes s"

record 'w async_conn =
  ac_sock :: 'w
  ac_write_buf :: bytes
  ac_scratch :: bytes

definition async_connect :: "'w net \<Rightarrow> string \<Rightarrow> 'w \<Rightarrow> 'w \<times> 'w async_conn anyhow" where
  "async_connect N addr w =
     and_then (nt_connect N addr w) (\<lambda>w _. (w, Ok \<lparr>ac_sock = w, ac_write_buf = [], ac_scratch = []\<rparr>))"

definition on_async :: "('w \<Rightarrow> 'w \<times> 'a anyhow) \<Rightarrow> 'w async_conn \<Rightarrow> 'w async_conn \<times> 'a anyhow" where
  "on_async f c = (case f (ac_sock c) of (w, r) \<Rightarrow> (c\<lparr>ac_sock := w\<rparr>, r))"

definition async_read_response :: "'w net \<Rightarrow> 'w async_conn \<Rightarrow> 'w async_conn \<times> byte anyhow" where
  "async_read_response N c =
     and_then (on_async (nt_read N 9) c) (\<lambda>c hdr.
       let opcode = hdr ! 4; len = unat (from_be_bytes [hdr ! 5, hdr ! 6, hdr ! 7, hdr ! 8] :: 32 word);
           c = c\<lparr>ac_scratch := replicate len 0\<rparr> in
       and_then (on_async (nt_read N len) c) (\<lambda>c body. (c\<lparr>ac_scratch := body\<rparr>, Ok opcode)))"

text \<open>A frame is appended to the write buffer, which is written and cleared.\<close>

definition async_send :: "'w net \<Rightarrow> i16 \<Rightarrow> byte \<Rightarrow> bytes \<Rightarrow> 'w async_conn \<Rightarrow> 'w async_conn \<times> byte anyhow" where
  "async_send N stream opcode body c =
     (let c = c\<lparr>ac_write_buf := async_frame stream opcode body (ac_write_buf c)\<rparr> in
      and_then (on_async (nt_write N (ac_write_buf c)) c) (\<lambda>c _.
        async_read_response N (c\<lparr>ac_write_buf := []\<rparr>)))"

definition async_roundtrip_query :: "'w net \<Rightarrow> string \<Rightarrow> bool \<Rightarrow> 'w async_conn \<Rightarrow> 'w async_conn \<times> bytes anyhow" where
  "async_roundtrip_query N cql allow_error c =
     (let body = async_long_string cql []; body = body @ to_be_bytes (0x0001 :: u16); body = body @ [0x00] in
      and_then (async_send N 0 0x07 body c) (\<lambda>c op.
        (c, if op = OPCODE_ERROR \<and> \<not> allow_error then Err (''query error: '' @ from_utf8_lossy (ac_scratch c))
            else Ok (ac_scratch c))))"

definition prepare_stmt :: "'w net \<Rightarrow> string \<Rightarrow> 'w async_conn \<Rightarrow> 'w async_conn \<times> bytes anyhow" where
  "prepare_stmt N cql c =
     (let body = async_long_string cql [] in
      and_then (async_send N 1 0x09 body c) (\<lambda>c op.
        (c, if op = OPCODE_ERROR then Err (''prepare error: '' @ from_utf8_lossy (ac_scratch c))
            else
              rbind (index_range (ac_scratch c) 0 4) (\<lambda>k.
                let kind = from_be_bytes k :: i32 in
                if kind \<noteq> 4 then Panic
                else rbind (index_range (ac_scratch c) 4 6) (\<lambda>l.
                       let idlen = unat (from_be_bytes l :: u16) in index_range (ac_scratch c) 6 (6 + idlen))))))"

section \<open>Workload\<close>

record conn_ctx =
  cc_insert_id :: bytes
  cc_select_id :: bytes
  cc_rng :: u64
  cc_value :: bytes
  cc_mode :: mode
  cc_keys :: u64
  cc_filled :: u64
  cc_next_stream :: i16

definition ctx_rand :: "conn_ctx \<Rightarrow> conn_ctx \<times> u64" where
  "ctx_rand ctx =
     (let x = cc_rng ctx; x = x XOR push_bit 13 x; x = x XOR drop_bit 7 x; x = x XOR push_bit 17 x
      in (ctx\<lparr>cc_rng := x\<rparr>, x))"

definition build_op :: "conn_ctx \<Rightarrow> nat \<Rightarrow> bytes \<Rightarrow> (conn_ctx \<times> bytes) \<times> bool anyhow" where
  "build_op ctx i_in_batch out =
     (case (case cc_mode ctx of
              ModeWrite \<Rightarrow> (case ctx_rand ctx of (ctx, x) \<Rightarrow> (ctx, rbind (rem_u64 x (cc_keys ctx)) (\<lambda>r. Ok (1 + r))))
            | _ \<Rightarrow> (case ctx_rand ctx of (ctx, x) \<Rightarrow> (ctx, rbind (rem_u64 x (max (cc_filled ctx) 1)) (\<lambda>r. Ok (1 + r))))) of
        (ctx, Ok k) \<Rightarrow>
          (let kbe = to_be_bytes (k :: u64);
               ins = (case cc_mode ctx of ModeWrite \<Rightarrow> True | ModeRead \<Rightarrow> False | ModeMixed \<Rightarrow> i_in_batch mod 2 = 0);
               (pid, flags) = (if ins then (cc_insert_id ctx, 0x01) else (cc_select_id ctx, 0x01 OR 0x02 :: byte));
               body = to_be_bytes (word_of_nat (length pid) :: u16);
               body = body @ pid;
               body = body @ to_be_bytes (0x0001 :: u16);
               body = body @ [flags];
               n_values = (if ins then 2 else 1 :: u16);
               body = body @ to_be_bytes n_values;
               body = (if ins then body @ to_be_bytes (8 :: i32) @ kbe @ to_be_bytes (len_i32 (length (cc_value ctx))) @ cc_value ctx
                       else body @ to_be_bytes (8 :: i32) @ kbe);
               s = cc_next_stream ctx;
               ctx = ctx\<lparr>cc_next_stream := (cc_next_stream ctx + 1) AND 0x7FFF\<rparr>
           in ((ctx, async_frame s 0x0A body out), Ok ins))
      | (ctx, Err e) \<Rightarrow> ((ctx, out), Err e)
      | (ctx, Halt h) \<Rightarrow> ((ctx, out), Halt h))"

section \<open>Setup and fill\<close>

definition async_setup :: "'w net \<Rightarrow> bench_args \<Rightarrow> 'w \<Rightarrow> 'w \<times> 'w async_conn anyhow" where
  "async_setup N args w =
     and_then (async_connect N (ba_addr args) w) (\<lambda>w c.
       let body = to_be_bytes (1 :: u16) @ to_be_bytes (11 :: u16) @ str_bytes ''CQL_VERSION''
                  @ to_be_bytes (5 :: u16) @ str_bytes ''3.0.0'' in
       case and_then (async_send N 0 0x01 body c) (\<lambda>c op.
            if op \<noteq> OPCODE_READY then (c, Panic) else
            and_then (async_roundtrip_query N ''DROP KEYSPACE bench'' True c) (\<lambda>c _.
            and_then (async_roundtrip_query N
              ''CREATE KEYSPACE bench WITH replication = {'class': 'SimpleStrategy', 'replication_factor': 1}'' False c) (\<lambda>c _.
            and_then (async_roundtrip_query N ''CREATE TABLE bench.kv (id bigint PRIMARY KEY, val text)'' False c) (\<lambda>c _.
              (c, Ok ()))))) of
         (c, r) \<Rightarrow> (ac_sock c, rbind r (\<lambda>_. Ok c)))"

fun async_read_acks :: "'w net \<Rightarrow> nat \<Rightarrow> 'w async_conn \<Rightarrow> 'w async_conn \<times> unit anyhow" where
  "async_read_acks N 0 c = (c, Ok ())"
| "async_read_acks N (Suc n) c =
     and_then (async_read_response N c) (\<lambda>c op.
       if op = OPCODE_ERROR then (c, Err (''fill error: '' @ from_utf8_lossy (ac_scratch c))) else async_read_acks N n c)"

record async_fill =
  af_ctx :: conn_ctx
  af_out :: bytes
  af_pending :: nat
  af_key :: u64

text \<open>A batch also ends when its buffer has passed 1 MiB.\<close>

function async_fill_batch :: "bench_args \<Rightarrow> async_fill \<Rightarrow> async_fill anyhow" where
  "async_fill_batch args f =
     (if af_pending f < ba_pipeline args \<and> af_key f \<le> ba_fill_keys args then
        (case build_op (af_ctx f) (af_pending f) (af_out f) of
           ((ctx, out), r) \<Rightarrow> rbind r (\<lambda>_.
             let f = \<lparr>af_ctx = ctx, af_out = out, af_pending = af_pending f + 1, af_key = af_key f + 1\<rparr> in
             if 1024 * 1024 < length out then Ok f else async_fill_batch args f))
      else Ok f)"
  by auto
termination by (relation "measure (\<lambda>(args, f). ba_pipeline args - af_pending f)") auto

declare async_fill_batch.simps [simp del]

partial_function (option) async_fill_loop ::
  "'w net \<Rightarrow> bench_args \<Rightarrow> async_fill \<Rightarrow> 'w async_conn \<Rightarrow> ('w async_conn \<times> unit anyhow) option" where
  "async_fill_loop N args f c =
     (if af_key f \<le> ba_fill_keys args then
        (case async_fill_batch args (f\<lparr>af_out := []\<rparr>) of
           Ok f \<Rightarrow>
             (case and_then (on_async (nt_write N (af_out f)) c) (\<lambda>c _. async_read_acks N (af_pending f) c) of
                (c, Ok _) \<Rightarrow> async_fill_loop N args (f\<lparr>af_pending := 0\<rparr>) c
              | (c, Err e) \<Rightarrow> Some (c, Err e)
              | (c, Halt h) \<Rightarrow> Some (c, Halt h))
         | Err e \<Rightarrow> Some (c, Err e)
         | Halt h \<Rightarrow> Some (c, Halt h))
      else Some (c, Ok ()))"

definition async_fill_start :: "bench_args \<Rightarrow> bytes \<Rightarrow> async_fill" where
  "async_fill_start args ins_id =
     \<lparr>af_ctx = \<lparr>cc_insert_id = ins_id, cc_select_id = [], cc_rng = 0x9E3779B97F4A7C15,
                cc_value = replicate (ba_value_len args) (0x78 :: byte), cc_mode = ModeWrite,
                cc_keys = max (ba_fill_keys args) 1, cc_filled = 0, cc_next_stream = 0\<rparr>,
      af_out = [], af_pending = 0, af_key = 1\<rparr>"

definition async_bench_fill :: "'w net \<Rightarrow> bench_args \<Rightarrow> 'w async_conn \<Rightarrow> ('w async_conn \<times> unit anyhow) option" where
  "async_bench_fill N args c =
     (if ba_mode args \<noteq> ModeWrite \<and> 0 < ba_fill_keys args then
        (case prepare_stmt N INSERT_CQL c of
           (c, Ok ins_id) \<Rightarrow> async_fill_loop N args (async_fill_start args ins_id) c
         | (c, Err e) \<Rightarrow> Some (c, Err e)
         | (c, Halt h) \<Rightarrow> Some (c, Halt h))
      else Some (c, Ok ()))"

section \<open>Workers\<close>

definition async_seed :: "bool \<Rightarrow> nat \<Rightarrow> u64 anyhow" where
  "async_seed checks cid =
     rbind (mul_u64 checks (word_of_nat cid + 7) 0x9E3779B97F4A7C15) (\<lambda>p. Ok (0x2545F4914F6CDD1D XOR p))"

text \<open>A worker sends no STARTUP.\<close>

definition async_worker_start ::
  "bool \<Rightarrow> 'w net \<Rightarrow> bench_args \<Rightarrow> nat \<Rightarrow> 'w \<Rightarrow> 'w \<times> ('w async_conn \<times> conn_ctx) anyhow" where
  "async_worker_start checks N args cid w =
     and_then (async_connect N (ba_addr args) w) (\<lambda>w c.
       case and_then (prepare_stmt N INSERT_CQL c) (\<lambda>c ins_id.
            and_then (prepare_stmt N SELECT_CQL c) (\<lambda>c sel_id.
              (c, rbind (async_seed checks cid) (\<lambda>rng.
                 Ok \<lparr>cc_insert_id = ins_id, cc_select_id = sel_id, cc_rng = rng,
                     cc_value = replicate (ba_value_len args) (0x76 :: byte), cc_mode = ba_mode args, cc_keys = ba_keys args,
                     cc_filled = max (min (ba_fill_keys args) (ba_keys args)) 1, cc_next_stream = 0\<rparr>)))) of
         (c, r) \<Rightarrow> (ac_sock c, rbind r (\<lambda>ctx. Ok (c, ctx))))"

fun async_batch :: "nat list \<Rightarrow> conn_ctx \<Rightarrow> bytes \<Rightarrow> (conn_ctx \<times> bytes) \<times> unit anyhow" where
  "async_batch [] ctx wb = ((ctx, wb), Ok ())"
| "async_batch (i # is) ctx wb =
     (case build_op ctx i wb of
        ((ctx, wb), Ok _) \<Rightarrow> async_batch is ctx wb
      | (st, Err e) \<Rightarrow> (st, Err e)
      | (st, Halt h) \<Rightarrow> (st, Halt h))"

fun async_read_results :: "'w net \<Rightarrow> nat \<Rightarrow> 'w async_conn \<times> totals \<Rightarrow> ('w async_conn \<times> totals) \<times> unit anyhow" where
  "async_read_results N 0 ct = (ct, Ok ())"
| "async_read_results N (Suc n) (c, tt) =
     (case async_read_response N c of
        (c, Ok op) \<Rightarrow>
          async_read_results N n
            (c, if op = OPCODE_ERROR then
                  tt\<lparr>tt_err := tt_err tt + 1,
                     tt_first_err := (case tt_first_err tt of None \<Rightarrow> Some (from_utf8_lossy (ac_scratch c)) | Some e \<Rightarrow> Some e)\<rparr>
                else tt)
      | (c, Err e) \<Rightarrow> ((c, tt), Err e)
      | (c, Halt h) \<Rightarrow> ((c, tt), Halt h))"

definition async_worker_batch ::
  "'w net \<Rightarrow> bench_args \<Rightarrow> 'w async_conn \<times> conn_ctx \<times> totals \<Rightarrow> ('w async_conn \<times> conn_ctx \<times> totals) \<times> unit anyhow" where
  "async_worker_batch N args st =
     (case st of (c, ctx, tt) \<Rightarrow>
      let n = ba_pipeline args in
      (case async_batch [0..<n] ctx [] of
         ((ctx, wb), built) \<Rightarrow>
           let c = c\<lparr>ac_write_buf := wb\<rparr> in
           (case built of
              Ok _ \<Rightarrow>
                (case on_async (nt_write N wb) c of
                   (c, Ok _) \<Rightarrow>
                     (case async_read_results N n (c, tt) of
                        ((c, tt), Ok _) \<Rightarrow> ((c, ctx, tt\<lparr>tt_ops := tt_ops tt + word_of_nat n\<rparr>), Ok ())
                      | ((c, tt), r) \<Rightarrow> ((c, ctx, tt), r))
                 | (c, r) \<Rightarrow> ((c, ctx, tt), r))
            | r \<Rightarrow> ((c, ctx, tt), r))))"

end
