(* ===== verification/BenchRun.thy ===== *)
theory BenchRun
  imports Bench BenchAsync
begin

text \<open>
  The measured phase of the network clients (\<^verbatim>\<open>main\<close> of \<^verbatim>\<open>src/src/bin/bench.rs\<close> and of \<^verbatim>\<open>src/src/bin/bench_async.rs\<close>): one worker
  per connection, the barrier at which they meet, the flag that ends their loops, and the joins before the report. Each worker has a
  socket of its own; the counters are shared. The phase is a step relation, so that its theorems hold for every interleaving.
\<close>

declare split_paired_All [simp del] split_paired_Ex [simp del]

section \<open>Workers and their barrier\<close>

datatype 'w worker = Starting | AtBarrier 'w | Running 'w | Ended "unit anyhow"

record 'w run =
  rn_workers :: "'w worker list"
  rn_running :: bool
  rn_totals :: totals

definition run_start :: "nat \<Rightarrow> 'w run" where
  "run_start n = \<lparr>rn_workers = replicate n Starting, rn_running = True, rn_totals = \<lparr>tt_ops = 0, tt_err = 0, tt_first_err = None\<rparr>\<rparr>"

text \<open>The worker before the barrier, and one turn of its loop, are arguments: they differ between the clients.\<close>

inductive run_step ::
  "(nat \<Rightarrow> 'w anyhow) \<Rightarrow> ('w \<times> totals \<Rightarrow> ('w \<times> totals) \<times> unit anyhow) \<Rightarrow> 'w run \<Rightarrow> 'w run \<Rightarrow> bool" for start batch where
  arrive: "i < length (rn_workers r) \<Longrightarrow> rn_workers r ! i = Starting \<Longrightarrow> start i = Ok w \<Longrightarrow>
    run_step start batch r (r\<lparr>rn_workers := (rn_workers r)[i := AtBarrier w]\<rparr>)"
| start_fails: "i < length (rn_workers r) \<Longrightarrow> rn_workers r ! i = Starting \<Longrightarrow> start i = Err e \<Longrightarrow>
    run_step start batch r (r\<lparr>rn_workers := (rn_workers r)[i := Ended (Err e)]\<rparr>)"
| start_panics: "i < length (rn_workers r) \<Longrightarrow> rn_workers r ! i = Starting \<Longrightarrow> start i = Panic \<Longrightarrow>
    run_step start batch r (r\<lparr>rn_workers := (rn_workers r)[i := Ended Panic]\<rparr>)"
| release: "rn_workers r = map AtBarrier ws \<Longrightarrow> run_step start batch r (r\<lparr>rn_workers := map Running ws\<rparr>)"
| turn: "i < length (rn_workers r) \<Longrightarrow> rn_workers r ! i = Running w \<Longrightarrow> rn_running r \<Longrightarrow>
    batch (w, rn_totals r) = ((w', tt), Ok ()) \<Longrightarrow>
    run_step start batch r (r\<lparr>rn_workers := (rn_workers r)[i := Running w'], rn_totals := tt\<rparr>)"
| turn_fails: "i < length (rn_workers r) \<Longrightarrow> rn_workers r ! i = Running w \<Longrightarrow> rn_running r \<Longrightarrow>
    batch (w, rn_totals r) = ((w', tt), x) \<Longrightarrow> x \<noteq> Ok () \<Longrightarrow> x \<noteq> Hang \<Longrightarrow>
    run_step start batch r (r\<lparr>rn_workers := (rn_workers r)[i := Ended x], rn_totals := tt\<rparr>)"
| stop: "i < length (rn_workers r) \<Longrightarrow> rn_workers r ! i = Running w \<Longrightarrow> \<not> rn_running r \<Longrightarrow>
    run_step start batch r (r\<lparr>rn_workers := (rn_workers r)[i := Ended (Ok ())]\<rparr>)"
| time_up: "run_step start batch r (r\<lparr>rn_running := False\<rparr>)"

section \<open>The report\<close>

record report =
  rp_ops :: u64
  rp_errors :: u64
  rp_first_error :: "string option"
  rp_failures :: "string list"

text \<open>
  \<^verbatim>\<open>main\<close> joins the workers in turn: it waits for each, a panic of one is a panic of \<^verbatim>\<open>main\<close>, and errors are kept for the
  report. \<open>None\<close> is that it still waits.
\<close>

fun join_workers :: "'w worker list \<Rightarrow> string list anyhow option" where
  "join_workers [] = Some (Ok [])"
| "join_workers (Ended (Ok ()) # ws) = join_workers ws"
| "join_workers (Ended (Err e) # ws) = map_option (\<lambda>x. rbind x (\<lambda>es. Ok (e # es))) (join_workers ws)"
| "join_workers (Ended Panic # ws) = Some Panic"
| "join_workers (_ # ws) = None"

definition run_report :: "'w run \<Rightarrow> report anyhow option" where
  "run_report r =
     map_option (\<lambda>x. rbind x (\<lambda>failures. Ok
       \<lparr>rp_ops = tt_ops (rn_totals r), rp_errors = tt_err (rn_totals r), rp_first_error = tt_first_err (rn_totals r), rp_failures = failures\<rparr>))
     (join_workers (rn_workers r))"

section \<open>The two clients\<close>

text \<open>\<open>socks cid\<close> is the world of the socket that worker \<open>cid\<close> opens.\<close>

definition bench_worker :: "bool \<Rightarrow> 'w net \<Rightarrow> bench_args \<Rightarrow> (nat \<Rightarrow> 'w) \<Rightarrow> nat \<Rightarrow> ('w bench_conn \<times> workload) anyhow" where
  "bench_worker checks N args socks cid = snd (worker_start checks N args cid (socks cid))"

definition bench_turn ::
  "'w net \<Rightarrow> bench_args \<Rightarrow> ('w bench_conn \<times> workload) \<times> totals \<Rightarrow> (('w bench_conn \<times> workload) \<times> totals) \<times> unit anyhow" where
  "bench_turn N args st =
     (case st of ((c, wl), tt) \<Rightarrow> (case worker_batch N args (c, wl, tt) of ((c, wl, tt), r) \<Rightarrow> (((c, wl), tt), r)))"

definition async_worker :: "bool \<Rightarrow> 'w net \<Rightarrow> bench_args \<Rightarrow> (nat \<Rightarrow> 'w) \<Rightarrow> nat \<Rightarrow> ('w async_conn \<times> conn_ctx) anyhow" where
  "async_worker checks N args socks cid = snd (async_worker_start checks N args cid (socks cid))"

definition async_turn ::
  "'w net \<Rightarrow> bench_args \<Rightarrow> ('w async_conn \<times> conn_ctx) \<times> totals \<Rightarrow> (('w async_conn \<times> conn_ctx) \<times> totals) \<times> unit anyhow" where
  "async_turn N args st =
     (case st of ((c, ctx), tt) \<Rightarrow> (case async_worker_batch N args (c, ctx, tt) of ((c, ctx, tt), r) \<Rightarrow> (((c, ctx), tt), r)))"

text \<open>
  \<^verbatim>\<open>main\<close>, as what it may report: setup and fill on a connection of their own, then the measured phase under any interleaving. The
  asynchronous client prints at most three failures.
\<close>

definition main_outcome :: "'s \<times> 'c anyhow \<Rightarrow> ('c \<Rightarrow> ('c \<times> unit anyhow) option) \<Rightarrow> (report anyhow \<Rightarrow> bool) \<Rightarrow> report anyhow \<Rightarrow> bool" where
  "main_outcome setup fill measured rep =
     (case snd setup of
        Ok c \<Rightarrow> (case map_option snd (fill c) of
                   Some (Ok _) \<Rightarrow> measured rep
                 | Some (Err e) \<Rightarrow> rep = Err e
                 | Some (Halt h) \<Rightarrow> h = Panicked \<and> rep = Panic
                 | None \<Rightarrow> False)
      | Err e \<Rightarrow> rep = Err e
      | Halt h \<Rightarrow> h = Panicked \<and> rep = Panic)"

definition bench_main :: "bool \<Rightarrow> 'w net \<Rightarrow> bench_args \<Rightarrow> (nat \<Rightarrow> 'w) \<Rightarrow> 'w \<Rightarrow> report anyhow \<Rightarrow> bool" where
  "bench_main checks N args socks w =
     main_outcome (bench_setup N args w) (bench_fill N args) (\<lambda>rep.
       \<exists>r. (run_step (bench_worker checks N args socks) (bench_turn N args))\<^sup>*\<^sup>* (run_start (ba_conns args)) r \<and> run_report r = Some rep)"

definition async_main :: "bool \<Rightarrow> 'w net \<Rightarrow> bench_args \<Rightarrow> (nat \<Rightarrow> 'w) \<Rightarrow> 'w \<Rightarrow> report anyhow \<Rightarrow> bool" where
  "async_main checks N args socks w =
     main_outcome (async_setup N args w) (async_bench_fill N args) (\<lambda>rep.
       \<exists>r x. (run_step (async_worker checks N args socks) (async_turn N args))\<^sup>*\<^sup>* (run_start (ba_conns args)) r \<and> run_report r = Some x \<and>
         rep = rbind x (\<lambda>rp. Ok (rp\<lparr>rp_failures := take 3 (rp_failures rp)\<rparr>)))"

lemma main_outcome_Ok: "main_outcome setup fill measured (Ok rep) \<Longrightarrow> measured (Ok rep)"
  by (auto simp: main_outcome_def split: result.splits option.splits)

section \<open>When a report is reached\<close>

lemma join_workers_None:
  "join_workers ws = None \<longleftrightarrow> (\<exists>i<length ws. (\<forall>x. ws ! i = Ended x \<longrightarrow> x = Hang) \<and> (\<forall>j<i. ws ! j \<noteq> Ended Panic))"
  by (induction ws rule: join_workers.induct) (simp_all add: All_less_Suc2 Ex_less_Suc2)

lemma run_report_None: "run_report r = None \<longleftrightarrow> join_workers (rn_workers r) = None"
  by (simp add: run_report_def)

text \<open>Where a worker is once it has been scheduled before the barrier.\<close>

definition started :: "(nat \<Rightarrow> 'w anyhow) \<Rightarrow> nat \<Rightarrow> 'w worker" where
  "started start i = (case start i of Ok w \<Rightarrow> AtBarrier w | Err e \<Rightarrow> Ended (Err e) | Halt Panicked \<Rightarrow> Ended Panic | Halt Diverged \<Rightarrow> Starting)"

lemma started_iff [simp]:
  "started start i = AtBarrier w \<longleftrightarrow> start i = Ok w" "started start i = Ended Panic \<longleftrightarrow> start i = Panic" "started start i \<noteq> Running w"
  "(\<forall>x. started start i = Ended x \<longrightarrow> x = Hang) \<longleftrightarrow> (\<exists>w. start i = Ok w) \<or> start i = Hang"
  by (auto simp: started_def split: result.split halt.split)

lemma start_step:
  "i < length (rn_workers r) \<Longrightarrow> rn_workers r ! i = Starting \<Longrightarrow>
     (run_step start batch)\<^sup>=\<^sup>= r (r\<lparr>rn_workers := (rn_workers r)[i := started start i]\<rparr>)"
  using list_update_id [of "rn_workers r" i]
  by (auto simp: started_def intro: run_step.intros split: result.split halt.split)

text \<open>A step that every worker can take, one after the other.\<close>

lemma each_worker:
  assumes step: "\<And>r i. i < length (rn_workers r) \<Longrightarrow> rn_workers r ! i = f i \<Longrightarrow> rn_running r = b \<Longrightarrow>
      (run_step start batch)\<^sup>=\<^sup>= r (r\<lparr>rn_workers := (rn_workers r)[i := g i]\<rparr>)"
    and "rn_workers r = map f [0..<n]" and "rn_running r = b"
  shows "(run_step start batch)\<^sup>*\<^sup>* r (r\<lparr>rn_workers := map g [0..<n]\<rparr>)"
proof -
  have "(run_step start batch)\<^sup>*\<^sup>* r (r\<lparr>rn_workers := map g [0..<m] @ map f [m..<n]\<rparr>)" if "m \<le> n" for m
    using that
  proof (induction m)
    case 0
    then show ?case using assms(2) by (simp add: rtranclp.rtrancl_refl flip: assms(2))
  next
    case (Suc m)
    let ?r = "r\<lparr>rn_workers := map g [0..<m] @ map f [m..<n]\<rparr>"
    have "(run_step start batch)\<^sup>=\<^sup>= ?r (?r\<lparr>rn_workers := (rn_workers ?r)[m := g m]\<rparr>)"
      using Suc.prems assms(3) by (intro step) (simp_all add: nth_append)
    moreover have "(rn_workers ?r)[m := g m] = map g [0..<Suc m] @ map f [Suc m..<n]"
      using Suc.prems by (simp add: list_update_append upt_conv_Cons)
    ultimately show ?case using Suc by (auto intro: rtranclp.rtrancl_into_rtrancl)
  qed
  from this [of n] show ?thesis by simp
qed

lemma all_started: "(run_step start batch)\<^sup>*\<^sup>* (run_start n) ((run_start n)\<lparr>rn_workers := map (started start) [0..<n]\<rparr>)"
  by (rule each_worker [where f = "\<lambda>_. Starting" and b = True]) (auto simp: run_start_def map_replicate_const simp del: sup2CI dest: start_step [of _ _ start batch])

text \<open>Once a worker has failed to start, no worker ever passes the barrier.\<close>

lemma barrier_holds:
  assumes "(run_step start batch)\<^sup>*\<^sup>* (run_start n) r" and "k < n" and "\<And>w. start k \<noteq> Ok w"
  shows "length (rn_workers r) = n \<and> (\<forall>i<n. rn_workers r ! i = Starting \<or> rn_workers r ! i = started start i)"
  using assms(1)
proof (induction rule: rtranclp_induct)
  case base
  show ?case by (simp add: run_start_def)
next
  case (step r r')
  have not_running: "rn_workers r ! i \<noteq> Running w" if "i < n" for i w
    using step.IH that started_iff(3) by (metis worker.distinct(3))
  have "\<not> (\<exists>ws. rn_workers r = map AtBarrier ws)"
  proof
    assume "\<exists>ws. rn_workers r = map AtBarrier ws"
    then obtain ws where ws: "rn_workers r = map AtBarrier ws" by blast
    with step.IH assms(2) have "AtBarrier (ws ! k) = started start k" by auto
    with started_iff(1) [of start k] assms(3) show False by metis
  qed
  with step.hyps(2) step.IH not_running show ?case
    by (cases rule: run_step.cases) (auto simp: nth_list_update started_def)
qed

text \<open>
  The measured phase of a network client ends with a report if and only if no worker that reaches the barrier is left there: a
  worker that fails to start, or that never gets through its start, does not arrive, the barrier counts it all the same, and \<^verbatim>\<open>main\<close> waits for ever on the first worker
  that is there or still starting, unless it meets a panic before. In particular, if one connection is refused and another is not, the
  failure is never reported.
\<close>

theorem run_reports_iff:
  "(\<exists>r. (run_step start batch)\<^sup>*\<^sup>* (run_start n) r \<and> run_report r \<noteq> None) \<longleftrightarrow>
     \<not> (\<exists>i<n. \<exists>k<n. ((\<exists>w. start i = Ok w) \<or> start i = Hang) \<and> (\<forall>j<i. start j \<noteq> Panic) \<and> (\<forall>w. start k \<noteq> Ok w))"
proof (cases "\<forall>k<n. \<exists>w. start k = Ok w")
  case True
  then obtain f where f: "\<And>k. k < n \<Longrightarrow> start k = Ok (f k)" by metis
  let ?r = "(run_start n)\<lparr>rn_workers := map (started start) [0..<n]\<rparr>"
  let ?b = "?r\<lparr>rn_workers := map Running (map f [0..<n])\<rparr>"
  have "rn_workers ?r = map AtBarrier (map f [0..<n])" using f by (simp add: started_def)
  then have "run_step start batch ?r ?b" by (rule release)
  then have "(run_step start batch)\<^sup>*\<^sup>* (run_start n) (?b\<lparr>rn_running := False\<rparr>)"
    using all_started [of start batch n] time_up [of start batch ?b] by (meson rtranclp.rtrancl_into_rtrancl)
  moreover have "(run_step start batch)\<^sup>*\<^sup>* (?b\<lparr>rn_running := False\<rparr>) (?b\<lparr>rn_running := False\<rparr>\<lparr>rn_workers := map (\<lambda>_. Ended (Ok ())) [0..<n]\<rparr>)"
    by (rule each_worker [where f = "\<lambda>i. Running (f i)" and b = False]) (auto intro: stop)
  ultimately have "(run_step start batch)\<^sup>*\<^sup>* (run_start n) (?b\<lparr>rn_running := False\<rparr>\<lparr>rn_workers := map (\<lambda>_. Ended (Ok ())) [0..<n]\<rparr>)"
    by (rule rtranclp_trans)
  moreover have "run_report (?b\<lparr>rn_running := False\<rparr>\<lparr>rn_workers := map (\<lambda>_. Ended (Ok ())) [0..<n]\<rparr>) \<noteq> None"
    by (simp add: run_report_None join_workers_None)
  ultimately show ?thesis using True by blast
next
  case False
  then obtain k where k: "k < n" "\<And>w. start k \<noteq> Ok w" by blast
  have none: "run_report r = None" if hang: "i < n" "(\<exists>w. start i = Ok w) \<or> start i = Hang" "\<forall>j<i. start j \<noteq> Panic"
    and r: "(run_step start batch)\<^sup>*\<^sup>* (run_start n) r" for i r
  proof -
    note held = barrier_holds [OF r k]
    have "\<forall>x. rn_workers r ! i = Ended x \<longrightarrow> x = Hang" using held hang(1,2) by (auto simp: started_def)
    moreover have "\<forall>j<i. rn_workers r ! j \<noteq> Ended Panic"
      using held hang(1,3) started_iff(2) by (metis less_trans worker.distinct(5))
    ultimately show ?thesis using held hang(1) by (auto simp: run_report_None join_workers_None)
  qed
  let ?r = "(run_start n)\<lparr>rn_workers := map (started start) [0..<n]\<rparr>"
  have "run_report ?r \<noteq> None" if "\<not> (\<exists>i<n. ((\<exists>w. start i = Ok w) \<or> start i = Hang) \<and> (\<forall>j<i. start j \<noteq> Panic))"
  proof
    assume "run_report ?r = None"
    then have "\<exists>i<n. ((\<exists>w. start i = Ok w) \<or> start i = Hang) \<and> (\<forall>j<i. start j \<noteq> Panic)" by (auto simp: run_report_None join_workers_None)
    with that show False by blast
  qed
  note report = this
  show ?thesis
  proof (cases "\<exists>i<n. ((\<exists>w. start i = Ok w) \<or> start i = Hang) \<and> (\<forall>j<i. start j \<noteq> Panic)")
    case True
    then obtain i where i: "i < n" "(\<exists>w. start i = Ok w) \<or> start i = Hang" "\<forall>j<i. start j \<noteq> Panic" by blast
    then have "\<exists>i<n. \<exists>k<n. ((\<exists>w. start i = Ok w) \<or> start i = Hang) \<and> (\<forall>j<i. start j \<noteq> Panic) \<and> (\<forall>w. start k \<noteq> Ok w)" using k by blast
    with none [OF i] show ?thesis by simp
  next
    case False
    then have "\<not> (\<exists>i<n. \<exists>k<n. ((\<exists>w. start i = Ok w) \<or> start i = Hang) \<and> (\<forall>j<i. start j \<noteq> Panic) \<and> (\<forall>w. start k \<noteq> Ok w))" by blast
    with report [OF False] all_started [of start batch n] show ?thesis by blast
  qed
qed

section \<open>What is reported\<close>

text \<open>The contract of a turn: a batch counts its operations once it is complete, and an error that is counted is kept if it is the first.\<close>

definition err_kept :: "totals \<Rightarrow> bool" where
  "err_kept tt \<longleftrightarrow> (tt_first_err tt = None \<longrightarrow> tt_err tt = 0)"

locale worker_loop =
  fixes batch :: "'w \<times> totals \<Rightarrow> ('w \<times> totals) \<times> unit anyhow" and n :: nat
  assumes batch_ops: "batch (w, tt) = ((w', tt'), x) \<Longrightarrow> tt_ops tt' = (if x = Ok () then tt_ops tt + word_of_nat n else tt_ops tt)"
    and batch_err: "batch (w, tt) = ((w', tt'), x) \<Longrightarrow> err_kept tt \<Longrightarrow> err_kept tt'"
begin

lemma run_totals:
  assumes "(run_step start batch)\<^sup>*\<^sup>* (run_start k) r"
  shows "(\<exists>m. tt_ops (rn_totals r) = word_of_nat (m * n)) \<and> err_kept (rn_totals r)"
  using assms
proof (induction rule: rtranclp_induct)
  case base
  show ?case by (auto simp: run_start_def err_kept_def intro: exI [of _ 0])
next
  case (step r r')
  then obtain m where m: "tt_ops (rn_totals r) = word_of_nat (m * n)" and err: "err_kept (rn_totals r)" by blast
  from step.hyps(2) show ?case
  proof (cases rule: run_step.cases)
    case (turn i w w' tt)
    have "tt_ops tt = word_of_nat (Suc m * n)" using batch_ops [OF turn(5)] m by (simp add: algebra_simps)
    with turn(1) batch_err [OF turn(5) err] show ?thesis by (intro conjI exI [of _ "Suc m"]) simp_all
  next
    case (turn_fails i w w' tt x)
    with batch_ops [OF turn_fails(5)] batch_err [OF turn_fails(5) err] m show ?thesis by auto
  qed (use m err in auto)
qed

end

lemma read_results_totals:
  "read_results N n (c, tt) = ((c', tt'), x) \<Longrightarrow> tt_ops tt' = tt_ops tt \<and> (err_kept tt \<longrightarrow> err_kept tt')"
proof (induction n arbitrary: c tt)
  case (Suc n)
  have "tt_ops (count_response op payload tt) = tt_ops tt" "err_kept tt \<Longrightarrow> err_kept (count_response op payload tt)" for op payload
    by (simp_all add: count_response_def err_kept_def split: option.split)
  with Suc show ?case by (fastforce split: prod.splits result.splits)
qed simp

lemma async_read_results_totals:
  "async_read_results N n (c, tt) = ((c', tt'), x) \<Longrightarrow> tt_ops tt' = tt_ops tt \<and> (err_kept tt \<longrightarrow> err_kept tt')"
proof (induction n arbitrary: c tt)
  case (Suc n)
  show ?case
  proof (cases "async_read_response N c")
    case (Pair c1 y)
    show ?thesis
    proof (cases y)
      case (Ok op)
      let ?tt = "if op = OPCODE_ERROR then tt\<lparr>tt_err := tt_err tt + 1, tt_first_err :=
        (case tt_first_err tt of None \<Rightarrow> Some (from_utf8_lossy (ac_scratch c1)) | Some e \<Rightarrow> Some e)\<rparr> else tt"
      have "async_read_results N n (c1, ?tt) = ((c', tt'), x)" using Suc.prems Pair Ok by simp
      from Suc.IH [OF this] show ?thesis by (auto simp: err_kept_def split: option.splits if_splits)
    qed (use Suc.prems Pair in auto)
  qed
qed simp

interpretation sync_loop: worker_loop "bench_turn N args" "ba_pipeline args" for N :: "'w net" and args
proof
  fix w w' :: "'w bench_conn \<times> workload" and tt tt' x
  assume t: "bench_turn N args (w, tt) = ((w', tt'), x)"
  show "tt_ops tt' = (if x = Ok () then tt_ops tt + word_of_nat (ba_pipeline args) else tt_ops tt)"
    using t by (auto simp: bench_turn_def worker_batch_def Let_def dest!: read_results_totals split: prod.splits result.splits)
  show "err_kept tt'" if "err_kept tt"
    using t that by (auto simp: bench_turn_def worker_batch_def Let_def err_kept_def dest!: read_results_totals split: prod.splits result.splits)
qed

interpretation async_loop: worker_loop "async_turn N args" "ba_pipeline args" for N :: "'w net" and args
proof
  fix w w' :: "'w async_conn \<times> conn_ctx" and tt tt' x
  assume t: "async_turn N args (w, tt) = ((w', tt'), x)"
  show "tt_ops tt' = (if x = Ok () then tt_ops tt + word_of_nat (ba_pipeline args) else tt_ops tt)"
    using t by (auto simp: async_turn_def async_worker_batch_def Let_def dest!: async_read_results_totals split: prod.splits result.splits)
  show "err_kept tt'" if "err_kept tt"
    using t that by (auto simp: async_turn_def async_worker_batch_def Let_def err_kept_def dest!: async_read_results_totals split: prod.splits result.splits)
qed

text \<open>
  What a network client reports, for any server and any interleaving of its workers: the number of operations is a number of
  whole batches, and if it counted an error it shows the first. A batch that fails is not counted, although errors in its
  responses are.
\<close>

theorem bench_report_sound:
  assumes "bench_main checks N args socks w (Ok rep)"
  shows "(\<exists>m. rp_ops rep = word_of_nat (m * ba_pipeline args)) \<and> (rp_errors rep \<noteq> 0 \<longrightarrow> rp_first_error rep \<noteq> None)"
proof -
  from assms obtain r where "(run_step (bench_worker checks N args socks) (bench_turn N args))\<^sup>*\<^sup>* (run_start (ba_conns args)) r" "run_report r = Some (Ok rep)"
    unfolding bench_main_def by (blast dest: main_outcome_Ok)
  with sync_loop.run_totals [OF this(1)] show ?thesis by (auto simp: run_report_def err_kept_def result_simps simp del: of_nat_mult)
qed

theorem async_report_sound:
  assumes "async_main checks N args socks w (Ok rep)"
  shows "(\<exists>m. rp_ops rep = word_of_nat (m * ba_pipeline args)) \<and> (rp_errors rep \<noteq> 0 \<longrightarrow> rp_first_error rep \<noteq> None) \<and> length (rp_failures rep) \<le> 3"
proof -
  from assms obtain r x where "(run_step (async_worker checks N args socks) (async_turn N args))\<^sup>*\<^sup>* (run_start (ba_conns args)) r" "run_report r = Some x"
    "Ok rep = rbind x (\<lambda>rp. Ok (rp\<lparr>rp_failures := take 3 (rp_failures rp)\<rparr>))"
    unfolding async_main_def by (blast dest: main_outcome_Ok)
  with async_loop.run_totals [OF this(1)] show ?thesis by (cases x) (auto simp: run_report_def err_kept_def result_simps simp del: of_nat_mult)
qed

text \<open>
  A client of which one connection is refused after another was accepted never reports: once setup and fill are done there is no
  outcome, not even an error.
\<close>

theorem bench_main_hangs:
  assumes "bench_setup N args w = (w1, Ok c)" and "bench_fill N args c = Some (c1, Ok ())"
    and "i < ba_conns args" and "bench_worker checks N args socks i = Ok x" and "\<forall>j<i. bench_worker checks N args socks j \<noteq> Panic"
    and "k < ba_conns args" and "bench_worker checks N args socks k = Err e"
  shows "\<not> bench_main checks N args socks w rep"
proof -
  have "\<exists>i<ba_conns args. \<exists>k<ba_conns args. ((\<exists>w. bench_worker checks N args socks i = Ok w) \<or> bench_worker checks N args socks i = Hang) \<and>
      (\<forall>j<i. bench_worker checks N args socks j \<noteq> Panic) \<and> (\<forall>w. bench_worker checks N args socks k \<noteq> Ok w)"
    using assms(3-6) by (intro exI [of _ i] conjI exI [of _ k]) (simp_all add: assms(7))
  then show ?thesis
    using run_reports_iff [of "bench_worker checks N args socks" "bench_turn N args" "ba_conns args"] assms(1,2) by (auto simp: bench_main_def main_outcome_def)
qed

end
