(* ===== verification/BenchSpec.thy ===== *)
theory BenchSpec
  imports BenchAsync
begin

text \<open>
  Properties of the network benchmark clients: that the server reads from the bytes of a batch exactly
  the requests meant, that the two clients build the same ones, that the keys are drawn from the range
  asked for, and when the fill of the table ends.
\<close>

section \<open>Frames on the wire\<close>

text \<open>A request as the server reads it off the front of its input.\<close>

definition read_request :: "frame_libs \<Rightarrow> conn_shared \<Rightarrow> bytes \<Rightarrow> ((i16 \<times> byte \<times> bytes) \<times> bytes) anyhow" where
  "read_request P c input =
     (case next_frame P c input of Request stream opcode body rest \<Rightarrow> Ok ((stream, opcode, body), rest) | _ \<Rightarrow> Err [])"

definition enc_request :: "i16 \<times> byte \<times> bytes \<Rightarrow> bytes" where
  "enc_request q = (case q of (stream, opcode, body) \<Rightarrow> client_frame stream opcode body [])"

definition request_fits :: "i16 \<times> byte \<times> bytes \<Rightarrow> bool" where
  "request_fits q \<longleftrightarrow> length (snd (snd q)) \<le> MAX_FRAME_LENGTH"

lemma client_frame_append: "client_frame stream opcode body out = out @ client_frame stream opcode body []"
  by (simp add: client_frame_def)

lemma list_of_2: "length xs = 2 \<Longrightarrow> [xs ! 0, xs ! 1] = xs"
  by (auto simp: numeral_eq_Suc length_Suc_conv)

lemma list_of_4: "length xs = 4 \<Longrightarrow> [xs ! 0, xs ! Suc 0, xs ! 2, xs ! 3] = xs"
  by (auto simp: numeral_eq_Suc length_Suc_conv)

lemma client_frame_bytes:
  "client_frame stream opcode body [] @ rest =
     [0x04, 0, to_be_bytes stream ! 0, to_be_bytes stream ! 1, opcode] @ to_be_bytes (word_of_nat (length body) :: 32 word) @ body @ rest"
  using list_of_2 [of "to_be_bytes stream"] by (simp add: client_frame_def)

lemma next_frame_client:
  assumes "length body \<le> MAX_FRAME_LENGTH"
  shows "next_frame P c (client_frame stream opcode body [] @ rest) = Request stream opcode body rest"
proof -
  have len: "unat (word_of_nat (length body) :: 32 word) = length body"
    using assms by (simp add: MAX_FRAME_LENGTH_def unat_of_nat take_bit_nat_eq_self)
  show ?thesis
    using assms
      list_of_2 [of "to_be_bytes stream"] list_of_4 [of "to_be_bytes (word_of_nat (length body) :: 32 word)"]
    by (simp add: client_frame_bytes next_frame_def Let_def nth_append len del: One_nat_def)
qed

interpretation client_requests: stream_code enc_request "read_request P c" request_fits
  by unfold_locales
     (auto simp: enc_request_def read_request_def request_fits_def next_frame_client, simp add: client_frame_def)

section \<open>What the server decodes\<close>

text \<open>
  What \<^verbatim>\<open>scylla-cql\<close> documents of reading the parts of a request that the clients send: short bytes, a long
  string, and query parameters with the consistency ONE, which carry values or nothing but the
  consistency.
\<close>

definition enc_value :: "bytes \<Rightarrow> bytes" where
  "enc_value v = to_be_bytes (len_i32 (length v)) @ v"

definition plain_params :: "bytes list \<Rightarrow> bool \<Rightarrow> query_params" where
  "plain_params vs skip = \<lparr>qp_values = map RawBytes vs, qp_page_size = None, qp_paging_state = None, qp_skip_metadata = skip\<rparr>"

definition request_readers_ok :: "frame_libs \<Rightarrow> bool" where
  "request_readers_ok P \<longleftrightarrow>
     (\<forall>b rest. length b < 2 ^ 16 \<longrightarrow>
        fr_read_short_bytes P (to_be_bytes (word_of_nat (length b) :: u16) @ b @ rest) = Some (b, rest)) \<and>
     (\<forall>s. length s < 2 ^ 31 \<and> utf8_valid s \<longrightarrow>
        fr_read_long_string P (to_be_bytes (len_i32 (length s)) @ str_bytes s) = Some s) \<and>
     (\<forall>s. length s < 2 ^ 31 \<and> utf8_valid s \<longrightarrow>
        fr_query P (to_be_bytes (len_i32 (length s)) @ str_bytes s @ [0, 1] @ [0]) = Some (s, plain_params [] False)) \<and>
     (\<forall>vs skip. length vs < 2 ^ 16 \<and> list_all (\<lambda>v. length v < 2 ^ 31) vs \<longrightarrow>
        fr_params P ([0, 1] @ [if skip then 0x03 else 0x01] @ to_be_bytes (word_of_nat (length vs) :: u16) @ concat (map enc_value vs))
          = Some (plain_params vs skip))"

text \<open>Readers that do as documented.\<close>

definition dec_short_bytes :: "bytes \<Rightarrow> (bytes \<times> bytes) option" where
  "dec_short_bytes b =
     (let n = unat (from_be_bytes (take 2 b) :: u16) in
      if length b < 2 + n then None else Some (take n (drop 2 b), drop (2 + n) b))"

definition dec_long_string :: "bytes \<Rightarrow> (string \<times> bytes) option" where
  "dec_long_string b =
     (case read_bytes b of Ok (s, rest) \<Rightarrow> if utf8_valid (bytes_str s) then Some (bytes_str s, rest) else None | _ \<Rightarrow> None)"

definition dec_params :: "bytes \<Rightarrow> query_params option" where
  "dec_params b =
     (case b of
        c0 # c1 # flags # buf \<Rightarrow>
          if flags AND 0x01 = 0 then Some (plain_params [] (flags AND 0x02 \<noteq> 0))
          else (case read_n read_bytes (unat (from_be_bytes (take 2 buf) :: u16)) (drop 2 buf) of
                  Ok (vs, _) \<Rightarrow> Some (plain_params vs (flags AND 0x02 \<noteq> 0))
                | _ \<Rightarrow> None)
      | _ \<Rightarrow> None)"

definition wire_frames :: frame_libs where
  "wire_frames = plain_frames\<lparr>fr_read_short_bytes := dec_short_bytes,
     fr_read_long_string := \<lambda>b. map_option fst (dec_long_string b),
     fr_query := \<lambda>b. Option.bind (dec_long_string b) (\<lambda>(s, rest). map_option (Pair s) (dec_params rest)),
     fr_params := dec_params\<rparr>"

interpretation value_code: stream_code enc_value read_bytes "\<lambda>v. length v < 2 ^ 31"
  by unfold_locales (simp_all add: enc_value_def read_bytes_enc flip: length_0_conv)

lemma unat_of_len16: "n < 2 ^ 16 \<Longrightarrow> unat (word_of_nat n :: u16) = n"
  by (simp add: unat_of_nat take_bit_nat_eq_self)

lemma dec_long_string_enc:
  "length s < 2 ^ 31 \<Longrightarrow> utf8_valid s \<Longrightarrow> dec_long_string (to_be_bytes (len_i32 (length s)) @ str_bytes s @ rest) = Some (s, rest)"
  using read_bytes_enc [of "str_bytes s" rest] by (simp add: dec_long_string_def)

lemma wire_frames_ok: "frame_libs_ok wire_frames"
  using plain_frames_ok by (simp add: frame_libs_ok_def wire_frames_def)

lemma wire_frames_readers: "request_readers_ok wire_frames"
proof -
  have params: "dec_params ([0, 1] @ [if skip then 0x03 else 0x01] @ to_be_bytes (word_of_nat (length vs) :: u16) @ concat (map enc_value vs))
      = Some (plain_params vs skip)" if "length vs < 2 ^ 16" "list_all (\<lambda>v. length v < 2 ^ 31) vs" for vs skip
    using value_code.read_n_items [OF that(2), of "[]"] that(1) by (cases skip) (simp_all add: dec_params_def unat_of_len16)
  have "dec_params [0, 1, 0] = Some (plain_params [] False)" by (simp add: dec_params_def)
  moreover have "dec_short_bytes (to_be_bytes (word_of_nat (length b) :: u16) @ b @ rest) = Some (b, rest)" if "length b < 2 ^ 16" for b rest
    using that by (simp add: dec_short_bytes_def Let_def unat_of_len16)
  ultimately show ?thesis
    using params dec_long_string_enc [of _ "[]"]
    by (simp add: request_readers_ok_def wire_frames_def dec_long_string_enc)
qed

section \<open>Workload\<close>

definition xorshift :: "u64 \<Rightarrow> u64" where
  "xorshift x =
     (let x = x XOR push_bit 13 x; x = x XOR drop_bit 7 x in x XOR push_bit 17 x)"

text \<open>The range a workload draws its keys from, the key of its \<open>i\<close>th operation, and the request of an operation.\<close>

definition key_range :: "workload \<Rightarrow> u64" where
  "key_range wl = (if wl_mode wl = ModeWrite then wl_keys wl else max (wl_filled wl) 1)"

definition op_key :: "workload \<Rightarrow> nat \<Rightarrow> u64" where
  "op_key wl i = 1 + (xorshift ^^ Suc i) (wl_rng wl) mod key_range wl"

definition op_values :: "workload \<Rightarrow> bool \<Rightarrow> u64 \<Rightarrow> bytes list" where
  "op_values wl ins k = (if ins then [to_be_bytes k, wl_value wl] else [to_be_bytes k])"

definition op_id :: "workload \<Rightarrow> bool \<Rightarrow> bytes" where
  "op_id wl ins = (if ins then wl_insert_id wl else wl_select_id wl)"

definition op_body :: "workload \<Rightarrow> bool \<Rightarrow> u64 \<Rightarrow> bytes" where
  "op_body wl ins k =
     to_be_bytes (word_of_nat (length (op_id wl ins)) :: u16) @ op_id wl ins @ [0, 1] @ [if ins then 0x01 else 0x03]
     @ to_be_bytes (word_of_nat (length (op_values wl ins k)) :: u16) @ concat (map enc_value (op_values wl ins k))"

lemma fold_values: "fold (\<lambda>v out. out @ to_be_bytes (len_i32 (length v)) @ v) vs out = out @ concat (map enc_value vs)"
  by (induction vs arbitrary: out) (simp_all add: enc_value_def)

lemma bench_rand_xorshift: "bench_rand wl = (wl\<lparr>wl_rng := xorshift (wl_rng wl)\<rparr>, xorshift (wl_rng wl))"
  by (simp add: bench_rand_def xorshift_def Let_def)

lemma bench_key_eq:
  "bench_key wl = (wl\<lparr>wl_rng := xorshift (wl_rng wl)\<rparr>, if key_range wl = 0 then Panic else Ok (op_key wl 0))"
  by (simp add: bench_key_def bench_rand_xorshift key_range_def op_key_def rem_u64_def split: mode.split)

lemma to_be_bytes_1: "to_be_bytes (1 :: u16) = [0, 1]"
  by (simp add: to_be_bytes_def)

lemma execute_frame_eq:
  "execute_frame wl ins out stream =
     (wl\<lparr>wl_rng := xorshift (wl_rng wl)\<rparr>,
      if key_range wl = 0 then Panic else Ok (out @ enc_request (stream, 0x0A, op_body wl ins (op_key wl 0))))"
  using client_frame_append [of stream "0x0A" _ out]
  by (simp add: execute_frame_def bench_key_eq Let_def op_body_def op_id_def op_values_def query_params_with_values_def
      fold_values enc_value_def enc_request_def to_be_bytes_1)

lemma op_key_next: "op_key (wl\<lparr>wl_rng := xorshift (wl_rng wl)\<rparr>) i = op_key wl (Suc i)"
  by (simp add: op_key_def key_range_def funpow_swap1)

lemma wl_rng_irrelevant [simp]:
  "key_range (wl\<lparr>wl_rng := r\<rparr>) = key_range wl" "op_body (wl\<lparr>wl_rng := r\<rparr>) = op_body wl" "op_id (wl\<lparr>wl_rng := r\<rparr>) = op_id wl"
  "op_values (wl\<lparr>wl_rng := r\<rparr>) = op_values wl"
  by (simp_all add: key_range_def op_body_def op_id_def op_values_def fun_eq_iff)

text \<open>The requests of a batch, by position.\<close>

definition batch_requests :: "mode \<Rightarrow> nat list \<Rightarrow> i16 \<Rightarrow> workload \<Rightarrow> (i16 \<times> byte \<times> bytes) list" where
  "batch_requests m is next_stream wl =
     map (\<lambda>j. (next_stream + word_of_nat j, 0x0A, op_body wl (is_ins m (is ! j)) (op_key wl j))) [0..<length is]"

lemma batch_requests_Cons:
  "batch_requests m (i # is) ns wl =
     (ns, 0x0A, op_body wl (is_ins m i) (op_key wl 0)) # batch_requests m is (ns + 1) (wl\<lparr>wl_rng := xorshift (wl_rng wl)\<rparr>)"
  by (simp add: batch_requests_def upt_conv_Cons map_Suc_upt [symmetric] op_key_next add.commute add.left_commute del: upt_Suc)

lemma batch_frames_eq:
  "0 < key_range wl \<Longrightarrow>
     snd (batch_frames m is ns wl out) = Ok (out @ concat (map enc_request (batch_requests m is ns wl)))"
proof (induction "is" arbitrary: ns wl out)
  case (Cons i "is")
  from Cons(1) [of "wl\<lparr>wl_rng := xorshift (wl_rng wl)\<rparr>" "ns + 1"] Cons(2) show ?case
    by (simp add: batch_requests_Cons execute_frame_eq)
qed (simp add: batch_requests_def)

text \<open>A workload whose requests fit into frames.\<close>

definition workload_fits :: "workload \<Rightarrow> bool" where
  "workload_fits wl \<longleftrightarrow>
     0 < key_range wl \<and> length (wl_insert_id wl) < 2 ^ 16 \<and> length (wl_select_id wl) < 2 ^ 16 \<and> length (wl_value wl) \<le> 2 ^ 25"

lemma op_body_fits: "workload_fits wl \<Longrightarrow> request_fits (stream, opcode, op_body wl ins k)"
  by (auto simp: workload_fits_def request_fits_def op_body_def op_id_def op_values_def enc_value_def MAX_FRAME_LENGTH_def)

text \<open>An EXECUTE body as the server takes it apart.\<close>

definition decode_execute :: "frame_libs \<Rightarrow> bytes \<Rightarrow> (bytes \<times> query_params) option" where
  "decode_execute P body =
     Option.bind (fr_read_short_bytes P body) (\<lambda>(pid, buf). map_option (Pair pid) (fr_params P buf))"

lemma decode_op_body:
  assumes "request_readers_ok P" and "workload_fits wl"
  shows "decode_execute P (op_body wl ins k) = Some (op_id wl ins, plain_params (op_values wl ins k) (\<not> ins))"
proof -
  have short: "fr_read_short_bytes P (to_be_bytes (word_of_nat (length b) :: u16) @ b @ rest) = Some (b, rest)"
    if "length b < 2 ^ 16" for b rest using assms(1) that by (simp add: request_readers_ok_def)
  have params: "fr_params P ([0, 1] @ [if skip then 0x03 else 0x01] @ to_be_bytes (word_of_nat (length vs) :: u16) @ concat (map enc_value vs))
      = Some (plain_params vs skip)" if "length vs < 2 ^ 16" "list_all (\<lambda>v. length v < 2 ^ 31) vs" for vs skip
    using assms(1) that by (simp only: request_readers_ok_def)
  have "length (op_id wl ins) < 2 ^ 16" "length (op_values wl ins k) < 2 ^ 16" "list_all (\<lambda>v. length v < 2 ^ 31) (op_values wl ins k)"
    using assms(2) by (auto simp: workload_fits_def op_id_def op_values_def)
  from short [OF this(1)] params [OF this(2,3), of "\<not> ins"] show ?thesis
    by (simp add: decode_execute_def op_body_def split: if_splits)
qed

section \<open>The generator\<close>

lemma shift_xor_zero: 
  assumes "0 < n" shows "x XOR push_bit n x = (0 :: 'a :: len word) \<longleftrightarrow> x = 0" and "x XOR drop_bit n x = 0 \<longleftrightarrow> x = 0"
proof -
  show "x XOR push_bit n x = 0 \<longleftrightarrow> x = 0"
  proof
    assume "x XOR push_bit n x = 0"
    then have eq: "x = push_bit n x" by (metis xor_self_eq xor.assoc xor.left_neutral)
    have "\<not> bit x i" for i
    proof (induction i rule: less_induct)
      case (less i)
      show ?case by (subst eq) (use less [of "i - n"] assms in \<open>auto simp: bit_push_bit_iff\<close>)
    qed
    then show "x = 0" by (simp add: bit_eq_iff)
  qed simp
  show "x XOR drop_bit n x = 0 \<longleftrightarrow> x = 0"
  proof
    assume "x XOR drop_bit n x = 0"
    then have eq: "x = drop_bit n x" by (metis xor_self_eq xor.assoc xor.left_neutral)
    have "i \<le> LENGTH('a) \<Longrightarrow> \<not> bit x (LENGTH('a) - i)" for i
    proof (induction i rule: less_induct)
      case (less i)
      show ?case
      proof (cases "LENGTH('a) - i + n < LENGTH('a)")
        case True
        then have "LENGTH('a) - (i - n) = LENGTH('a) - i + n" "i - n < i" "i - n \<le> LENGTH('a)"
          using assms less(2) by auto
        with less(1) [of "i - n"] show ?thesis by (subst eq) (simp add: bit_drop_bit_eq add.commute)
      next
        case False
        then show ?thesis by (subst eq) (auto simp: bit_drop_bit_eq dest: bit_imp_le_length)
      qed
    qed
    from this [of "LENGTH('a) - i" for i] have "\<not> bit x i" for i
      by (metis bit_imp_le_length diff_diff_cancel diff_le_self less_imp_le)
    then show "x = 0" by (simp add: bit_eq_iff)
  qed simp
qed

lemma xorshift_zero [simp]: "xorshift x = 0 \<longleftrightarrow> x = 0"
  by (simp only: xorshift_def Let_def shift_xor_zero zero_less_numeral)

lemma funpow_xorshift_zero [simp]: "(xorshift ^^ i) x = 0 \<longleftrightarrow> x = 0"
  by (induction i) simp_all

lemma one_plus_mod_range:
  assumes "0 < (n :: u64)"
  shows "1 \<le> 1 + x mod n \<and> 1 + x mod n \<le> n"
proof -
  have "x mod n < n" using assms by (simp add: word_mod_less_divisor)
  then have less: "unat (x mod n) < unat n" by (simp add: word_less_nat_alt)
  have top: "unat n < 2 ^ 64" by (rule less_le_trans [OF unsigned_less]) simp
  have "unat (1 + x mod n) = Suc (unat (x mod n))"
    using less top by (subst unat_word_ariths) (simp add: mod_less)
  with less show ?thesis by (simp add: word_le_nat_alt)
qed

lemma op_key_range: "0 < key_range wl \<Longrightarrow> 1 \<le> op_key wl i \<and> op_key wl i \<le> key_range wl"
  unfolding op_key_def by (rule one_plus_mod_range)

section \<open>The two clients\<close>

definition wl_of :: "conn_ctx \<Rightarrow> workload" where
  "wl_of ctx =
     \<lparr>wl_insert_id = cc_insert_id ctx, wl_select_id = cc_select_id ctx, wl_rng = cc_rng ctx, wl_value = cc_value ctx,
      wl_mode = cc_mode ctx, wl_keys = cc_keys ctx, wl_filled = cc_filled ctx\<rparr>"

lemma async_frame_eq: "async_frame stream opcode body out = out @ enc_request (stream, opcode, body)"
  by (simp add: async_frame_def enc_request_def client_frame_def)

lemma build_op_eq:
  "build_op ctx i out =
     (if key_range (wl_of ctx) = 0 then ((ctx\<lparr>cc_rng := xorshift (cc_rng ctx)\<rparr>, out), Panic)
      else ((ctx\<lparr>cc_rng := xorshift (cc_rng ctx), cc_next_stream := (cc_next_stream ctx + 1) AND 0x7FFF\<rparr>,
             out @ enc_request (cc_next_stream ctx, 0x0A, op_body (wl_of ctx) (is_ins (cc_mode ctx) i) (op_key (wl_of ctx) 0))),
            Ok (is_ins (cc_mode ctx) i)))"
proof -
  have rand: "ctx_rand ctx = (ctx\<lparr>cc_rng := xorshift (cc_rng ctx)\<rparr>, xorshift (cc_rng ctx))"
    by (simp add: ctx_rand_def xorshift_def Let_def)
  show ?thesis
    by (cases "cc_mode ctx")
       (simp_all add: build_op_def rand key_range_def wl_of_def op_key_def rem_u64_def Let_def is_ins_def async_frame_eq
         op_body_def op_id_def op_values_def enc_value_def to_be_bytes_1)
qed

lemma wl_of_step:
  "wl_of (ctx\<lparr>cc_rng := r, cc_next_stream := st\<rparr>) = (wl_of ctx)\<lparr>wl_rng := r\<rparr>" "wl_rng (wl_of ctx) = cc_rng ctx"
  by (simp_all add: wl_of_def)

text \<open>Stream ids below \<open>2 ^ 15\<close>, where masking changes nothing.\<close>

lemma next_stream_masked:
  assumes "unat ns + n < 2 ^ 15" and "0 < n"
  shows "(ns + 1) AND 0x7FFF = (ns + 1 :: i16)" and "unat (ns + 1) = Suc (unat ns)"
proof -
  show suc: "unat (ns + 1) = Suc (unat ns)" using assms by (subst unat_word_ariths) (simp add: mod_less)
  have "unat (take_bit 15 (ns + 1)) = unat (ns + 1)"
    unfolding unsigned_take_bit_eq suc using assms by (simp add: take_bit_nat_eq_self)
  then have "take_bit 15 (ns + 1) = ns + 1" by (simp only: word_unat_eq_iff)
  then show "(ns + 1) AND 0x7FFF = (ns + 1 :: i16)" by (simp add: take_bit_eq_mask mask_eq_exp_minus_1)
qed

lemma async_batch_eq:
  assumes "0 < key_range (wl_of ctx)" and "unat (cc_next_stream ctx) + length is < 2 ^ 15"
  shows "\<exists>ctx'. async_batch is ctx out =
    ((ctx', out @ concat (map enc_request (batch_requests (cc_mode ctx) is (cc_next_stream ctx) (wl_of ctx)))), Ok ())"
  using assms
proof (induction "is" arbitrary: ctx out)
  case (Cons i "is")
  let ?ctx = "ctx\<lparr>cc_rng := xorshift (cc_rng ctx), cc_next_stream := (cc_next_stream ctx + 1) AND 0x7FFF\<rparr>"
  note ns = next_stream_masked [of "cc_next_stream ctx" "length (i # is)"]
  have "key_range (wl_of ctx) \<noteq> 0" using Cons(2) by auto
  with Cons(1) [of ?ctx "out @ enc_request (cc_next_stream ctx, 0x0A, op_body (wl_of ctx) (is_ins (cc_mode ctx) i) (op_key (wl_of ctx) 0))"]
    Cons(2,3) ns show ?case
    by (simp add: build_op_eq batch_requests_Cons wl_of_step)
qed (simp add: batch_requests_def)

section \<open>The fill\<close>

definition keys_left :: "u64 \<Rightarrow> u64 \<Rightarrow> nat" where
  "keys_left fill key = (if key \<le> fill then Suc (unat fill) - unat key else 0)"

lemma keys_left_step:
  assumes "key \<le> fill" and "fill \<noteq> - 1"
  shows "keys_left fill key = Suc (keys_left fill (key + 1))"
proof -
  have "key \<noteq> - 1" using assms by (metis word_order.extremum_unique)
  then have "unat (key + 1) = Suc (unat key)" by (metis unatSuc add.commute eq_neg_iff_add_eq_0)
  with assms(1) show ?thesis by (auto simp: keys_left_def word_le_nat_alt)
qed

lemma keys_left_next: "key \<le> fill \<Longrightarrow> fill \<noteq> - 1 \<Longrightarrow> keys_left fill (key + 1) < keys_left fill key"
  by (simp add: keys_left_step)

lemma fill_batch_left:
  assumes "fill_batch args f = Ok f'" and "ba_fill_keys args \<noteq> - 1"
  shows "keys_left (ba_fill_keys args) (fs_key f') \<le> keys_left (ba_fill_keys args) (fs_key f) \<and>
    (fs_pending f < ba_pipeline args \<longrightarrow> fs_key f \<le> ba_fill_keys args \<longrightarrow>
      keys_left (ba_fill_keys args) (fs_key f') < keys_left (ba_fill_keys args) (fs_key f))"
  using assms
proof (induction args f rule: fill_batch.induct)
  case (1 args f)
  show ?case
  proof (cases "fs_pending f < ba_pipeline args \<and> fs_key f \<le> ba_fill_keys args")
    case False
    with 1(2) show ?thesis by (auto simp: fill_batch.simps)
  next
    case True
    obtain wl r where ex: "execute_frame (fs_wl f) True (fs_out f) (fs_next_stream f) = (wl, r)"
      by (cases "execute_frame (fs_wl f) True (fs_out f) (fs_next_stream f)")
    from 1(2) True ex obtain out where "fill_batch args \<lparr>fs_wl = wl, fs_out = out, fs_pending = fs_pending f + 1,
        fs_key = fs_key f + 1, fs_next_stream = (fs_next_stream f + 1) AND 0x7FFF\<rparr> = Ok f'"
      by (subst (asm) fill_batch.simps) (auto simp: result_simps)
    from 1(1) [OF True ex [symmetric] this 1(3)] keys_left_next [OF _ 1(3), of "fs_key f"] True show ?thesis by simp
  qed
qed

lemma fill_loop_returns:
  assumes "0 < ba_pipeline args" and "ba_fill_keys args \<noteq> - 1" and "fs_pending f = 0"
  shows "\<exists>r. fill_loop N args f c = Some r"
  using assms(3)
proof (induction "keys_left (ba_fill_keys args) (fs_key f)" arbitrary: f c rule: less_induct)
  case less
  show ?case
  proof (cases "fs_key f \<le> ba_fill_keys args")
    case False
    then show ?thesis by (subst fill_loop.simps) simp
  next
    case True
    show ?thesis
    proof (cases "fill_batch args f")
      case (Ok f')
      have "keys_left (ba_fill_keys args) (fs_key f') < keys_left (ba_fill_keys args) (fs_key f)"
        using fill_batch_left [OF Ok assms(2)] True less(2) assms(1) by simp
      with less(1) [of "f'\<lparr>fs_out := [], fs_pending := 0\<rparr>"] have next_turn: "\<exists>r. fill_loop N args (f'\<lparr>fs_out := [], fs_pending := 0\<rparr>) c = Some r" for c
        by simp
      with Ok True show ?thesis by (subst fill_loop.simps) (simp split: prod.split result.split)
    qed (use True in \<open>subst fill_loop.simps, simp\<close>)+
  qed
qed

definition writes_nothing :: "'w net \<Rightarrow> bench_args \<Rightarrow> fill_state \<Rightarrow> bool" where
  "writes_nothing N args f \<longleftrightarrow>
     ba_pipeline args = 0 \<and> fs_key f \<le> ba_fill_keys args \<and> fs_out f = [] \<and> fs_pending f = 0 \<and> (\<forall>w. snd (nt_write N [] w) = Ok ())"

lemma fill_loop_hangs:
  assumes "fill_loop N args f c = Some r"
  shows "\<not> writes_nothing N args f"
proof (rule fill_loop.raw_induct [where P = "\<lambda>N args f c r. \<not> writes_nothing N args f", OF _ assms], rule notI)
  fix loop and N :: "'a net" and args f c r
  assume IH: "\<And>N args f c r. loop N args f c = Some r \<Longrightarrow> \<not> writes_nothing N args f" and idle: "writes_nothing N args f"
    and step: "(if fs_key f \<le> ba_fill_keys args then
        (case fill_batch args f of
           Ok f \<Rightarrow>
             (case and_then (on_sock (nt_write N (fs_out f)) c) (\<lambda>c _. read_acks N (fs_pending f) c) of
                (c, Ok _) \<Rightarrow> loop N args (f\<lparr>fs_out := [], fs_pending := 0\<rparr>) c
              | (c, Err e) \<Rightarrow> Some (c, Err e)
              | (c, Halt h) \<Rightarrow> Some (c, Halt h))
         | Err e \<Rightarrow> Some (c, Err e)
         | Halt h \<Rightarrow> Some (c, Halt h))
      else Some (c, Ok ())) = Some r"
  obtain w u where "nt_write N [] (bc_sock c) = (w, Ok u)" using idle by (metis prod.collapse writes_nothing_def)
  with idle step have "loop N args (f\<lparr>fs_out := [], fs_pending := 0\<rparr>) (c\<lparr>bc_sock := w\<rparr>) = Some r"
    by (simp add: fill_batch.simps on_sock_def writes_nothing_def)
  from IH [OF this] idle show False by (simp add: writes_nothing_def)
qed

text \<open>With as many keys as a \<^verbatim>\<open>u64\<close> can count, the key wraps and stays within the bound, and a server that answers keeps the loop going.\<close>

definition answers :: "'w net \<Rightarrow> bool" where
  "answers N \<longleftrightarrow> (\<forall>out w. snd (nt_write N out w) = Ok ()) \<and> (\<forall>n c. snd (read_acks N n c) = Ok ())"

lemma fill_batch_Ok:
  "0 < key_range (fs_wl f) \<Longrightarrow> \<exists>f'. fill_batch args f = Ok f' \<and> 0 < key_range (fs_wl f')"
proof (induction args f rule: fill_batch.induct)
  case (1 args f)
  show ?case
  proof (cases "fs_pending f < ba_pipeline args \<and> fs_key f \<le> ba_fill_keys args")
    case False
    with 1(2) show ?thesis by (auto simp: fill_batch.simps)
  next
    case True
    let ?wl = "(fs_wl f)\<lparr>wl_rng := xorshift (wl_rng (fs_wl f))\<rparr>"
    obtain out where ex: "execute_frame (fs_wl f) True (fs_out f) (fs_next_stream f) = (?wl, Ok out)"
      using 1(2) word_neq_0_conv [of "key_range (fs_wl f)"] by (simp add: execute_frame_eq)
    have "0 < key_range ?wl" using 1(2) by (simp add: key_range_def split: if_splits)
    with 1(1) [OF True ex [symmetric], of out] True ex show ?thesis by (subst fill_batch.simps) simp
  qed
qed

definition endless_fill :: "'w net \<Rightarrow> bench_args \<Rightarrow> fill_state \<Rightarrow> bool" where
  "endless_fill N args f \<longleftrightarrow> ba_fill_keys args = - 1 \<and> 0 < key_range (fs_wl f) \<and> answers N"

lemma fill_loop_endless:
  assumes "fill_loop N args f c = Some r"
  shows "\<not> endless_fill N args f"
proof (rule fill_loop.raw_induct [where P = "\<lambda>N args f c r. \<not> endless_fill N args f", OF _ assms], rule notI)
  fix loop and N :: "'a net" and args f c r
  assume IH: "\<And>N args f c r. loop N args f c = Some r \<Longrightarrow> \<not> endless_fill N args f" and fill: "endless_fill N args f"
    and step: "(if fs_key f \<le> ba_fill_keys args then
        (case fill_batch args f of
           Ok f \<Rightarrow>
             (case and_then (on_sock (nt_write N (fs_out f)) c) (\<lambda>c _. read_acks N (fs_pending f) c) of
                (c, Ok _) \<Rightarrow> loop N args (f\<lparr>fs_out := [], fs_pending := 0\<rparr>) c
              | (c, Err e) \<Rightarrow> Some (c, Err e)
              | (c, Halt h) \<Rightarrow> Some (c, Halt h))
         | Err e \<Rightarrow> Some (c, Err e)
         | Halt h \<Rightarrow> Some (c, Halt h))
      else Some (c, Ok ())) = Some r"
  from fill fill_batch_Ok [of f args] obtain f' where f': "fill_batch args f = Ok f'" "0 < key_range (fs_wl f')"
    by (auto simp: endless_fill_def)
  obtain w where w: "nt_write N (fs_out f') (bc_sock c) = (w, Ok ())"
    using fill by (metis answers_def endless_fill_def prod.collapse)
  obtain c' where c': "read_acks N (fs_pending f') (c\<lparr>bc_sock := w\<rparr>) = (c', Ok ())"
    using fill by (metis answers_def endless_fill_def prod.collapse)
  have "loop N args (f'\<lparr>fs_out := [], fs_pending := 0\<rparr>) c' = Some r"
    using step fill f'(1) w c' by (simp add: on_sock_def endless_fill_def)
  from IH [OF this] fill f'(2) show False by (simp add: endless_fill_def)
qed

section \<open>Properties\<close>

text \<open>
  The server reads from the bytes of a batch exactly the requests of the client, in order and on
  consecutive streams, and decodes each to the prepared statement and the values meant: the key drawn
  for the operation and, for an INSERT, the value.
\<close>

theorem bench_batch_requests:
  assumes "request_readers_ok P" and "workload_fits wl" and "batch_frames m is ns wl [] = (st, built)"
  shows "\<exists>out reqs. built = Ok out \<and> read_n (read_request P c) (length is) (out @ rest) = Ok (reqs, rest) \<and>
    length reqs = length is \<and>
    (\<forall>j<length is. \<exists>body. reqs ! j = (ns + word_of_nat j, 0x0A, body) \<and>
      decode_execute P body = Some (op_id wl (is_ins m (is ! j)),
        plain_params (op_values wl (is_ins m (is ! j)) (op_key wl j)) (\<not> is_ins m (is ! j))) \<and>
      1 \<le> op_key wl j \<and> op_key wl j \<le> key_range wl)"
proof -
  let ?reqs = "batch_requests m is ns wl"
  have pos: "0 < key_range wl" using assms(2) by (simp add: workload_fits_def)
  have "list_all request_fits ?reqs" using op_body_fits [OF assms(2)] by (auto simp: batch_requests_def list_all_iff)
  from client_requests.read_n_items [OF this, of P c rest] batch_frames_eq [OF pos, of m "is" ns "[]"] assms(3)
    decode_op_body [OF assms(1,2)] op_key_range [OF pos]
  show ?thesis by (auto simp: batch_requests_def intro!: exI [of _ ?reqs])
qed

definition sample_workload :: workload where
  "sample_workload = \<lparr>wl_insert_id = [0, 1], wl_select_id = [0, 2], wl_rng = 5, wl_value = [0x76], wl_mode = ModeMixed,
     wl_keys = 10, wl_filled = 10\<rparr>"

lemma sample_workload_fits: "workload_fits sample_workload"
  by (simp add: workload_fits_def sample_workload_def key_range_def)

theorem bench_batch_requests_witness:
  "\<exists>out reqs. snd (batch_frames ModeMixed [0, 1] 7 sample_workload []) = Ok out \<and>
    read_n (read_request wire_frames conn_new) 2 out = Ok (reqs, []) \<and> fst (reqs ! 1) = 8"
proof -
  obtain st built where b: "batch_frames ModeMixed [0, 1] 7 sample_workload [] = (st, built)"
    by (cases "batch_frames ModeMixed [0, 1] 7 sample_workload []")
  from bench_batch_requests [OF wire_frames_readers sample_workload_fits b, of conn_new "[]"] b show ?thesis
    by (fastforce simp: numeral_2_eq_2)
qed

text \<open>
  The two clients send the same bytes for the same workload, though one builds the request of an
  operation piece by piece and the other in one go, as long as no stream id reaches \<open>2 ^ 15\<close>, where
  the classic client goes on with negative ids and the asynchronous one starts again at 0.
\<close>

theorem bench_clients_agree:
  assumes "0 < key_range (wl_of ctx)" and "unat (cc_next_stream ctx) + length is < 2 ^ 15"
  shows "\<exists>out. snd (batch_frames (cc_mode ctx) is (cc_next_stream ctx) (wl_of ctx) []) = Ok out \<and>
    (\<exists>ctx'. async_batch is ctx [] = ((ctx', out), Ok ()))"
  using batch_frames_eq [OF assms(1), of "cc_mode ctx" "is" "cc_next_stream ctx" "[]"] async_batch_eq [OF assms, of "[]"] by simp

theorem bench_clients_agree_witness:
  "\<exists>out ctx'. snd (batch_frames ModeRead [0, 1, 2] 4 \<lparr>wl_insert_id = [1], wl_select_id = [2], wl_rng = 9, wl_value = [], wl_mode = ModeRead,
      wl_keys = 5, wl_filled = 0\<rparr> []) = Ok out \<and>
    async_batch [0, 1, 2] \<lparr>cc_insert_id = [1], cc_select_id = [2], cc_rng = 9, cc_value = [], cc_mode = ModeRead, cc_keys = 5,
      cc_filled = 0, cc_next_stream = 4\<rparr> [] = ((ctx', out), Ok ())"
  using bench_clients_agree [of "\<lparr>cc_insert_id = [1], cc_select_id = [2], cc_rng = 9, cc_value = [], cc_mode = ModeRead, cc_keys = 5,
      cc_filled = 0, cc_next_stream = 4\<rparr>" "[0, 1, 2]"]
  by (simp add: wl_of_def key_range_def)

text \<open>
  C32. When the fill of the table ends. For every number of keys from 1 to 2^64 - 2 it ends for every pipeline
  depth but 0, whatever the server answers, and never with a depth of 0: the client then writes nothing, for
  ever. For 2^64 - 1 keys, in a build without overflow checks, it never ends against a server that takes
  every write and answers every request without an error, whatever the depth, because the key never
  exceeds that bound.
\<close>

theorem bench_fill_ends:
  assumes "1 \<le> ba_fill_keys args" and "\<And>w. snd (nt_write N [] w) = Ok ()"
  shows "(ba_fill_keys args \<noteq> - 1 \<longrightarrow> (\<exists>r. fill_loop N args (fill_start args ins_id) c = Some r) \<longleftrightarrow> 0 < ba_pipeline args) \<and>
    (ba_fill_keys args = - 1 \<and> answers N \<longrightarrow> fill_loop N args (fill_start args ins_id) c = None)"
proof (intro conjI impI iffI)
  assume "\<exists>r. fill_loop N args (fill_start args ins_id) c = Some r"
  with fill_loop_hangs [of N args "fill_start args ins_id" c] assms show "0 < ba_pipeline args"
    by (auto simp: fill_start_def Let_def writes_nothing_def)
next
  assume keys: "ba_fill_keys args \<noteq> - 1" and "0 < ba_pipeline args"
  from fill_loop_returns [OF this(2) keys, of "fill_start args ins_id" N c] show "\<exists>r. fill_loop N args (fill_start args ins_id) c = Some r"
    by (simp add: fill_start_def Let_def)
next
  assume "ba_fill_keys args = - 1 \<and> answers N"
  then have "endless_fill N args (fill_start args ins_id)"
    using word_neq_0_conv [of "- 1 :: u64"] by (simp add: endless_fill_def fill_start_def Let_def key_range_def max_def)
  with fill_loop_endless show "fill_loop N args (fill_start args ins_id) c = None" by (meson not_Some_eq)
qed

definition silent_net :: "unit net" where
  "silent_net = \<lparr>nt_connect = \<lambda>_ w. (w, Ok ()), nt_write = \<lambda>_ w. (w, Ok ()), nt_read = \<lambda>_ w. (w, Err ''failed to fill whole buffer'')\<rparr>"

definition chatty_net :: "unit net" where
  "chatty_net = \<lparr>nt_connect = \<lambda>_ w. (w, Ok ()), nt_write = \<lambda>_ w. (w, Ok ()), nt_read = \<lambda>n w. (w, Ok (replicate n 8))\<rparr>"

lemma chatty_answers: "answers chatty_net"
proof -
  have "snd (read_acks chatty_net n c) = Ok ()" for n c
    by (induction n arbitrary: c) (auto simp: read_response_def on_sock_def chatty_net_def OPCODE_ERROR_def)
  then show ?thesis by (simp add: answers_def) (simp add: chatty_net_def)
qed

theorem bench_fill_ends_witness:
  "fill_loop silent_net (default_args\<lparr>ba_pipeline := 0\<rparr>) (fill_start (default_args\<lparr>ba_pipeline := 0\<rparr>) [0, 1])
     \<lparr>bc_sock = (), bc_write_buf = [], bc_next_stream = 0\<rparr> = None \<and>
   fill_loop chatty_net (default_args\<lparr>ba_fill_keys := - 1\<rparr>) (fill_start (default_args\<lparr>ba_fill_keys := - 1\<rparr>) [0, 1])
     \<lparr>bc_sock = (), bc_write_buf = [], bc_next_stream = 0\<rparr> = None"
proof
  let ?c = "\<lparr>bc_sock = (), bc_write_buf = [], bc_next_stream = 0\<rparr>"
  show "fill_loop silent_net (default_args\<lparr>ba_pipeline := 0\<rparr>) (fill_start (default_args\<lparr>ba_pipeline := 0\<rparr>) [0, 1]) ?c = None"
    using bench_fill_ends [of "default_args\<lparr>ba_pipeline := 0\<rparr>" silent_net "[0, 1]" ?c] by (simp add: default_args_def silent_net_def)
  show "fill_loop chatty_net (default_args\<lparr>ba_fill_keys := - 1\<rparr>) (fill_start (default_args\<lparr>ba_fill_keys := - 1\<rparr>) [0, 1]) ?c = None"
    using bench_fill_ends [of "default_args\<lparr>ba_fill_keys := - 1\<rparr>" chatty_net "[0, 1]" ?c] chatty_answers by (simp add: answers_def)
qed

end
