(* ===== verification/BenchHonest.thy ===== *)
theory BenchHonest
  imports BenchSpec Startup
begin

text \<open>
  The storage benchmark \<^verbatim>\<open>src/src/bin/bench_honest.rs\<close>, which calls the storage without the network and the
  query engine: its arguments, the schema it creates, the fill, its writing and reading threads, and \<^verbatim>\<open>main\<close>, with the
  sequential reading of \<^verbatim>\<open>settle\<close>. The threads take their turns in any order; the order, the latency that each turn measures
  and the turn after which a thread finds its time over are a schedule, an argument of the run. Of a histogram, which belongs to a
  library, the model has which values it records. The quantiles and the throughput, which are printed, are left out.
\<close>

declare split_paired_All [simp del] split_paired_Ex [simp del]

section \<open>Arguments\<close>

record honest_args =
  ha_data :: string
  ha_keys :: u64
  ha_fill :: u64
  ha_threads :: nat
  ha_secs :: u64

definition DEFAULT_KEYS :: u64 where "DEFAULT_KEYS = 1000000"

definition DEFAULT_FILL :: u64 where "DEFAULT_FILL = 200000"

text \<open>The next argument or else the value so far, parsed or else the value so far.\<close>

definition next_u64 :: "string list \<Rightarrow> u64 \<Rightarrow> u64" where
  "next_u64 it v =
     (let a = (case it of [] \<Rightarrow> show_nat (unat v) | x # _ \<Rightarrow> x) in case parse_u64 a of Some n \<Rightarrow> n | None \<Rightarrow> v)"

definition next_usize :: "string list \<Rightarrow> nat \<Rightarrow> nat" where
  "next_usize it v =
     (let a = (case it of [] \<Rightarrow> show_nat v | x # _ \<Rightarrow> x) in case parse_usize a of Some n \<Rightarrow> n | None \<Rightarrow> v)"

function honest_set_args :: "honest_args \<Rightarrow> string list \<Rightarrow> honest_args" where
  "honest_set_args a [] = a"
| "honest_set_args a (k # it) =
     (if k = ''--data'' then honest_set_args (a\<lparr>ha_data := (case it of [] \<Rightarrow> ha_data a | x # _ \<Rightarrow> x)\<rparr>) (drop 1 it)
      else if k = ''--keys'' then honest_set_args (a\<lparr>ha_keys := next_u64 it (ha_keys a)\<rparr>) (drop 1 it)
      else if k = ''--fill'' then honest_set_args (a\<lparr>ha_fill := next_u64 it (ha_fill a)\<rparr>) (drop 1 it)
      else if k = ''--threads'' then honest_set_args (a\<lparr>ha_threads := next_usize it (ha_threads a)\<rparr>) (drop 1 it)
      else if k = ''--seconds'' then honest_set_args (a\<lparr>ha_secs := next_u64 it (ha_secs a)\<rparr>) (drop 1 it)
      else honest_set_args a it)"
  by pat_completeness auto
termination by (relation "measure (length \<circ> snd)") auto

text \<open>\<open>env\<close> is \<^verbatim>\<open>RHYDADB_DATA\<close>, \<open>parallelism\<close> what the system reports.\<close>

definition honest_parse_args :: "string option \<Rightarrow> nat option \<Rightarrow> string list \<Rightarrow> honest_args" where
  "honest_parse_args env parallelism argv =
     honest_set_args
       \<lparr>ha_data = (case env of Some d \<Rightarrow> d | None \<Rightarrow> ''C:'' @ [CHR 0x5C] @ ''temp'' @ [CHR 0x5C] @ ''rhydadb-bench-honest''),
        ha_keys = DEFAULT_KEYS, ha_fill = DEFAULT_FILL,
        ha_threads = (case parallelism of Some n \<Rightarrow> n | None \<Rightarrow> 8), ha_secs = 10\<rparr> argv"

section \<open>Schema and fill\<close>

definition bench_keyspace :: keyspace_def where
  "bench_keyspace = \<lparr>kd_name = ''bench'', kd_replication = []\<rparr>"

definition bench_table :: table_def where
  "bench_table =
     \<lparr>td_keyspace = ''bench'', td_name = ''kv'',
      td_columns =
        [\<lparr>cd_name = ''id'', cd_type = TBigInt, cd_is_partition_key = True, cd_is_clustering = False\<rparr>,
         \<lparr>cd_name = ''val'', cd_type = TText, cd_is_partition_key = False, cd_is_clustering = False\<rparr>],
      td_partition_keys = [''id''], td_clustering_keys = []\<rparr>"

text \<open>\<^verbatim>\<open>unwrap\<close> of a result, and \<^verbatim>\<open>let _ =\<close>, which drops an error.\<close>

definition unwrapped :: "'s \<times> ('e, 'a) result \<Rightarrow> 's \<times> ('f, 'a) result" where
  "unwrapped m = (fst m, case snd m of Ok x \<Rightarrow> Ok x | Err _ \<Rightarrow> Panic | Halt h \<Rightarrow> Halt h)"

definition ignored :: "'s \<times> ('e, 'a) result \<Rightarrow> 's \<times> ('f, unit) result" where
  "ignored m = (fst m, case snd m of Halt h \<Rightarrow> Halt h | _ \<Rightarrow> Ok ())"

definition honest_schema :: "'db libs \<Rightarrow> 'db storage \<Rightarrow> ('db, unit) act" where
  "honest_schema L s =
     and_then (unwrapped (get_keyspace L ''bench'' s)) (\<lambda>s ks.
     and_then (if ks = None then ignored (put_keyspace L bench_keyspace s) else (s, Ok ())) (\<lambda>s _.
     and_then (unwrapped (get_table L ''bench'' ''kv'' s)) (\<lambda>s tb.
       if tb = None then ignored (put_table L bench_table s) else (s, Ok ()))))"

definition row_enc :: bytes where
  "row_enc = encode_row_columns [(1, VText (replicate 64 (CHR ''x'')))]"

text \<open>\<^verbatim>\<open>settle\<close> awaits the tickets it is given, if any, and empties the list.\<close>

definition settle_tickets :: "'db libs \<Rightarrow> ticket list \<Rightarrow> 'db storage \<Rightarrow> 'db storage" where
  "settle_tickets L tickets s = (if tickets = [] then s else settle L s)"

fun fill_rows :: "'db libs \<Rightarrow> u64 list \<Rightarrow> ticket list \<Rightarrow> 'db storage \<Rightarrow> ('db, unit) act" where
  "fill_rows L [] tickets s = (settle_tickets L tickets s, Ok ())"
| "fill_rows L (k # ks) tickets s =
     and_then (unwrapped (put_row ''bench'' ''kv'' [to_be_bytes k] row_enc s)) (\<lambda>s t.
       let tickets = tickets @ [t] in
       if 1024 \<le> length tickets then fill_rows L ks [] (settle_tickets L tickets s)
       else fill_rows L ks tickets s)"

definition honest_fill :: "'db libs \<Rightarrow> u64 \<Rightarrow> u64 \<Rightarrow> 'db storage \<Rightarrow> ('db, unit) act" where
  "honest_fill L keys fill s = fill_rows L (map word_of_nat [1..<Suc (unat (min fill keys))]) [] s"

section \<open>Threads\<close>

text \<open>
  \<open>hist\<close> tells which values the histogram records; on any other \<^verbatim>\<open>record\<close> gives an error, and \<^verbatim>\<open>unwrap\<close> ends the
  thread. \<open>dt\<close> is the latency of the turn in nanoseconds.
\<close>

definition HIST_MAX :: u64 where "HIST_MAX = 10000000"

definition hist_ok :: "(u64 \<Rightarrow> bool) \<Rightarrow> bool" where
  "hist_ok hist \<longleftrightarrow> (\<forall>dt. dt \<le> HIST_MAX \<longrightarrow> hist dt)"

record honest_writer =
  hw_rng :: u64
  hw_tickets :: "ticket list"
  hw_ops :: u64

definition write_seed :: "bool \<Rightarrow> nat \<Rightarrow> u64 anyhow" where
  "write_seed checks tid =
     rbind (mul_u64 checks (word_of_nat tid) 0x9E3779B97F4A7C15) (\<lambda>p. Ok (0x9E3779B97F4A7C15 XOR p))"

definition write_turn ::
  "'db libs \<Rightarrow> (u64 \<Rightarrow> bool) \<Rightarrow> u64 \<Rightarrow> u64 \<Rightarrow> 'db storage \<times> honest_writer \<Rightarrow> ('db storage \<times> honest_writer) \<times> unit anyhow" where
  "write_turn L hist keys dt st =
     (case st of (s, w) \<Rightarrow>
      let rng = hw_rng w; rng = rng XOR push_bit 13 rng; rng = rng XOR drop_bit 7 rng; rng = rng XOR push_bit 17 rng;
          w = w\<lparr>hw_rng := rng\<rparr> in
      (case rem_u64 rng keys of
         Ok r \<Rightarrow>
           (let k = 1 + r in
            case unwrapped (put_row ''bench'' ''kv'' [to_be_bytes k] row_enc s) of
              (s, Ok tk) \<Rightarrow>
                (let w = w\<lparr>hw_tickets := hw_tickets w @ [tk]\<rparr> in
                 if 64 \<le> length (hw_tickets w)
                 then
                   (let s = settle_tickets L (hw_tickets w) s; w = w\<lparr>hw_tickets := []\<rparr> in
                    if hist dt then ((s, w\<lparr>hw_ops := hw_ops w + 64\<rparr>), Ok ()) else ((s, w), Panic))
                 else ((s, w), Ok ()))
            | (s, Err e) \<Rightarrow> ((s, w), Err e)
            | (s, Halt h) \<Rightarrow> ((s, w), Halt h))
       | Err e \<Rightarrow> ((s, w), Err e)
       | Halt h \<Rightarrow> ((s, w), Halt h)))"

definition write_end :: "'db libs \<Rightarrow> 'db storage \<times> honest_writer \<Rightarrow> ('db storage \<times> honest_writer) \<times> unit anyhow" where
  "write_end L st =
     (case st of (s, w) \<Rightarrow>
      if hw_tickets w \<noteq> []
      then ((settle_tickets L (hw_tickets w) s, w\<lparr>hw_ops := hw_ops w + word_of_nat (length (hw_tickets w)), hw_tickets := []\<rparr>), Ok ())
      else ((s, w), Ok ()))"

text \<open>The values read are dropped by the program; \<open>hr_seen\<close> keeps them to speak about them.\<close>

record honest_reader =
  hr_rng :: u64
  hr_local_ops :: u64
  hr_ops :: u64
  hr_seen :: "bytes option list"

definition read_seed :: "bool \<Rightarrow> nat \<Rightarrow> u64 anyhow" where
  "read_seed checks tid =
     rbind (mul_u64 checks (word_of_nat tid) 0x9E3779B97F4A7C15) (\<lambda>p. Ok (0x2545F4914F6CDD1D XOR p))"

definition read_turn ::
  "'db libs \<Rightarrow> (u64 \<Rightarrow> bool) \<Rightarrow> u64 \<Rightarrow> u64 \<Rightarrow> u64 \<Rightarrow> 'db storage \<times> honest_reader \<Rightarrow> ('db storage \<times> honest_reader) \<times> unit anyhow" where
  "read_turn L hist keys fill dt st =
     (case st of (s, w) \<Rightarrow>
      let rng = hr_rng w; rng = rng XOR push_bit 13 rng; rng = rng XOR drop_bit 7 rng; rng = rng XOR push_bit 17 rng;
          w = w\<lparr>hr_rng := rng\<rparr> in
      (case rem_u64 rng (min keys fill) of
         Ok r \<Rightarrow>
           (let k = 1 + r in
            case unwrapped (get_row L ''bench'' ''kv'' [to_be_bytes k] s) of
              (s, Ok v) \<Rightarrow>
                (let w = w\<lparr>hr_seen := hr_seen w @ [v]\<rparr> in
                 if hist dt then
                   (let w = w\<lparr>hr_local_ops := hr_local_ops w + 1\<rparr> in
                    ((s, if hr_local_ops w mod 1024 = 0 then w\<lparr>hr_ops := hr_ops w + 1024, hr_local_ops := 0\<rparr> else w), Ok ()))
                 else ((s, w), Panic))
            | (s, Err e) \<Rightarrow> ((s, w), Err e)
            | (s, Halt h) \<Rightarrow> ((s, w), Halt h))
       | Err e \<Rightarrow> ((s, w), Err e)
       | Halt h \<Rightarrow> ((s, w), Halt h)))"

definition read_end :: "'db storage \<times> honest_reader \<Rightarrow> ('db storage \<times> honest_reader) \<times> unit anyhow" where
  "read_end st = (case st of (s, w) \<Rightarrow> ((s, w\<lparr>hr_ops := hr_ops w + hr_local_ops w\<rparr>), Ok ()))"

section \<open>The run\<close>

text \<open>
  A thread with whether it still runs. An event of a schedule is a turn of a thread, with its latency, or, without, that the thread
  finds its time over. A panic ends a thread, and \<^verbatim>\<open>join\<close> drops it; a thread whose seed overflows, where overflow is checked,
  takes no turn.
\<close>

type_synonym 'w thread = "'w \<times> bool"

definition spawned :: "(nat \<Rightarrow> u64 anyhow) \<Rightarrow> (u64 \<Rightarrow> 'w) \<Rightarrow> nat \<Rightarrow> 'w thread list" where
  "spawned seed start n = map (\<lambda>tid. case seed tid of Ok rng \<Rightarrow> (start rng, True) | _ \<Rightarrow> (start 0, False)) [0..<n]"

definition thread_event ::
  "(u64 \<Rightarrow> 's \<times> 'w \<Rightarrow> ('s \<times> 'w) \<times> unit anyhow) \<Rightarrow> ('s \<times> 'w \<Rightarrow> ('s \<times> 'w) \<times> unit anyhow) \<Rightarrow> nat \<times> u64 option
     \<Rightarrow> 's \<times> 'w thread list \<Rightarrow> 's \<times> 'w thread list" where
  "thread_event turn fin ev st =
     (case (ev, st) of ((i, e), (s, ts)) \<Rightarrow>
        if i < length ts \<and> snd (ts ! i)
        then (case (case e of Some dt \<Rightarrow> turn dt (s, fst (ts ! i)) | None \<Rightarrow> fin (s, fst (ts ! i))) of
                ((s, w), r) \<Rightarrow> (s, ts[i := (w, e \<noteq> None \<and> r = Ok ())]))
        else st)"

fun run_threads ::
  "(u64 \<Rightarrow> 's \<times> 'w \<Rightarrow> ('s \<times> 'w) \<times> unit anyhow) \<Rightarrow> ('s \<times> 'w \<Rightarrow> ('s \<times> 'w) \<times> unit anyhow) \<Rightarrow> (nat \<times> u64 option) list
     \<Rightarrow> 's \<times> 'w thread list \<Rightarrow> 's \<times> 'w thread list" where
  "run_threads turn fin [] st = st"
| "run_threads turn fin (ev # sched) st = run_threads turn fin sched (thread_event turn fin ev st)"

definition bench_storage_write ::
  "'db libs \<Rightarrow> (u64 \<Rightarrow> bool) \<Rightarrow> bool \<Rightarrow> honest_args \<Rightarrow> (nat \<times> u64 option) list \<Rightarrow> 'db storage \<Rightarrow> ('db, u64) act" where
  "bench_storage_write L hist checks a sched s =
     and_then (honest_schema L s) (\<lambda>s _.
     and_then (honest_fill L (ha_keys a) (ha_fill a) s) (\<lambda>s _.
       case run_threads (write_turn L hist (ha_keys a)) (write_end L) sched
              (s, spawned (write_seed checks) (\<lambda>rng. \<lparr>hw_rng = rng, hw_tickets = [], hw_ops = 0\<rparr>) (ha_threads a)) of
         (s, ts) \<Rightarrow> (s, Ok (sum_list (map (hw_ops \<circ> fst) ts)))))"

definition bench_storage_read ::
  "'db libs \<Rightarrow> (u64 \<Rightarrow> bool) \<Rightarrow> bool \<Rightarrow> honest_args \<Rightarrow> (nat \<times> u64 option) list \<Rightarrow> 'db storage \<Rightarrow> ('db, u64 \<times> bytes option list) act" where
  "bench_storage_read L hist checks a sched s =
     (case run_threads (read_turn L hist (ha_keys a) (ha_fill a)) read_end sched
             (s, spawned (read_seed checks) (\<lambda>rng. \<lparr>hr_rng = rng, hr_local_ops = 0, hr_ops = 0, hr_seen = []\<rparr>) (ha_threads a)) of
        (s, ts) \<Rightarrow> (s, Ok (sum_list (map (hr_ops \<circ> fst) ts), concat (map (hr_seen \<circ> fst) ts))))"

text \<open>
  \<^verbatim>\<open>main\<close>: the numbers of writes and of reads that it reports, the values that were read, and the databases once the storage
  is dropped.
\<close>

definition honest_main ::
  "'db libs \<Rightarrow> (string \<Rightarrow> 'db host) \<Rightarrow> (u64 \<Rightarrow> bool) \<Rightarrow> bool \<Rightarrow> honest_args \<Rightarrow> (nat \<times> u64 option) list \<Rightarrow> (nat \<times> u64 option) list
     \<Rightarrow> (u64 \<times> u64 \<times> bytes option list \<times> 'db list) anyhow" where
  "honest_main L hosts hist checks a writes reads =
     rbind (storage_open L (hosts (ha_data a))) (\<lambda>s.
       case bench_storage_write L hist checks a writes s of (s, r) \<Rightarrow>
         rbind r (\<lambda>written.
           case bench_storage_read L hist checks a reads s of (s, r) \<Rightarrow>
             rbind r (\<lambda>(found, seen). Ok (written, found, seen, storage_drop L s))))"

section \<open>Effect of the fill\<close>

abbreviation kv_addr :: "u64 \<Rightarrow> row_addr" where
  "kv_addr k \<equiv> (''bench'', ''kv'', [to_be_bytes k])"

lemma good_kv_addr: "good_row (kv_addr k)"
  by (simp add: good_row_def plain_name_def short_part_def)

text \<open>What holds between two writes: a sound storage that is quiet unless a ticket is awaited.\<close>

definition filling :: "'db libs \<Rightarrow> ('db \<Rightarrow> kv) \<Rightarrow> ticket list \<Rightarrow> 'db storage \<Rightarrow> bool" where
  "filling L absm tickets s \<longleftrightarrow> storage_wf L absm s \<and> coherent absm s \<and> (tickets = [] \<longrightarrow> storage_quiet s)"

lemma filling_put:
  assumes "filling L absm tickets s"
  shows "\<exists>s'. unwrapped (put_row ''bench'' ''kv'' [to_be_bytes k] row_enc s) = (s', (Ok (st_next_ticket s) :: ('f, ticket) result)) \<and>
    filling L absm (tickets @ [t]) s' \<and>
    (\<forall>r. good_row r \<longrightarrow> row_view absm s' r = (if r = kv_addr k then Some row_enc else row_view absm s r))"
proof -
  from put_row_ok [of L absm s "''bench''" "''kv''" "[to_be_bytes k]" row_enc] good_kv_addr [of k] assms obtain s' where
    "put_row ''bench'' ''kv'' [to_be_bytes k] row_enc s = (s', Ok (st_next_ticket s))" "row_update L absm s (kv_addr k) (Some row_enc) s'"
    by (auto simp: filling_def)
  with assms show ?thesis by (auto simp: unwrapped_def filling_def row_update_def)
qed

lemma filling_settle:
  assumes "filling L absm tickets s"
  shows "row_inv L absm (settle_tickets L tickets s)" and "row_view absm (settle_tickets L tickets s) = row_view absm s"
  using assms settle_ok [of L absm s] coherent_settle [of L absm s]
  by (simp_all add: filling_def settle_tickets_def row_inv_def)

lemma row_inv_filling: "row_inv L absm s \<Longrightarrow> filling L absm [] s"
  by (simp add: row_inv_def filling_def)

lemma fill_rows_ok:
  assumes "filling L absm tickets s"
  shows "\<exists>s'. fill_rows L ks tickets s = (s', Ok ()) \<and> row_inv L absm s' \<and>
    (\<forall>r. good_row r \<longrightarrow> row_view absm s' r = (if r \<in> kv_addr ` set ks then Some row_enc else row_view absm s r))"
  using assms
proof (induction ks arbitrary: tickets s)
  case Nil
  then show ?case using filling_settle [OF Nil] by simp
next
  case (Cons k ks)
  from filling_put [OF Cons(2), of k "st_next_ticket s"] obtain s1 where
    put: "unwrapped (put_row ''bench'' ''kv'' [to_be_bytes k] row_enc s) = (s1, (Ok (st_next_ticket s) :: (string, ticket) result))"
    "filling L absm (tickets @ [st_next_ticket s]) s1"
    "\<And>r. good_row r \<Longrightarrow> row_view absm s1 r = (if r = kv_addr k then Some row_enc else row_view absm s r)" by blast
  let ?ts = "tickets @ [st_next_ticket s]"
  note settled = filling_settle [OF put(2)]
  from Cons(1) [OF row_inv_filling [OF settled(1)]] Cons(1) [OF put(2)] obtain s2 s3 where
    "fill_rows L ks [] (settle_tickets L ?ts s1) = (s2, Ok ())" "row_inv L absm s2"
    "\<And>r. good_row r \<Longrightarrow> row_view absm s2 r = (if r \<in> kv_addr ` set ks then Some row_enc else row_view absm s1 r)"
    "fill_rows L ks ?ts s1 = (s3, Ok ())" "row_inv L absm s3"
    "\<And>r. good_row r \<Longrightarrow> row_view absm s3 r = (if r \<in> kv_addr ` set ks then Some row_enc else row_view absm s1 r)"
    unfolding settled(2) by blast
  with put(1,3) show ?case by (cases "1024 \<le> length ?ts") (auto simp: Let_def)
qed

text \<open>The keys \<open>1\<close> to \<open>n\<close>.\<close>

lemma fill_key_set: "set (map word_of_nat [1..<Suc (unat n)]) = {k :: u64. 1 \<le> k \<and> k \<le> n}"
proof -
  have "k \<in> word_of_nat ` {1..<Suc (unat n)}" if "1 \<le> k" "k \<le> n" for k :: u64
    using that by (intro image_eqI [of _ _ "unat k"]) (auto simp: word_le_nat_alt)
  moreover have "1 \<le> (word_of_nat i :: u64) \<and> word_of_nat i \<le> n" if "1 \<le> i" "i \<le> unat n" for i
  proof -
    have "unat n < 2 ^ 64" by (rule less_le_trans [OF unsigned_less]) simp
    then have "i < 2 ^ 64" using that by simp
    then have "unat (word_of_nat i :: u64) = i" by (simp add: unat_of_nat take_bit_nat_eq_self)
    with that show ?thesis by (simp add: word_le_nat_alt)
  qed
  ultimately show ?thesis unfolding set_map set_upt by auto
qed

lemma honest_fill_ok:
  assumes "row_inv L absm s"
  shows "\<exists>s'. honest_fill L keys fill s = (s', Ok ()) \<and> row_inv L absm s' \<and>
    (\<forall>k. 1 \<le> k \<longrightarrow> k \<le> min keys fill \<longrightarrow> row_view absm s' (kv_addr k) = Some row_enc)"
proof -
  let ?ks = "{k. 1 \<le> k \<and> k \<le> min fill keys}"
  from fill_rows_ok [OF row_inv_filling [OF assms], of "map word_of_nat [1..<Suc (unat (min fill keys))]"] obtain s' where
    s': "honest_fill L keys fill s = (s', Ok ())" "row_inv L absm s'"
    "\<And>r. good_row r \<Longrightarrow> row_view absm s' r = (if r \<in> kv_addr ` ?ks then Some row_enc else row_view absm s r)"
    unfolding honest_fill_def fill_key_set by blast
  have "row_view absm s' (kv_addr k) = Some row_enc" if "1 \<le> k" "k \<le> min keys fill" for k
    using s'(3) [OF good_kv_addr, of k] that imageI [of k ?ks kv_addr] by (simp add: min.commute [of keys fill])
  with s'(1,2) show ?thesis by blast
qed

section \<open>A turn\<close>

lemma rng_xorshift:
  "(let rng = x; rng = rng XOR push_bit 13 rng; rng = rng XOR drop_bit 7 rng; rng = rng XOR push_bit 17 rng in f rng) = f (xorshift x)"
  by (simp only: xorshift_def Let_def)

text \<open>A counter that is flushed every 1024 operations.\<close>

lemma flush_1024:
  assumes "unat (n :: u64) < 1024"
  shows "(n + 1) mod 1024 = 0 \<longleftrightarrow> unat n = 1023" and "unat (n + 1) = Suc (unat n)"
proof -
  show suc: "unat (n + 1) = Suc (unat n)" using assms by (subst unat_word_ariths) (simp add: mod_less)
  have "(n + 1) mod 1024 = 0 \<longleftrightarrow> Suc (unat n) mod 1024 = 0"
    unfolding unat_eq_zero [symmetric] unat_mod_distrib suc by simp
  also have "\<dots> \<longleftrightarrow> unat n = 1023" using assms by (cases "unat n = 1023") (simp_all add: mod_less)
  finally show "(n + 1) mod 1024 = 0 \<longleftrightarrow> unat n = 1023" .
qed

section \<open>Threads in any order\<close>

text \<open>A schedule that runs every thread to the end of its time, and its number of turns.\<close>

fun complete :: "bool list \<Rightarrow> (nat \<times> u64 option) list \<Rightarrow> bool" where
  "complete live [] \<longleftrightarrow> list_all Not live"
| "complete live ((i, e) # sched) \<longleftrightarrow> i < length live \<and> live ! i \<and> complete (if e = None then live[i := False] else live) sched"

definition turns :: "(nat \<times> u64 option) list \<Rightarrow> nat" where
  "turns sched = length (filter (\<lambda>ev. snd ev \<noteq> None) sched)"

definition in_bounds :: "(nat \<times> u64 option) list \<Rightarrow> bool" where
  "in_bounds sched \<longleftrightarrow> list_all (\<lambda>ev. case snd ev of Some dt \<Rightarrow> dt \<le> HIST_MAX | None \<Rightarrow> True) sched"

lemma sum_list_update_group:
  fixes x :: "'a :: ab_group_add"
  shows "i < length xs \<Longrightarrow> sum_list (xs[i := x]) = sum_list xs - xs ! i + x"
  by (induction xs arbitrary: i) (auto simp: algebra_simps split: nat.split)

text \<open>
  The contract of a benchmark's threads: what holds of the shared state together with all workers, what holds of a
  worker between two turns and after its end, and that it counts each of its turns once.
\<close>

locale thread_pool =
  fixes turn :: "u64 \<Rightarrow> 's \<times> 'w \<Rightarrow> ('s \<times> 'w) \<times> unit anyhow"
    and fin :: "'s \<times> 'w \<Rightarrow> ('s \<times> 'w) \<times> unit anyhow"
    and inv :: "'s \<Rightarrow> 'w list \<Rightarrow> bool"
    and running :: "'w \<Rightarrow> bool" and ended :: "'w \<Rightarrow> bool"
    and tally :: "'w \<Rightarrow> u64" and counted :: "'w \<Rightarrow> u64"
  assumes turn_ok: "inv s ws \<Longrightarrow> i < length ws \<Longrightarrow> running (ws ! i) \<Longrightarrow> dt \<le> HIST_MAX \<Longrightarrow>
      \<exists>s' w. turn dt (s, ws ! i) = ((s', w), Ok ()) \<and> inv s' (ws[i := w]) \<and> running w \<and> tally w = tally (ws ! i) + 1"
    and fin_ok: "inv s ws \<Longrightarrow> i < length ws \<Longrightarrow> running (ws ! i) \<Longrightarrow>
      \<exists>s' w. fin (s, ws ! i) = ((s', w), Ok ()) \<and> inv s' (ws[i := w]) \<and> ended w \<and> counted w = tally (ws ! i)"
begin

definition count :: "'w thread \<Rightarrow> u64" where
  "count t = (if snd t then tally (fst t) else counted (fst t))"

definition pool_ok :: "'s \<times> 'w thread list \<Rightarrow> bool" where
  "pool_ok st \<longleftrightarrow> inv (fst st) (map fst (snd st)) \<and> list_all (\<lambda>t. if snd t then running (fst t) else ended (fst t)) (snd st)"

lemma event_ok:
  assumes "pool_ok st" and "i < length (snd st)" and "snd (snd st ! i)" and "\<forall>dt. e = Some dt \<longrightarrow> dt \<le> HIST_MAX"
  shows "pool_ok (thread_event turn fin (i, e) st) \<and>
    map snd (snd (thread_event turn fin (i, e) st)) = (if e = None then (map snd (snd st))[i := False] else map snd (snd st)) \<and>
    sum_list (map count (snd (thread_event turn fin (i, e) st))) = sum_list (map count (snd st)) + (if e = None then 0 else 1)"
proof -
  obtain s ts where st: "st = (s, ts)" by (cases st)
  have pre: "inv s (map fst ts)" "i < length (map fst ts)" "running (map fst ts ! i)" "list_all (\<lambda>t. if snd t then running (fst t) else ended (fst t)) ts"
    using assms by (auto simp: pool_ok_def st list_all_length)
  note upd = list_all_update [OF pre(4), of _ i]
  show ?thesis
  proof (cases e)
    case None
    from fin_ok [OF pre(1-3)] assms(2) obtain s' w where
      "fin (s, fst (ts ! i)) = ((s', w), Ok ())" "inv s' ((map fst ts)[i := w])" "ended w" "counted w = tally (fst (ts ! i))" by (auto simp: st)
    with assms(2,3) None upd [of "(w, False)"] show ?thesis
      by (simp add: st thread_event_def pool_ok_def map_update sum_list_update_group count_def)
  next
    case (Some dt)
    from turn_ok [OF pre(1-3), of dt] assms(2,4) Some obtain s' w where
      "turn dt (s, fst (ts ! i)) = ((s', w), Ok ())" "inv s' ((map fst ts)[i := w])" "running w" "tally w = tally (fst (ts ! i)) + 1" by (auto simp: st)
    with assms(2,3) Some upd [of "(w, True)"] show ?thesis
      by (simp add: st thread_event_def pool_ok_def map_update sum_list_update_group count_def list_update_same_conv)
  qed
qed

lemma run_counts:
  assumes "pool_ok st" and "complete (map snd (snd st)) sched" and "in_bounds sched" and "run_threads turn fin sched st = (s', ts')"
  shows "inv s' (map fst ts') \<and> list_all (\<lambda>t. ended (fst t)) ts' \<and>
    sum_list (map (counted \<circ> fst) ts') = sum_list (map count (snd st)) + word_of_nat (turns sched)"
  using assms
proof (induction sched arbitrary: st)
  case Nil
  then have "list_all (\<lambda>t. \<not> snd t) ts'" by (simp add: list_all_iff)
  then have "map count ts' = map (counted \<circ> fst) ts'" by (auto simp: count_def list_all_iff)
  from arg_cong [OF this, of sum_list] Nil \<open>list_all (\<lambda>t. \<not> snd t) ts'\<close> show ?case
    by (auto simp: pool_ok_def turns_def list_all_iff o_def simp del: map_eq_conv)
next
  case (Cons ev sched)
  obtain i e where ev: "ev = (i, e)" by (cases ev)
  have "i < length (snd st)" "snd (snd st ! i)" "\<forall>dt. e = Some dt \<longrightarrow> dt \<le> HIST_MAX"
    using Cons.prems(2,3) by (auto simp: ev in_bounds_def)
  note step = event_ok [OF Cons.prems(1) this]
  have "complete (map snd (snd (thread_event turn fin ev st))) sched" "in_bounds sched"
    using Cons.prems(2,3) step by (auto simp: ev in_bounds_def)
  from Cons.IH [OF _ this] Cons.prems(4) step show ?case by (auto simp: ev turns_def)
qed

end

section \<open>The threads of the benchmark\<close>

definition kv_rows :: "('db \<Rightarrow> kv) \<Rightarrow> u64 \<Rightarrow> 'db storage \<Rightarrow> bool" where
  "kv_rows absm n s \<longleftrightarrow> (\<forall>k. 1 \<le> k \<longrightarrow> k \<le> n \<longrightarrow> row_view absm s (kv_addr k) = Some row_enc)"

definition writing :: "'db libs \<Rightarrow> ('db \<Rightarrow> kv) \<Rightarrow> u64 \<Rightarrow> 'db storage \<Rightarrow> honest_writer list \<Rightarrow> bool" where
  "writing L absm n s ws \<longleftrightarrow> kv_rows absm n s \<and> filling L absm (concat (map hw_tickets ws)) s"

definition reading :: "'db libs \<Rightarrow> ('db \<Rightarrow> kv) \<Rightarrow> u64 \<Rightarrow> 'db storage \<Rightarrow> honest_reader list \<Rightarrow> bool" where
  "reading L absm n s ws \<longleftrightarrow>
     kv_rows absm n s \<and> row_inv L absm s \<and> list_all (\<lambda>w. \<forall>v\<in>set (hr_seen w). v = Some row_enc) ws"

lemma filling_put_any:
  fixes k :: u64
  assumes "filling L absm tickets s"
  shows "\<exists>s'. unwrapped (put_row ''bench'' ''kv'' [to_be_bytes k] row_enc s) = (s', (Ok (st_next_ticket s) :: ('f, ticket) result)) \<and>
    storage_wf L absm s' \<and> coherent absm s' \<and> (\<forall>n. kv_rows absm n s \<longrightarrow> kv_rows absm n s')"
proof -
  from filling_put [OF assms, of k "st_next_ticket s", where ?'f = 'f] obtain s' where
    s': "unwrapped (put_row ''bench'' ''kv'' [to_be_bytes k] row_enc s) = (s', (Ok (st_next_ticket s) :: ('f, ticket) result))"
    "filling L absm (tickets @ [st_next_ticket s]) s'"
    "\<forall>r. good_row r \<longrightarrow> row_view absm s' r = (if r = kv_addr k then Some row_enc else row_view absm s r)" by blast
  then show ?thesis using good_kv_addr by (intro exI [of _ s']) (simp add: filling_def kv_rows_def)
qed

lemma concat_update_nonempty: "i < length ws \<Longrightarrow> f w \<noteq> [] \<Longrightarrow> concat (map f (ws[i := w])) \<noteq> []"
  using set_update_memI [of i ws w] by auto

lemma write_turn_ok:
  assumes "writing L absm n s ws" and "i < length ws" and "length (hw_tickets (ws ! i)) < 64" and "0 < keys" and "hist dt"
  shows "\<exists>s' w. write_turn L hist keys dt (s, ws ! i) = ((s', w), Ok ()) \<and> writing L absm n s' (ws[i := w]) \<and>
    length (hw_tickets w) < 64 \<and> hw_ops w + word_of_nat (length (hw_tickets w)) = hw_ops (ws ! i) + word_of_nat (length (hw_tickets (ws ! i))) + 1"
proof -
  let ?v = "ws ! i" and ?t = "st_next_ticket s"
  let ?rng = "xorshift (hw_rng ?v)"
  let ?w = "?v\<lparr>hw_rng := ?rng, hw_tickets := hw_tickets ?v @ [?t]\<rparr>"
  have fill: "filling L absm (concat (map hw_tickets ws)) s" and rows: "kv_rows absm n s" using assms(1) by (simp_all add: writing_def)
  from filling_put_any [OF fill, of "1 + ?rng mod keys", where ?'f = string] rows obtain s1 where
    put: "unwrapped (put_row ''bench'' ''kv'' [to_be_bytes (1 + ?rng mod keys)] row_enc s) = (s1, (Ok ?t :: (string, ticket) result))"
    and s1: "storage_wf L absm s1" "coherent absm s1" "kv_rows absm n s1" by blast
  have rem: "rem_u64 ?rng keys = (Ok (?rng mod keys) :: (string, u64) result)" using less_imp_neq [OF assms(4)] by (simp add: rem_u64_def)
  show ?thesis
  proof (cases "64 \<le> length (hw_tickets ?w)")
    case True
    then have "length (hw_tickets ?v) = 63" using assms(3) by simp
    moreover have "write_turn L hist keys dt (s, ?v) = ((settle L s1, ?w\<lparr>hw_tickets := [], hw_ops := hw_ops ?v + 64\<rparr>), Ok ())"
      unfolding write_turn_def prod.case rng_xorshift [of "hw_rng ?v"] using put True assms(5) by (simp add: rem Let_def settle_tickets_def)
    moreover have "writing L absm n (settle L s1) (ws[i := w])" for w
      using s1 settle_ok [OF s1(1)] coherent_settle [OF s1(1,2)] by (simp add: writing_def filling_def kv_rows_def)
    ultimately show ?thesis by (intro exI [of _ "settle L s1"] exI [of _ "?w\<lparr>hw_tickets := [], hw_ops := hw_ops ?v + 64\<rparr>"]) simp
  next
    case False
    then have "write_turn L hist keys dt (s, ?v) = ((s1, ?w), Ok ())"
      unfolding write_turn_def prod.case rng_xorshift [of "hw_rng ?v"] using put by (simp add: rem Let_def)
    moreover have "writing L absm n s1 (ws[i := ?w])"
      using s1 concat_update_nonempty [OF assms(2), of hw_tickets ?w] by (simp add: writing_def filling_def del: concat_eq_Nil_conv)
    ultimately show ?thesis using False by (intro exI [of _ s1] exI [of _ ?w]) simp
  qed
qed

lemma write_end_ok:
  assumes "writing L absm n s ws" and "i < length ws"
  shows "\<exists>s' w. write_end L (s, ws ! i) = ((s', w), Ok ()) \<and> writing L absm n s' (ws[i := w]) \<and> hw_tickets w = [] \<and>
    hw_ops w = hw_ops (ws ! i) + word_of_nat (length (hw_tickets (ws ! i)))"
proof (cases "hw_tickets (ws ! i) = []")
  case True
  with assms show ?thesis by (auto simp: write_end_def)
next
  case False
  let ?w = "(ws ! i)\<lparr>hw_ops := hw_ops (ws ! i) + word_of_nat (length (hw_tickets (ws ! i))), hw_tickets := []\<rparr>"
  from assms(1) have s: "storage_wf L absm s" "coherent absm s" "kv_rows absm n s" by (simp_all add: writing_def filling_def)
  have "write_end L (s, ws ! i) = ((settle L s, ?w), Ok ())" using False by (simp add: write_end_def settle_tickets_def)
  moreover have "writing L absm n (settle L s) (ws[i := ?w])"
    using s settle_ok [OF s(1)] coherent_settle [OF s(1,2)] by (simp add: writing_def filling_def kv_rows_def)
  ultimately show ?thesis by simp
qed

lemma read_turn_ok:
  assumes "reading L absm (min keys fill) s ws" and "i < length ws" and "unat (hr_local_ops (ws ! i)) < 1024" and "0 < min keys fill" and "hist dt"
  shows "\<exists>s' w. read_turn L hist keys fill dt (s, ws ! i) = ((s', w), Ok ()) \<and> reading L absm (min keys fill) s' (ws[i := w]) \<and>
    unat (hr_local_ops w) < 1024 \<and> hr_ops w + hr_local_ops w = hr_ops (ws ! i) + hr_local_ops (ws ! i) + 1 \<and>
    length (hr_seen w) = Suc (length (hr_seen (ws ! i)))"
proof -
  let ?v = "ws ! i"
  let ?k = "1 + xorshift (hr_rng ?v) mod min keys fill"
  from assms(1) have s: "row_inv L absm s" "kv_rows absm (min keys fill) s" "list_all (\<lambda>w. \<forall>v\<in>set (hr_seen w). v = Some row_enc) ws"
    by (simp_all add: reading_def)
  from rows.get_ok [OF s(1) good_kv_addr, of ?k] s(2) one_plus_mod_range [OF assms(4)] obtain s' where
    get: "get_row L ''bench'' ''kv'' [to_be_bytes ?k] s = (s', Ok (Some row_enc))" "row_inv L absm s'"
    "\<And>r. good_row r \<Longrightarrow> row_view absm s' r = row_view absm s r"
    by (auto simp: read_row_def kv_rows_def)
  let ?w = "?v\<lparr>hr_rng := xorshift (hr_rng ?v), hr_seen := hr_seen ?v @ [Some row_enc], hr_local_ops := hr_local_ops ?v + 1\<rparr>"
  let ?w' = "if (hr_local_ops ?v + 1) mod 1024 = 0 then ?w\<lparr>hr_ops := hr_ops ?v + 1024, hr_local_ops := 0\<rparr> else ?w"
  have rem: "rem_u64 (xorshift (hr_rng ?v)) (min keys fill) = (Ok (xorshift (hr_rng ?v) mod min keys fill) :: (string, u64) result)"
    using less_imp_neq [OF assms(4)] by (simp add: rem_u64_def)
  have "read_turn L hist keys fill dt (s, ?v) = ((s', ?w'), Ok ())"
    unfolding read_turn_def prod.case rng_xorshift [of "hr_rng ?v"] using get(1) assms(5) by (simp add: rem unwrapped_def Let_def)
  moreover have "hr_local_ops ?v + 1 = 1024" if "(hr_local_ops ?v + 1) mod 1024 = 0"
    unfolding word_unat_eq_iff using that flush_1024 [OF assms(3)] by simp
  moreover have "reading L absm (min keys fill) s' (ws[i := ?w'])"
  proof -
    have "\<forall>v\<in>set (hr_seen ?w'). v = Some row_enc" using s(3) assms(2) by (auto simp: list_all_length)
    with list_all_update [OF s(3), of ?w' i] have "list_all (\<lambda>w. \<forall>v\<in>set (hr_seen w). v = Some row_enc) (ws[i := ?w'])" by simp
    with get(2,3) s(2) good_kv_addr show ?thesis by (simp add: reading_def kv_rows_def)
  qed
  ultimately show ?thesis
    using assms(3) flush_1024 [OF assms(3)] by (intro exI [of _ s'] exI [of _ ?w']) (auto simp: algebra_simps)
qed

lemma read_end_ok:
  assumes "reading L absm n s ws" and "i < length ws"
  shows "\<exists>s' w. read_end (s, ws ! i) = ((s', w), Ok ()) \<and> reading L absm n s' (ws[i := w]) \<and>
    hr_ops w = hr_ops (ws ! i) + hr_local_ops (ws ! i) \<and> hr_seen w = hr_seen (ws ! i)"
proof -
  let ?w = "(ws ! i)\<lparr>hr_ops := hr_ops (ws ! i) + hr_local_ops (ws ! i)\<rparr>"
  have "\<forall>v\<in>set (hr_seen ?w). v = Some row_enc" using assms by (simp add: reading_def list_all_length)
  with assms(1) list_all_update [of _ ws ?w i] have "reading L absm n s (ws[i := ?w])" by (simp add: reading_def)
  then show ?thesis by (simp add: read_end_def)
qed

interpretation writers: thread_pool "write_turn L hist keys" "write_end L"
    "\<lambda>s ws. hist_ok hist \<and> 0 < keys \<and> writing L absm n s ws" "\<lambda>w. length (hw_tickets w) < 64" "\<lambda>w. hw_tickets w = []"
    "\<lambda>w. hw_ops w + word_of_nat (length (hw_tickets w))" hw_ops
  for L :: "'db libs" and hist keys absm n
proof
  show "\<exists>s' w. write_turn L hist keys dt (s, ws ! i) = ((s', w), Ok ()) \<and> (hist_ok hist \<and> 0 < keys \<and> writing L absm n s' (ws[i := w])) \<and>
      length (hw_tickets w) < 64 \<and> hw_ops w + word_of_nat (length (hw_tickets w)) = hw_ops (ws ! i) + word_of_nat (length (hw_tickets (ws ! i))) + 1"
    if "hist_ok hist \<and> 0 < keys \<and> writing L absm n s ws" "i < length ws" "length (hw_tickets (ws ! i)) < 64" "dt \<le> HIST_MAX" for s ws i dt
    using write_turn_ok [of L absm n s ws i keys hist dt] that by (simp add: hist_ok_def)
  show "\<exists>s' w. write_end L (s, ws ! i) = ((s', w), Ok ()) \<and> (hist_ok hist \<and> 0 < keys \<and> writing L absm n s' (ws[i := w])) \<and>
      hw_tickets w = [] \<and> hw_ops w = hw_ops (ws ! i) + word_of_nat (length (hw_tickets (ws ! i)))"
    if "hist_ok hist \<and> 0 < keys \<and> writing L absm n s ws" "i < length ws" "length (hw_tickets (ws ! i)) < 64" for s ws i
    using write_end_ok [of L absm n s ws i] that by blast
qed

interpretation readers: thread_pool "read_turn L hist keys fill" read_end
    "\<lambda>s ws. hist_ok hist \<and> 0 < min keys fill \<and> reading L absm (min keys fill) s ws"
    "\<lambda>w. unat (hr_local_ops w) < 1024 \<and> hr_ops w + hr_local_ops w = word_of_nat (length (hr_seen w))"
    "\<lambda>w. hr_ops w = word_of_nat (length (hr_seen w))" "\<lambda>w. hr_ops w + hr_local_ops w" hr_ops
  for L :: "'db libs" and hist keys fill absm
proof
  show "\<exists>s' w. read_turn L hist keys fill dt (s, ws ! i) = ((s', w), Ok ()) \<and>
      (hist_ok hist \<and> 0 < min keys fill \<and> reading L absm (min keys fill) s' (ws[i := w])) \<and>
      (unat (hr_local_ops w) < 1024 \<and> hr_ops w + hr_local_ops w = word_of_nat (length (hr_seen w))) \<and>
      hr_ops w + hr_local_ops w = hr_ops (ws ! i) + hr_local_ops (ws ! i) + 1"
    if "hist_ok hist \<and> 0 < min keys fill \<and> reading L absm (min keys fill) s ws" "i < length ws"
      "unat (hr_local_ops (ws ! i)) < 1024 \<and> hr_ops (ws ! i) + hr_local_ops (ws ! i) = word_of_nat (length (hr_seen (ws ! i)))" "dt \<le> HIST_MAX"
    for s ws i dt
    using read_turn_ok [of L absm keys fill s ws i hist dt] that by (auto simp: hist_ok_def)
  show "\<exists>s' w. read_end (s, ws ! i) = ((s', w), Ok ()) \<and> (hist_ok hist \<and> 0 < min keys fill \<and> reading L absm (min keys fill) s' (ws[i := w])) \<and>
      hr_ops w = word_of_nat (length (hr_seen w)) \<and> hr_ops w = hr_ops (ws ! i) + hr_local_ops (ws ! i)"
    if "hist_ok hist \<and> 0 < min keys fill \<and> reading L absm (min keys fill) s ws" "i < length ws"
      "unat (hr_local_ops (ws ! i)) < 1024 \<and> hr_ops (ws ! i) + hr_local_ops (ws ! i) = word_of_nat (length (hr_seen (ws ! i)))" for s ws i
    using read_end_ok [of L absm "min keys fill" s ws i] that by auto
qed

section \<open>The whole run\<close>

lemma spawned_all:
  assumes "\<And>tid. \<exists>rng. seed tid = Ok rng"
  shows "\<exists>rngs. length rngs = n \<and> spawned seed start n = map (\<lambda>rng. (start rng, True)) rngs"
proof -
  from assms obtain f where "\<And>tid. seed tid = Ok (f tid)" by metis
  then have "spawned seed start n = map (\<lambda>rng. (start rng, True)) (map f [0..<n])" by (simp add: spawned_def)
  then show ?thesis by (intro exI [of _ "map f [0..<n]"]) simp
qed

lemma seeds_wrap: "\<exists>rng. write_seed False tid = Ok rng" "\<exists>rng. read_seed False tid = Ok rng"
  by (simp_all add: write_seed_def read_seed_def mul_u64_def)

lemma ignored_unless:
  "\<exists>s'. m = (s', Ok x) \<and> P s' \<Longrightarrow> P s \<Longrightarrow> \<exists>s'. (if c then ignored m else (s, Ok ())) = (s', Ok ()) \<and> P s'"
  by (auto simp: ignored_def)

lemma honest_schema_ok:
  assumes "row_inv L absm s"
  shows "\<exists>s'. honest_schema L s = (s', Ok ()) \<and> row_inv L absm s'"
proof -
  have good: "good_table (''bench'', ''kv'')" by (simp add: good_table_def plain_name_def)
  from get_keyspace_inv [OF assms] obtain s1 where s1: "get_keyspace L ''bench'' s = (s1, Ok (ks_view L absm s ''bench''))" "row_inv L absm s1" by blast
  have "\<exists>s'. put_keyspace L bench_keyspace s1 = (s', Ok ()) \<and> row_inv L absm s'" using put_keyspace_inv [OF s1(2)] by blast
  from ignored_unless [OF this s1(2)] obtain s2 where
    s2: "(if ks_view L absm s ''bench'' = None then ignored (put_keyspace L bench_keyspace s1) else (s1, Ok ())) = (s2, (Ok () :: unit anyhow))"
      "row_inv L absm s2" by blast
  from s2(2) have "storage_wf L absm s2" "storage_quiet s2" by (simp_all add: row_inv_def)
  from get_table_ok [OF this(1) good] obtain s3 where s3: "get_table L ''bench'' ''kv'' s2 = (s3, Ok (tb_view L absm s2 (''bench'', ''kv'')))"
    "storage_wf L absm s3" "st_engines s3 = st_engines s2" "st_row_cache s3 = st_row_cache s2" by blast
  have "storage_quiet s3" using \<open>storage_quiet s2\<close> s3(3) by (simp add: storage_quiet_def)
  from row_inv_cong [OF s2(2) s3(2) view_cong(1) [OF s3(3)] s3(4) this] have i3: "row_inv L absm s3" .
  have "\<exists>s'. put_table L bench_table s3 = (s', Ok ()) \<and> row_inv L absm s'"
    using put_table_inv [OF i3, of bench_table] good by (auto simp: bench_table_def)
  from ignored_unless [OF this i3] obtain s4 where
    "(if tb_view L absm s2 (''bench'', ''kv'') = None then ignored (put_table L bench_table s3) else (s3, Ok ())) = (s4, (Ok () :: unit anyhow))"
    "row_inv L absm s4" by blast
  with s1(1) s2(1) s3(1) show ?thesis by (simp add: honest_schema_def unwrapped_def)
qed

lemma bench_storage_write_ok:
  assumes "row_inv L absm s" and "hist_ok hist" and "0 < ha_keys a"
    and "complete (replicate (ha_threads a) True) sched" and "in_bounds sched"
  shows "\<exists>s'. bench_storage_write L hist False a sched s = (s', Ok (word_of_nat (turns sched))) \<and> row_inv L absm s' \<and>
    kv_rows absm (min (ha_keys a) (ha_fill a)) s'"
proof -
  let ?n = "min (ha_keys a) (ha_fill a)" and ?w = "\<lambda>rng. \<lparr>hw_rng = rng, hw_tickets = [], hw_ops = 0\<rparr>"
  from honest_schema_ok [OF assms(1)] obtain s1 where s1: "honest_schema L s = (s1, Ok ())" "row_inv L absm s1" by blast
  from honest_fill_ok [OF s1(2), of "ha_keys a" "ha_fill a"] obtain s2 where
    s2: "honest_fill L (ha_keys a) (ha_fill a) s1 = (s2, Ok ())" "row_inv L absm s2" "kv_rows absm ?n s2" unfolding kv_rows_def by blast
  from spawned_all [of "write_seed False", OF seeds_wrap(1)] obtain rngs where
    rngs: "length rngs = ha_threads a" "spawned (write_seed False) ?w (ha_threads a) = map (\<lambda>rng. (?w rng, True)) rngs" by blast
  obtain s3 ts where run: "run_threads (write_turn L hist (ha_keys a)) (write_end L) sched (s2, map (\<lambda>rng. (?w rng, True)) rngs) = (s3, ts)"
    by (cases "run_threads (write_turn L hist (ha_keys a)) (write_end L) sched (s2, map (\<lambda>rng. (?w rng, True)) rngs)")
  have "writers.pool_ok hist (ha_keys a) L absm ?n (s2, map (\<lambda>rng. (?w rng, True)) rngs)"
    unfolding writers.pool_ok_def using assms(2,3) s2(2,3) row_inv_filling [of L absm s2]
    by (simp add: writing_def list_all_iff o_def map_replicate_const)
  from writers.run_counts [OF this _ assms(5) run] assms(4) rngs(1)
  have ts: "writing L absm ?n s3 (map fst ts)" "list_all (\<lambda>t. hw_tickets (fst t) = []) ts" "sum_list (map (hw_ops \<circ> fst) ts) = word_of_nat (turns sched)"
    by (simp_all add: writers.count_def o_def map_replicate_const sum_list_replicate)
  from ts(2) have "concat (map hw_tickets (map fst ts)) = []" by (simp add: list_all_iff)
  with ts(1) have "row_inv L absm s3" "kv_rows absm ?n s3" by (simp_all add: writing_def filling_def row_inv_def)
  with s1(1) s2(1) rngs(2) run ts(3) show ?thesis by (simp add: bench_storage_write_def)
qed

lemma bench_storage_read_ok:
  assumes "row_inv L absm s" and "kv_rows absm (min (ha_keys a) (ha_fill a)) s" and "hist_ok hist" and "0 < min (ha_keys a) (ha_fill a)"
    and "complete (replicate (ha_threads a) True) sched" and "in_bounds sched"
  shows "\<exists>s' seen. bench_storage_read L hist False a sched s = (s', Ok (word_of_nat (turns sched), seen)) \<and> row_inv L absm s' \<and>
    kv_rows absm (min (ha_keys a) (ha_fill a)) s' \<and> (\<forall>v\<in>set seen. v = Some row_enc) \<and> word_of_nat (length seen) = (word_of_nat (turns sched) :: u64)"
proof -
  let ?n = "min (ha_keys a) (ha_fill a)" and ?w = "\<lambda>rng. \<lparr>hr_rng = rng, hr_local_ops = 0, hr_ops = 0, hr_seen = []\<rparr>"
  from spawned_all [of "read_seed False", OF seeds_wrap(2)] obtain rngs where
    rngs: "length rngs = ha_threads a" "spawned (read_seed False) ?w (ha_threads a) = map (\<lambda>rng. (?w rng, True)) rngs" by blast
  obtain s' ts where run: "run_threads (read_turn L hist (ha_keys a) (ha_fill a)) read_end sched (s, map (\<lambda>rng. (?w rng, True)) rngs) = (s', ts)"
    by (cases "run_threads (read_turn L hist (ha_keys a) (ha_fill a)) read_end sched (s, map (\<lambda>rng. (?w rng, True)) rngs)")
  have "readers.pool_ok hist (ha_keys a) (ha_fill a) L absm (s, map (\<lambda>rng. (?w rng, True)) rngs)"
    unfolding readers.pool_ok_def using assms(1-4) by (simp add: reading_def list_all_iff)
  from readers.run_counts [OF this _ assms(6) run] assms(5) rngs(1)
  have ts: "reading L absm ?n s' (map fst ts)" "list_all (\<lambda>t. hr_ops (fst t) = word_of_nat (length (hr_seen (fst t)))) ts"
    "sum_list (map (hr_ops \<circ> fst) ts) = word_of_nat (turns sched)"
    by (simp_all add: readers.count_def o_def map_replicate_const sum_list_replicate)
  have "word_of_nat (length (concat (map (hr_seen \<circ> fst) ts))) = sum_list (map (hr_ops \<circ> fst) ts)"
    using ts(2) by (induction ts) auto
  moreover have "\<forall>v\<in>set (concat (map (hr_seen \<circ> fst) ts)). v = Some row_enc" using ts(1) by (auto simp: reading_def list_all_iff)
  ultimately show ?thesis using rngs(2) run ts(1,3) by (auto simp: bench_storage_read_def reading_def)
qed

section \<open>Properties\<close>

text \<open>
  C33. A whole run of the storage benchmark, in a build without overflow checks: whatever the order in which its threads take
  their turns and whenever each finds its time over, as long as there are keys to draw and every latency is in the bounds
  of the histogram, the run ends without an error, it reports exactly the writes and the reads that were made, every
  read has found its row, and the databases that it leaves hold every row of the fill, with nothing queued.
\<close>

theorem honest_run_counts:
  assumes "storage_open L (hosts (ha_data a)) = Ok s" and "row_inv L absm s" and "hist_ok hist" and "0 < min (ha_keys a) (ha_fill a)"
    and "complete (replicate (ha_threads a) True) writes" and "in_bounds writes"
    and "complete (replicate (ha_threads a) True) reads" and "in_bounds reads"
  shows "\<exists>seen dbs t. honest_main L hosts hist False a writes reads = Ok (word_of_nat (turns writes), word_of_nat (turns reads), seen, dbs) \<and>
    (\<forall>v\<in>set seen. v = Some row_enc) \<and> word_of_nat (length seen) = (word_of_nat (turns reads) :: u64) \<and>
    dbs = map en_db (st_engines t) \<and> row_inv L absm t \<and>
    (\<forall>k. 1 \<le> k \<longrightarrow> k \<le> min (ha_keys a) (ha_fill a) \<longrightarrow> row_view absm t (''bench'', ''kv'', [to_be_bytes k]) = Some row_enc)"
proof -
  have "0 < ha_keys a" using assms(4) by simp
  from bench_storage_write_ok [OF assms(2,3) this assms(5,6)] obtain s1 where
    s1: "bench_storage_write L hist False a writes s = (s1, Ok (word_of_nat (turns writes)))" "row_inv L absm s1"
      "kv_rows absm (min (ha_keys a) (ha_fill a)) s1" by blast
  from bench_storage_read_ok [OF s1(2,3) assms(3,4,7,8)] obtain s2 seen where
    s2: "bench_storage_read L hist False a reads s1 = (s2, Ok (word_of_nat (turns reads), seen))" "row_inv L absm s2"
      "kv_rows absm (min (ha_keys a) (ha_fill a)) s2" "\<forall>v\<in>set seen. v = Some row_enc"
      "word_of_nat (length seen) = (word_of_nat (turns reads) :: u64)" by blast
  have "honest_main L hosts hist False a writes reads
      = Ok (word_of_nat (turns writes), word_of_nat (turns reads), seen, map en_db (st_engines (settle L s2)))"
    using assms(1) s1(1) s2(1) by (simp add: honest_main_def storage_drop_def settle_def)
  moreover have "row_inv L absm (settle L s2)" "kv_rows absm (min (ha_keys a) (ha_fill a)) (settle L s2)"
    using s2(2,3) settle_ok [of L absm s2] coherent_settle [of L absm s2] by (simp_all add: row_inv_def kv_rows_def)
  ultimately show ?thesis using s2(4,5) unfolding kv_rows_def by blast
qed

theorem honest_run_counts_witness:
  "\<exists>seen dbs. honest_main mem_libs (\<lambda>_. mem_host None (\<lambda>_. fmempty)) (\<lambda>dt. dt \<le> HIST_MAX) False
     \<lparr>ha_data = ''data'', ha_keys = 20, ha_fill = 5, ha_threads = 2, ha_secs = 10\<rparr>
     [(0, Some 700), (1, Some 900), (1, Some 800), (1, None), (0, Some 10000000), (0, None)] [(1, None), (0, Some 30), (0, None)]
     = Ok (4, 1, seen, dbs) \<and> (\<forall>v\<in>set seen. v = Some row_enc)"
proof -
  obtain s where s: "storage_open mem_libs (mem_host None (\<lambda>_. fmempty)) = Ok s" "row_inv mem_libs fmlookup s" using mem_opened by blast
  let ?a = "\<lparr>ha_data = ''data'', ha_keys = 20, ha_fill = 5, ha_threads = 2, ha_secs = 10\<rparr>"
  let ?w = "[(0, Some 700), (1, Some 900), (1, Some 800), (1, None), (0, Some 10000000), (0, None)] :: (nat \<times> u64 option) list"
  let ?r = "[(1, None), (0, Some 30), (0, None)] :: (nat \<times> u64 option) list"
  have "complete (replicate 2 True) ?w" "complete (replicate 2 True) ?r" by (simp_all add: numeral_2_eq_2)
  moreover have "in_bounds ?w" "in_bounds ?r" "hist_ok (\<lambda>dt. dt \<le> HIST_MAX)" by (simp_all add: in_bounds_def HIST_MAX_def hist_ok_def)
  moreover have "word_of_nat (turns ?w) = (4 :: u64)" "word_of_nat (turns ?r) = (1 :: u64)" by (simp_all add: turns_def)
  ultimately show ?thesis
    using honest_run_counts [of mem_libs "\<lambda>_. mem_host None (\<lambda>_. fmempty)" ?a s fmlookup "\<lambda>dt. dt \<le> HIST_MAX" ?w ?r] s
    by (auto simp: min_def)
qed

text \<open>
  A latency that the histogram does not record ends a thread: a read of a row that is there is not counted, and the
  thread takes no other turn.
\<close>

theorem honest_slow_read_ends_thread:
  assumes "reading L absm (min keys fill) s [w]" and "0 < min keys fill" and "\<not> hist dt"
  shows "\<exists>s' w'. thread_event (read_turn L hist keys fill) read_end (0, Some dt) (s, [(w, True)]) = (s', [(w', False)]) \<and>
    hr_seen w' = hr_seen w @ [Some row_enc] \<and> hr_ops w' + hr_local_ops w' = hr_ops w + hr_local_ops w"
proof -
  let ?k = "1 + xorshift (hr_rng w) mod min keys fill"
  from assms(1) have s: "row_inv L absm s" "kv_rows absm (min keys fill) s" by (simp_all add: reading_def)
  from rows.get_ok [OF s(1) good_kv_addr, of ?k] s(2) one_plus_mod_range [OF assms(2)] obtain s' where
    get: "get_row L ''bench'' ''kv'' [to_be_bytes ?k] s = (s', Ok (Some row_enc))" by (auto simp: read_row_def kv_rows_def)
  have rem: "rem_u64 (xorshift (hr_rng w)) (min keys fill) = (Ok (xorshift (hr_rng w) mod min keys fill) :: (string, u64) result)"
    using less_imp_neq [OF assms(2)] by (simp add: rem_u64_def)
  have "read_turn L hist keys fill dt (s, w) = ((s', w\<lparr>hr_rng := xorshift (hr_rng w), hr_seen := hr_seen w @ [Some row_enc]\<rparr>), Panic)"
    unfolding read_turn_def prod.case rng_xorshift [of "hr_rng w"] using get assms(3) by (simp add: rem unwrapped_def Let_def)
  then show ?thesis by (simp add: thread_event_def)
qed

text \<open>
  The second writing thread never leaves key 1: its seed is the constant of the generator xored with itself, 0, from which the generator
  never moves, so every write of it goes to one row.
\<close>

theorem honest_thread_one_stuck:
  assumes "filling L absm (hw_tickets w) s" and "0 < keys" and "write_seed False 1 = Ok (hw_rng w)"
  shows "\<exists>s' w' r. write_turn L hist keys dt (s, w) = ((s', w'), r) \<and> hw_rng w' = hw_rng w \<and>
    (\<forall>r. good_row r \<and> r \<noteq> (''bench'', ''kv'', [to_be_bytes (1 :: u64)]) \<longrightarrow> row_view absm s' r = row_view absm s r)"
proof -
  have rng: "hw_rng w = 0" using assms(3) by (simp add: write_seed_def mul_u64_def)
  from filling_put [OF assms(1), of 1 "st_next_ticket s", where ?'f = string] obtain s1 where
    put: "unwrapped (put_row ''bench'' ''kv'' [to_be_bytes (1 :: u64)] row_enc s) = (s1, (Ok (st_next_ticket s) :: (string, ticket) result))"
    "filling L absm (hw_tickets w @ [st_next_ticket s]) s1"
    "\<And>r. good_row r \<Longrightarrow> row_view absm s1 r = (if r = kv_addr 1 then Some row_enc else row_view absm s r)" by blast
  have rem: "rem_u64 0 keys = (Ok 0 :: (string, u64) result)" using less_imp_neq [OF assms(2)] by (simp add: rem_u64_def)
  have zero: "xorshift 0 = 0" by simp
  show ?thesis
    unfolding write_turn_def prod.case rng_xorshift [of "hw_rng w"] rng zero
    using put(1,3) filling_settle(2) [OF put(2)] by (simp add: rem Let_def rng)
qed

end
