(* ===== verification/EndToEnd.thy ===== *)
theory EndToEnd
  imports BenchHonest ServerSpec StatementSpec Connection
begin

text \<open>
  The benchmark client of \<^verbatim>\<open>src/src/bin/bench.rs\<close> against the server: the socket that the client's model
  has as a parameter is the model of the server here. The server of this theory takes the requests of the
  connection in order, one at a time, and its writer threads run until all is committed while a request
  waits; the bytes of its responses wait for the client to read them.
\<close>

declare split_paired_All [simp del] split_paired_Ex [simp del]

section \<open>The server as a peer\<close>

definition serve_request :: "'db libs \<Rightarrow> frame_libs \<Rightarrow> i16 \<times> byte \<times> bytes \<Rightarrow> 'db session \<Rightarrow> 'db session \<times> bytes" where
  "serve_request L P q sess =
     (case q of (stream, opcode, body) \<Rightarrow>
        (case run_task L P (Fresh stream opcode body) sess of
           (sess, Some (Sending _ b)) \<Rightarrow> (sess, b)
         | ((s, c), Some t) \<Rightarrow>
             (case run_task L P t (settle L s, c) of (sess, Some (Sending _ b)) \<Rightarrow> (sess, b) | (sess, _) \<Rightarrow> (sess, []))
         | (sess, None) \<Rightarrow> (sess, [])))"

text \<open>The requests in the bytes of one write; a frame that is no request ends it.\<close>

function serve :: "'db libs \<Rightarrow> frame_libs \<Rightarrow> bytes \<Rightarrow> 'db session \<Rightarrow> 'db session \<times> bytes" where
  "serve L P input sess =
     (case next_frame P (snd sess) input of
        Request stream opcode body rest \<Rightarrow>
          (case serve_request L P (stream, opcode, body) sess of (sess, b) \<Rightarrow>
             (case serve L P rest sess of (sess, bs) \<Rightarrow> (sess, b @ bs)))
      | _ \<Rightarrow> (sess, []))"
  by auto
termination
proof (relation "measure (\<lambda>(L, P, input, sess). length input)")
  show "((L, P, rest, sess'), (L, P, input, sess)) \<in> measure (\<lambda>(L, P, input, sess). length input)"
    if "next_frame P (snd sess) input = Request stream opcode body rest" for L :: "'a libs" and P input sess sess' rest stream opcode body
    using next_frame_shorter that by fastforce
qed simp

declare serve.simps [simp del]

record 'db peer =
  pe_session :: "'db session"
  pe_out :: bytes

definition server_net :: "'db libs \<Rightarrow> frame_libs \<Rightarrow> 'db peer net" where
  "server_net L P =
     \<lparr>nt_connect = \<lambda>_ w. (w\<lparr>pe_session := (fst (pe_session w), conn_new), pe_out := []\<rparr>, Ok ()),
      nt_write = \<lambda>b w. (case serve L P b (pe_session w) of (sess, out) \<Rightarrow> (\<lparr>pe_session = sess, pe_out = pe_out w @ out\<rparr>, Ok ())),
      nt_read = \<lambda>n w. if length (pe_out w) < n then (w, Err ''failed to fill whole buffer'')
                      else (w\<lparr>pe_out := drop n (pe_out w)\<rparr>, Ok (take n (pe_out w)))\<rparr>"

text \<open>A run of requests, each served in the state the one before left.\<close>

fun serve_all :: "'db libs \<Rightarrow> frame_libs \<Rightarrow> (i16 \<times> byte \<times> bytes) list \<Rightarrow> 'db session \<Rightarrow> 'db session \<times> bytes" where
  "serve_all L P [] sess = (sess, [])"
| "serve_all L P (q # qs) sess =
     (case serve_request L P q sess of (sess, b) \<Rightarrow> (case serve_all L P qs sess of (sess, bs) \<Rightarrow> (sess, b @ bs)))"

lemma serve_requests: "list_all request_fits qs \<Longrightarrow> serve L P (concat (map enc_request qs)) sess = serve_all L P qs sess"
proof (induction qs arbitrary: sess)
  case Nil
  then show ?case by (simp add: serve.simps next_frame_def)
next
  case (Cons q qs)
  obtain stream opcode body where q: "q = (stream, opcode, body)" by (cases q)
  with Cons.prems have "next_frame P (snd sess) (enc_request q @ concat (map enc_request qs)) = Request stream opcode body (concat (map enc_request qs))"
    by (simp add: enc_request_def request_fits_def next_frame_client)
  with Cons show ?case by (subst serve.simps) (simp add: q)
qed

section \<open>Reading responses\<close>

definition response_bytes :: "i16 \<Rightarrow> byte \<Rightarrow> bytes \<Rightarrow> bytes" where
  "response_bytes stream opcode body = [0x84, 0] @ to_be_bytes stream @ [opcode] @ to_be_bytes (word_of_nat (length body) :: 32 word) @ body"

lemma response_frame_bytes:
  "frame_libs_ok P \<Longrightarrow> response_frame P 0x04 stream opcode body None = Ok (response_bytes stream (response_opcode_byte opcode) body)"
  by (simp add: response_frame_def response_bytes_def frame_libs_ok_def)

lemma read_response_server:
  assumes "pe_out (bc_sock c) = response_bytes stream opcode body @ rest" and "length body < 2 ^ 32"
  shows "read_response (server_net L P) c = (c\<lparr>bc_sock := (bc_sock c)\<lparr>pe_out := rest\<rparr>\<rparr>, Ok (opcode, body))"
proof -
  have hdr: "take 9 (pe_out (bc_sock c)) = [0x84, 0] @ to_be_bytes stream @ [opcode] @ to_be_bytes (word_of_nat (length body) :: 32 word)"
    "drop 9 (pe_out (bc_sock c)) = body @ rest" "\<not> length (pe_out (bc_sock c)) < 9"
    using assms(1) by (simp_all add: response_bytes_def)
  have "unat (word_of_nat (length body) :: 32 word) = length body" using assms(2) by (simp add: unat_of_nat take_bit_nat_eq_self)
  then show ?thesis
    using hdr list_of_4 [of "to_be_bytes (word_of_nat (length body) :: 32 word)"]
    by (simp add: read_response_def on_sock_def server_net_def Let_def nth_append del: One_nat_def)
qed

text \<open>A request of the client and the response to it.\<close>

lemma roundtrip_server:
  assumes "serve_request L P (bc_next_stream c, opcode, body) (pe_session (bc_sock c)) = (sess, response_bytes (bc_next_stream c) op payload)"
    and "request_fits (bc_next_stream c, opcode, body)" and "pe_out (bc_sock c) = []" and "length payload < 2 ^ 32"
  shows "roundtrip (server_net L P) opcode body what c =
    (c\<lparr>bc_next_stream := bc_next_stream c + 1, bc_sock := \<lparr>pe_session = sess, pe_out = []\<rparr>\<rparr>,
     if op = OPCODE_ERROR then Err (what @ from_utf8_lossy payload) else Ok payload)"
proof -
  let ?q = "(bc_next_stream c, opcode, body)"
  let ?c = "c\<lparr>bc_next_stream := bc_next_stream c + 1, bc_sock := \<lparr>pe_session = sess, pe_out = response_bytes (bc_next_stream c) op payload\<rparr>\<rparr>"
  have "serve L P (client_frame (bc_next_stream c) opcode body []) (pe_session (bc_sock c)) = (sess, response_bytes (bc_next_stream c) op payload)"
    using serve_requests [of "[?q]" L P "pe_session (bc_sock c)"] assms(1,2) by (simp add: enc_request_def)
  moreover have "read_response (server_net L P) ?c = (?c\<lparr>bc_sock := \<lparr>pe_session = sess, pe_out = []\<rparr>\<rparr>, Ok (op, payload))"
    using read_response_server [of ?c "bc_next_stream c" op payload "[]" L P] assms(4) by simp
  ultimately show ?thesis using assms(3) by (simp add: roundtrip_def on_sock_def server_net_def Let_def)
qed

section \<open>Serving an INSERT\<close>

text \<open>What the task of an EXECUTE request does, once its body is decoded.\<close>

lemma execute_task:
  assumes "frame_libs_ok P" and "fr_read_short_bytes P body = Some (pid, buf)" and "fr_params P buf = Some params"
    and "cn_prepared c pid = Some p" and "length (qp_values params) = length (ps_bind_types p)"
    and "execute_statement L (cn_keyspace c) (ps_stmt p) (binds_new (qp_values params)) (qp_page_size params) (qp_paging_state params) s
      = (s', Ok (resp, gates))"
  shows "run_task L P (Fresh stream 0x0A body) (s, c) = ((s', c), Some (Waiting stream gates (\<lambda>c'.
    (c', or_error_frame P 0x04 stream (conn_compression c) (respond P 0x04 stream (conn_compression c) (Ok resp) (qp_skip_metadata params))))))"
proof -
  have "fr_opcode_try_from P 0x0A = Some ReqExecute" using assms(1) by (simp add: frame_libs_ok_def request_opcodes_def)
  with assms(2-6) show ?thesis
    by (simp add: begin_request_def handle_execute_def execute_prepared_paged_def settle_then_def Let_def)
qed

lemma void_frame:
  assumes "frame_libs_ok P"
  shows "(result_void P 0x04 stream None :: bytes qres) =
    Ok ([0x84, 0] @ to_be_bytes stream @ [0x08] @ to_be_bytes (4 :: 32 word) @ to_be_bytes (1 :: i32))"
  using assms by (simp add: result_void_def response_frame_def frame_libs_ok_def)

text \<open>What the parser makes of the statement that the clients prepare, with the names as they are written.\<close>

definition bench_insert :: insert_ast where
  "bench_insert =
     \<lparr>in_table_name = \<lparr>fq_keyspace = Some (Unquoted ''bench''), fq_name = Unquoted ''kv''\<rparr>,
      in_columns = [Unquoted ''id'', Unquoted ''val''], in_values = InsValues [OpParam ''?'', OpParam ''?'']\<rparr>"

abbreviation bench_row :: "u64 \<Rightarrow> row_addr" where
  "bench_row k \<equiv> (''bench'', ''kv'', [to_be_bytes k])"

definition bench_data :: "string \<Rightarrow> bytes" where
  "bench_data v = encode_row_columns [(1, VText v)]"

lemma bench_table_ok: "table_ok bench_table"
  by (simp add: table_ok_def key_names_def is_regular_def bench_table_def)

lemma bench_row_shape:
  "row_parts bench_table [VBigInt k, VText v] = [to_be_bytes k]"
  "encode_row_columns (row_columns bench_table [VBigInt k, VText v]) = bench_data v"
  by (simp_all add: row_parts_def row_columns_def key_names_def key_value_def key_idx_def column_index_def regular_indices_def is_regular_def
      bench_table_def bench_data_def upt_rec)

lemma bench_row_ok: "utf8_valid v \<Longrightarrow> length v < 2 ^ 31 \<Longrightarrow> row_ok bench_table [VBigInt k, VText v]"
  by (simp add: row_ok_def key_names_def key_value_def key_idx_def column_index_def conforms_def wire_sized_def bench_table_def
      short_part_def)

lemma bench_names: "good_table (''bench'', ''kv'')" "''bench'' \<notin> set SYSTEM_KEYSPACES" "good_row (bench_row k)"
  by (simp_all add: good_table_def good_row_def plain_name_def SYSTEM_KEYSPACES_def short_part_def)

lemma bench_lower: "to_lowercase ''bench'' = ''bench''" "to_lowercase ''kv'' = ''kv''" "to_lowercase ''id'' = ''id''" "to_lowercase ''val'' = ''val''"
  by (simp_all add: to_lowercase_def lower_char_def)

lemma exec_bench_insert:
  "tb_view L absm s (''bench'', ''kv'') = Some bench_table \<Longrightarrow> storage_wf L absm s \<Longrightarrow>
     exec_insert L session_ks bench_insert b s = exec_insert L session_ks (insert_full ''bench'' ''kv'' bench_table) b s"
proof -
  assume view: "tb_view L absm s (''bench'', ''kv'') = Some bench_table" and wf: "storage_wf L absm s"
  obtain s' where s': "resolve_table L session_ks (table_name_of ''bench'' ''kv'') s = (s', Ok (''bench'', bench_table))"
    using resolve_table_ok [OF wf target_keyspace_of bench_names(1) view] by blast
  moreover have "resolve_table L session_ks (in_table_name bench_insert) s = resolve_table L session_ks (table_name_of ''bench'' ''kv'') s"
    by (simp add: resolve_table_def target_keyspace_def bench_insert_def table_name_of_def bench_lower)
  moreover have "resolve_values L bench_table (zip (in_columns bench_insert) [OpParam ''?'', OpParam ''?'']) r b
      = resolve_values L bench_table (zip [Quoted ''id'', Quoted ''val''] [OpParam ''?'', OpParam ''?'']) r b" for r
    by (simp add: bench_insert_def bench_table_def ident_eq_norm_id bench_lower del: ident_eq.simps)
  moreover have "in_values bench_insert = InsValues [OpParam ''?'', OpParam ''?'']" "length (in_columns bench_insert) = 2"
    by (simp_all add: bench_insert_def)
  moreover have "map (\<lambda>c. Quoted (cd_name c)) (td_columns bench_table) = [Quoted ''id'', Quoted ''val'']"
    "map (\<lambda>_. OpParam ''?'') (td_columns bench_table) = [OpParam ''?'', OpParam ''?'']" "length (td_columns bench_table) = 2"
    by (simp_all add: bench_table_def)
  ultimately show ?thesis by (simp add: exec_insert_def insert_full_def del: resolve_values.simps)
qed

text \<open>The state of a session in which the client fills the table.\<close>

definition fill_ready :: "'db libs \<Rightarrow> ('db \<Rightarrow> kv) \<Rightarrow> bytes \<Rightarrow> 'db session \<Rightarrow> bool" where
  "fill_ready L absm pid sess \<longleftrightarrow>
     storage_wf L absm (fst sess) \<and> coherent absm (fst sess) \<and> tb_view L absm (fst sess) (''bench'', ''kv'') = Some bench_table \<and>
     conn_compression (snd sess) = None \<and>
     cn_prepared (snd sess) pid = Some \<lparr>ps_stmt = SInsert bench_insert, ps_bind_types = [TBigInt, TText]\<rparr>"

text \<open>The rows after the keys \<open>K\<close> have been written.\<close>

definition filled :: "('db \<Rightarrow> kv) \<Rightarrow> string \<Rightarrow> u64 set \<Rightarrow> 'db storage \<Rightarrow> 'db storage \<Rightarrow> bool" where
  "filled absm v K s s' \<longleftrightarrow>
     (\<forall>r. good_row r \<longrightarrow> row_view absm s' r = (if r \<in> bench_row ` K then Some (bench_data v) else row_view absm s r))"

lemma filled_none: "filled absm v {} s s"
  by (simp add: filled_def)

lemma filled_trans: "filled absm v K s s' \<Longrightarrow> filled absm v K' s' s'' \<Longrightarrow> filled absm v (K \<union> K') s s''"
  by (auto simp: filled_def)

lemma insert_served:
  assumes "frame_libs_ok P" and "decode_execute P body = Some (pid, plain_params [to_be_bytes k, str_bytes v] skip)"
    and "fill_ready L absm pid sess" and "utf8_valid v" and "length v < 2 ^ 31"
  shows "\<exists>sess'. serve_request L P (stream, 0x0A, body) sess = (sess', response_bytes stream 0x08 (to_be_bytes (1 :: i32))) \<and>
    fill_ready L absm pid sess' \<and> filled absm v {k} (fst sess) (fst sess')"
proof -
  let ?vals = "[VBigInt k, VText v]"
  obtain s c where sess: "sess = (s, c)" by (cases sess)
  with assms(3) have s: "storage_wf L absm s" "coherent absm s" "tb_view L absm s (''bench'', ''kv'') = Some bench_table"
    and c: "conn_compression c = None" "cn_prepared c pid = Some \<lparr>ps_stmt = SInsert bench_insert, ps_bind_types = [TBigInt, TText]\<rparr>"
    by (simp_all add: fill_ready_def)
  from exec_insert_full [OF s(1) bench_names(1) s(3) bench_names(2) bench_table_ok bench_row_ok [OF assms(4,5)]] obtain s'
    where s': "storage_wf L absm s'" "st_engines s' = st_engines s" "st_row_cache s' = st_row_cache s"
    and exec: "exec_insert L (cn_keyspace c) (insert_full ''bench'' ''kv'' bench_table) (binds_new (map bound ?vals)) s =
      and_then (with_err internal_err (put_row ''bench'' ''kv'' [to_be_bytes k] (bench_data v) s')) (\<lambda>s ticket. (s, Ok (RVoid, [ticket])))"
    unfolding bench_row_shape by blast
  have coh: "coherent absm s'" by (rule coherent_same [OF s(2) s'(2,3)])
  from put_row_ok [OF s'(1) bench_names(3), of k "bench_data v"] obtain s1
    where put: "put_row ''bench'' ''kv'' [to_be_bytes k] (bench_data v) s' = (s1, Ok (st_next_ticket s'))"
    and upd: "row_update L absm s' (bench_row k) (Some (bench_data v)) s1" by blast
  from upd coh s'(2) have s1: "storage_wf L absm s1" "coherent absm s1" "tb_view L absm s1 = tb_view L absm s"
    and rows: "\<forall>r. good_row r \<longrightarrow> row_view absm s1 r = (if r = bench_row k then Some (bench_data v) else row_view absm s r)"
    using view_cong [OF s'(2)] unfolding row_update_def by simp_all
  obtain buf where reads: "fr_read_short_bytes P body = Some (pid, buf)" "fr_params P buf = Some (plain_params [to_be_bytes k, str_bytes v] skip)"
    using assms(2) by (auto simp: decode_execute_def bind_eq_Some_conv)
  have vals: "qp_values (plain_params [to_be_bytes k, str_bytes v] skip) = map bound ?vals" by (simp add: plain_params_def bound_def)
  have run: "run_task L P (Fresh stream 0x0A body) (s, c) = ((s1, c), Some (Waiting stream [st_next_ticket s'] (\<lambda>c'.
      (c', or_error_frame P 0x04 stream None (respond P 0x04 stream None (Ok RVoid) skip)))))"
    using execute_task [OF assms(1) reads c(2), of L s s1 RVoid "[st_next_ticket s']" stream] exec put c(1)
    unfolding vals by (simp add: execute_statement_def exec_bench_insert [OF s(3,1)] plain_params_def)
  have "serve_request L P (stream, 0x0A, body) sess = ((settle L s1, c), response_bytes stream 0x08 (to_be_bytes (1 :: i32)))"
    unfolding serve_request_def sess
    by (simp add: run c(1) respond_def void_frame [OF assms(1)] or_error_frame_def response_bytes_def del: run_task.simps(1))
  moreover have "fill_ready L absm pid (settle L s1, c)"
    using s(3) s1 c settle_ok [OF s1(1)] coherent_settle [OF s1(1,2)] by (simp add: fill_ready_def)
  moreover have "filled absm v {k} s (settle L s1)" using rows settle_ok(2) [OF s1(1)] by (simp add: filled_def)
  ultimately show ?thesis by (simp add: sess)
qed

section \<open>The fill\<close>

text \<open>The requests of a batch of INSERTs: stream and key of each.\<close>

definition insert_request :: "workload \<Rightarrow> i16 \<times> u64 \<Rightarrow> i16 \<times> byte \<times> bytes" where
  "insert_request wl q = (fst q, 0x0A, op_body wl True (snd q))"

definition void_response :: "i16 \<Rightarrow> bytes" where
  "void_response stream = response_bytes stream 0x08 (to_be_bytes (1 :: i32))"

lemma inserts_served:
  assumes "frame_libs_ok P" and "request_readers_ok P" and "workload_fits wl" and "wl_value wl = str_bytes v" and "utf8_valid v"
  shows "fill_ready L absm (wl_insert_id wl) sess \<Longrightarrow>
    \<exists>sess'. serve_all L P (map (insert_request wl) qs) sess = (sess', concat (map (void_response \<circ> fst) qs)) \<and>
      fill_ready L absm (wl_insert_id wl) sess' \<and> filled absm v (snd ` set qs) (fst sess) (fst sess')"
proof (induction qs arbitrary: sess)
  case Nil
  then show ?case by (simp add: filled_none)
next
  case (Cons q qs)
  have len: "length v < 2 ^ 31" using assms(3,4) by (simp add: workload_fits_def)
  have dec: "decode_execute P (op_body wl True (snd q)) = Some (wl_insert_id wl, plain_params [to_be_bytes (snd q), str_bytes v] False)"
    using decode_op_body [OF assms(2,3), of True "snd q"] assms(4) by (simp add: op_id_def op_values_def)
  obtain sess1 where one: "serve_request L P (insert_request wl q) sess = (sess1, void_response (fst q))"
    "fill_ready L absm (wl_insert_id wl) sess1" "filled absm v {snd q} (fst sess) (fst sess1)"
    using insert_served [OF assms(1) dec Cons.prems assms(5) len, of "fst q"] unfolding insert_request_def void_response_def by blast
  with Cons.IH [OF one(2)] filled_trans [OF one(3)] show ?case by auto
qed

lemma read_acks_server:
  "pe_out (bc_sock c) = concat (map void_response streams) \<Longrightarrow>
     read_acks (server_net L P) (length streams) c = (c\<lparr>bc_sock := (bc_sock c)\<lparr>pe_out := []\<rparr>\<rparr>, Ok ())"
proof (induction streams arbitrary: c)
  case Nil
  then have "(bc_sock c)\<lparr>pe_out := []\<rparr> = bc_sock c" by (metis concat.simps(1) list.simps(8) peer.surjective peer.update_convs(2))
  then show ?case by simp
next
  case (Cons stream streams)
  from Cons.prems have "pe_out (bc_sock c) = response_bytes stream 0x08 (to_be_bytes (1 :: i32)) @ concat (map void_response streams)"
    by (simp add: void_response_def [of stream])
  from read_response_server [OF this, of L P] Cons.IH [of "c\<lparr>bc_sock := (bc_sock c)\<lparr>pe_out := concat (map void_response streams)\<rparr>\<rparr>"]
  show ?case by (simp add: OPCODE_ERROR_def)
qed

definition advance :: "nat \<Rightarrow> workload \<Rightarrow> workload" where
  "advance n wl = wl\<lparr>wl_rng := (xorshift ^^ n) (wl_rng wl)\<rparr>"

lemma advance_simps [simp]:
  "advance 0 wl = wl" "advance (Suc n) wl = advance n (wl\<lparr>wl_rng := xorshift (wl_rng wl)\<rparr>)"
  "key_range (advance n wl) = key_range wl" "op_body (advance n wl) = op_body wl" "wl_insert_id (advance n wl) = wl_insert_id wl"
  "wl_value (advance n wl) = wl_value wl" "workload_fits (advance n wl) = workload_fits wl"
  by (simp_all add: advance_def funpow_swap1 workload_fits_def)

lemma op_key_advance: "op_key (advance n wl) i = op_key wl (n + i)"
proof -
  have "(xorshift ^^ Suc i) ((xorshift ^^ n) x) = (xorshift ^^ Suc (n + i)) x" for x
    using funpow_add [of "Suc i" n xorshift] by (simp add: add.commute)
  then show ?thesis by (simp add: op_key_def advance_def del: funpow.simps)
qed

lemma insert_request_rng [simp]: "insert_request (advance n wl) = insert_request wl" "insert_request (wl\<lparr>wl_rng := r\<rparr>) = insert_request wl"
  by (simp_all add: insert_request_def fun_eq_iff)

text \<open>A batch takes as many keys as the pipeline has room for, or all that are left.\<close>

lemma fill_batch_requests:
  assumes "0 < key_range (fs_wl f)" and "ba_fill_keys args \<noteq> - 1"
  shows "\<exists>f' qs. fill_batch args f = Ok f' \<and> map snd qs = map (op_key (fs_wl f)) [0..<length qs] \<and>
    fs_out f' = fs_out f @ concat (map enc_request (map (insert_request (fs_wl f)) qs)) \<and>
    fs_pending f' = fs_pending f + length qs \<and> fs_wl f' = advance (length qs) (fs_wl f) \<and>
    keys_left (ba_fill_keys args) (fs_key f) = length qs + keys_left (ba_fill_keys args) (fs_key f')"
  using assms
proof (induction args f rule: fill_batch.induct)
  case (1 args f)
  show ?case
  proof (cases "fs_pending f < ba_pipeline args \<and> fs_key f \<le> ba_fill_keys args")
    case False
    have "fill_batch args f = Ok f" by (subst fill_batch.simps) (simp only: False if_False)
    then show ?thesis by (intro exI [of _ f] exI [of _ "[]"]) simp
  next
    case True
    let ?wl = "fs_wl f" and ?q = "(fs_next_stream f, op_key (fs_wl f) 0)"
    let ?f = "\<lparr>fs_wl = advance 1 ?wl, fs_out = fs_out f @ enc_request (insert_request ?wl ?q), fs_pending = fs_pending f + 1,
      fs_key = fs_key f + 1, fs_next_stream = (fs_next_stream f + 1) AND 0x7FFF\<rparr>"
    have ex: "execute_frame ?wl True (fs_out f) (fs_next_stream f) = (advance 1 ?wl, Ok (fs_out f @ enc_request (insert_request ?wl ?q)))"
      using 1(2) by (simp add: execute_frame_eq insert_request_def)
    then have step: "fill_batch args f = fill_batch args ?f" by (subst fill_batch.simps) (simp add: True)
    have "0 < key_range (fs_wl ?f)" using 1(2) by simp
    from 1(1) [OF True ex [symmetric] this 1(3)] obtain f' qs where f': "fill_batch args ?f = Ok f'"
      "map snd qs = map (op_key (advance 1 ?wl)) [0..<length qs]" "fs_out f' = fs_out ?f @ concat (map enc_request (map (insert_request ?wl) qs))"
      "fs_pending f' = fs_pending ?f + length qs" "fs_wl f' = advance (length qs) (advance 1 ?wl)"
      "keys_left (ba_fill_keys args) (fs_key ?f) = length qs + keys_left (ba_fill_keys args) (fs_key f')"
      unfolding fill_state.simps insert_request_rng by blast
    have "map (op_key ?wl) [0..<Suc (length qs)] = op_key ?wl 0 # map (op_key (advance 1 ?wl)) [0..<length qs]"
      by (simp only: upt_conv_Cons zero_less_Suc map_Suc_upt [symmetric] list.map map_map comp_def) (simp add: op_key_advance [of 1, simplified])
    with f' step keys_left_step [OF _ 1(3), of "fs_key f"] True show ?thesis
      by (intro exI [of _ f'] exI [of _ "?q # qs"]) simp
  qed
qed

lemma fill_loop_server:
  assumes "frame_libs_ok P" and "request_readers_ok P" and "0 < ba_pipeline args" and "ba_fill_keys args \<noteq> - 1" and "utf8_valid v"
    and "workload_fits (fs_wl f)" and "wl_value (fs_wl f) = str_bytes v" and "wl_insert_id (fs_wl f) = pid"
    and "fs_out f = []" and "fs_pending f = 0" and "fill_ready L absm pid (pe_session (bc_sock c))" and "pe_out (bc_sock c) = []"
  shows "\<exists>c'. fill_loop (server_net L P) args f c = Some (c', Ok ()) \<and> fill_ready L absm pid (pe_session (bc_sock c')) \<and>
    filled absm v (op_key (fs_wl f) ` {..<keys_left (ba_fill_keys args) (fs_key f)}) (fst (pe_session (bc_sock c))) (fst (pe_session (bc_sock c')))"
  using assms(6-12)
proof (induction "keys_left (ba_fill_keys args) (fs_key f)" arbitrary: f c rule: less_induct)
  case less
  let ?left = "keys_left (ba_fill_keys args)" and ?wl = "fs_wl f" and ?sess = "pe_session (bc_sock c)"
  show ?case
  proof (cases "fs_key f \<le> ba_fill_keys args")
    case False
    then show ?thesis using less(7) by (subst fill_loop.simps) (simp add: keys_left_def filled_none)
  next
    case True
    from less(2) have pos: "0 < key_range ?wl" by (simp add: workload_fits_def)
    from fill_batch_requests [OF pos assms(4)] obtain f' qs where f': "fill_batch args f = Ok f'"
      "map snd qs = map (op_key ?wl) [0..<length qs]" "fs_out f' = concat (map enc_request (map (insert_request ?wl) qs))"
      "fs_pending f' = length qs" "fs_wl f' = advance (length qs) ?wl" "?left (fs_key f) = length qs + ?left (fs_key f')"
      using less(5,6) by auto
    have "0 < length qs" using fill_batch_left [OF f'(1) assms(4)] True less(6) assms(3) f'(6) by auto
    have "list_all request_fits (map (insert_request ?wl) qs)" using op_body_fits [OF less(2)] by (auto simp: list_all_iff insert_request_def)
    then have "serve L P (fs_out f') ?sess = serve_all L P (map (insert_request ?wl) qs) ?sess" unfolding f'(3) by (rule serve_requests)
    with inserts_served [OF assms(1,2) less(2,3) assms(5), of L absm ?sess qs] less(4,7) obtain sess1 where
      sess1: "serve L P (fs_out f') ?sess = (sess1, concat (map void_response (map fst qs)))" "fill_ready L absm pid sess1"
      "filled absm v (snd ` set qs) (fst ?sess) (fst sess1)" by auto
    let ?c = "c\<lparr>bc_sock := \<lparr>pe_session = sess1, pe_out = concat (map void_response (map fst qs))\<rparr>\<rparr>"
    have sent: "on_sock (nt_write (server_net L P) (fs_out f')) c = (?c, Ok ())"
      using sess1(1) less(8) by (simp add: on_sock_def server_net_def)
    let ?c1 = "c\<lparr>bc_sock := \<lparr>pe_session = sess1, pe_out = []\<rparr>\<rparr>"
    have acks: "read_acks (server_net L P) (fs_pending f') ?c = (?c1, Ok ())"
      using read_acks_server [of ?c "map fst qs" L P] f'(4) by simp
    let ?f1 = "f'\<lparr>fs_out := [], fs_pending := 0\<rparr>"
    have "?left (fs_key ?f1) < ?left (fs_key f)" using f'(6) \<open>0 < length qs\<close> by simp
    from less(1) [OF this, of ?c1] less(2-4) sess1(2) f'(5) obtain c' where c': "fill_loop (server_net L P) args ?f1 ?c1 = Some (c', Ok ())"
      "fill_ready L absm pid (pe_session (bc_sock c'))"
      "filled absm v (op_key (advance (length qs) ?wl) ` {..<?left (fs_key f')}) (fst sess1) (fst (pe_session (bc_sock c')))" by auto
    have "fill_loop (server_net L P) args f c = Some (c', Ok ())"
      using True f'(1) sent acks c'(1) by (subst fill_loop.simps) simp
    moreover have "op_key ?wl ` {..<?left (fs_key f)} = snd ` set qs \<union> op_key (advance (length qs) ?wl) ` {..<?left (fs_key f')}"
    proof -
      have "snd ` set qs = op_key ?wl ` {..<length qs}" using f'(2) by (metis atLeast0LessThan list.set_map set_upt)
      moreover have "op_key (advance (length qs) ?wl) ` {..<n} = op_key ?wl ` {length qs..<n + length qs}" for n
        by (simp add: op_key_advance image_image [symmetric, of "op_key ?wl" "(+) (length qs)"] lessThan_atLeast0 image_add_atLeastLessThan)
      ultimately show ?thesis by (simp add: f'(6) image_Un [symmetric] ivl_disj_un_one add.commute)
    qed
    ultimately show ?thesis using c'(2) filled_trans [OF sess1(3) c'(3)] by simp
  qed
qed

section \<open>Parsing\<close>

text \<open>What the parser makes of a text, and that the cache of statements holds nothing else.\<close>

definition parses :: "'db libs \<Rightarrow> string \<Rightarrow> statement \<Rightarrow> bool" where
  "parses L query stmt \<longleftrightarrow>
     \<not> ast_has_error (cql_parse L query) \<and> (\<exists>rest. ast_statements (cql_parse L query) = (False, stmt) # rest)"

definition ast_sound :: "'db libs \<Rightarrow> 'db storage \<Rightarrow> bool" where
  "ast_sound L s \<longleftrightarrow> (\<forall>query stmt. ast_cache_get query s = Some stmt \<longrightarrow> parses L query stmt)"

lemma parses_fun: "parses L query stmt \<Longrightarrow> parses L query stmt' \<Longrightarrow> stmt' = stmt"
  by (auto simp: parses_def)

lemma ast_sound_put: "ast_sound L s \<Longrightarrow> parses L query stmt \<Longrightarrow> ast_sound L (ast_cache_put query stmt s)"
  by (auto simp: ast_sound_def ast_cache_get_def ast_cache_put_def Let_def update_conv' split: if_splits)

lemma storage_wf_ast_cache: "storage_wf L absm s \<Longrightarrow> storage_wf L absm (s\<lparr>st_ast_cache := a\<rparr>)"
  using engines_wf_cong [of "s\<lparr>st_ast_cache := a\<rparr>" s] view_cong [of "s\<lparr>st_ast_cache := a\<rparr>" s] by (simp add: storage_wf_def meta_wf_def)

lemma parse_cached_ok:
  assumes "parses L query stmt" and "ast_sound L s" and "storage_wf L absm s"
  shows "\<exists>s1. parse_cached L query s = (s1, Ok stmt) \<and> storage_wf L absm s1 \<and> st_engines s1 = st_engines s \<and>
    st_row_cache s1 = st_row_cache s \<and> ast_sound L s1"
proof (cases "ast_cache_get query s")
  case None
  with assms(1) have "parse_cached L query s = (ast_cache_put query stmt s, Ok stmt)" by (auto simp: parse_cached_def parses_def)
  with storage_wf_ast_cache [OF assms(3)] ast_sound_put [OF assms(2,1)] show ?thesis by (simp add: ast_cache_put_def Let_def)
next
  case (Some stmt')
  with assms(2) have "parses L query stmt'" by (simp add: ast_sound_def)
  then have "stmt' = stmt" by (rule parses_fun [OF assms(1)])
  with parse_cached_hit Some assms(2,3) show ?thesis by blast
qed

section \<open>Preparing\<close>

lemma prepared_frame:
  assumes "frame_libs_ok P" and "length pid = 2"
  shows "\<exists>rest. result_prepared P 0x04 stream pid ''bench'' ''kv'' [(''id'', TBigInt), (''val'', TText)] [0] [] None
      = Ok (response_bytes stream 0x08 (to_be_bytes (4 :: i32) @ to_be_bytes (2 :: u16) @ pid @ rest)) \<and> length rest < 1000"
proof -
  have "fr_write_string P s buf = (if length s < 2 ^ 16 then Some (buf @ to_be_bytes (word_of_nat (length s) :: u16) @ str_bytes s) else None)"
    "fr_write_short_bytes P b buf = (if length b < 2 ^ 16 then Some (buf @ to_be_bytes (word_of_nat (length b) :: u16) @ b) else None)" for s b buf
    using assms(1) by (simp_all add: frame_libs_ok_def)
  then have "result_prepared P 0x04 stream pid ''bench'' ''kv'' [(''id'', TBigInt), (''val'', TText)] [0] [] None
      = Ok (response_bytes stream 0x08 (to_be_bytes (4 :: i32) @ to_be_bytes (2 :: u16) @ pid @
          to_be_bytes (1 :: i32) @ to_be_bytes (2 :: i32) @ to_be_bytes (1 :: i32) @ to_be_bytes (0 :: u16) @ enc_string ''bench'' @ enc_string ''kv'' @
          enc_col_spec (''id'', TBigInt) @ enc_col_spec (''val'', TText) @
          to_be_bytes (1 :: i32) @ to_be_bytes (0 :: i32) @ enc_string ''bench'' @ enc_string ''kv''))"
    using assms(2) by (simp add: result_prepared_def response_frame_bytes [OF assms(1)] write_wire_type_def enc_string_def enc_col_spec_def)
  then show ?thesis by (intro exI conjI) (assumption, simp add: enc_string_def enc_col_spec_def write_wire_type_def)
qed

lemma prepare_served:
  assumes "frame_libs_ok P" and "request_readers_ok P" and "storage_wf L absm s" and "coherent absm s"
    and "tb_view L absm s (''bench'', ''kv'') = Some bench_table" and "conn_compression c = None"
    and "parses L INSERT_CQL (SInsert bench_insert)" and "ast_sound L s"
  shows "\<exists>sess rest. serve_request L P (stream, 0x09, long_string INSERT_CQL []) (s, c) =
      (sess, response_bytes stream 0x08 (to_be_bytes (4 :: i32) @ to_be_bytes (2 :: u16) @ to_be_bytes (cn_next_prepared_id c) @ rest)) \<and>
    length rest < 1000 \<and> fill_ready L absm (to_be_bytes (cn_next_prepared_id c)) sess \<and> row_view absm (fst sess) = row_view absm s"
proof -
  let ?pid = "to_be_bytes (cn_next_prepared_id c)"
  from parse_cached_ok [OF assms(7,8,3)] obtain s1 where parsed: "parse_cached L INSERT_CQL s = (s1, Ok (SInsert bench_insert))"
    and s1: "storage_wf L absm s1" "st_engines s1 = st_engines s" "st_row_cache s1 = st_row_cache s" by blast
  note v1 = view_cong [OF s1(2)]
  have coh1: "coherent absm s1" by (rule coherent_same [OF assms(4) s1(2,3)])
  have "tb_view L absm s1 (''bench'', ''kv'') = Some bench_table" using assms(5) v1 by simp
  from resolve_table_ok [OF s1(1) target_keyspace_of bench_names(1) this] obtain s2 where
    res: "resolve_table L (cn_keyspace c) (table_name_of ''bench'' ''kv'') s1 = (s2, Ok (''bench'', bench_table))"
    and s2: "storage_wf L absm s2" "st_engines s2 = st_engines s1" "st_row_cache s2 = st_row_cache s1" by blast
  note v2 = view_cong [OF s2(2)]
  have info: "prepared_info L (cn_keyspace c) (SInsert bench_insert) s1 = (s2, Ok \<lparr>pi_keyspace = ''bench'', pi_table = ''kv'',
      pi_bind_specs = [(''id'', TBigInt), (''val'', TText)], pi_pk_indexes = [0], pi_result_cols = []\<rparr>)"
  proof -
    have "resolve_table L (cn_keyspace c) (in_table_name bench_insert) s1 = (s2, Ok (''bench'', bench_table))"
      using res by (simp add: resolve_table_def target_keyspace_def bench_insert_def table_name_of_def bench_lower)
    moreover have "named_specs bench_table (in_columns bench_insert) = Ok [(''id'', TBigInt), (''val'', TText)]"
      by (simp add: bench_insert_def bench_lower) (simp add: bench_table_def column_def)
    moreover have "td_name bench_table = ''kv''" "key_names bench_table = [''id'']" by (simp_all add: bench_table_def key_names_def)
    ultimately show ?thesis by (simp add: prepared_info_def) (simp add: bench_insert_def bench_lower map_filter_simps)
  qed
  let ?c = "c\<lparr>cn_next_prepared_id := cn_next_prepared_id c + 1,
    cn_prepared := (cn_prepared c)(?pid \<mapsto> \<lparr>ps_stmt = SInsert bench_insert, ps_bind_types = [TBigInt, TText]\<rparr>)\<rparr>"
  obtain rest where frame: "(result_prepared P 0x04 stream ?pid ''bench'' ''kv'' [(''id'', TBigInt), (''val'', TText)] [0] [] None :: bytes qres)
      = Ok (response_bytes stream 0x08 (to_be_bytes (4 :: i32) @ to_be_bytes (2 :: u16) @ ?pid @ rest))" "length rest < 1000"
    using prepared_frame [OF assms(1), of ?pid stream] by auto
  have "fr_read_long_string P (long_string INSERT_CQL []) = Some INSERT_CQL"
  proof -
    have "length INSERT_CQL < 2 ^ 31" "utf8_valid INSERT_CQL" by (simp_all add: INSERT_CQL_def utf8_valid_def utf8_check_def str_bytes_def)
    with assms(2) show ?thesis by (simp add: request_readers_ok_def long_string_def)
  qed
  then have "handle_prepare L P (long_string INSERT_CQL []) stream (s, c)
      = ((s2, ?c), Ok (response_bytes stream 0x08 (to_be_bytes (4 :: i32) @ to_be_bytes (2 :: u16) @ ?pid @ rest)))"
    using parsed info frame(1) assms(6) by (simp add: handle_prepare_def in_session_def Let_def)
  moreover have "fr_opcode_try_from P 0x09 = Some ReqPrepare" using assms(1) by (simp add: frame_libs_ok_def request_opcodes_def)
  ultimately have "serve_request L P (stream, 0x09, long_string INSERT_CQL []) (s, c)
      = ((s2, ?c), response_bytes stream 0x08 (to_be_bytes (4 :: i32) @ to_be_bytes (2 :: u16) @ ?pid @ rest))"
    by (simp add: serve_request_def begin_request_def replying_def Let_def)
  moreover have "fill_ready L absm ?pid (s2, ?c)"
    using s2(1) coherent_same [OF coh1 s2(2,3)] assms(5,6) v1 v2 by (simp add: fill_ready_def conn_compression_def)
  ultimately show ?thesis using frame(2) v1 v2 by auto
qed

text \<open>The client gets the id under which the server has registered the statement.\<close>

lemma bench_prepare_server:
  assumes "frame_libs_ok P" and "request_readers_ok P" and "pe_session (bc_sock c) = (s, cn)" and "pe_out (bc_sock c) = []"
    and "storage_wf L absm s" and "coherent absm s" and "tb_view L absm s (''bench'', ''kv'') = Some bench_table"
    and "conn_compression cn = None" and "parses L INSERT_CQL (SInsert bench_insert)" and "ast_sound L s"
  shows "\<exists>c'. bench_prepare (server_net L P) INSERT_CQL c = (c', Ok (to_be_bytes (cn_next_prepared_id cn))) \<and>
    fill_ready L absm (to_be_bytes (cn_next_prepared_id cn)) (pe_session (bc_sock c')) \<and> pe_out (bc_sock c') = [] \<and>
    row_view absm (fst (pe_session (bc_sock c'))) = row_view absm s"
proof -
  let ?pid = "to_be_bytes (cn_next_prepared_id cn)" and ?q = "(bc_next_stream c, 0x09 :: byte, long_string INSERT_CQL [])"
  obtain sess rest where served: "serve_request L P ?q (s, cn) =
      (sess, response_bytes (bc_next_stream c) 0x08 (to_be_bytes (4 :: i32) @ to_be_bytes (2 :: u16) @ ?pid @ rest))"
    and rest: "length rest < 1000" and ready: "fill_ready L absm ?pid sess" and rows: "row_view absm (fst sess) = row_view absm s"
    using prepare_served [OF assms(1,2,5-10), of "bc_next_stream c"] by blast
  let ?body = "to_be_bytes (4 :: i32) @ to_be_bytes (2 :: u16) @ ?pid @ rest"
  have fits: "request_fits ?q" by (simp add: request_fits_def long_string_def INSERT_CQL_def MAX_FRAME_LENGTH_def)
  have "prepared_id ?body = Ok ?pid" by (simp add: prepared_id_def index_range_def)
  moreover note roundtrip_server [OF served [folded assms(3)] fits assms(4), of "''prepare error: ''"]
  ultimately have "bench_prepare (server_net L P) INSERT_CQL c =
      (c\<lparr>bc_next_stream := bc_next_stream c + 1, bc_sock := \<lparr>pe_session = sess, pe_out = []\<rparr>\<rparr>, Ok ?pid)"
    using rest by (simp add: bench_prepare_def Let_def OPCODE_ERROR_def)
  with ready rows show ?thesis by simp
qed

lemma utf8_plain: "utf8_valid (replicate n (CHR ''x''))"
  by (auto simp: utf8_valid_def utf8_check_def str_bytes_def intro!: utf8_check_at_ascii)

text \<open>
  The client's fill against the server, from the client's arguments to the rows: with the table in
  place, a pipeline of at least one request and a statement that the parser reads as it is written, the
  fill ends without an error, whatever the depth of the pipeline. Afterwards the server is ready for more, every
  key that the client drew is in the table with the client's value, and no other row has changed. The
  keys are drawn at random, so they are not the keys from 1 to the number asked for.
\<close>

lemma bench_fill_stores:
  assumes "frame_libs_ok P" and "request_readers_ok P" and "pe_session (bc_sock c) = (s, cn)" and "pe_out (bc_sock c) = []"
    and "storage_wf L absm s" and "coherent absm s" and "tb_view L absm s (''bench'', ''kv'') = Some bench_table"
    and "conn_compression cn = None" and "parses L INSERT_CQL (SInsert bench_insert)" and "ast_sound L s"
    and "ba_mode args \<noteq> ModeWrite" and "0 < ba_pipeline args" and "0 < ba_fill_keys args" and "ba_fill_keys args \<noteq> - 1"
    and "ba_value_len args \<le> 2 ^ 25" and "v = replicate (ba_value_len args) (CHR ''x'')"
  shows "\<exists>c' s' cn'. bench_fill (server_net L P) args c = Some (c', Ok ()) \<and> pe_session (bc_sock c') = (s', cn') \<and>
    storage_wf L absm s' \<and> coherent absm s' \<and>
    (\<forall>r. good_row r \<longrightarrow> row_view absm s' r =
       (if r \<in> (\<lambda>i. bench_row (op_key (fs_wl (fill_start args [])) i)) ` {..<unat (ba_fill_keys args)} then Some (bench_data v)
        else row_view absm s r))"
proof -
  let ?pid = "to_be_bytes (cn_next_prepared_id cn)"
  let ?f = "fill_start args ?pid"
  obtain c1 where prep: "bench_prepare (server_net L P) INSERT_CQL c = (c1, Ok ?pid)"
    and c1: "fill_ready L absm ?pid (pe_session (bc_sock c1))" "pe_out (bc_sock c1) = []" "row_view absm (fst (pe_session (bc_sock c1))) = row_view absm s"
    using bench_prepare_server [OF assms(1-10)] by blast
  have "(0x78 :: byte) = word_of_nat (of_char (CHR ''x''))" by simp
  then have f: "workload_fits (fs_wl ?f)" "wl_value (fs_wl ?f) = str_bytes v" "wl_insert_id (fs_wl ?f) = ?pid" "fs_out ?f = []" "fs_pending ?f = 0"
    using assms(13,15) by (simp_all add: fill_start_def Let_def workload_fits_def key_range_def assms(16) str_bytes_def max_def)
  have key: "op_key (fs_wl ?f) = op_key (fs_wl (fill_start args []))" by (simp add: fun_eq_iff op_key_def key_range_def fill_start_def Let_def)
  have left: "keys_left (ba_fill_keys args) (fs_key ?f) = unat (ba_fill_keys args)"
    using assms(13) by (simp add: keys_left_def fill_start_def Let_def word_le_nat_alt word_less_nat_alt)
  have "utf8_valid v" unfolding assms(16) by (rule utf8_plain)
  from fill_loop_server [OF assms(1,2,12,14) this f c1(1,2)] obtain c' where c': "fill_loop (server_net L P) args ?f c1 = Some (c', Ok ())"
    "fill_ready L absm ?pid (pe_session (bc_sock c'))"
    "filled absm v (op_key (fs_wl ?f) ` {..<unat (ba_fill_keys args)}) (fst (pe_session (bc_sock c1))) (fst (pe_session (bc_sock c')))"
    unfolding left by blast
  obtain s' cn' where s': "pe_session (bc_sock c') = (s', cn')" by (cases "pe_session (bc_sock c')")
  have "bench_fill (server_net L P) args c = Some (c', Ok ())"
    using prep c'(1) assms(11,13) by (auto simp: bench_fill_def word_gt_0)
  moreover have "row_view absm s' r =
      (if r \<in> (\<lambda>i. bench_row (op_key (fs_wl (fill_start args [])) i)) ` {..<unat (ba_fill_keys args)} then Some (bench_data v)
       else row_view absm s r)"
    if "good_row r" for r
    using c'(3) that by (simp add: filled_def s' c1(3) key image_image)
  ultimately show ?thesis using c'(2) s' by (intro exI [of _ c'] exI [of _ s'] exI [of _ cn']) (simp add: fill_ready_def)
qed

end
