(* ===== verification/Setup.thy ===== *)
theory Setup
  imports EndToEnd SystemSpec Effects
begin

text \<open>
  A whole run of the client of \<^verbatim>\<open>src/src/bin/bench.rs\<close> against the handlers of the server, from an empty data directory: the storage is opened,
  the client connects, drops its keyspace, which is not there, creates keyspace and table, prepares its INSERT
  and fills the table. The peer is the one of \<open>EndToEnd\<close>: it serves the requests of the pipeline one at a time, commits what a
  request queued before the next one, and writes whole responses, which is one of the schedules that \<open>Connection\<close> allows.
\<close>

declare split_paired_All [simp del] split_paired_Ex [simp del]

section \<open>The statements of the setup\<close>

definition DROP_CQL :: string where "DROP_CQL = ''DROP KEYSPACE bench''"

definition KEYSPACE_CQL :: string where
  "KEYSPACE_CQL = ''CREATE KEYSPACE bench WITH replication = {'class': 'SimpleStrategy', 'replication_factor': 1}''"

definition TABLE_CQL :: string where "TABLE_CQL = ''CREATE TABLE bench.kv (id bigint PRIMARY KEY, val text)''"

text \<open>What the parser makes of them, with the names and types as they are written.\<close>

definition bench_drop :: common_drop where
  "bench_drop = \<lparr>dr_name = \<lparr>fq_keyspace = None, fq_name = Unquoted ''bench''\<rparr>, dr_if_exists = False\<rparr>"

definition bench_create_keyspace :: create_keyspace where
  "bench_create_keyspace =
     \<lparr>ck_name = Unquoted ''bench'', ck_if_not_exists = False,
      ck_replication = [([CHR 0x27] @ ''class'' @ [CHR 0x27], [CHR 0x27] @ ''SimpleStrategy'' @ [CHR 0x27]),
        ([CHR 0x27] @ ''replication_factor'' @ [CHR 0x27], ''1'')]\<rparr>"

definition bench_create_table :: create_table where
  "bench_create_table =
     \<lparr>ct_name = \<lparr>fq_keyspace = Some (Unquoted ''bench''), fq_name = Unquoted ''kv''\<rparr>, ct_if_not_exists = False,
      ct_columns =
        [\<lparr>ca_name = Unquoted ''id'', ca_type_name = DBigInt, ca_definition = [], ca_primary_key = True\<rparr>,
         \<lparr>ca_name = Unquoted ''val'', ca_type_name = DText, ca_definition = [], ca_primary_key = False\<rparr>],
      ct_key = None\<rparr>"

lemma bench_create_builds: "build_table_def ''bench'' ''kv'' bench_create_table = Some bench_table"
  by (simp add: build_table_def_def bench_create_table_def bench_table_def from_data_type_def Let_def to_lowercase_def lower_char_def)

definition parses_setup :: "'db libs \<Rightarrow> bool" where
  "parses_setup L \<longleftrightarrow>
     parses L DROP_CQL (SDropKeyspace bench_drop) \<and> parses L KEYSPACE_CQL (SCreateKeyspace bench_create_keyspace) \<and>
     parses L TABLE_CQL (SCreateTable bench_create_table) \<and> parses L INSERT_CQL (SInsert bench_insert)"

text \<open>The reader of the options of a STARTUP, which are a map of strings.\<close>

definition startup_reader_ok :: "frame_libs \<Rightarrow> bool" where
  "startup_reader_ok P \<longleftrightarrow> fr_startup P (startup_body []) = Some [''CQL_VERSION'' \<mapsto> ''3.0.0'']"

section \<open>Serving queries\<close>

lemma conn_new_plain: "conn_compression conn_new = None"
  by (simp add: conn_new_def conn_compression_def decode_compression_def COMPRESSION_NONE_def)

lemma startup_served:
  assumes "frame_libs_ok P" and "startup_reader_ok P"
  shows "serve_request L P (stream, 0x01, startup_body []) (s, conn_new) = ((s, conn_new), response_bytes stream 0x02 [])"
proof -
  have "fr_opcode_try_from P 0x01 = Some ReqStartup" using assms(1) by (simp add: frame_libs_ok_def request_opcodes_def)
  moreover have "(ready P 0x04 stream None :: bytes qres) = Ok (response_bytes stream 0x02 [])"
    by (simp add: ready_def response_frame_bytes [OF assms(1)])
  ultimately show ?thesis
    using assms(2) conn_new_plain
    by (simp add: serve_request_def begin_request_def handle_startup_def startup_reader_ok_def replying_def Let_def)
qed

lemma bench_connect_server:
  assumes "frame_libs_ok P" and "startup_reader_ok P"
  shows "\<exists>w' c. bench_connect (server_net L P) addr w = (w', Ok c) \<and> pe_session (bc_sock c) = (fst (pe_session w), conn_new) \<and>
    pe_out (bc_sock c) = [] \<and> bc_next_stream c = 0"
proof -
  let ?s = "fst (pe_session w)" and ?q = "(0 :: i16, 0x01 :: byte, startup_body [])"
  have fits: "request_fits ?q" by (simp add: request_fits_def startup_body_def MAX_FRAME_LENGTH_def)
  have "serve L P (client_frame 0 0x01 (startup_body []) []) (?s, conn_new) = ((?s, conn_new), response_bytes 0 0x02 [])"
    using serve_requests [of "[?q]" L P "(?s, conn_new)"] fits startup_served [OF assms] by (simp add: enc_request_def)
  moreover let ?c = "\<lparr>bc_sock = \<lparr>pe_session = (?s, conn_new), pe_out = response_bytes 0 0x02 []\<rparr>, bc_write_buf = [], bc_next_stream = 0\<rparr>"
  have "read_response (server_net L P) ?c = (?c\<lparr>bc_sock := \<lparr>pe_session = (?s, conn_new), pe_out = []\<rparr>\<rparr>, Ok (0x02, []))"
    using read_response_server [of ?c 0 "0x02" "[]" "[]" L P] by simp
  ultimately show ?thesis
    by (simp add: bench_connect_def on_sock_def server_net_def Let_def OPCODE_READY_def)
qed

definition query_body :: "string \<Rightarrow> bytes" where
  "query_body cql = to_be_bytes (len_i32 (length cql)) @ str_bytes cql @ [0, 1] @ [0]"

lemma roundtrip_query_body: "roundtrip_query N cql c = roundtrip N 0x07 (query_body cql) ''query error: '' c"
  by (simp add: roundtrip_query_def query_body_def long_string_def to_be_bytes_1)

text \<open>A text whose statement the parser knows, in a state where it is executed with the given outcome.\<close>

lemma query_served:
  assumes "frame_libs_ok P" and "request_readers_ok P" and "conn_compression c = None"
    and "length cql < 2 ^ 31" and "utf8_valid cql" and "parse_cached L cql s = (s1, Ok stmt)"
    and "execute_statement L (cn_keyspace c) stmt (binds_new []) None None s1 = (s2, r)"
  shows "r = Ok (resp, gates) \<Longrightarrow> (\<And>ks. resp \<noteq> RSetKeyspace ks) \<Longrightarrow> respond P 0x04 stream None (Ok resp) False = Ok f \<Longrightarrow>
      serve_request L P (stream, 0x07, query_body cql) (s, c) = ((settle L s2, c), f)"
    and "r = Err e \<Longrightarrow> (error_frame P 0x04 stream (qe_code e) (qe_message e) None :: bytes qres) = Ok f \<Longrightarrow>
      serve_request L P (stream, 0x07, query_body cql) (s, c) = ((s2, c), f)"
proof -
  have op: "fr_opcode_try_from P 0x07 = Some ReqQuery" using assms(1) by (simp add: frame_libs_ok_def request_opcodes_def)
  have "fr_query P (query_body cql) = Some (cql, plain_params [] False)"
    using assms(2,4,5) by (simp add: request_readers_ok_def query_body_def)
  moreover have "execute_with_values_paged L (cn_keyspace c) cql [] None None s = (s2, r)"
    using assms(6,7) by (simp add: execute_with_values_paged_def)
  ultimately have beg: "begin_request L P 0x07 (query_body cql) stream (s, c) = ((s2, c), settle_then r (\<lambda>resp c'.
      (case resp of RSetKeyspace name \<Rightarrow> set_keyspace name c' | _ \<Rightarrow> c',
       or_error_frame P 0x04 stream None (respond P 0x04 stream None (Ok resp) False))))"
    using op assms(3) by (simp add: begin_request_def handle_query_def plain_params_def Let_def)
  show "serve_request L P (stream, 0x07, query_body cql) (s, c) = ((settle L s2, c), f)"
    if "r = Ok (resp, gates)" "\<And>ks. resp \<noteq> RSetKeyspace ks" "respond P 0x04 stream None (Ok resp) False = Ok f"
  proof -
    have "(case resp of RSetKeyspace name \<Rightarrow> set_keyspace name c | _ \<Rightarrow> c) = c" using that(2) by (cases resp) auto
    then show ?thesis using beg that(1,3) assms(3) by (simp add: serve_request_def settle_then_def or_error_frame_def)
  qed
  show "serve_request L P (stream, 0x07, query_body cql) (s, c) = ((s2, c), f)"
    if "r = Err e" "(error_frame P 0x04 stream (qe_code e) (qe_message e) None :: bytes qres) = Ok f"
    using beg that assms(3) by (simp add: serve_request_def settle_then_def or_error_frame_def)
qed

section \<open>The statements of the setup, served\<close>

text \<open>A storage in which statements can be served: the catalogue has the tables that describe it, and every write is committed.\<close>

definition serving :: "'db libs \<Rightarrow> ('db \<Rightarrow> kv) \<Rightarrow> 'db storage \<Rightarrow> bool" where
  "serving L absm s \<longleftrightarrow>
     row_inv L absm s \<and> ast_sound L s \<and> tb_view L absm s (''system_schema'', ''keyspaces'') = Some schema_keyspaces_def \<and>
     tb_view L absm s (''system_schema'', ''tables'') = Some schema_tables_def \<and>
     tb_view L absm s (''system_schema'', ''columns'') = Some schema_columns_def"

lemma serving_parse:
  assumes "serving L absm s" and "parses L cql stmt"
  shows "\<exists>s1. parse_cached L cql s = (s1, Ok stmt) \<and> serving L absm s1 \<and> ks_view L absm s1 = ks_view L absm s \<and>
    tb_view L absm s1 = tb_view L absm s \<and> row_view absm s1 = row_view absm s"
proof -
  from assms(1) have s: "row_inv L absm s" "ast_sound L s" "storage_wf L absm s" "storage_quiet s" by (simp_all add: serving_def row_inv_def)
  from parse_cached_ok [OF assms(2) s(2,3)] obtain s1 where s1: "parse_cached L cql s = (s1, Ok stmt)" "storage_wf L absm s1"
    "st_engines s1 = st_engines s" "st_row_cache s1 = st_row_cache s" "ast_sound L s1" by blast
  have "storage_quiet s1" using s(4) s1(3) by (simp add: storage_quiet_def)
  with row_inv_cong [OF s(1) s1(2)] view_cong [OF s1(3)] s1 assms(1) show ?thesis by (auto simp: serving_def)
qed

lemma serving_settle:
  assumes "serving L absm s"
  shows "serving L absm (settle L s)" "ks_view L absm (settle L s) = ks_view L absm s" "tb_view L absm (settle L s) = tb_view L absm s"
    "row_view absm (settle L s) = row_view absm s"
proof -
  from assms have wf: "storage_wf L absm s" "coherent absm s" by (simp_all add: serving_def row_inv_def)
  have "ast_sound L (settle L s)" using assms by (simp add: serving_def ast_sound_def ast_cache_get_def settle_def)
  with assms settle_ok [OF wf(1)] coherent_settle [OF wf] show "serving L absm (settle L s)" by (simp add: serving_def row_inv_def)
qed (use assms settle_ok [of L absm s] in \<open>simp_all add: serving_def row_inv_def\<close>)

lemma serving_execute:
  assumes "ast_sound L s" and "execute_statement L ks stmt b ps st s = (s', r)"
  shows "ast_sound L s'"
  using assms ast_kept.execute_statement_R [where L = L and s = s and ks = ks and stmt = stmt and b = b and page_size = ps and paging_state = st] by (simp add: ast_sound_def ast_cache_get_def)

lemma schema_change_frame:
  assumes "frame_libs_ok P" and "length a < 2 ^ 16" "length b < 2 ^ 16" "length ks < 2 ^ 16" "length tb < 2 ^ 16"
  shows "respond P 0x04 stream None (Ok (RSchemaChange a b ks tb)) False =
    Ok (response_bytes stream 0x08 (to_be_bytes (5 :: i32) @ enc_string a @ enc_string b @ enc_string ks @ enc_string tb))"
  using assms frame_libs_okD [OF assms(1)]
  by (simp add: respond_def result_schema_change_def response_frame_bytes [OF assms(1)])

text \<open>A schema change that the client asks for: the response it gets, and the storage afterwards.\<close>

lemma schema_query_server:
  assumes "frame_libs_ok P" and "request_readers_ok P" and "conn_compression cn = None"
    and "pe_session (bc_sock c) = (s, cn)" and "pe_out (bc_sock c) = []" and "length cql < 1000" and "utf8_valid cql"
    and "parse_cached L cql s = (s1, Ok stmt)" and "serving L absm s2"
    and "execute_statement L (cn_keyspace cn) stmt (binds_new []) None None s1 = (s2, Ok (RSchemaChange a b ks tb, gates))"
    and "length a < 2 ^ 16" "length b < 2 ^ 16" "length ks < 2 ^ 16" "length tb < 2 ^ 16"
  shows "\<exists>c' payload. roundtrip_query (server_net L P) cql c = (c', Ok payload) \<and> pe_session (bc_sock c') = (settle L s2, cn) \<and>
    pe_out (bc_sock c') = []"
proof -
  let ?p = "to_be_bytes (5 :: i32) @ enc_string a @ enc_string b @ enc_string ks @ enc_string tb"
  have "serve_request L P (bc_next_stream c, 0x07, query_body cql) (s, cn) = ((settle L s2, cn), response_bytes (bc_next_stream c) 0x08 ?p)"
    using query_served(1) [OF assms(1-3) _ assms(7,8,10) refl _ schema_change_frame [OF assms(1,11-14)]] assms(6) by simp
  moreover have "request_fits (bc_next_stream c, 0x07, query_body cql)"
    using assms(6) by (simp add: request_fits_def query_body_def MAX_FRAME_LENGTH_def)
  moreover have "length ?p < 2 ^ 32" using assms(11-14) by (simp add: enc_string_def)
  ultimately show ?thesis
    using roundtrip_server [of L P c "0x07" "query_body cql" "(settle L s2, cn)" "0x08" ?p] assms(4,5)
    by (simp add: roundtrip_query_body OPCODE_ERROR_def)
qed

lemma bench_texts:
  "length DROP_CQL < 1000" "utf8_valid DROP_CQL" "length KEYSPACE_CQL < 1000" "utf8_valid KEYSPACE_CQL"
  "length TABLE_CQL < 1000" "utf8_valid TABLE_CQL"
  by (simp_all add: DROP_CQL_def KEYSPACE_CQL_def TABLE_CQL_def utf8_valid_def utf8_check_def str_bytes_def)

text \<open>Dropping a keyspace that is not there: the client gets an error, which it ignores.\<close>

lemma drop_query_server:
  assumes "frame_libs_ok P" and "request_readers_ok P" and "conn_compression cn = None"
    and "pe_session (bc_sock c) = (s, cn)" and "pe_out (bc_sock c) = []" and "parses L DROP_CQL (SDropKeyspace bench_drop)"
    and "serving L absm s" and "ks_view L absm s ''bench'' = None"
  shows "\<exists>c' e s'. roundtrip_query (server_net L P) DROP_CQL c = (c', Err e) \<and> pe_session (bc_sock c') = (s', cn) \<and>
    pe_out (bc_sock c') = [] \<and> serving L absm s' \<and> ks_view L absm s' = ks_view L absm s \<and> tb_view L absm s' = tb_view L absm s \<and>
    row_view absm s' = row_view absm s"
proof -
  let ?e = "''Cannot drop non existing keyspace '' @ [CHR 0x27] @ ''bench'' @ [CHR 0x27]"
  let ?p = "to_be_bytes (qe_code (invalid_err ?e)) @ enc_string ?e"
  from serving_parse [OF assms(7,6)] obtain s1 where s1: "parse_cached L DROP_CQL s = (s1, Ok (SDropKeyspace bench_drop))"
    "serving L absm s1" "ks_view L absm s1 = ks_view L absm s" "tb_view L absm s1 = tb_view L absm s" "row_view absm s1 = row_view absm s" by blast
  from get_keyspace_inv [of L absm s1 "''bench''"] s1(2,3) assms(8) obtain s2
    where s2: "get_keyspace L ''bench'' s1 = (s2, Ok None)" "row_inv L absm s2" "st_engines s2 = st_engines s1"
    by (auto simp: serving_def)
  note v2 = view_cong [OF s2(3)]
  have exec: "execute_statement L (cn_keyspace cn) (SDropKeyspace bench_drop) (binds_new []) None None s1 = (s2, Err (invalid_err ?e))"
    using s2(1) by (simp add: execute_statement_def exec_drop_keyspace_def bench_drop_def bench_lower)
  have "serving L absm s2" using s1(2) s2(2) v2 serving_execute [OF _ exec] by (simp add: serving_def)
  have "(error_frame P 0x04 (bc_next_stream c) (qe_code (invalid_err ?e)) (qe_message (invalid_err ?e)) None :: bytes qres)
      = Ok (response_bytes (bc_next_stream c) 0x00 ?p)"
    using frame_libs_okD [OF assms(1)] by (simp add: error_frame_def invalid_err_def response_frame_bytes [OF assms(1)])
  from query_served(2) [OF assms(1-3) _ _ s1(1) exec refl this] bench_texts(1,2)
  have "serve_request L P (bc_next_stream c, 0x07, query_body DROP_CQL) (s, cn) = ((s2, cn), response_bytes (bc_next_stream c) 0x00 ?p)" by simp
  moreover have "request_fits (bc_next_stream c, 0x07, query_body DROP_CQL)"
    using bench_texts(1) by (simp add: request_fits_def query_body_def MAX_FRAME_LENGTH_def)
  ultimately have "\<exists>c' e. roundtrip_query (server_net L P) DROP_CQL c = (c', Err e) \<and> pe_session (bc_sock c') = (s2, cn) \<and> pe_out (bc_sock c') = []"
    using roundtrip_server [of L P c "0x07" "query_body DROP_CQL" "(s2, cn)" "0x00" ?p] assms(4,5)
    by (simp add: roundtrip_query_body OPCODE_ERROR_def enc_string_def)
  with \<open>serving L absm s2\<close> v2 s1(3-5) show ?thesis by fastforce
qed

lemma keyspace_query_server:
  assumes "frame_libs_ok P" and "request_readers_ok P" and "conn_compression cn = None"
    and "pe_session (bc_sock c) = (s, cn)" and "pe_out (bc_sock c) = []" and "parses L KEYSPACE_CQL (SCreateKeyspace bench_create_keyspace)"
    and "serving L absm s" and "ks_view L absm s ''bench'' = None"
  shows "\<exists>c' b s'. roundtrip_query (server_net L P) KEYSPACE_CQL c = (c', Ok b) \<and> pe_session (bc_sock c') = (s', cn) \<and>
    pe_out (bc_sock c') = [] \<and> serving L absm s' \<and> tb_view L absm s' = tb_view L absm s \<and>
    (\<forall>r. good_row r \<longrightarrow> fst r \<noteq> ''system_schema'' \<longrightarrow> row_view absm s' r = row_view absm s r)"
proof -
  from serving_parse [OF assms(7,6)] obtain s1 where s1: "parse_cached L KEYSPACE_CQL s = (s1, Ok (SCreateKeyspace bench_create_keyspace))"
    "serving L absm s1" "ks_view L absm s1 = ks_view L absm s" "tb_view L absm s1 = tb_view L absm s" "row_view absm s1 = row_view absm s" by blast
  have "norm_id (ck_name bench_create_keyspace) = ''bench''" by (simp add: bench_create_keyspace_def bench_lower)
  from exec_create_keyspace_ok [OF _ _ this, of L absm s1] s1(2,3) assms(8) bench_names(2) obtain s2 where
    s2: "exec_create_keyspace L bench_create_keyspace s1 = (s2, Ok (RSchemaChange ''CREATED'' ''KEYSPACE'' ''bench'' []))" "row_inv L absm s2"
      "tb_view L absm s2 = tb_view L absm s1" "\<forall>r. good_row r \<longrightarrow> fst r \<noteq> ''system_schema'' \<longrightarrow> row_view absm s2 r = row_view absm s1 r"
    by (auto simp: serving_def)
  have exec: "execute_statement L (cn_keyspace cn) (SCreateKeyspace bench_create_keyspace) (binds_new []) None None s1
      = (s2, Ok (RSchemaChange ''CREATED'' ''KEYSPACE'' ''bench'' [], []))"
    using s2(1) by (simp add: execute_statement_def ungated_def)
  have sv: "serving L absm s2" using s1(2) s2(2,3) serving_execute [OF _ exec] by (simp add: serving_def)
  from schema_query_server [OF assms(1-5) bench_texts(3,4) s1(1) sv exec] obtain c' b where
    "roundtrip_query (server_net L P) KEYSPACE_CQL c = (c', Ok b)" "pe_session (bc_sock c') = (settle L s2, cn)" "pe_out (bc_sock c') = []" by auto
  with serving_settle [OF sv] s2(3,4) s1(4,5) show ?thesis by auto
qed

lemma table_query_server:
  assumes "frame_libs_ok P" and "request_readers_ok P" and "conn_compression cn = None"
    and "pe_session (bc_sock c) = (s, cn)" and "pe_out (bc_sock c) = []" and "parses L TABLE_CQL (SCreateTable bench_create_table)"
    and "serving L absm s" and "tb_view L absm s (''bench'', ''kv'') = None"
  shows "\<exists>c' b s'. roundtrip_query (server_net L P) TABLE_CQL c = (c', Ok b) \<and> pe_session (bc_sock c') = (s', cn) \<and>
    pe_out (bc_sock c') = [] \<and> serving L absm s' \<and> tb_view L absm s' (''bench'', ''kv'') = Some bench_table \<and>
    (\<forall>r. good_row r \<longrightarrow> fst r \<noteq> ''system_schema'' \<longrightarrow> row_view absm s' r = row_view absm s r)"
proof -
  from serving_parse [OF assms(7,6)] obtain s1 where s1: "parse_cached L TABLE_CQL s = (s1, Ok (SCreateTable bench_create_table))"
    "serving L absm s1" "tb_view L absm s1 = tb_view L absm s" "row_view absm s1 = row_view absm s" by blast
  have t: "target_keyspace (cn_keyspace cn) (ct_name bench_create_table) = Ok ''bench''" "norm_id (fq_name.fq_name (ct_name bench_create_table)) = ''kv''"
    by (simp_all add: bench_create_table_def target_keyspace_def bench_lower)
  have d: "td_partition_keys bench_table \<noteq> []" "keys_consistent bench_table" "\<forall>c\<in>set (td_columns bench_table). length (cd_name c) < 2 ^ 16"
    using bench_table_ok by (simp_all add: bench_table_def keys_consistent_def)
  from exec_create_table_ok [OF _ _ _ t bench_names(1,2) _ bench_create_builds d(1,2) _ _ d(3), of L absm s1] s1(2,3) assms(8) obtain s2 where
    s2: "exec_create_table L (cn_keyspace cn) bench_create_table s1 = (s2, Ok (RSchemaChange ''CREATED'' ''TABLE'' ''bench'' ''kv''))" "row_inv L absm s2"
      "\<forall>kt. good_table kt \<longrightarrow> tb_view L absm s2 kt = (if kt = (''bench'', ''kv'') then Some bench_table else tb_view L absm s1 kt)"
      "\<forall>r. good_row r \<longrightarrow> fst r \<noteq> ''system_schema'' \<longrightarrow> row_view absm s2 r = row_view absm s1 r"
    by (auto simp: serving_def)
  have exec: "execute_statement L (cn_keyspace cn) (SCreateTable bench_create_table) (binds_new []) None None s1
      = (s2, Ok (RSchemaChange ''CREATED'' ''TABLE'' ''bench'' ''kv'', []))"
    using s2(1) by (simp add: execute_statement_def ungated_def)
  have sv: "serving L absm s2"
    using s1(2) s2(2,3) serving_execute [OF _ exec] plain_system_names by (simp add: serving_def good_table_def)
  from schema_query_server [OF assms(1-5) bench_texts(5,6) s1(1) sv exec] obtain c' b where
    "roundtrip_query (server_net L P) TABLE_CQL c = (c', Ok b)" "pe_session (bc_sock c') = (settle L s2, cn)" "pe_out (bc_sock c') = []" by auto
  with serving_settle [OF sv] s2(3,4) s1(4) bench_names(1) show ?thesis by auto
qed

section \<open>The whole run\<close>

lemma bench_setup_server:
  assumes "frame_libs_ok P" and "request_readers_ok P" and "startup_reader_ok P" and "parses_setup L"
    and "serving L absm s" and "ks_view L absm s ''bench'' = None" and "tb_view L absm s (''bench'', ''kv'') = None"
  shows "\<exists>w c s'. bench_setup (server_net L P) args \<lparr>pe_session = (s, cn), pe_out = out\<rparr> = (w, Ok c) \<and> pe_session (bc_sock c) = (s', conn_new) \<and>
    pe_out (bc_sock c) = [] \<and> serving L absm s' \<and> tb_view L absm s' (''bench'', ''kv'') = Some bench_table \<and>
    (\<forall>r. good_row r \<longrightarrow> fst r \<noteq> ''system_schema'' \<longrightarrow> row_view absm s' r = row_view absm s r)"
proof -
  note texts = assms(4) [unfolded parses_setup_def]
  obtain w1 c1 where c1: "bench_connect (server_net L P) (ba_addr args) \<lparr>pe_session = (s, cn), pe_out = out\<rparr> = (w1, Ok c1)"
    "pe_session (bc_sock c1) = (s, conn_new)" "pe_out (bc_sock c1) = []"
    using bench_connect_server [OF assms(1,3), of L "ba_addr args" "\<lparr>pe_session = (s, cn), pe_out = out\<rparr>"] by auto
  from drop_query_server [OF assms(1,2) conn_new_plain c1(2,3) _ assms(5,6)] texts obtain c2 e s2 where
    c2: "roundtrip_query (server_net L P) DROP_CQL c1 = (c2, Err e)" "pe_session (bc_sock c2) = (s2, conn_new)" "pe_out (bc_sock c2) = []"
    and s2: "serving L absm s2" "ks_view L absm s2 = ks_view L absm s" "tb_view L absm s2 = tb_view L absm s" "row_view absm s2 = row_view absm s"
    by blast
  from keyspace_query_server [OF assms(1,2) conn_new_plain c2(2,3) _ s2(1)] texts s2(2) assms(6) obtain c3 b3 s3 where
    c3: "roundtrip_query (server_net L P) KEYSPACE_CQL c2 = (c3, Ok b3)" "pe_session (bc_sock c3) = (s3, conn_new)" "pe_out (bc_sock c3) = []"
    and s3: "serving L absm s3" "tb_view L absm s3 = tb_view L absm s2"
      "\<forall>r. good_row r \<longrightarrow> fst r \<noteq> ''system_schema'' \<longrightarrow> row_view absm s3 r = row_view absm s2 r"
    by auto
  from table_query_server [OF assms(1,2) conn_new_plain c3(2,3) _ s3(1)] texts s2(3) s3(2) assms(7) obtain c4 b4 s4 where
    c4: "roundtrip_query (server_net L P) TABLE_CQL c3 = (c4, Ok b4)" "pe_session (bc_sock c4) = (s4, conn_new)" "pe_out (bc_sock c4) = []"
    and s4: "serving L absm s4" "tb_view L absm s4 (''bench'', ''kv'') = Some bench_table"
      "\<forall>r. good_row r \<longrightarrow> fst r \<noteq> ''system_schema'' \<longrightarrow> row_view absm s4 r = row_view absm s3 r"
    by auto
  have "bench_setup (server_net L P) args \<lparr>pe_session = (s, cn), pe_out = out\<rparr> = (bc_sock c4, Ok c4)"
    using c1(1) c2(1) c3(1) c4(1) by (simp add: bench_setup_def DROP_CQL_def KEYSPACE_CQL_def TABLE_CQL_def)
  with c4(2,3) s4 s3(3) s2(4) show ?thesis by auto
qed

lemma storage_open_ast:
  assumes "storage_open L H = Ok s"
  shows "st_ast_cache s = []"
proof -
  from assms obtain dbs where "seed_system L H (open_engines H dbs) = (s, Ok ())" by (rule storage_openD)
  with ast_kept.seed_system_R [where L = L and s = "open_engines H dbs" and H = H] show ?thesis by (simp add: open_engines_def)
qed

text \<open>What a database opened on empty directories offers to a client.\<close>

lemma opened_serves:
  assumes "rocks_ok L absm" and "json_ok L" and "ho_marker H = None" and "shard_count H = Ok n"
    and "\<forall>i<n. ho_open_db H i = Ok (dbs ! i) \<and> absm (dbs ! i) = Map.empty" and "length dbs = n"
  shows "\<exists>s. storage_open L H = Ok s \<and> serving L absm s \<and> ks_view L absm s ''bench'' = None \<and>
    tb_view L absm s (''bench'', ''kv'') = None \<and> (\<forall>k. row_view absm s (bench_row k) = None)"
proof -
  from storage_open_new [OF assms] obtain s where s: "storage_open L H = Ok s" "row_inv L absm s" "1 \<le> n" "n \<le> 64"
    "seeded L absm (open_engines H dbs) system_tables [local_addr \<mapsto> local_data H] s" "\<forall>k. k \<notin> set SYSTEM_KEYSPACES \<longrightarrow> ks_view L absm s k = None"
    by blast
  have empty: "absm (en_db (st_engines (open_engines H dbs) ! i)) = Map.empty" if "i < n" for i
    using that assms(5,6) open_engines_nth(2) by metis
  have tables: "d \<in> set system_tables \<Longrightarrow> tb_view L absm s (table_id d) = Some d" for d using s(5) by (simp add: seeded_def)
  have "schema_keyspaces_def \<in> set system_tables" "schema_tables_def \<in> set system_tables" "schema_columns_def \<in> set system_tables"
    by (simp_all add: system_tables_def sys_schema_defs_def)
  from this [THEN tables] have "tb_view L absm s (''system_schema'', ''keyspaces'') = Some schema_keyspaces_def"
    "tb_view L absm s (''system_schema'', ''tables'') = Some schema_tables_def" "tb_view L absm s (''system_schema'', ''columns'') = Some schema_columns_def"
    by (simp_all add: system_defs)
  moreover have "ast_sound L s" using storage_open_ast [OF s(1)] by (simp add: ast_sound_def ast_cache_get_def)
  ultimately have "serving L absm s" using s(2) by (simp add: serving_def)
  moreover have "tb_view L absm s (''bench'', ''kv'') = None"
  proof -
    have "(''bench'', ''kv'') \<notin> set (map table_id system_tables)" using system_table_ids by (auto simp: system_tables_def)
    moreover have "tb_view L absm (open_engines H dbs) (''bench'', ''kv'') = None" using empty [of 0] s(3) by (simp add: tb_view_def db0_def)
    ultimately show ?thesis using s(5) bench_names(1) by (simp add: seeded_def)
  qed
  moreover have "row_view absm s (bench_row k) = None" for k
  proof -
    have "row_view absm (open_engines H dbs) (bench_row k) = None"
    proof -
      have "addr_engine (open_engines H dbs) (bench_row k) < n" using assms(6) s(3,4) by (simp add: addr_engine_def row_engine_def data_engine_less open_engines_nth(1))
      with assms(5,6) show ?thesis by (simp add: row_view_def open_engines_def new_engine_def engine_view_def pend_defs)
    qed
    then show ?thesis using s(5) bench_names(3) by (simp add: seeded_def local_addr_def map_add_def)
  qed
  ultimately show ?thesis using s(1,6) bench_names(2) by blast
qed

text \<open>
  A run of the benchmark client against the peer of \<open>EndToEnd\<close>, from an empty data directory: the storage opens; the client connects, its
  DROP of a keyspace that is not there is answered with an error, which it ignores, and its keyspace and its table
  are created; the fill of fewer than 2^64 - 1 keys then ends without an error, whatever the depth of the pipeline. Afterwards a read of any key gives
  the client's value if the client drew the key, and nothing otherwise. The keys are drawn at random, so they are not the keys
  from 1 to the number asked for.
\<close>

theorem bench_from_scratch:
  assumes "rocks_ok L absm" and "json_ok L" and "ho_marker H = None" and "shard_count H = Ok n"
    and "\<forall>i<n. ho_open_db H i = Ok (dbs ! i) \<and> absm (dbs ! i) = Map.empty" and "length dbs = n"
    and "frame_libs_ok P" and "request_readers_ok P" and "startup_reader_ok P" and "parses_setup L"
    and "ba_mode args \<noteq> ModeWrite" and "0 < ba_pipeline args" and "0 < ba_fill_keys args" and "ba_fill_keys args \<noteq> - 1"
    and "ba_value_len args \<le> 2 ^ 25" and "v = replicate (ba_value_len args) (CHR ''x'')"
  shows "\<exists>s w c c' s' cn'. storage_open L H = Ok s \<and>
    bench_setup (server_net L P) args \<lparr>pe_session = (s, conn_new), pe_out = []\<rparr> = (w, Ok c) \<and>
    bench_fill (server_net L P) args c = Some (c', Ok ()) \<and> pe_session (bc_sock c') = (s', cn') \<and>
    (\<forall>k. snd (get_row L ''bench'' ''kv'' [to_be_bytes k] (settle L s')) =
       Ok (if k \<in> op_key (fs_wl (fill_start args [])) ` {..<unat (ba_fill_keys args)} then Some (bench_data v) else None))"
proof -
  from opened_serves [OF assms(1-6)] obtain s where s: "storage_open L H = Ok s" "serving L absm s" "ks_view L absm s ''bench'' = None"
    "tb_view L absm s (''bench'', ''kv'') = None" "\<forall>k. row_view absm s (bench_row k) = None" by blast
  from bench_setup_server [OF assms(7-10) s(2-4), of args conn_new "[]"] obtain w c s1 where
    ran: "bench_setup (server_net L P) args \<lparr>pe_session = (s, conn_new), pe_out = []\<rparr> = (w, Ok c)"
    and c: "pe_session (bc_sock c) = (s1, conn_new)" "pe_out (bc_sock c) = []"
    and s1: "serving L absm s1" "tb_view L absm s1 (''bench'', ''kv'') = Some bench_table"
      "\<forall>r. good_row r \<longrightarrow> fst r \<noteq> ''system_schema'' \<longrightarrow> row_view absm s1 r = row_view absm s r" by blast
  from s1(1) have inv: "storage_wf L absm s1" "coherent absm s1" "ast_sound L s1" by (simp_all add: serving_def row_inv_def)
  have "parses L INSERT_CQL (SInsert bench_insert)" using assms(10) by (simp add: parses_setup_def)
  from bench_fill_stores [OF assms(7,8) c inv(1,2) s1(2) conn_new_plain this inv(3) assms(11-16)] obtain c' s' cn' where
    fill: "bench_fill (server_net L P) args c = Some (c', Ok ())" "pe_session (bc_sock c') = (s', cn')"
    and s': "storage_wf L absm s'" "coherent absm s'"
      "\<forall>r. good_row r \<longrightarrow> row_view absm s' r =
         (if r \<in> (\<lambda>i. bench_row (op_key (fs_wl (fill_start args [])) i)) ` {..<unat (ba_fill_keys args)} then Some (bench_data v)
          else row_view absm s1 r)" by blast
  have inv': "row_inv L absm (settle L s')" using settle_ok [OF s'(1)] coherent_settle [OF s'(1,2)] by (simp add: row_inv_def)
  have mem: "bench_row k \<in> (\<lambda>i. bench_row (f i)) ` A \<longleftrightarrow> k \<in> f ` A" for k A and f :: "nat \<Rightarrow> u64"
    by (auto simp: to_be_bytes_inject [of 8])
  have "snd (get_row L ''bench'' ''kv'' [to_be_bytes k] (settle L s')) =
      Ok (if k \<in> op_key (fs_wl (fill_start args [])) ` {..<unat (ba_fill_keys args)} then Some (bench_data v) else None)" for k
    using rows.get_result [OF inv' bench_names(3), of k] settle_ok(2) [OF s'(1)] s'(3) s1(3) s(5) bench_names(3)
    by (simp add: read_row_def mem)
  with s(1) ran fill show ?thesis by blast
qed

text \<open>A parser of the four texts, and a reader of the options of a STARTUP.\<close>

definition setup_libs :: "(bytes, bytes) fmap libs" where
  "setup_libs = mem_libs\<lparr>cql_parse := (\<lambda>q. \<lparr>ast_has_error = False, ast_statements =
     [(False, if q = DROP_CQL then SDropKeyspace bench_drop else if q = KEYSPACE_CQL then SCreateKeyspace bench_create_keyspace
       else if q = TABLE_CQL then SCreateTable bench_create_table else SInsert bench_insert)]\<rparr>)\<rparr>"

definition setup_frames :: frame_libs where
  "setup_frames = wire_frames\<lparr>fr_startup := \<lambda>_. Some [''CQL_VERSION'' \<mapsto> ''3.0.0'']\<rparr>"

theorem bench_from_scratch_witness:
  "\<exists>s w c c' s' cn'. storage_open setup_libs (mem_host None (\<lambda>_. fmempty)) = Ok s \<and>
     bench_setup (server_net setup_libs setup_frames) default_args \<lparr>pe_session = (s, conn_new), pe_out = []\<rparr> = (w, Ok c) \<and>
     bench_fill (server_net setup_libs setup_frames) default_args c = Some (c', Ok ()) \<and> pe_session (bc_sock c') = (s', cn') \<and>
     (\<forall>k. snd (get_row setup_libs ''bench'' ''kv'' [to_be_bytes k] (settle setup_libs s')) =
        Ok (if k \<in> op_key (fs_wl (fill_start default_args [])) ` {..<200000} then Some (bench_data (replicate 64 (CHR ''x''))) else None))"
proof -
  let ?H = "mem_host None (\<lambda>_. fmempty)"
  have "rocks_ok setup_libs fmlookup" "json_ok setup_libs"
    using mem_rocks_ok mem_json_ok by (simp_all add: rocks_ok_def json_ok_def setup_libs_def)
  moreover have "ho_marker ?H = None" by (simp add: mem_host_def)
  moreover have "\<forall>i<8. ho_open_db ?H i = Ok (replicate 8 fmempty ! i) \<and> fmlookup (replicate 8 fmempty ! i :: (bytes, bytes) fmap) = Map.empty"
    by (simp add: mem_host_def fun_eq_iff)
  moreover have "frame_libs_ok setup_frames" "request_readers_ok setup_frames" "startup_reader_ok setup_frames"
    using wire_frames_ok wire_frames_readers by (simp_all add: setup_frames_def frame_libs_ok_def request_readers_ok_def startup_reader_ok_def)
  moreover have "parses_setup setup_libs"
    by (simp add: parses_setup_def parses_def setup_libs_def DROP_CQL_def KEYSPACE_CQL_def TABLE_CQL_def INSERT_CQL_def)
  ultimately show ?thesis
    using bench_from_scratch [of setup_libs fmlookup ?H 8 "replicate 8 fmempty" setup_frames default_args "replicate 64 (CHR ''x'')"] mem_host_shards
    by (simp add: default_args_def)
qed

end
