(* ===== verification/ScanSpec.thy ===== *)
theory ScanSpec
  imports QuerySpec
begin

text \<open>
  What a SELECT that does not fix the whole key returns, against a specification of its own: the rows
  of the table, the rows that the restrictions admit, and the columns that are selected.
\<close>

section \<open>Rows of a table\<close>





section \<open>Restrictions\<close>





section \<open>One entry\<close>





section \<open>The entries visited\<close>











section \<open>The statement\<close>







section \<open>Corrupt rows\<close>

text \<open>A row whose first entry has the length -6: the fast scan adds it to its offset and is at the entry again.\<close>

definition corrupt_row :: "u16 \<Rightarrow> bytes \<Rightarrow> bytes" where
  "corrupt_row c rest = to_be_bytes c @ to_be_bytes (- 6 :: i32) @ rest"

lemma corrupt_header:
  "u16_at (corrupt_row c rest) 0 = c" "i32_at (corrupt_row c rest) 2 = - 6" "i32_at (corrupt_row c rest) (Suc (Suc 0)) = - 6"
  "corrupt_row c rest \<noteq> []" "\<not> length (corrupt_row c rest) < Suc (Suc 0)" "\<not> length (corrupt_row c rest) < 6"
proof -
  show "u16_at (corrupt_row c rest) 0 = c" using u16_at_be [of "[]" c] by (simp add: corrupt_row_def)
  show at: "i32_at (corrupt_row c rest) 2 = - 6" using i32_at_be [of "to_be_bytes c" "- 6" rest] by (simp add: corrupt_row_def)
  then show "i32_at (corrupt_row c rest) (Suc (Suc 0)) = - 6" by (simp only: numeral_2_eq_2)
  have "6 \<le> length (corrupt_row c rest)" by (simp add: corrupt_row_def)
  then show "corrupt_row c rest \<noteq> []" "\<not> length (corrupt_row c rest) < Suc (Suc 0)" "\<not> length (corrupt_row c rest) < 6" by auto
qed

lemma as_usize_minus_6: "as_usize (- 6) = 2 ^ 64 - 6"
  by (simp add: as_usize_def)

lemma fast_scan_corrupt:
  assumes "unat c \<noteq> i"
  shows "fast_scan t (corrupt_row c rest) i 0 = None"
proof -
  have "\<not> (data = corrupt_row c rest \<and> idx = i \<and> off = 0)" if "fast_scan t data idx off = Some r" for data idx off r
  proof (rule fast_scan.raw_induct [where P = "\<lambda>t data idx off r. \<not> (data = corrupt_row c rest \<and> idx = i \<and> off = 0)", OF _ that], rule notI, elim conjE)
    fix scan :: "table_def \<Rightarrow> bytes \<Rightarrow> nat \<Rightarrow> nat \<Rightarrow> cql_value anyhow option" and t data idx off y
    assume IH: "\<And>t data idx off r. scan t data idx off = Some r \<Longrightarrow> \<not> (data = corrupt_row c rest \<and> idx = i \<and> off = 0)"
      and here: "data = corrupt_row c rest" "idx = i" "off = 0"
      and step: "(if \<not> off < length data then Some (Ok VNull)
      else if off + 2 > length data then Some (Err ''corrupt row value'')
      else if off + 2 + 4 > length data then Some (Err ''corrupt row value'')
      else
        (let c_idx = unat (u16_at data off); len = i32_at data (off + 2); off = off + 6
         in if c_idx = idx
            then
              (if len = - 1 then Some (Ok VNull)
               else if usize_add off (as_usize len) > length data then Some (Err ''corrupt row value'')
               else if usize_add off (as_usize len) < off then Some Panic
               else Some (rbind (index (td_columns t) idx) (\<lambda>c. from_raw_bytes (slice data off (usize_add off (as_usize len))) (cd_type c))))
            else if len \<noteq> - 1 then scan t data idx (usize_add off (as_usize len))
            else scan t data idx off)) = Some y"
    note h = corrupt_header [of c rest]
    have "scan t (corrupt_row c rest) i 0 = Some y"
      using step assms unfolding here by (simp add: h Let_def as_usize_minus_6 usize_add_def)
    with IH show False by blast
  qed
  then show ?thesis by (cases "fast_scan t (corrupt_row c rest) i 0") auto
qed

lemma decode_corrupt: "\<exists>m. decode_row_columns (corrupt_row c rest) t = Err m"
proof -
  note h = corrupt_header [of c rest]
  have "\<exists>m. decode_row_loop t (corrupt_row c rest) 0 out = Err m" for out
    by (subst decode_row_loop.simps) (simp add: h Let_def)
  then show ?thesis by (simp add: decode_row_columns_def)
qed

section \<open>Properties\<close>


text \<open>
  C40. A corrupt row can take a thread of the server for ever. If the stored bytes of a row begin with an entry
  of length -6 for a column other than the first regular one, then a SELECT of the whole row by its key, on a
  table with a single key column, never returns, in a build without overflow checks; the decoder that
  scans and UPDATEs use reports an error for the same bytes.
\<close>

theorem corrupt_row_hangs:
  assumes "storage_wf L absm s" and "coherent absm s" and "good_table (ks, tb)" and "tb_view L absm s (ks, tb) = Some t"
    and "ks \<notin> set SYSTEM_KEYSPACES" and "table_ok t" and "row_ok t vals"
    and "td_partition_keys t = [pk]" and "td_clustering_keys t = []" and "regular_indices t = i # is" and "unat c \<noteq> i"
    and "row_view absm s (ks, tb, row_parts t vals) = Some (corrupt_row c rest)"
    and "quiet (st_engines s ! addr_engine s (ks, tb, row_parts t vals))"
  shows "snd (exec_select L session_ks (select_by_key ks tb t) (binds_new (map (\<lambda>n. bound (key_value t vals n)) (key_names t)))
      page_size paging_state s) = Hang \<and>
    (\<exists>m. decode_row_columns (corrupt_row c rest) t = Err m)"
proof
  let ?k = "key_idx t pk" and ?n = "length (td_columns t)"
  have keys: "key_names t = [pk]" using assms(8,9) by (simp add: key_names_def)
  note k = key_idx_ok [OF assms(6), of pk]
  have other: "j = ?k \<or> j \<in> set (i # is)" if "j < ?n" for j
    using regular_or_key [OF assms(6) that] by (auto simp: keys assms(10))
  have "i \<in> set (regular_indices t)" by (simp add: assms(10))
  then have i: "i < ?n" "i \<noteq> ?k" using regular_or_key [OF assms(6), of i] by (auto simp: regular_indices_def keys)
  have first: "i \<le> j" if "j \<in> set (i # is)" for j
    using that assms(10) sorted_filter [of "\<lambda>x. x" "[0..<?n]"] by (metis regular_indices_def sorted_upt map_ident sorted_wrt_filter list.set_intros(1) nat_le_linear set_ConsD sorted_simps(2))
  have pre: "set [0..<i] \<subseteq> {?k}"
  proof
    fix j assume "j \<in> set [0..<i]"
    then have "j < i" by simp
    with other [of j] first [of j] i(1) show "j \<in> {?k}" by force
  qed
  have raw: "from_raw_bytes (raw_bytes (key_value t vals pk)) (cd_type (td_columns t ! ?k)) = Ok (key_value t vals pk)"
    using k row_okD(2) [OF assms(7), of ?k] row_okD(3) [OF assms(7), of pk] raw.dec_enc by (auto simp: keys conforms_def key_value_def)
  have "fast_columns t [?k] [raw_bytes (key_value t vals pk)] (corrupt_row c rest) (js @ i # ls) = None" if "set js \<subseteq> {?k}" for js ls
    using that
  proof (induction js)
    case Nil
    then show ?case using i(2) fast_scan_corrupt [OF assms(11)] by simp
  next
    case (Cons j js)
    then show ?case using raw k by (simp add: index_def keys)
  qed
  from this [OF pre, of "[Suc i..<?n]"] have "fast_columns t [?k] [raw_bytes (key_value t vals pk)] (corrupt_row c rest) [0..<?n] = None"
    using i(1) upt_add_eq_append [of 0 i "?n - i"] upt_conv_Cons [OF i(1)] by simp
  then show "snd (exec_select L session_ks (select_by_key ks tb t) (binds_new (map (\<lambda>n. bound (key_value t vals n)) (key_names t)))
      page_size paging_state s) = Hang"
    unfolding exec_select_point [OF assms(1-7,12,13)]
    by (simp add: project_point_def fast_lookup_def project_fast_point_def keys row_parts_def assms(8,9))
  show "\<exists>m. decode_row_columns (corrupt_row c rest) t = Err m" by (rule decode_corrupt)
qed

theorem corrupt_row_hangs_witness:
  "\<exists>s. row_view fmlookup s (''shop'', ''kv'', [raw_bytes (VInt 5)]) = Some (corrupt_row 7 []) \<and>
     snd (exec_select mem_libs None (select_by_key ''shop'' ''kv'' kv_table) (binds_new [bound (VInt 5)]) None None s) = Hang"
proof -
  let ?v = "[VInt 5, VText ''x'']"
  have keys: "row_parts kv_table ?v = [raw_bytes (VInt 5)]" "map (\<lambda>n. bound (key_value kv_table ?v n)) (key_names kv_table) = [bound (VInt 5)]"
    "regular_indices kv_table = [1]"
    by (simp_all add: row_parts_def key_names_def key_value_def key_idx_def column_index_def kv_table_def regular_indices_def is_regular_def upt_rec)
  have good: "good_row (''shop'', ''kv'', [raw_bytes (VInt 5)])" by (simp add: good_row_def plain_name_def short_part_def to_be_bytes_def)
  obtain s where s: "storage_wf mem_libs fmlookup s" "coherent fmlookup s" "tb_view mem_libs fmlookup s (''shop'', ''kv'') = Some kv_table"
    using kv_storage by (auto simp: row_inv_def)
  from put_row_ok [OF s(1) good, of "corrupt_row 7 []"] obtain s1 t where
    put: "put_row ''shop'' ''kv'' [raw_bytes (VInt 5)] (corrupt_row 7 []) s = (s1, Ok t)" "storage_wf mem_libs fmlookup s1" by (auto simp: row_update_def)
  have "settles mem_libs [t] s1 (settle mem_libs s1)"
    using settle_completes [OF put(2), of "[t]"] queued_ticket [OF s(1) put(1) [unfolded put_row_queued]] by simp
  note s2 = put_row_settled [OF s(1,2) good put(1) this]
  have "''shop'' \<notin> set SYSTEM_KEYSPACES" "good_table (''shop'', ''kv'')" "td_partition_keys kv_table = [''k'']" "td_clustering_keys kv_table = []"
    by (simp_all add: SYSTEM_KEYSPACES_def good_table_def plain_name_def kv_table_def)
  with corrupt_row_hangs [of mem_libs fmlookup "settle mem_libs s1" "''shop''" "''kv''" kv_table ?v "''k''" 1 "[]" 7 "[]" None None None] s2 s(3) keys
    kv_table_ok kv_row_ok
  show ?thesis by (intro exI [of _ "settle mem_libs s1"]) simp
qed










end
