(* ===== verification/WriteRuns.thy ===== *)
theory WriteRuns
  imports Liveness
begin

text \<open>
  The storage as clients with many writes on their way see it: rows written and deleted without waiting,
  engines that batch and commit meanwhile under any schedule, and the state once all tickets of the
  writes are completed.
\<close>

declare split_paired_All [simp del] split_paired_Ex [simp del]

section \<open>Runs of writes\<close>

text \<open>
  Row writes that are queued one after the other and not awaited, while the threads of the engines take
  any steps, so that many operations are on their way and batches form as they may; and reads in
  between, of a row that is cached or in whose engine nothing is pending. The tickets are collected.
\<close>

inductive write_run ::
  "'db libs \<Rightarrow> 'db storage \<Rightarrow> (row_addr \<times> bytes option) list \<Rightarrow> ticket list \<Rightarrow> 'db storage \<Rightarrow> bool" for L s where
  begin_writes: "write_run L s [] [] s"
| queue_put: "write_run L s ws ts s1 \<Longrightarrow> put_row ks tb parts v s1 = (s2, Ok t) \<Longrightarrow>
    write_run L s (ws @ [((ks, tb, parts), Some v)]) (ts @ [t]) s2"
| queue_delete: "write_run L s ws ts s1 \<Longrightarrow> delete_row ks tb parts s1 = (s2, Ok t) \<Longrightarrow>
    write_run L s (ws @ [((ks, tb, parts), None)]) (ts @ [t]) s2"
| engine_runs: "write_run L s ws ts s1 \<Longrightarrow> storage_step L s1 s2 \<Longrightarrow> write_run L s ws ts s2"
| read_between: "write_run L s ws ts s1 \<Longrightarrow> good_row (ks, tb, parts) \<Longrightarrow>
    cache_lookup ks (addr_key (ks, tb, parts)) s1 \<noteq> None \<or> quiet (st_engines s1 ! addr_engine s1 (ks, tb, parts)) \<Longrightarrow>
    get_row L ks tb parts s1 = (s2, Ok x) \<Longrightarrow> write_run L s ws ts s2"

text \<open>
  Since the storage had the next ticket \<open>n\<close>: a ticket from \<open>n\<close> on is with one engine, once, and
  whatever is pending has one of the tickets in \<open>ts\<close>.
\<close>

definition tickets_inv :: "nat \<Rightarrow> ticket list \<Rightarrow> 'db storage \<Rightarrow> bool" where
  "tickets_inv n ts s \<longleftrightarrow>
     n \<le> st_next_ticket s \<and>
     (\<forall>i<ndbs s. distinct (filter (\<lambda>t. n \<le> t) (engine_tickets (st_engines s ! i))) \<and>
        (\<forall>j<ndbs s. \<forall>t\<ge>n. t \<in> set (engine_tickets (st_engines s ! i)) \<longrightarrow> t \<in> set (engine_tickets (st_engines s ! j)) \<longrightarrow> i = j) \<and>
        (\<forall>x\<in>set (pend_tickets (st_engines s ! i)). \<exists>t\<in>set ts. n \<le> t \<and> x = Some t))"

lemma tickets_inv_queued:
  assumes "storage_wf L absm s" and "write_data_op ks tb parts mk (cache_set ks (addr_key (ks, tb, parts)) v s) = (s1, Ok t)"
    and "\<And>t. ticket_of (mk t) = t" and "storage_wf L absm s1" and "tickets_inv n ts s"
  shows "tickets_inv n (ts @ [t]) s1"
proof -
  let ?a = "addr_engine s (ks, tb, parts)"
  note shape = queued_shape [OF assms(1,2)]
  note old = engines_wf_nth(4) [OF storage_wfD(3) [OF assms(1)]]
  have a: "?a < ndbs s" by (rule addr_engine_less [OF storage_wfD(3) [OF assms(1)]])
  have new: "engine_tickets (st_engines s1 ! i) = engine_tickets (st_engines s ! i) @ (if i = ?a then [t] else [])"
    "pend_tickets (st_engines s1 ! i) = pend_tickets (st_engines s ! i) @ (if i = ?a then [Some t] else [])" for i
    using shape(4,5) assms(3) by (auto simp: engine_tickets_def pend_send)
  have fresh: "t \<notin> set (engine_tickets (st_engines s ! i))" if "i < ndbs s" for i
    using old [OF that] shape(1) by (auto simp: engine_tickets_def)
  have "t \<in> set (engine_tickets (st_engines s1 ! ?a))" by (simp add: new)
  then have "t < st_next_ticket s1"
    using engines_wf_nth(4) [OF storage_wfD(3) [OF assms(4)], of ?a, folded engine_tickets_def] a shape(2) by auto
  with assms(5) fresh shape(1,2) show ?thesis
    unfolding tickets_inv_def new by (auto split: if_splits)
qed

lemma tickets_inv_mono:
  assumes "tickets_inv n ts s" and "ndbs s' = ndbs s" and "st_next_ticket s' = st_next_ticket s"
    and "\<And>j. engine_tickets (st_engines s' ! j) = engine_tickets (st_engines s ! j)"
    and "\<And>j. set (pend_tickets (st_engines s' ! j)) \<subseteq> set (pend_tickets (st_engines s ! j))"
  shows "tickets_inv n ts s'"
proof -
  have "\<forall>x\<in>set (pend_tickets (st_engines s' ! i)). \<exists>t\<in>set ts. n \<le> t \<and> x = Some t" if "i < ndbs s" for i
    using assms(1) assms(5) [of i] that unfolding tickets_inv_def by blast
  with assms(1-4) show ?thesis unfolding tickets_inv_def by simp
qed

lemma tickets_inv_step:
  assumes "storage_step L s s'" and "storage_wf L absm s" and "tickets_inv n ts s"
  shows "tickets_inv n ts s'"
proof -
  note wf = storage_wfD [OF assms(2)]
  from assms(1) show ?thesis
  proof cases
    case (1 i e')
    note ewf = engines_wf_nth(1) [OF wf(3) 1(2)]
    from engine_step_moves [OF 1(3) ewf wf(1)] obtain m where
      m: "pend_tickets e' = drop m (pend_tickets (st_engines s ! i))" "en_done e' = en_done (st_engines s ! i) @ tickets_of (take m (pend_tickets (st_engines s ! i)))"
      by blast
    then have "engine_tickets e' = engine_tickets (st_engines s ! i)"
      unfolding engine_tickets_def by (metis append.assoc append_take_drop_id tickets_of_append)
    then have same: "engine_tickets (st_engines s' ! j) = engine_tickets (st_engines s ! j)" for j
      using 1 by (cases "j = i") simp_all
    have "set (pend_tickets (st_engines s' ! j)) \<subseteq> set (pend_tickets (st_engines s ! j))" for j
      using 1 m(1) by (cases "j = i") (auto dest: in_set_dropD)
    then show ?thesis using assms(3) 1(1) same by (intro tickets_inv_mono [OF assms(3)]) simp_all
  qed
qed

lemma get_row_next_ticket: "st_next_ticket (fst (get_row L ks tb parts s)) = st_next_ticket s"
  by (auto simp: get_row_def Let_def reading_def cache_set_def split: option.split result.split)

text \<open>What a run of writes keeps.\<close>

lemma after_writes_snoc: "after_writes (ws @ [w]) m k = (if k = fst w then snd w else after_writes ws m k)"
  by (induction ws arbitrary: m) simp_all

lemma write_run_inv:
  assumes "write_run L s ws ts s'" and "row_inv L absm s" and "\<forall>w\<in>set ws. good_row (fst w)"
  shows "storage_wf L absm s' \<and> coherent absm s' \<and> tickets_inv (st_next_ticket s) ts s' \<and>
    (\<forall>r. good_row r \<longrightarrow> row_view absm s' r = after_writes ws (row_view absm s) r)"
  using assms(1,3)
proof (induction rule: write_run.induct)
  case begin_writes
  from assms(2) have wf: "storage_wf L absm s" "storage_quiet s" by (simp_all add: row_inv_def)
  have "quiet (st_engines s ! i)" "\<forall>t\<in>set (engine_tickets (st_engines s ! i)). t < st_next_ticket s" if "i < ndbs s" for i
    using quiet_nth [OF wf(2) that] engines_wf_nth(4) [OF storage_wfD(3) [OF wf(1)] that] by (simp_all add: engine_tickets_def)
  then have "filter (\<lambda>t. st_next_ticket s \<le> t) (engine_tickets (st_engines s ! i)) = []" "pend_tickets (st_engines s ! i) = []" if "i < ndbs s" for i
    using that by (fastforce simp: filter_empty_conv quiet_def pend_defs)+
  then have "tickets_inv (st_next_ticket s) [] s"
    unfolding tickets_inv_def by (simp add: filter_empty_conv) blast
  with assms(2) show ?case by (simp add: row_inv_def)
next
  case (queue_put ws ts s1 ks tb parts v s2 t)
  then have IH: "storage_wf L absm s1" "coherent absm s1" "tickets_inv (st_next_ticket s) ts s1"
    "\<And>r. good_row r \<Longrightarrow> row_view absm s1 r = after_writes ws (row_view absm s) r" and good: "good_row (ks, tb, parts)" by auto
  from put_row_ok [OF IH(1) good, of v] queue_put(2) have upd: "row_update L absm s1 (ks, tb, parts) (Some v) s2" by auto
  from tickets_inv_queued [OF IH(1) queue_put(2) [unfolded put_row_queued] _ _ IH(3)] upd IH(2,4) show ?case
    by (simp add: row_update_def after_writes_snoc)
next
  case (queue_delete ws ts s1 ks tb parts s2 t)
  then have IH: "storage_wf L absm s1" "coherent absm s1" "tickets_inv (st_next_ticket s) ts s1"
    "\<And>r. good_row r \<Longrightarrow> row_view absm s1 r = after_writes ws (row_view absm s) r" and good: "good_row (ks, tb, parts)" by auto
  from delete_row_ok [OF IH(1) good] queue_delete(2) have upd: "row_update L absm s1 (ks, tb, parts) None s2" by auto
  from tickets_inv_queued [OF IH(1) queue_delete(2) [unfolded put_row_queued] _ _ IH(3)] upd IH(2,4) show ?case
    by (simp add: row_update_def after_writes_snoc)
next
  case (engine_runs ws ts s1 s2)
  then have IH: "storage_wf L absm s1" "coherent absm s1" "tickets_inv (st_next_ticket s) ts s1" by auto
  have "storage_wf L absm s2 \<and> row_view absm s2 = row_view absm s1 \<and> st_row_cache s2 = st_row_cache s1"
    using storage_steps_ok [OF r_into_rtranclp [of "storage_step L", OF engine_runs(2)] IH(1)] by simp
  with coherent_cong [OF IH(2), of s2] tickets_inv_step [OF engine_runs(2) IH(1,3)] engine_runs show ?case by simp
next
  case (read_between ws ts s1 ks tb parts s2 x)
  then have IH: "storage_wf L absm s1" "coherent absm s1" "tickets_inv (st_next_ticket s) ts s1"
    "\<And>r. good_row r \<Longrightarrow> row_view absm s1 r = after_writes ws (row_view absm s) r" by auto
  from get_row_ok [OF IH(1) read_between(2) IH(2) read_between(3)] read_between(4) have
    s2: "storage_wf L absm s2" "st_engines s2 = st_engines s1" "coherent absm s2" by auto
  moreover have "st_next_ticket s2 = st_next_ticket s1" using get_row_next_ticket [of L ks tb parts s1] read_between(4) by simp
  ultimately show ?case using tickets_inv_mono [OF IH(3), of s2] IH(4) view_cong(1) [OF s2(2)] by simp
qed

text \<open>Every ticket of the run is with an engine, whatever the database does.\<close>

lemma write_run_issued: "write_run L s ws ts s' \<Longrightarrow> list_all (issued s') ts"
proof (induction rule: write_run.induct)
  case (queue_put ws ts s1 ks tb parts v s2 t)
  with gives_issuedD [OF row_writes_issue(1) queue_put(2)] issuing.put_row_R [of s1 ks tb parts v] show ?case
    by (auto simp: keeps_issued_def list_all_iff)
next
  case (queue_delete ws ts s1 ks tb parts s2 t)
  with gives_issuedD [OF row_writes_issue(2) queue_delete(2)] issuing.delete_row_R [of s1 ks tb parts] show ?case
    by (auto simp: keeps_issued_def list_all_iff)
next
  case (engine_runs ws ts s1 s2)
  then show ?case using issuing.R_thread [OF engine_runs(2)] by (auto simp: keeps_issued_def list_all_iff)
next
  case (read_between ws ts s1 ks tb parts s2 x)
  then show ?case using issuing.get_row_R [of s1 L ks tb parts] by (auto simp: keeps_issued_def list_all_iff)
qed simp

text \<open>The threads complete every ticket, whether or not the database takes what they write.\<close>

lemma settles_exists:
  assumes "list_all (issued s) ts"
  shows "\<exists>s'. settles L ts s s'"
proof -
  have "(storage_step L)\<inverse>\<inverse> \<le> (\<lambda>y x. storage_work y < storage_work x)" by (auto intro: storage_step_work)
  then have "wfP (storage_step L)\<inverse>\<inverse>" by (rule wfp_subset [rotated]) (auto simp: wfp_if_convertible_to_nat)
  from wf_reaches_end [OF this] obtain s' where s': "(storage_step L)\<^sup>*\<^sup>* s s'" "\<nexists>z. storage_step L s' z" by blast
  with assms issuing.threads_R [OF s'(1)] all_quiet_completed [of L s'] show ?thesis
    by (auto simp: settles_def list_all_iff keeps_issued_def)
qed

lemma write_run_settling: "write_run L s ws ts s1 \<Longrightarrow> (storage_step L)\<^sup>*\<^sup>* s1 s2 \<Longrightarrow> write_run L s ws ts s2"
  by (erule rtranclp_induct) (auto intro: engine_runs)

text \<open>Once all tickets are completed nothing is pending.\<close>

lemma all_completed_quiet:
  assumes "storage_wf L absm s" and "tickets_inv n ts s" and "list_all (completed s) ts"
  shows "storage_quiet s"
  unfolding storage_quiet_def list_all_length
proof (intro allI impI)
  fix i assume i: "i < ndbs s"
  let ?e = "st_engines s ! i"
  have "pend_tickets ?e = []"
  proof (rule ccontr)
    assume "pend_tickets ?e \<noteq> []"
    then obtain t where t: "t \<in> set ts" "n \<le> t" "Some t \<in> set (pend_tickets ?e)"
      using assms(2) i unfolding tickets_inv_def by (metis list.set_intros(1) neq_Nil_conv)
    then have pend: "t \<in> set (tickets_of (pend_tickets ?e))" by (simp add: set_tickets_of)
    from assms(3) t(1) obtain j where j: "j < ndbs s" "t \<in> set (en_done (st_engines s ! j))"
      by (metis completed_def in_set_conv_nth list_all_iff)
    with assms(2) i t(2) pend have "j = i" unfolding tickets_inv_def engine_tickets_def by (metis Un_iff set_append)
    with j(2) pend have "\<not> distinct (filter (\<lambda>t. n \<le> t) (engine_tickets ?e))" using t(2) by (auto simp: engine_tickets_def)
    with assms(2) i show False by (simp add: tickets_inv_def)
  qed
  with length_pend engines_wf_nth(1) [OF storage_wfD(3) [OF assms(1)] i] quiet_pend show "quiet ?e" by fastforce
qed

section \<open>Properties\<close>

text \<open>
  C2. Acknowledged writes are a map. Start from a storage with nothing pending, queue any number of row
  writes and deletions without waiting for any, with reads in between of rows that are cached or have nothing
  pending in their engine, while the threads of the engines form their batches and commit them under any
  schedule; then, under any further schedule that completes the tickets of these writes, a read of any row
  returns the last value written to it, or nothing after a deletion, and rows that were not written are as
  before. The row cache, the engines and the batching are invisible.
\<close>

theorem acked_writes_are_a_map:
  assumes "row_inv L absm s" and "write_run L s ws ts s1" and "\<forall>w\<in>set ws. good_row (fst w)" and "good_row (ks, tb, parts)"
  shows "(\<exists>s2. settles L ts s1 s2) \<and>
    (\<forall>s2. settles L ts s1 s2 \<longrightarrow> snd (get_row L ks tb parts s2) = Ok (after_writes ws (row_view absm s) (ks, tb, parts)))"
proof (intro conjI allI impI)
  show "\<exists>s2. settles L ts s1 s2"
    by (rule settles_exists [OF write_run_issued [OF assms(2)]])
next
  fix s2
  assume "settles L ts s1 s2"
  then have steps: "(storage_step L)\<^sup>*\<^sup>* s1 s2" and compl: "list_all (completed s2) ts" by (simp_all add: settles_def)
  note inv = write_run_inv [OF write_run_settling [OF assms(2) steps] assms(1,3)]
  then have "storage_quiet s2" using all_completed_quiet compl by blast
  then have "quiet (st_engines s2 ! addr_engine s2 (ks, tb, parts))"
    using quiet_nth addr_engine_less [OF storage_wfD(3)] inv by blast
  with get_row_ok [of L absm s2 ks tb parts] inv assms(4)
  show "snd (get_row L ks tb parts s2) = Ok (after_writes ws (row_view absm s) (ks, tb, parts))" by fastforce
qed

text \<open>Three writes to one row and one to another, all queued before any is committed.\<close>

lemma queued_run:
  "\<exists>s1 ts. write_run mem_libs (fresh_storage 4 fmempty True False)
     [((''shop'', ''kv'', [[1]]), Some [7]), ((''shop'', ''kv'', [[1]]), None), ((''shop'', ''kv'', [[2]]), Some [8]), ((''shop'', ''kv'', [[1]]), Some [9])] ts s1 \<and>
     length ts = 4"
proof -
  let ?s = "fresh_storage 4 (fmempty :: (bytes, bytes) fmap) True False"
  have wf: "storage_wf mem_libs fmlookup ?s" using mem_fresh [of 4 True False] by (simp add: row_inv_def)
  from put_row_ok [OF wf good_row_sample(1), of "[7]"] obtain s1 t1 where
    1: "put_row ''shop'' ''kv'' [[1]] [7] ?s = (s1, Ok t1)" "storage_wf mem_libs fmlookup s1" by (auto simp: row_update_def)
  from delete_row_ok [OF 1(2) good_row_sample(1)] obtain s2 t2 where
    2: "delete_row ''shop'' ''kv'' [[1]] s1 = (s2, Ok t2)" "storage_wf mem_libs fmlookup s2" by (auto simp: row_update_def)
  from put_row_ok [OF 2(2) good_row_sample(2), of "[8]"] obtain s3 t3 where
    3: "put_row ''shop'' ''kv'' [[2]] [8] s2 = (s3, Ok t3)" "storage_wf mem_libs fmlookup s3" by (auto simp: row_update_def)
  from put_row_ok [OF 3(2) good_row_sample(1), of "[9]"] obtain s4 t4 where
    4: "put_row ''shop'' ''kv'' [[1]] [9] s3 = (s4, Ok t4)" by (auto simp: row_update_def)
  from queue_put [OF queue_put [OF queue_delete [OF queue_put [OF begin_writes 1(1)] 2(1)] 3(1)] 4] show ?thesis
    by (intro exI [of _ s4] exI [of _ "[t1, t2, t3, t4]"]) simp
qed

theorem acked_writes_are_a_map_witness:
  "\<exists>s1 ts s2. write_run mem_libs (fresh_storage 4 fmempty True False)
     [((''shop'', ''kv'', [[1]]), Some [7]), ((''shop'', ''kv'', [[1]]), None), ((''shop'', ''kv'', [[2]]), Some [8]), ((''shop'', ''kv'', [[1]]), Some [9])] ts s1 \<and>
     length ts = 4 \<and> settles mem_libs ts s1 s2 \<and> snd (get_row mem_libs ''shop'' ''kv'' [[1]] s2) = Ok (Some [9])"
proof -
  from queued_run obtain s1 ts where run: "write_run mem_libs (fresh_storage 4 fmempty True False)
     [((''shop'', ''kv'', [[1]]), Some [7]), ((''shop'', ''kv'', [[1]]), None), ((''shop'', ''kv'', [[2]]), Some [8]), ((''shop'', ''kv'', [[1]]), Some [9])] ts s1"
     "length ts = 4" by blast
  have "row_inv mem_libs fmlookup (fresh_storage 4 fmempty True False)" by (rule mem_fresh) simp_all
  from acked_writes_are_a_map [OF this run(1) _ good_row_sample(1)] good_row_sample obtain s2 where
    "settles mem_libs ts s1 s2" "snd (get_row mem_libs ''shop'' ''kv'' [[1]] s2) = Ok (Some [9])" by auto
  with run show ?thesis by blast
qed

section \<open>Writes that fail\<close>

text \<open>With a database that takes no batch, the databases stay as they are.\<close>

lemma storage_step_failing:
  assumes "storage_step L s s'" and "\<And>db ops. \<exists>m. rk_write L db ops = Err m"
  shows "map en_db (st_engines s') = map en_db (st_engines s)"
  using assms(1)
proof cases
  case (1 i e')
  from 1(3) have "en_db e' = en_db (st_engines s ! i)"
  proof cases
    case (commit bd cs)
    with assms(2) [of "en_db (st_engines s ! i)" "fst bd"] show ?thesis by (auto simp: commit_batch_def)
  qed simp_all
  with 1(1,2) show ?thesis by (simp add: upd_engine_def map_update list_update_same_conv)
qed

lemma send_ticketed_dbs:
  "map en_db (st_engines (fst (send_ticketed i mk s))) = map en_db (st_engines s) \<and>
   st_row_cache (fst (send_ticketed i mk s)) = st_row_cache s"
  by (auto simp: send_ticketed_def Let_def upd_engine_def send_op_def map_update list_update_same_conv)

lemma row_write_dbs:
  "map en_db (st_engines (fst (put_row ks tb parts v s))) = map en_db (st_engines s)"
  "map en_db (st_engines (fst (delete_row ks tb parts s))) = map en_db (st_engines s)"
  "st_row_cache s = None \<Longrightarrow> st_row_cache (fst (put_row ks tb parts v s)) = None"
  "st_row_cache s = None \<Longrightarrow> st_row_cache (fst (delete_row ks tb parts s)) = None"
  by (simp_all add: put_row_def delete_row_def write_data_op_def Let_def send_ticketed_dbs cache_set_def split: option.split)

lemma get_row_dbs:
  "map en_db (st_engines (fst (get_row L ks tb parts s))) = map en_db (st_engines s)"
  "st_row_cache s = None \<Longrightarrow> st_row_cache (fst (get_row L ks tb parts s)) = None"
  by (auto simp: get_row_def Let_def reading_def cache_set_def split: option.split result.split)

lemma get_row_no_cache:
  assumes "map en_db (st_engines s') = map en_db (st_engines s)" and "st_row_cache s' = None" and "st_row_cache s = None"
  shows "snd (get_row L ks tb parts s') = snd (get_row L ks tb parts s)"
proof -
  have n: "ndbs s' = ndbs s" using assms(1) by (metis length_map)
  moreover have "en_db (st_engines s' ! i) = en_db (st_engines s ! i)" if "i < ndbs s" for i
    using assms(1) n that by (metis nth_map)
  ultimately have "on_db (row_engine s' ks tb parts) (\<lambda>db. rk_get L db (row_key ks tb parts)) s' =
      on_db (row_engine s ks tb parts) (\<lambda>db. rk_get L db (row_key ks tb parts)) s"
    by (simp add: on_db_def row_engine_def)
  with assms(2,3) show ?thesis
    by (simp add: get_row_def Let_def cache_lookup_def reading_def split: result.split)
qed

lemma write_run_failing:
  assumes "write_run L s ws ts s'" and "\<And>db ops. \<exists>m. rk_write L db ops = Err m"
  shows "map en_db (st_engines s') = map en_db (st_engines s) \<and> (st_row_cache s = None \<longrightarrow> st_row_cache s' = None)"
  using assms(1)
proof (induction rule: write_run.induct)
  case (queue_put ws ts s1 ks tb parts v s2 t)
  with row_write_dbs(1) [of ks tb parts v s1] row_write_dbs(3) [of s1 ks tb parts v] show ?case by auto
next
  case (queue_delete ws ts s1 ks tb parts s2 t)
  with row_write_dbs(2) [of ks tb parts s1] row_write_dbs(4) [of s1 ks tb parts] show ?case by auto
next
  case (engine_runs ws ts s1 s2)
  moreover have "st_row_cache s2 = st_row_cache s1" using engine_runs(2) by cases simp
  ultimately show ?case using storage_step_failing [OF engine_runs(2) assms(2)] by simp
next
  case (read_between ws ts s1 ks tb parts s2 x)
  with get_row_dbs(1) [of L ks tb parts s1] get_row_dbs(2) [of s1 L ks tb parts] show ?case by auto
qed simp

text \<open>
  C39. Writes that the database refuses are acknowledged all the same. When no batch can be written, as on a
  full disk, any writes and deletions queued under any schedule still get all their tickets completed, which
  is all that a response waits for; yet under every schedule that completes them no database has changed, and
  with the row cache off every row reads as it did before the writes.
\<close>

theorem failed_batch_is_acked:
  assumes "\<And>db ops. \<exists>m. rk_write L db ops = Err m" and "write_run L s ws ts s1"
  shows "(\<exists>s2. settles L ts s1 s2) \<and>
    (\<forall>s2. settles L ts s1 s2 \<longrightarrow> map en_db (st_engines s2) = map en_db (st_engines s) \<and>
      (st_row_cache s = None \<longrightarrow> snd (get_row L ks tb parts s2) = snd (get_row L ks tb parts s)))"
proof (intro conjI allI impI)
  show "\<exists>s2. settles L ts s1 s2" by (rule settles_exists [OF write_run_issued [OF assms(2)]])
next
  fix s2 assume "settles L ts s1 s2"
  then have "write_run L s ws ts s2" using write_run_settling [OF assms(2)] by (simp add: settles_def)
  note same = write_run_failing [OF this assms(1)]
  then show "map en_db (st_engines s2) = map en_db (st_engines s)" by simp
  assume "st_row_cache s = None"
  with same show "snd (get_row L ks tb parts s2) = snd (get_row L ks tb parts s)" by (intro get_row_no_cache) simp_all
qed

definition full_disk :: "(bytes, bytes) fmap libs" where
  "full_disk = mem_libs\<lparr>rk_write := \<lambda>_ _. Err ''No space left on device''\<rparr>"

lemma write_run_any_libs:
  "put_row ks tb parts v s = (s1, Ok t) \<Longrightarrow> write_run L s [((ks, tb, parts), Some v)] [t] s1"
  using queue_put [OF begin_writes, of ks tb parts v s s1 t L] by simp

theorem failed_batch_is_acked_witness:
  "\<exists>s1 t s2. put_row ''shop'' ''kv'' [[1]] [7] (fresh_storage 4 fmempty True False) = (s1, Ok t) \<and>
     settles full_disk [t] s1 s2 \<and> snd (get_row full_disk ''shop'' ''kv'' [[1]] s2) = Ok None"
proof -
  let ?s = "fresh_storage 4 (fmempty :: (bytes, bytes) fmap) True False"
  have wf: "storage_wf mem_libs fmlookup ?s" using mem_fresh [of 4 True False] by (simp add: row_inv_def)
  from put_row_ok [OF wf good_row_sample(1), of "[7]"] obtain s1 t where
    put: "put_row ''shop'' ''kv'' [[1]] [7] ?s = (s1, Ok t)" by auto
  have "\<exists>m. rk_write full_disk db ops = Err m" for db ops by (simp add: full_disk_def)
  from failed_batch_is_acked [OF this write_run_any_libs [OF put], of "''shop''" "''kv''" "[[1]]"] obtain s2 where
    "settles full_disk [t] s1 s2" "snd (get_row full_disk ''shop'' ''kv'' [[1]] s2) = snd (get_row full_disk ''shop'' ''kv'' [[1]] ?s)"
    by (auto simp: fresh_storage_def)
  moreover have "snd (get_row full_disk ''shop'' ''kv'' [[1]] ?s) = Ok None"
    using data_engine_less [of 4] by (simp add: get_row_def Let_def cache_lookup_def reading_def on_db_def row_engine_def full_disk_def mem_libs_def
        fresh_storage_def new_engine_def)
  ultimately show ?thesis using put by auto
qed

end
