(* ===== verification/Spec2Isabelle.thy ===== *)
theory Spec2Isabelle
  imports SystemSpec ServerSpec StatementSpec Connection Liveness UringConnection Health Durability BenchRun Setup ScanSpec WriteRuns
begin

text \<open>
  RhydaDB: a CQL database server over RocksDB. This development models the server from the bytes of a
  request frame to the bytes of its response, with everything in between that is the program's own code,
  its start and shutdown, and the clients that come with it, and proves that the parts keep their
  promises to each other and to the client.

  \<^bold>\<open>The program.\<close> A connection (\<^verbatim>\<open>server.rs\<close>, \<^verbatim>\<open>server_monoio.rs\<close>) reads frames, decodes requests and passes
  statements to the query engine (\<^verbatim>\<open>query.rs\<close>), which resolves names against the schema (\<^verbatim>\<open>schema.rs\<close>),
  converts values (\<^verbatim>\<open>cql_value.rs\<close>) and calls the storage (\<^verbatim>\<open>storage.rs\<close>). The storage keeps rows in
  several RocksDB engines, chosen by a hash of the partition key; writes of rows go through a pipeline of
  two threads per engine that batches them, and a request awaits the tickets of its writes before it is
  answered. The response is encoded by \<^verbatim>\<open>protocol.rs\<close>. Storage and query engine are shared by all
  connections; the caches of tables, keyspaces, statements and rows are part of the storage. \<^verbatim>\<open>main.rs\<close> opens the
  storage and starts one of the servers and the probe endpoint. The programs under \<^verbatim>\<open>src/bin\<close> are load generators:
  two clients of the network server and one that calls the storage.

  \<^bold>\<open>Correspondence.\<close> Every operation keeps its name where possible; a name in the text of a theory
  points to the function it translates.
  \<^item> \<open>Prelude\<close>, \<open>RustStd\<close>: results (\<open>Ok\<close>, \<open>Err\<close>, \<open>Panic\<close>, and \<open>Hang\<close> for code that never returns), sequencing with \<^verbatim>\<open>?\<close>, big-endian
    words, lists; UTF-8, trimming, case, parsing of numbers, UUIDs and addresses as the standard library does them.
  \<^item> \<open>Ast\<close>: the statements that the CQL parser hands over. \<open>Libs\<close>: RocksDB, the JSON codec, the parser and
    the hex codec as a record of functions, with their documented behaviour as the predicates the
    theorems assume, and an in-memory instance \<open>mem_libs\<close> for which it holds.
  \<^item> \<open>Schema\<close>: \<^verbatim>\<open>schema.rs\<close>. Column types and their descriptors, tables, identifiers, CREATE TABLE.
  \<^item> \<open>CqlValue\<close>: \<^verbatim>\<open>cql_value.rs\<close>. Values, their wire format, decoding, literals. Floats are bit patterns.
  \<^item> \<open>Keys\<close>: the encodings of \<^verbatim>\<open>storage.rs\<close>: row keys, rows, prefix bounds, routing.
  \<^item> \<open>Pipeline\<close>: the collector and committer threads of an engine as a step relation; \<open>Stores\<close>: locales for
    catalogs and row stores, interpreted on the model; \<open>Storage\<close>: \<^verbatim>\<open>impl Storage\<close>, the state as a record and every
    operation as a function from state to state and result; \<open>StorageSpec\<close>: the views of that state as maps,
    its invariants, and what each operation does to the views; \<open>WriteRuns\<close>: runs of queued writes under any schedule of the
    threads, with a database that takes them and with one that refuses them.
  \<^item> \<open>SystemTables\<close>, \<open>SystemSpec\<close>: \<^verbatim>\<open>Storage::open\<close> and \<^verbatim>\<open>seed_system\<close>.
  \<^item> \<open>Query\<close>, \<open>QueryExec\<close>: \<^verbatim>\<open>query.rs\<close>, without and with access to the storage. \<open>Projection\<close>: the two ways to
    project a stored row. \<open>QuerySpec\<close>: INSERT and SELECT over the views of the storage, paging.
    \<open>ScanSpec\<close>: which rows a SELECT that scans returns, and what a corrupt row does. \<open>StatementSpec\<close>: DELETE and UPDATE. \<open>QueryGuards\<close>: what statements never do.
  \<^item> \<open>Protocol\<close>: \<^verbatim>\<open>protocol.rs\<close>. The \<^verbatim>\<open>scylla-cql\<close> crate is the record \<open>frame_libs\<close>, its documented behaviour
    \<open>frame_libs_ok\<close>. \<open>ProtocolSpec\<close>: readers written from the protocol's specification, and round trips.
  \<^item> \<open>Server\<close>: the state of a connection, frames and requests of \<^verbatim>\<open>server.rs\<close>. \<open>ServerSpec\<close>: prepared statements.
    \<open>Connection\<close>: \<^verbatim>\<open>handle_connection\<close> as a state machine of the reader, the request tasks and the writer.
    \<open>Effects\<close>: of which primitive steps every operation, statement, request and run of the server consists, as locales that carry a
    relation on storages from those steps to all of them. \<open>Liveness\<close>: the machine together with the threads of the storage.
  \<^item> \<open>Uring\<close>: frames and requests of \<^verbatim>\<open>server_monoio.rs\<close>, which repeats \<^verbatim>\<open>server.rs\<close> for another runtime, and the
    proof that the two agree. \<open>UringConnection\<close>: its \<^verbatim>\<open>handle_connection\<close>, with failing writes and panics.
    \<open>Health\<close>: the answers of the probe endpoint \<^verbatim>\<open>health.rs\<close>.
  \<^item> \<open>Startup\<close>: \<^verbatim>\<open>main.rs\<close>, the accept loops and listeners of the servers, \<^verbatim>\<open>Drop for Storage\<close>. \<open>Durability\<close>: the options with
    which \<^verbatim>\<open>storage.rs\<close> opens and writes its databases, the writes of a whole run, the thread that flushes the write-ahead log, and
    crashes. What RocksDB documents about opening a database after a crash is \<open>recovers\<close>.
  \<^item> \<open>Bench\<close>, \<open>BenchAsync\<close>: \<^verbatim>\<open>bin/bench.rs\<close> and \<^verbatim>\<open>bin/bench_async.rs\<close>, over a socket that is a parameter (\<open>net\<close>).
    \<open>BenchRun\<close>: their measured phase, with workers, barrier and report, as a step relation. \<open>BenchSpec\<close>: what they send. \<open>BenchHonest\<close>: \<^verbatim>\<open>bin/bench_honest.rs\<close> on the model of the storage. \<open>EndToEnd\<close>: the
    client of \<^verbatim>\<open>bench.rs\<close> with the model of the server as its socket; \<open>Setup\<close>: its run from an empty data directory.

  \<^bold>\<open>What is shown.\<close> Below the storage: encodings are injective and invert, scans of a partition see exactly
  its rows, no key of another partition or table is touched by a range. In the pipeline: batches keep the
  order of the writes, an acknowledged write is committed, everything queued is eventually committed. In
  the storage: however many writes and deletions are queued and under any schedule of the threads, once they
  are acknowledged reads behave as on a map; dropping a table or keyspace removes exactly its rows. In the query engine: a SELECT by key
  after an INSERT, UPDATE or DELETE sees exactly its effect, a SELECT that scans returns
  exactly the rows that satisfy its restrictions, in order and up to the limit, system keyspaces are not modified, errors carry codes of the protocol. In the servers:
  every request is answered at most once, on its stream, and, with the threads of the storage running, at
  least once unless it panics, loops for ever on a corrupt row, or the peer goes away; a connection uses bounded memory; EXECUTE means the
  same as the QUERY it was prepared from; the two servers answer alike. Around them: a shutdown loses no accepted write,
  and the next start finds all of them; in the durable mode a crash loses nothing that was committed, and an acknowledged
  INSERT is read back after it; in the default mode a crash may undo everything since the start; in any run of the server,
  whatever it is sent, the pipelines stay well-formed. In the clients: the server decodes the requests they mean, the two
  clients send the same bytes, when the fill of the table ends, when a run reaches its report, and that the storage benchmark counts
  what its threads do under any schedule. The theorem of this theory joins the parts: a
  row sent in an EXECUTE frame comes back in the frame that answers a later one. That of \<open>Setup\<close> has
  the client create its schema and fill its table on an empty directory, against a peer that serves one request at a time. Some theorems state
  defects of the code, on purpose: what the code does, where it differs from what it means to do.

  \<^bold>\<open>Bounds.\<close> Words keep their widths: 16-bit key lengths, column ids and prepared ids wrap, 32-bit lengths are
  signed where the code casts to \<^verbatim>\<open>i32\<close>. Loops that do not follow the structure of their input are functions
  with termination proofs; a loop that a clock ends is a function of the schedule. Two kinds of loop may not end and are partial functions: the scan of a stored row
  for the columns of a point query, whose position wraps around on corrupt data and which is proved to return on
  every row the code writes, and the fill of the clients, which is proved to return exactly when the
  pipeline is not empty, provided the number of keys is not 2^64 - 1, for which no depth makes it end while the server answers. No definition uses fuel. Lists of the model are finite, and
  lengths that the code could not hold in memory are excluded by hypotheses where a width depends on them.

  \<^bold>\<open>Atomicity.\<close> The part of a request before its await, which is a whole statement, and the part after it are
  one step each; requests, threads of the storage and other connections interleave between those steps.
  Statements that run truly in parallel can interleave within: the storage theorems, which are about single
  calls under any schedule of the threads, and the stale read they exhibit, show what that can expose.

  In particular \<^verbatim>\<open>get_row\<close> is one step, although the code looks in the cache, reads RocksDB and fills the cache in turn; a
  write of another thread in between can be overwritten in the cache by the value read before it. The theorems about cached
  reads are about calls that do not overlap in this way.

  \<^bold>\<open>Schedules.\<close> Claims about acknowledged writes quantify over every schedule of the writer threads (\<open>settles\<close>, \<open>write_run\<close>).
  The function \<open>settle\<close>, which lets all threads run until nothing is queued, is one such schedule: it shows that one exists and serves
  in examples. The server that the client talks to in \<open>EndToEnd\<close> and \<open>Setup\<close> takes the requests of a connection one at a time,
  commits what each queued and writes whole responses, which is one of the schedules of \<open>Connection\<close>; what concurrent
  requests and partial writes do is stated over \<open>Connection\<close> and \<open>UringConnection\<close>. No step of the model ends a
  writer thread while the storage is open, as none of the code does short of a panic in RocksDB. A task that hangs keeps
  its place among the tasks of its connection and the others go on, as they do while the runtime has another thread; the
  io_uring server has one thread per core, whose other connections then wait with it.

  \<^bold>\<open>Failing reads and writes.\<close> The predicate \<open>rocks_ok\<close> says that RocksDB reads and writes what it is given and does not fail.
  Theorems without it, among them those about connections and their answers, well-formed pipelines and refused batches, hold with failing
  databases too.

  \<^bold>\<open>Not modelled.\<close> RocksDB, the CQL parser, serde and the frame library: not part of the program, assumed as
  documented. Of a crash, the model has what it leaves of each database, not a torn file of the database itself. The
  runtimes that schedule tasks and threads, beyond the interleavings they allow. Of the benchmarks, the clocks, which appear only in
  what they may end, and the quantiles and the text they print. Lower-casing is modelled for
  ASCII, to which the grammar of the parser limits unquoted identifiers; other letters are left as they are.
\<close>

section \<open>From frame to frame\<close>

declare split_paired_All [simp del] split_paired_Ex [simp del]

text \<open>
  C1. Read your writes, from frame to frame. A client that prepared an INSERT of all columns and a
  SELECT by key sends the INSERT: the task writes and awaits its ticket, and the writer threads can
  complete it. As soon as they have, under whatever schedule, the client is sent the empty result, and
  an EXECUTE of the SELECT is then answered at once with a frame that decodes to the row, with the
  columns and the values of the client, on the stream of the request.
\<close>

theorem wire_insert_then_select:
  assumes "frame_libs_ok P" and "storage_wf L absm s" and "coherent absm s" and "good_table (ks, tb)"
    and "tb_view L absm s (ks, tb) = Some t" and "ks \<notin> set SYSTEM_KEYSPACES" and "table_ok t" and "row_ok t vals"
    and "conn_compression c = None"
    and "fr_read_short_bytes P insert_body = Some (pid, buf)" and "fr_params P buf = Some params"
    and "qp_values params = map bound vals"
    and "cn_prepared c pid = Some \<lparr>ps_stmt = SInsert (insert_full ks tb t), ps_bind_types = map cd_type (td_columns t)\<rparr>"
    and "fr_read_short_bytes P select_body = Some (pid', buf')" and "fr_params P buf' = Some params'"
    and "qp_values params' = map (\<lambda>n. bound (key_value t vals n)) (key_names t)" and "\<not> qp_skip_metadata params'"
    and "cn_prepared c pid' = Some \<lparr>ps_stmt = SSelect (select_by_key ks tb t), ps_bind_types = types\<rparr>"
    and "length types = length (key_names t)"
    and "cols = map (\<lambda>c. (cd_name c, cd_type c)) (td_columns t)" and "list_all col_ok cols"
    and "length ks < 2 ^ 16" and "length tb < 2 ^ 16" and "length (rows_body ks tb cols [vals] None) < 2 ^ 32"
  shows "\<exists>s1 ticket k. run_task L P (Fresh stream 0x0A insert_body) (s, c) = ((s1, c), Some (Waiting stream [ticket] k)) \<and>
    settles L [ticket] s1 (settle L s1) \<and>
    (\<forall>s2. settles L [ticket] s1 s2 \<longrightarrow>
      run_task L P (Waiting stream [ticket] k) (s2, c) = ((s2, c), Some (Sending stream
        ([0x84, 0] @ to_be_bytes stream @ [0x08] @ to_be_bytes (4 :: 32 word) @ to_be_bytes (1 :: i32)))) \<and>
      (\<exists>s3 k' f. run_task L P (Fresh stream' 0x0A select_body) (s2, c) = ((s3, c), Some (Waiting stream' [] k')) \<and>
        run_task L P (Waiting stream' [] k') (s3, c) = ((s3, c), Some (Sending stream' f)) \<and>
        read_rows f = Ok \<lparr>rr_stream = stream', rr_keyspace = ks, rr_table = tb, rr_cols = cols, rr_rows = [vals], rr_paging_state = None\<rparr>))"
proof -
  let ?ins = "execute_statement L (cn_keyspace c) (SInsert (insert_full ks tb t)) (binds_new (qp_values params))
    (qp_page_size params) (qp_paging_state params) s"
  let ?sel = "execute_statement L (cn_keyspace c) (SSelect (select_by_key ks tb t)) (binds_new (qp_values params'))
    (qp_page_size params') (qp_paging_state params')"
  from statement_insert_select [OF assms(2-8)] obtain s1 ticket where
    ins: "?ins = (s1, Ok (RVoid, [ticket]))" and settled: "settles L [ticket] s1 (settle L s1)"
    and sel: "\<And>s2. settles L [ticket] s1 s2 \<Longrightarrow> snd (?sel s2) = Ok (RRows ks tb cols [vals] None, [])"
    unfolding assms(12,16,20) by meson
  have rows: "list_all (row_conforms cols) [vals]"
    using assms(8) by (simp add: row_conforms_def row_ok_def assms(20) list_all2_map1)
  have lens: "length (qp_values params) = length (map cd_type (td_columns t))" "length cols < 2 ^ 31"
    using row_okD(1) [OF assms(8)] assms(7) by (simp_all add: assms(12,20) table_ok_def)
  let ?k = "\<lambda>c'. (c', or_error_frame P 0x04 stream (conn_compression c)
    (respond P 0x04 stream (conn_compression c) (Ok RVoid) (qp_skip_metadata params)))"
  have insert: "run_task L P (Fresh stream 0x0A insert_body) (s, c) = ((s1, c), Some (Waiting stream [ticket] ?k))"
    using execute_task [OF assms(1,10,11,13), of L s s1 RVoid "[ticket]" stream] ins lens(1) by simp
  have void: "run_task L P (Waiting stream [ticket] ?k) (s2, c) = ((s2, c), Some (Sending stream
      ([0x84, 0] @ to_be_bytes stream @ [0x08] @ to_be_bytes (4 :: 32 word) @ to_be_bytes (1 :: i32))))" for s2
    by (simp add: assms(9) respond_def void_frame [OF assms(1)] or_error_frame_def)
  have select: "\<exists>s3 k' f. run_task L P (Fresh stream' 0x0A select_body) (s2, c) = ((s3, c), Some (Waiting stream' [] k')) \<and>
        run_task L P (Waiting stream' [] k') (s3, c) = ((s3, c), Some (Sending stream' f)) \<and>
        read_rows f = Ok \<lparr>rr_stream = stream', rr_keyspace = ks, rr_table = tb, rr_cols = cols, rr_rows = [vals], rr_paging_state = None\<rparr>"
    if "settles L [ticket] s1 s2" for s2
  proof -
    from sel [OF that] obtain s3 where "?sel s2 = (s3, Ok (RRows ks tb cols [vals] None, []))" by (metis surjective_pairing)
    note run = execute_task [OF assms(1,14,15,18), of L s2 s3 "RRows ks tb cols [vals] None" "[]" stream']
    from result_rows_reads_back [OF assms(1,22,23,21) rows lens(2), of None stream'] assms(24) obtain f where
      "(result_rows P 0x04 stream' ks tb cols [vals] False None None :: bytes qres) = Ok f"
      "read_rows f = Ok \<lparr>rr_stream = stream', rr_keyspace = ks, rr_table = tb, rr_cols = cols, rr_rows = [vals], rr_paging_state = None\<rparr>"
      by auto
    with run \<open>?sel s2 = _\<close> assms(9,16,17,19) show ?thesis by (simp add: respond_def or_error_frame_def)
  qed
  from insert settled void select show ?thesis by blast
qed

definition kv_exec_frames :: frame_libs where
  "kv_exec_frames = plain_frames\<lparr>fr_read_short_bytes := \<lambda>b. Some (b, b),
     fr_params := \<lambda>b. Some \<lparr>qp_values = (if b = [1] then [bound (VInt 5), bound (VText ''x'')] else [bound (VInt 5)]),
       qp_page_size = None, qp_paging_state = None, qp_skip_metadata = False\<rparr>\<rparr>"

definition kv_conn :: conn_shared where
  "kv_conn = conn_new\<lparr>cn_prepared :=
     [[1] \<mapsto> \<lparr>ps_stmt = SInsert (insert_full ''shop'' ''kv'' kv_table), ps_bind_types = [TInt, TText]\<rparr>,
      [2] \<mapsto> \<lparr>ps_stmt = SSelect (select_by_key ''shop'' ''kv'' kv_table), ps_bind_types = [TInt]\<rparr>]\<rparr>"

theorem wire_insert_then_select_witness:
  "\<exists>s s1 ticket k s3 k' f.
    run_task mem_libs kv_exec_frames (Fresh 3 0x0A [1]) (s, kv_conn) = ((s1, kv_conn), Some (Waiting 3 [ticket] k)) \<and>
    run_task mem_libs kv_exec_frames (Fresh 4 0x0A [2]) (settle mem_libs s1, kv_conn) = ((s3, kv_conn), Some (Waiting 4 [] k')) \<and>
    run_task mem_libs kv_exec_frames (Waiting 4 [] k') (s3, kv_conn) = ((s3, kv_conn), Some (Sending 4 f)) \<and>
    read_rows f = Ok \<lparr>rr_stream = 4, rr_keyspace = ''shop'', rr_table = ''kv'', rr_cols = [(''k'', TInt), (''v'', TText)],
      rr_rows = [[VInt 5, VText ''x'']], rr_paging_state = None\<rparr>"
proof -
  obtain s where s: "storage_wf mem_libs fmlookup s" "coherent fmlookup s" "tb_view mem_libs fmlookup s (''shop'', ''kv'') = Some kv_table"
    using kv_storage by (auto simp: row_inv_def)
  have good: "good_table (''shop'', ''kv'')" by (simp add: good_table_def plain_name_def)
  have user: "''shop'' \<notin> set SYSTEM_KEYSPACES" by (simp add: SYSTEM_KEYSPACES_def)
  let ?cols = "[(''k'', TInt), (''v'', TText)]"
  let ?params = "the (fr_params kv_exec_frames [1])" and ?params' = "the (fr_params kv_exec_frames [2])"
  have libs: "frame_libs_ok kv_exec_frames"
    using plain_frames_ok by (simp add: frame_libs_ok_def kv_exec_frames_def)
  have reads: "fr_read_short_bytes kv_exec_frames b = Some (b, b)" "fr_params kv_exec_frames [1] = Some ?params"
    "fr_params kv_exec_frames [2] = Some ?params'" "qp_values ?params = map bound [VInt 5, VText ''x'']" "\<not> qp_skip_metadata ?params'" for b
    by (simp_all add: kv_exec_frames_def)
  have key: "key_names kv_table = [''k'']" "qp_values ?params' = map (\<lambda>n. bound (key_value kv_table [VInt 5, VText ''x''] n)) (key_names kv_table)"
    by (simp_all add: key_names_def kv_table_def kv_exec_frames_def key_value_def key_idx_def column_index_def)
  have conn: "conn_compression kv_conn = None"
    "cn_prepared kv_conn [1] = Some \<lparr>ps_stmt = SInsert (insert_full ''shop'' ''kv'' kv_table), ps_bind_types = map cd_type (td_columns kv_table)\<rparr>"
    "cn_prepared kv_conn [2] = Some \<lparr>ps_stmt = SSelect (select_by_key ''shop'' ''kv'' kv_table), ps_bind_types = [TInt]\<rparr>"
    by (simp_all add: kv_conn_def conn_new_def conn_compression_def decode_compression_def COMPRESSION_NONE_def kv_table_def)
  have cols: "?cols = map (\<lambda>c. (cd_name c, cd_type c)) (td_columns kv_table)" "list_all col_ok ?cols"
    by (simp_all add: kv_table_def col_ok_def)
  have "length (rows_body ''shop'' ''kv'' ?cols [[VInt 5, VText ''x'']] None) < 2 ^ 32"
    by (simp add: rows_body_def enc_string_def enc_col_spec_def to_wire_raw write_wire_type_def)
  from wire_insert_then_select [OF libs s(1,2) good s(3) user kv_table_ok kv_row_ok conn(1) reads(1,2,4) conn(2) reads(1,3) key(2) reads(5)
      conn(3) _ cols _ _ this, of 3 4] key(1)
  show ?thesis by simp blast
qed

end
